(* ===== verification/Prelude.thy ===== *)
theory Prelude
  imports Complex_Main "HOL-Library.AList"
begin

text \<open>
  Shared vocabulary of the development: the dynamic values of Python dicts and SQLite cells,
  dicts as association lists in insertion order, errors as values, the SQL statements of the
  store (keyed tables as lists in rowid order) and the generic facts about them.

  \<^item> \<open>val\<close> is what a JSON payload or a SQLite cell may hold. \<open>VTime t\<close> is the text that
    \<open>datetime.now(UTC).isoformat()\<close> writes for the instant \<open>t\<close> (microseconds): the code only
    copies such texts, compares them with each other or parses them back.
  \<^item> \<open>VNum\<close> is a Python float, taken as an exact rational: rounding is not modelled.
  \<^item> A failing call is \<open>Inl e\<close>; \<open>err\<close> names the exception.
\<close>

section \<open>Automation collections\<close>

named_theorems sql_simps \<open>equations of the keyed-table statements\<close>
named_theorems step_defs \<open>definitions of the operations of a component\<close>
named_theorems frame_simps \<open>fields an operation leaves alone\<close>

section \<open>Values\<close>

type_synonym time = int

datatype val =
    VNull
  | VBool bool
  | VInt int
  | VNum rat
  | VStr string
  | VTime time
  | VList "val list"
  | VObj "(string \<times> val) list"

type_synonym dict = "(string \<times> val) list"

datatype err =
    KeyError string
  | TypeError
  | ValueError string
  | IntegrityError
  | InterfaceError
  | RuntimeError string

type_synonym 'a res = "err + 'a"

text \<open>Sequencing of fallible calls: an exception skips the rest.\<close>

fun rbind :: "'e + 'a \<Rightarrow> ('a \<Rightarrow> 'e + 'b) \<Rightarrow> 'e + 'b" where
  "rbind (Inl e) f = Inl e"
| "rbind (Inr x) f = f x"

lemma rbind_Inr_iff [simp]: "rbind m f = Inr y \<longleftrightarrow> (\<exists>x. m = Inr x \<and> f x = Inr y)"
  by (cases m) auto

lemma rbind_Inl_iff: "rbind m f = Inl e \<longleftrightarrow> m = Inl e \<or> (\<exists>x. m = Inr x \<and> f x = Inl e)"
  by (cases m) auto

lemma rbind_assoc: "rbind (rbind m f) g = rbind m (\<lambda>x. rbind (f x) g)"
  by (cases m) auto

text \<open>A loop whose body may raise: the first exception ends it.\<close>

fun foldM :: "('s \<Rightarrow> 'a \<Rightarrow> 'e + 's) \<Rightarrow> 's \<Rightarrow> 'a list \<Rightarrow> 'e + 's" where
  "foldM f s [] = Inr s"
| "foldM f s (x # xs) = rbind (f s x) (\<lambda>s'. foldM f s' xs)"

lemma foldM_append: "foldM f s (xs @ ys) = rbind (foldM f s xs) (\<lambda>s'. foldM f s' ys)"
  by (induction xs arbitrary: s) (auto simp: rbind_assoc)

lemma foldM_invariant:
  assumes "foldM f s xs = Inr s'" and "P s"
    and "\<And>s x s'. P s \<Longrightarrow> x \<in> set xs \<Longrightarrow> f s x = Inr s' \<Longrightarrow> P s'"
  shows "P s'"
  using assms(1,2,3)
proof (induction xs arbitrary: s)
  case Nil
  then show ?case by simp
next
  case (Cons x xs)
  from Cons.prems(1) obtain s1 where s1: "f s x = Inr s1" "foldM f s1 xs = Inr s'"
    by auto
  have "P s1"
    using Cons.prems(2) s1(1) Cons.prems(3) [of s x s1] by simp
  show ?case
  proof (rule Cons.IH [OF s1(2) \<open>P s1\<close>])
    fix t y t'
    assume "P t" and "y \<in> set xs" and "f t y = Inr t'"
    then show "P t'" by (intro Cons.prems(3) [of t y t']) auto
  qed
qed

text \<open>\<open>[f(x) for x in xs]\<close>.\<close>

fun traverse :: "('a \<Rightarrow> 'e + 'b) \<Rightarrow> 'a list \<Rightarrow> 'e + 'b list" where
  "traverse f [] = Inr []"
| "traverse f (x # xs) = rbind (f x) (\<lambda>y. rbind (traverse f xs) (\<lambda>ys. Inr (y # ys)))"

lemma traverse_total: "(\<And>x. x \<in> set xs \<Longrightarrow> f x = Inr (g x)) \<Longrightarrow> traverse f xs = Inr (map g xs)"
  by (induction xs) auto

lemma length_filter_less:
  assumes "\<And>y. Q y \<Longrightarrow> P y" and "x \<in> set xs" and "P x" and "\<not> Q x"
  shows "length (filter Q xs) < length (filter P xs)"
proof -
  have le: "length (filter Q ys) \<le> length (filter P ys)" for ys
    using assms(1) by (induction ys) auto
  from assms(2-4) show ?thesis
  proof (induction xs)
    case (Cons y ys)
    with le [of ys] assms(1) [of y] show ?case by (auto simp: less_Suc_eq_le)
  qed simp
qed

subsection \<open>Python truthiness\<close>

fun truthy :: "val \<Rightarrow> bool" where
  "truthy VNull = False"
| "truthy (VBool b) = b"
| "truthy (VInt n) = (n \<noteq> 0)"
| "truthy (VNum r) = (r \<noteq> 0)"
| "truthy (VStr s) = (s \<noteq> [])"
| "truthy (VTime t) = True"
| "truthy (VList xs) = (xs \<noteq> [])"
| "truthy (VObj kvs) = (kvs \<noteq> [])"

text \<open>\<open>x or y\<close>.\<close>

definition py_or :: "val \<Rightarrow> val \<Rightarrow> val" where
  "py_or x y = (if truthy x then x else y)"

subsection \<open>Dicts\<close>

definition has :: "string \<Rightarrow> dict \<Rightarrow> bool" where
  "has k d \<longleftrightarrow> map_of d k \<noteq> None"

text \<open>\<open>d.get(k, dflt)\<close> and \<open>d.get(k)\<close>.\<close>

definition getd :: "dict \<Rightarrow> string \<Rightarrow> val \<Rightarrow> val" where
  "getd d k dflt = (case map_of d k of None \<Rightarrow> dflt | Some v \<Rightarrow> v)"

abbreviation get :: "dict \<Rightarrow> string \<Rightarrow> val" where
  "get d k \<equiv> getd d k VNull"

text \<open>\<open>d[k]\<close>, which raises, and \<open>d[k] = v\<close>, which keeps the place of an existing key.\<close>

definition item :: "dict \<Rightarrow> string \<Rightarrow> val res" where
  "item d k = (case map_of d k of None \<Rightarrow> Inl (KeyError k) | Some v \<Rightarrow> Inr v)"

definition setd :: "string \<Rightarrow> val \<Rightarrow> dict \<Rightarrow> dict" where
  "setd k v d = AList.update k v d"

lemma getd_Nil [simp]: "getd [] k x = x"
  by (simp add: getd_def)

lemma getd_Cons [simp]: "getd ((k', v) # d) k x = (if k' = k then v else getd d k x)"
  by (simp add: getd_def)

lemma has_Nil [simp]: "\<not> has k []"
  by (simp add: has_def)

lemma has_Cons [simp]: "has k ((k', v) # d) \<longleftrightarrow> k' = k \<or> has k d"
  by (simp add: has_def)

lemma getd_setd [simp]: "getd (setd k v d) k' x = (if k' = k then v else getd d k' x)"
  by (simp add: getd_def setd_def update_conv)

lemma has_setd [simp]: "has k' (setd k v d) \<longleftrightarrow> k' = k \<or> has k' d"
  by (auto simp: has_def setd_def update_conv)

lemma getd_has: "has k d \<Longrightarrow> getd d k x = getd d k y"
  by (auto simp: has_def getd_def)

lemma setd_same: "map_of d k = Some v \<Longrightarrow> setd k v d = d"
  unfolding setd_def by (induction d) (auto split: if_splits)

subsection \<open>Coercions\<close>

text \<open>\<open>int(x)\<close> and \<open>float(x)\<close> on the values a payload holds; a text goes through the decimal
  parser below.\<close>

definition is_digit :: "char \<Rightarrow> bool" where
  "is_digit c \<longleftrightarrow> c \<in> set ''0123456789''"

definition digit_of :: "char \<Rightarrow> nat" where
  "digit_of c = of_char c - 48"

definition parse_nat :: "string \<Rightarrow> nat option" where
  "parse_nat s = (if s \<noteq> [] \<and> list_all is_digit s
     then Some (foldl (\<lambda>n c. 10 * n + digit_of c) 0 s) else None)"

definition parse_int :: "string \<Rightarrow> int option" where
  "parse_int s = (case s of
       [] \<Rightarrow> None
     | c # cs \<Rightarrow> if c = CHR ''-'' then map_option (\<lambda>n. - int n) (parse_nat cs)
                else if c = CHR ''+'' then map_option int (parse_nat cs)
                else map_option int (parse_nat s))"

fun py_int :: "val \<Rightarrow> int res" where
  "py_int (VInt n) = Inr n"
| "py_int (VBool b) = Inr (if b then 1 else 0)"
| "py_int (VNum r) = Inr (if 0 \<le> r then \<lfloor>r\<rfloor> else \<lceil>r\<rceil>)"
| "py_int (VStr s) = (case parse_int s of None \<Rightarrow> Inl (ValueError ''int'') | Some n \<Rightarrow> Inr n)"
| "py_int (VTime t) = Inl (ValueError ''int'')"
| "py_int _ = Inl TypeError"

fun py_float :: "val \<Rightarrow> rat res" where
  "py_float (VInt n) = Inr (of_int n)"
| "py_float (VBool b) = Inr (if b then 1 else 0)"
| "py_float (VNum r) = Inr r"
| "py_float (VStr s) = (case parse_int s of None \<Rightarrow> Inl (ValueError ''float'')
                          | Some n \<Rightarrow> Inr (of_int n))"
| "py_float (VTime t) = Inl (ValueError ''float'')"
| "py_float _ = Inl TypeError"

subsection \<open>Decimal text of a number\<close>

definition digit_char :: "nat \<Rightarrow> char" where
  "digit_char d = ''0123456789'' ! d"

fun show_nat :: "nat \<Rightarrow> string" where
  "show_nat n = (if n < 10 then [digit_char n] else show_nat (n div 10) @ [digit_char (n mod 10)])"

declare show_nat.simps [simp del]

definition show_int :: "int \<Rightarrow> string" where
  "show_int i = (if i < 0 then CHR ''-'' # show_nat (nat (- i)) else show_nat (nat i))"

lemma less_10_cases: "(d::nat) < 10 \<longleftrightarrow> d \<in> {0,1,2,3,4,5,6,7,8,9}"
  by auto

lemma digit_of_digit_char: "d < 10 \<Longrightarrow> digit_of (digit_char d) = d"
  unfolding less_10_cases by (elim insertE emptyE) (simp_all add: digit_of_def digit_char_def)

lemma is_digit_digit_char: "d < 10 \<Longrightarrow> is_digit (digit_char d)"
  by (simp add: is_digit_def digit_char_def del: set_simps)

lemma show_nat_nonempty [simp]: "show_nat n \<noteq> []"
  by (subst show_nat.simps) simp

lemma show_nat_digits: "list_all is_digit (show_nat n)"
proof (induction n rule: show_nat.induct)
  case (1 n)
  then show ?case
    by (subst show_nat.simps) (auto simp: is_digit_digit_char)
qed

lemma show_nat_value: "foldl (\<lambda>n c. 10 * n + digit_of c) 0 (show_nat n) = n"
proof (induction n rule: show_nat.induct)
  case (1 n)
  then show ?case
    by (subst show_nat.simps) (auto simp: digit_of_digit_char)
qed

lemma parse_show_nat [simp]: "parse_nat (show_nat n) = Some n"
  by (simp add: parse_nat_def show_nat_digits show_nat_value)

lemma show_nat_inj [simp]: "show_nat m = show_nat n \<longleftrightarrow> m = n"
  by (metis option.inject parse_show_nat)

lemma hd_show_nat: "is_digit (hd (show_nat n))"
  using show_nat_digits [of n] show_nat_nonempty [of n] by (cases "show_nat n") auto

lemma parse_show_int [simp]: "parse_int (show_int i) = Some i"
proof (cases "i < 0")
  case True
  then show ?thesis by (simp add: show_int_def parse_int_def)
next
  case False
  obtain c cs where c: "show_nat (nat i) = c # cs"
    using show_nat_nonempty by (cases "show_nat (nat i)") auto
  then have "is_digit c" using hd_show_nat [of "nat i"] by simp
  then have "c \<noteq> CHR ''-''" "c \<noteq> CHR ''+''" by (auto simp: is_digit_def)
  then show ?thesis
    using False c parse_show_nat [of "nat i"] by (simp add: show_int_def parse_int_def)
qed

lemma show_int_inj [simp]: "show_int i = show_int j \<longleftrightarrow> i = j"
  by (metis option.inject parse_show_int)

subsection \<open>Strings\<close>

definition starts_with :: "string \<Rightarrow> string \<Rightarrow> bool" where
  "starts_with pre s \<longleftrightarrow> take (length pre) s = pre"

definition ends_with :: "string \<Rightarrow> string \<Rightarrow> bool" where
  "ends_with suf s \<longleftrightarrow> length suf \<le> length s \<and> drop (length s - length suf) s = suf"

lemma starts_with_append [simp]: "starts_with pre (pre @ s)"
  by (simp add: starts_with_def)

lemma starts_with_iff: "starts_with pre s \<longleftrightarrow> (\<exists>rest. s = pre @ rest)"
  unfolding starts_with_def by (metis append_eq_conv_conj append_take_drop_id)

definition is_space :: "char \<Rightarrow> bool" where
  "is_space c \<longleftrightarrow> c = CHR '' '' \<or> c = CHR 0x09 \<or> c = CHR 0x0A \<or> c = CHR 0x0B \<or> c = CHR 0x0C
     \<or> c = CHR 0x0D"

definition strip :: "string \<Rightarrow> string" where
  "strip s = rev (dropWhile is_space (rev (dropWhile is_space s)))"

text \<open>\<open>str(x)\<close> of what serves as an identifier; the texts of floats, instants, lists and dicts
  are not modelled (no caller builds an identifier of one) and read as empty.\<close>

fun py_str :: "val \<Rightarrow> string" where
  "py_str VNull = ''None''"
| "py_str (VBool b) = (if b then ''True'' else ''False'')"
| "py_str (VInt n) = show_int n"
| "py_str (VStr s) = s"
| "py_str _ = []"

section \<open>Keyed tables\<close>

text \<open>A SQLite table with a \<open>TEXT PRIMARY KEY\<close> is the list of its rows in rowid order.
  \<open>INSERT OR REPLACE\<close> deletes the row of that key and appends the new one.\<close>

definition sql_find :: "('r \<Rightarrow> string) \<Rightarrow> string \<Rightarrow> 'r list \<Rightarrow> 'r option" where
  "sql_find key k t = List.find (\<lambda>r. key r = k) t"

definition sql_replace :: "('r \<Rightarrow> string) \<Rightarrow> 'r \<Rightarrow> 'r list \<Rightarrow> 'r list" where
  "sql_replace key r t = filter (\<lambda>x. key x \<noteq> key r) t @ [r]"

definition sql_update :: "('r \<Rightarrow> bool) \<Rightarrow> ('r \<Rightarrow> 'r) \<Rightarrow> 'r list \<Rightarrow> 'r list" where
  "sql_update P f t = map (\<lambda>r. if P r then f r else r) t"

definition sql_delete :: "('r \<Rightarrow> bool) \<Rightarrow> 'r list \<Rightarrow> 'r list" where
  "sql_delete P t = filter (\<lambda>r. \<not> P r) t"

text \<open>An \<open>UPDATE\<close> that may violate a column constraint: \<open>ok\<close> is checked on the rows it changes.\<close>

definition sql_update_checked ::
  "bool \<Rightarrow> ('r \<Rightarrow> bool) \<Rightarrow> ('r \<Rightarrow> 'r) \<Rightarrow> 'r list \<Rightarrow> 'r list res" where
  "sql_update_checked ok P f t =
     (if ok \<or> \<not> list_ex P t then Inr (sql_update P f t) else Inl IntegrityError)"

definition keyed :: "('r \<Rightarrow> string) \<Rightarrow> 'r list \<Rightarrow> bool" where
  "keyed key t \<longleftrightarrow> distinct (map key t)"

lemma sql_find_append: "sql_find key k (t @ u) =
    (case sql_find key k t of None \<Rightarrow> sql_find key k u | Some r \<Rightarrow> Some r)"
  unfolding sql_find_def by (induction t) auto

lemma sql_find_filter_other:
  "k \<noteq> k' \<Longrightarrow> sql_find key k (filter (\<lambda>x. key x \<noteq> k') t) = sql_find key k t"
  unfolding sql_find_def by (induction t) auto

lemma sql_find_filter_self: "sql_find key k (filter (\<lambda>x. key x \<noteq> k) t) = None"
  unfolding sql_find_def by (induction t) auto

lemma sql_find_key: "sql_find key k t = Some r \<Longrightarrow> key r = k"
  unfolding sql_find_def by (auto simp: find_Some_iff)

lemma sql_find_in: "sql_find key k t = Some r \<Longrightarrow> r \<in> set t"
  unfolding sql_find_def by (auto simp: find_Some_iff)

lemma sql_find_None_iff: "sql_find key k t = None \<longleftrightarrow> k \<notin> key ` set t"
  unfolding sql_find_def by (auto simp: find_None_iff)

lemma sql_find_mem: "keyed key t \<Longrightarrow> r \<in> set t \<Longrightarrow> sql_find key (key r) t = Some r"
  unfolding sql_find_def keyed_def by (induction t) auto

lemma sql_find_replace [sql_simps]:
  "sql_find key k (sql_replace key r t) = (if k = key r then Some r else sql_find key k t)"
proof (cases "k = key r")
  case True
  then show ?thesis
    by (simp add: sql_replace_def sql_find_append sql_find_filter_self) (simp add: sql_find_def)
next
  case False
  then show ?thesis
    by (simp add: sql_replace_def sql_find_append sql_find_filter_other)
      (auto simp: sql_find_def split: option.splits)
qed

lemma sql_find_update:
  assumes "\<And>r. key (f r) = key r"
  shows "sql_find key k (sql_update P f t) =
    map_option (\<lambda>r. if P r then f r else r) (sql_find key k t)"
  using assms unfolding sql_find_def sql_update_def by (induction t) auto

lemma sql_find_delete_key [sql_simps]:
  "sql_find key k (sql_delete (\<lambda>r. key r = k') t) = (if k = k' then None else sql_find key k t)"
  by (simp add: sql_delete_def sql_find_filter_other sql_find_filter_self)

lemma keyed_Nil [simp]: "keyed key []"
  by (simp add: keyed_def)

lemma keyed_replace: "keyed key t \<Longrightarrow> keyed key (sql_replace key r t)"
  by (auto simp: keyed_def sql_replace_def distinct_map_filter)

lemma keyed_update: "keyed key t \<Longrightarrow> (\<And>r. key (f r) = key r) \<Longrightarrow> keyed key (sql_update P f t)"
  by (auto simp: keyed_def sql_update_def comp_def if_distrib [of key] cong: if_cong)

lemma keyed_delete: "keyed key t \<Longrightarrow> keyed key (sql_delete P t)"
  by (simp add: keyed_def sql_delete_def distinct_map_filter)

lemma set_sql_replace: "set (sql_replace key r t) = insert r {x \<in> set t. key x \<noteq> key r}"
  by (auto simp: sql_replace_def)

lemma set_sql_update: "set (sql_update P f t) = (\<lambda>r. if P r then f r else r) ` set t"
  by (simp add: sql_update_def)

lemma map_key_update: "(\<And>r. key (f r) = key r) \<Longrightarrow> map key (sql_update P f t) = map key t"
  by (induction t) (auto simp: sql_update_def)

lemma keys_update: "(\<And>r. key (f r) = key r) \<Longrightarrow> key ` set (sql_update P f t) = key ` set t"
  using map_key_update [of key f P t] by (metis list.set_map)

lemma sql_update_Nil [simp]: "sql_update P f [] = []"
  by (simp add: sql_update_def)

lemma sql_update_checked_Inr:
  "sql_update_checked ok P f t = Inr t' \<Longrightarrow> t' = sql_update P f t"
  by (auto simp: sql_update_checked_def split: if_splits)

subsection \<open>Ordering and limits of a query\<close>

text \<open>\<open>ORDER BY\<close> with ties in rowid order is a stable sort; \<open>LIMIT\<close> is clamped by
  \<open>query_builder.safe_limit\<close> to \<open>MAX_LIMIT\<close>.\<close>

definition max_limit :: int where
  "max_limit = 5000"

definition safe_limit :: "int option \<Rightarrow> int option \<Rightarrow> nat option" where
  "safe_limit limit dflt =
     (case (case limit of None \<Rightarrow> dflt | Some n \<Rightarrow> Some n) of
        None \<Rightarrow> None
      | Some n \<Rightarrow> Some (nat (if n < 0 then 0 else if n > max_limit then max_limit else n)))"

definition take_opt :: "nat option \<Rightarrow> 'a list \<Rightarrow> 'a list" where
  "take_opt mx xs = (case mx of None \<Rightarrow> xs | Some n \<Rightarrow> take n xs)"

lemma safe_limit_bound: "safe_limit limit dflt = Some n \<Longrightarrow> n \<le> 5000"
  by (auto simp: safe_limit_def max_limit_def split: option.splits if_splits)

lemma set_take_opt: "set (take_opt mx xs) \<subseteq> set xs"
  by (auto simp: take_opt_def split: option.splits dest: in_set_takeD)

end
