(* ===== verification/Events.thy ===== *)
theory Events
  imports Prelude
begin

text \<open>
  The event primitive: \<open>kernel/event.py\<close> (\<open>Event\<close>, its constructors \<open>create\<close>,
  \<open>with_seq\<close>, \<open>from_row\<close>) and the payload-schema registry of \<open>kernel/constants.py\<close>
  (\<open>stamp_event_payload\<close>, \<open>upcast_event_payload\<close>).

  The two module-level dicts \<open>EVENT_SCHEMA_VERSION_OVERRIDES\<close> and
  \<open>EVENT_PAYLOAD_UPCASTERS\<close> are a \<open>schema_registry\<close>; every function takes the registry, and
  \<open>current_registry\<close> is the one the module declares, so the theorems also cover later bumps.
\<close>

section \<open>Payload schema versions\<close>

record schema_registry =
  overrides :: "(string \<times> int) list"
  upcasters :: "((string \<times> int) \<times> (dict \<Rightarrow> dict)) list"

definition schema_key :: string where
  "schema_key = ''schema_version''"

definition schema_version_default :: int where
  "schema_version_default = 1"

definition current_registry :: schema_registry where
  "current_registry = \<lparr>overrides = [(''WorkItemCreated'', 1), (''WorkItemUpdated'', 1),
     (''WorkItemStatusChanged'', 1)], upcasters = []\<rparr>"

definition event_schema_version :: "schema_registry \<Rightarrow> string \<Rightarrow> int" where
  "event_schema_version reg et =
     (case map_of (overrides reg) et of None \<Rightarrow> schema_version_default | Some v \<Rightarrow> v)"

definition stamp_event_payload :: "schema_registry \<Rightarrow> string \<Rightarrow> dict option \<Rightarrow> dict" where
  "stamp_event_payload reg et payload =
     setd schema_key (VInt (event_schema_version reg et))
       (case payload of None \<Rightarrow> [] | Some d \<Rightarrow> d)"

text \<open>The \<open>while stored < target\<close> loop of \<open>upcast_event_payload\<close>; it ends because \<open>stored\<close>
  grows by one in each pass.\<close>

function upcast_loop ::
  "schema_registry \<Rightarrow> string \<Rightarrow> int \<Rightarrow> int \<Rightarrow> dict \<Rightarrow> (int \<times> dict) res" where
  "upcast_loop reg et target stored out =
     (if stored < target then
        (case map_of (upcasters reg) (et, stored) of
           None \<Rightarrow> Inl (ValueError ''missing payload upcaster'')
         | Some fn \<Rightarrow> upcast_loop reg et target (stored + 1)
                      (setd schema_key (VInt (stored + 1)) (fn out)))
      else Inr (stored, out))"
  by pat_completeness auto
termination
  by (relation "measure (\<lambda>(reg, et, target, stored, out). nat (target - stored))") auto

declare upcast_loop.simps [simp del]

definition upcast_event_payload ::
  "schema_registry \<Rightarrow> string \<Rightarrow> dict option \<Rightarrow> dict res" where
  "upcast_event_payload reg et payload =
     (let out = (case payload of None \<Rightarrow> [] | Some d \<Rightarrow> d);
          target = event_schema_version reg et
      in case py_int (getd out schema_key (VInt schema_version_default)) of
           Inl e \<Rightarrow> Inl (ValueError ''invalid schema_version'')
         | Inr stored \<Rightarrow>
             if stored > target then Inl (ValueError ''forward-incompatible schema_version'')
             else rbind (upcast_loop reg et target stored out)
                    (\<lambda>(v, out'). Inr (if has schema_key out' then out'
                                      else setd schema_key (VInt v) out')))"

section \<open>Events\<close>

record event =
  ev_type :: string
  ev_agg_type :: string
  ev_agg_id :: string
  ev_payload :: dict
  ev_actor :: string
  ev_caused_by :: "string option"
  ev_corr :: "string option"
  ev_id :: string
  ev_seq :: "int option"
  ev_ts :: time

definition with_seq :: "int \<Rightarrow> event \<Rightarrow> event" where
  "with_seq n ev = ev\<lparr>ev_seq := Some n\<rparr>"

text \<open>\<open>Event.create\<close>: \<open>eid\<close> is the fresh uuid and \<open>ts\<close> the wall clock.\<close>

definition create_event ::
  "schema_registry \<Rightarrow> string \<Rightarrow> time \<Rightarrow> string \<Rightarrow> string \<Rightarrow> string \<Rightarrow> dict option \<Rightarrow> string
     \<Rightarrow> string option \<Rightarrow> string option \<Rightarrow> event" where
  "create_event reg eid ts et agg aid payload actor caused corr =
     \<lparr>ev_type = et, ev_agg_type = agg, ev_agg_id = aid,
      ev_payload = stamp_event_payload reg et payload, ev_actor = actor,
      ev_caused_by = caused, ev_corr = corr, ev_id = eid, ev_seq = None, ev_ts = ts\<rparr>"

text \<open>A row of \<open>event_log\<close> (\<open>schema_ddl.EVENT_LOG_SCHEMA\<close>). The payload column holds the JSON
  text of the dict; \<open>json.loads\<close> of that text gives the dict back, so the row keeps the dict
  itself, \<open>None\<close> for a NULL or empty text.\<close>

record log_row =
  lr_seq :: int
  lr_id :: string
  lr_type :: string
  lr_agg_type :: string
  lr_agg_id :: string
  lr_actor :: string
  lr_payload :: "dict option"
  lr_caused_by :: "string option"
  lr_corr :: "string option"
  lr_ts :: time

definition from_row :: "schema_registry \<Rightarrow> log_row \<Rightarrow> event res" where
  "from_row reg r =
     rbind (upcast_event_payload reg (lr_type r) (lr_payload r))
       (\<lambda>p. Inr \<lparr>ev_type = lr_type r, ev_agg_type = lr_agg_type r, ev_agg_id = lr_agg_id r,
                 ev_payload = p, ev_actor = lr_actor r, ev_caused_by = lr_caused_by r,
                 ev_corr = lr_corr r, ev_id = lr_id r, ev_seq = Some (lr_seq r),
                 ev_ts = lr_ts r\<rparr>)"

text \<open>The row that the \<open>INSERT INTO event_log\<close> of \<open>emit_event\<close> writes for an event, at the
  sequence number \<open>n\<close> that AUTOINCREMENT assigns.\<close>

definition row_of_event :: "int \<Rightarrow> event \<Rightarrow> log_row" where
  "row_of_event n ev =
     \<lparr>lr_seq = n, lr_id = ev_id ev, lr_type = ev_type ev, lr_agg_type = ev_agg_type ev,
      lr_agg_id = ev_agg_id ev, lr_actor = ev_actor ev, lr_payload = Some (ev_payload ev),
      lr_caused_by = ev_caused_by ev, lr_corr = ev_corr ev, lr_ts = ev_ts ev\<rparr>"

section \<open>Stamping and upcasting agree\<close>

text \<open>A payload that carries its current version.\<close>

definition stamped :: "schema_registry \<Rightarrow> string \<Rightarrow> dict \<Rightarrow> bool" where
  "stamped reg et d \<longleftrightarrow> map_of d schema_key = Some (VInt (event_schema_version reg et))"

lemma stamped_stamp [intro, simp]: "stamped reg et (stamp_event_payload reg et p)"
  by (simp add: stamped_def stamp_event_payload_def setd_def update_conv)

lemma getd_stamp [simp]:
  "getd (stamp_event_payload reg et (Some d)) k x =
     (if k = schema_key then VInt (event_schema_version reg et) else getd d k x)"
  by (auto simp: stamp_event_payload_def)

lemma has_stamp [simp]:
  "has k (stamp_event_payload reg et (Some d)) \<longleftrightarrow> k = schema_key \<or> has k d"
  by (auto simp: stamp_event_payload_def)

lemma upcast_stamped:
  assumes "stamped reg et d"
  shows "upcast_event_payload reg et (Some d) = Inr d"
  using assms
  by (simp add: upcast_event_payload_def stamped_def getd_def has_def
      upcast_loop.simps [of reg et _ "event_schema_version reg et"])

lemma from_row_of_event:
  assumes "stamped reg (ev_type ev) (ev_payload ev)"
  shows "from_row reg (row_of_event n ev) = Inr (with_seq n ev)"
  using upcast_stamped [OF assms]
  by (simp add: from_row_def row_of_event_def with_seq_def)

lemma create_event_stamped [simp]:
  "stamped reg et (ev_payload (create_event reg eid ts et agg aid p actor caused corr))"
  by (simp add: create_event_def)

lemma upcast_loop_target:
  assumes "upcast_loop reg et target stored out = Inr (v, out')" and "stored \<le> target"
    and "py_int (getd out schema_key (VInt stored)) = Inr stored"
  shows "v = target \<and> py_int (getd out' schema_key (VInt v)) = Inr target"
  using assms
proof (induction reg et target stored out rule: upcast_loop.induct)
  case (1 reg et target stored out)
  show ?case
  proof (cases "stored < target")
    case False
    with 1(2,3,4) show ?thesis by (auto simp: upcast_loop.simps [of reg et target stored out])
  next
    case True
    with 1(2) obtain fn where fn: "map_of (upcasters reg) (et, stored) = Some fn"
      by (auto simp: upcast_loop.simps [of reg et target stored out] split: option.splits)
    with True 1(2) have "upcast_loop reg et target (stored + 1)
        (setd schema_key (VInt (stored + 1)) (fn out)) = Inr (v, out')"
      by (simp add: upcast_loop.simps [of reg et target stored out])
    then show ?thesis
      by (rule 1(1) [OF True fn]) (use True in simp_all)
  qed
qed

text \<open>What \<open>emit_event\<close> appended is what a later read of the log returns: reading back the
  row of a freshly created event yields that event with its sequence number, whatever versions
  the registry declares (the read-time upcast leaves a stamped payload alone).\<close>

lemma event_row_roundtrip:
  "from_row reg (row_of_event n (create_event reg eid ts et agg aid payload actor caused corr)) =
     Inr (with_seq n (create_event reg eid ts et agg aid payload actor caused corr))"
  by (rule from_row_of_event) (simp add: create_event_def)

text \<open>A successful upcast always lands exactly on the registered version: the returned payload
  reads as the current schema version, so no reader ever sees an older or a newer payload.\<close>

lemma upcast_reaches_current_version:
  assumes "upcast_event_payload reg et payload = Inr out"
  shows "py_int (getd out schema_key (VInt schema_version_default)) =
    Inr (event_schema_version reg et)"
proof -
  let ?d = "case payload of None \<Rightarrow> [] | Some d \<Rightarrow> d"
  let ?t = "event_schema_version reg et"
  from assms obtain stored v out' where
    s: "py_int (getd ?d schema_key (VInt schema_version_default)) = Inr stored"
    and le: "stored \<le> ?t"
    and loop: "upcast_loop reg et ?t stored ?d = Inr (v, out')"
    and out: "out = (if has schema_key out' then out' else setd schema_key (VInt v) out')"
    by (auto simp: upcast_event_payload_def Let_def split: sum.splits if_splits)
  have "py_int (getd ?d schema_key (VInt stored)) = Inr stored"
    using s by (cases "has schema_key ?d") (auto simp: getd_def has_def)
  from upcast_loop_target [OF loop le this]
  have v: "v = ?t" "py_int (getd out' schema_key (VInt v)) = Inr ?t" by auto
  show ?thesis
    using v out getd_has [of schema_key out' "VInt v" "VInt schema_version_default"]
    by (auto split: if_splits)
qed

text \<open>The refusals: a version above the registered one, a gap without an upcaster.\<close>

lemma upcast_rejects_newer:
  "map_of d schema_key = Some (VInt v) \<Longrightarrow> event_schema_version reg et < v \<Longrightarrow>
     \<exists>e. upcast_event_payload reg et (Some d) = Inl e"
  by (simp add: upcast_event_payload_def getd_def)

lemma upcast_rejects_gap:
  "map_of d schema_key = Some (VInt v) \<Longrightarrow> v < event_schema_version reg et \<Longrightarrow>
     map_of (upcasters reg) (et, v) = None \<Longrightarrow>
     \<exists>e. upcast_event_payload reg et (Some d) = Inl e"
  by (simp add: upcast_event_payload_def getd_def
      upcast_loop.simps [of reg et "event_schema_version reg et" v])

end
