(* ===== verification/Tables.thy ===== *)
theory Tables
  imports Events "HOL-Library.Product_Lexorder" "HOL-Library.List_Lexorder" "HOL-Library.Char_ord"
begin

text \<open>
  The governed tables of the store: one record per row type of \<open>store/schema_ddl.py\<close>, the
  record \<open>db\<close> of all of them, and what SQLite does with the values a statement binds.

  \<^item> A cell whose content comes straight out of a payload is a \<open>val\<close>; a cell the code always
    fills with a text, an instant or a flag has that type.
  \<^item> \<open>scalar\<close>: binding a list or a dict raises \<open>InterfaceError\<close>. \<open>not_null\<close>: a NULL in a
    \<open>NOT NULL\<close> column raises \<open>IntegrityError\<close>; under \<open>INSERT OR REPLACE\<close> a column with a
    default takes it instead (\<open>or_default\<close>). A \<open>REAL\<close> column turns integers into floats
    (\<open>real_cell\<close>).
\<close>

section \<open>Binding values\<close>

fun scalar :: "val \<Rightarrow> bool" where
  "scalar (VList xs) = False"
| "scalar (VObj d) = False"
| "scalar _ = True"

definition bind_params :: "val list \<Rightarrow> unit res" where
  "bind_params vs = (if list_all scalar vs then Inr () else Inl InterfaceError)"

definition not_null :: "val list \<Rightarrow> unit res" where
  "not_null vs = (if VNull \<in> set vs then Inl IntegrityError else Inr ())"

definition or_default :: "val \<Rightarrow> val \<Rightarrow> val" where
  "or_default d v = (if v = VNull then d else v)"

fun real_cell :: "val \<Rightarrow> val" where
  "real_cell (VInt n) = VNum (of_int n)"
| "real_cell (VBool b) = VNum (if b then 1 else 0)"
| "real_cell v = v"

text \<open>A text column that serves as a key: integers become their decimal text. Nothing binds a
  float or an instant to such a column; that is refused.\<close>

fun text_cell :: "val \<Rightarrow> string res" where
  "text_cell (VStr s) = Inr s"
| "text_cell (VInt n) = Inr (show_int n)"
| "text_cell (VBool b) = Inr (if b then ''1'' else ''0'')"
| "text_cell VNull = Inl IntegrityError"
| "text_cell (VNum r) = Inl (RuntimeError ''float in a text column'')"
| "text_cell (VTime t) = Inl (RuntimeError ''instant in a text column'')"
| "text_cell _ = Inl InterfaceError"

text \<open>A text column that holds an instant: empty, a text \<open>isoformat\<close> wrote, or any other text.\<close>

datatype stamp = NoTime | At time | Junk string

fun stamp_cell :: "val \<Rightarrow> stamp res" where
  "stamp_cell (VTime t) = Inr (At t)"
| "stamp_cell (VStr s) = Inr (if s = [] then NoTime else Junk s)"
| "stamp_cell (VInt n) = Inr (Junk (show_int n))"
| "stamp_cell (VBool b) = Inr (Junk (if b then ''1'' else ''0''))"
| "stamp_cell VNull = Inl IntegrityError"
| "stamp_cell (VNum r) = Inl (RuntimeError ''float in a text column'')"
| "stamp_cell _ = Inl InterfaceError"

fun stamp_val :: "stamp \<Rightarrow> val" where
  "stamp_val NoTime = VStr []"
| "stamp_val (At t) = VTime t"
| "stamp_val (Junk s) = VStr s"

text \<open>\<open>ORDER BY\<close> such a column: the empty text first, instants by time, other texts last.\<close>

fun stamp_rank :: "stamp \<Rightarrow> nat \<times> int \<times> string" where
  "stamp_rank NoTime = (0, 0, [])"
| "stamp_rank (At t) = (1, t, [])"
| "stamp_rank (Junk s) = (2, 0, s)"

lemma stamp_rank_inj: "stamp_rank a = stamp_rank b \<Longrightarrow> a = b"
  by (cases a; cases b) auto

instantiation stamp :: linorder
begin

definition less_eq_stamp :: "stamp \<Rightarrow> stamp \<Rightarrow> bool" where
  "less_eq_stamp a b \<longleftrightarrow> stamp_rank a \<le> stamp_rank b"

definition less_stamp :: "stamp \<Rightarrow> stamp \<Rightarrow> bool" where
  "less_stamp a b \<longleftrightarrow> stamp_rank a < stamp_rank b"

instance
proof
  fix a b c :: stamp
  show "(a < b) = (a \<le> b \<and> \<not> b \<le> a)"
    by (auto simp: less_eq_stamp_def less_stamp_def)
  show "a \<le> a" by (simp add: less_eq_stamp_def)
  show "a \<le> b \<Longrightarrow> b \<le> c \<Longrightarrow> a \<le> c"
    unfolding less_eq_stamp_def by (rule order_trans)
  show "a \<le> b \<Longrightarrow> b \<le> a \<Longrightarrow> a = b"
    unfolding less_eq_stamp_def by (intro stamp_rank_inj) (rule antisym)
  show "a \<le> b \<or> b \<le> a"
    unfolding less_eq_stamp_def by (rule linear)
qed

end

lemma stamp_cell_val [simp]: "s \<noteq> Junk [] \<Longrightarrow> stamp_cell (stamp_val s) = Inr s"
  by (cases s) auto

section \<open>Rows\<close>

record approval_row =
  ap_id :: string
  ap_task_id :: val
  ap_action :: val
  ap_params :: val
  ap_proposed_by :: string
  ap_status :: string
  ap_created_at :: time
  ap_expires_at :: val
  ap_resolved_at :: "time option"
  ap_resolved_by :: "string option"

record memory_row =
  m_id :: string
  m_category :: val
  m_content :: val
  m_source :: val
  m_embedding_id :: val
  m_confidence :: val
  m_derived_from :: val
  m_decayed_at :: "time option"
  m_status :: val
  m_origin :: string
  m_claim_status :: "string option"
  m_doc_id :: val
  m_doc_name :: val
  m_created_at :: time

record work_row =
  w_id :: string
  w_title :: val
  w_description :: val
  w_work_type :: val
  w_parent :: val
  w_status :: val
  w_priority :: val
  w_deps :: val
  w_plan :: val
  w_created_at :: val
  w_updated_at :: time
  w_completed_at :: val
  w_progress :: val
  w_importance :: val
  w_urgency :: val
  w_deadline :: val
  w_last_activity :: val

record profile_row =
  pr_id :: string
  pr_data :: val
  pr_confidence :: val
  pr_created_at :: time
  pr_updated_at :: time

record notification_row =
  n_id :: string
  n_type :: val
  n_title :: val
  n_content :: val
  n_read :: bool
  n_related_id :: val
  n_related_type :: val
  n_notification_type :: val
  n_dedup_key :: val
  n_created_at :: val

record policy_row =
  po_id :: string
  po_capability :: val
  po_risk :: val
  po_status :: string
  po_created_at :: time
  po_updated_at :: time

record tool_call_row =
  tc_id :: string
  tc_name :: val
  tc_success :: bool
  tc_latency :: val
  tc_error :: val
  tc_created_at :: time

record llm_call_row =
  lc_id :: string
  lc_provider :: val
  lc_model :: val
  lc_prompt_tokens :: val
  lc_completion_tokens :: val
  lc_latency :: val
  lc_cost :: val
  lc_success :: bool
  lc_error :: val
  lc_purpose :: val
  lc_created_at :: time

record inbox_row =
  ie_id :: string
  ie_sender :: val
  ie_subject :: val
  ie_preview :: val
  ie_received_at :: val
  ie_category :: val
  ie_importance :: val
  ie_reason :: val
  ie_notified :: bool
  ie_digested :: bool
  ie_status :: val
  ie_created_at :: val

record timer_row =
  tm_id :: string
  tm_handler :: val
  tm_schedule :: val
  tm_cron :: val
  tm_delay :: rat
  tm_fire_at :: val
  tm_payload :: val
  tm_status :: string
  tm_created_at :: time
  tm_fired_at :: val

record conversation_row =
  cv_id :: string
  cv_title :: val
  cv_summary :: val
  cv_created_at :: val
  cv_updated_at :: time

record message_row =
  ms_id :: string
  ms_conv :: string
  ms_role :: val
  ms_content :: val
  ms_tool_calls :: val
  ms_tool_call_id :: val
  ms_sources :: val
  ms_created_at :: val
  ms_source_event :: string

record handler_row =
  he_id :: string
  he_event_seq :: int
  he_event_id :: string
  he_event_type :: string
  he_handler_name :: string
  he_instance_id :: string
  he_status :: string
  he_retry_count :: int
  he_policy :: dict
  he_corr :: string
  he_created_at :: stamp
  he_started_at :: stamp
  he_completed_at :: stamp
  he_error :: string
  he_dead_letter :: bool

section \<open>The governed store\<close>

record db =
  t_approvals :: "approval_row list"
  t_memories :: "memory_row list"
  t_work_items :: "work_row list"
  t_user_profile :: "profile_row list"
  t_notifications :: "notification_row list"
  t_policy_events :: "policy_row list"
  t_tool_calls :: "tool_call_row list"
  t_llm_calls :: "llm_call_row list"
  t_inbox_emails :: "inbox_row list"
  t_timer_events :: "timer_row list"
  t_conversations :: "conversation_row list"
  t_messages :: "message_row list"
  t_handler_executions :: "handler_row list"

definition empty_db :: db where
  "empty_db = \<lparr>t_approvals = [], t_memories = [], t_work_items = [], t_user_profile = [],
     t_notifications = [], t_policy_events = [], t_tool_calls = [], t_llm_calls = [],
     t_inbox_emails = [], t_timer_events = [], t_conversations = [], t_messages = [],
     t_handler_executions = []\<rparr>"

text \<open>Every table has at most one row per primary key.\<close>

definition db_keyed :: "db \<Rightarrow> bool" where
  "db_keyed d \<longleftrightarrow>
     keyed ap_id (t_approvals d) \<and> keyed m_id (t_memories d) \<and> keyed w_id (t_work_items d) \<and>
     keyed pr_id (t_user_profile d) \<and> keyed n_id (t_notifications d) \<and>
     keyed po_id (t_policy_events d) \<and> keyed tc_id (t_tool_calls d) \<and>
     keyed lc_id (t_llm_calls d) \<and> keyed ie_id (t_inbox_emails d) \<and>
     keyed tm_id (t_timer_events d) \<and> keyed cv_id (t_conversations d) \<and>
     keyed ms_id (t_messages d) \<and> keyed he_id (t_handler_executions d)"

lemma db_keyed_empty [simp]: "db_keyed empty_db"
  by (simp add: db_keyed_def empty_db_def)

lemma not_null_Inr [simp]: "not_null vs = Inr u \<longleftrightarrow> VNull \<notin> set vs"
  by (auto simp: not_null_def)

lemma bind_params_Inr [simp]: "bind_params vs = Inr u \<longleftrightarrow> list_all scalar vs"
  by (auto simp: bind_params_def)

end
