(* ===== verification/Proj_Core.thy ===== *)
theory Proj_Core
  imports Tables
begin

text \<open>
  The projectors of \<open>kernel/projectors_core.py\<close>: approvals, memories (with the claim
  authority events), work items (with the derived progress of the parent goal), the user profile
  and notifications. A projector takes the event and the table it owns and returns the new table,
  or the exception that makes the surrounding transaction roll back.
\<close>

definition opt_str :: "string option \<Rightarrow> val" where
  "opt_str s = (case s of None \<Rightarrow> VNull | Some x \<Rightarrow> VStr x)"

text \<open>A TEXT column turns integers into their decimal text.\<close>

fun text_aff :: "val \<Rightarrow> val" where
  "text_aff (VInt n) = VStr (show_int n)"
| "text_aff (VBool b) = VStr (if b then ''1'' else ''0'')"
| "text_aff v = v"

text \<open>\<open>UPDATE t SET k = ?, ...\<close> for the updatable columns that the payload names.\<close>

definition present :: "(string \<times> (val \<Rightarrow> 'r \<Rightarrow> 'r)) list \<Rightarrow> dict \<Rightarrow> (string \<times> (val \<Rightarrow> 'r \<Rightarrow> 'r)) list" where
  "present cols p = filter (\<lambda>(k, _). has k p) cols"

definition set_present :: "(string \<times> (val \<Rightarrow> 'r \<Rightarrow> 'r)) list \<Rightarrow> dict \<Rightarrow> 'r \<Rightarrow> 'r" where
  "set_present cols p r = fold (\<lambda>(k, f) r. f (get p k) r) (present cols p) r"

definition null_given :: "string list \<Rightarrow> dict \<Rightarrow> bool" where
  "null_given ks p \<longleftrightarrow> list_ex (\<lambda>k. has k p \<and> get p k = VNull) ks"

section \<open>Approvals\<close>

definition on_approval_requested :: "event \<Rightarrow> approval_row list \<Rightarrow> approval_row list res" where
  "on_approval_requested ev t =
     (let p = ev_payload ev in
      case getd p ''ctx'' (VObj []) of
        VObj ctx \<Rightarrow>
          rbind (bind_params [get ctx ''task_id'', getd p ''action'' (VStr []), get p ''expires_at''])
          (\<lambda>_. rbind (not_null [getd p ''action'' (VStr [])])
          (\<lambda>_. Inr (sql_replace ap_id
             \<lparr>ap_id = ev_agg_id ev, ap_task_id = get ctx ''task_id'',
              ap_action = getd p ''action'' (VStr []), ap_params = getd ctx ''args'' (VObj []),
              ap_proposed_by = ev_actor ev, ap_status = ''pending'', ap_created_at = ev_ts ev,
              ap_expires_at = get p ''expires_at'', ap_resolved_at = None,
              ap_resolved_by = None\<rparr> t)))
      | _ \<Rightarrow> Inl TypeError)"

definition on_approval_granted :: "event \<Rightarrow> approval_row list \<Rightarrow> approval_row list res" where
  "on_approval_granted ev t = Inr (sql_update (\<lambda>r. ap_id r = ev_agg_id ev)
     (\<lambda>r. r\<lparr>ap_status := ''approved'', ap_resolved_at := Some (ev_ts ev),
            ap_resolved_by := Some (ev_actor ev)\<rparr>) t)"

definition on_approval_denied :: "event \<Rightarrow> approval_row list \<Rightarrow> approval_row list res" where
  "on_approval_denied ev t =
     (let status = (if get (ev_payload ev) ''reason'' = VStr ''auto_expired''
                    then ''expired'' else ''denied'') in
      Inr (sql_update (\<lambda>r. ap_id r = ev_agg_id ev \<and> ap_status r = ''pending'')
        (\<lambda>r. r\<lparr>ap_status := status, ap_resolved_at := Some (ev_ts ev),
               ap_resolved_by := Some (ev_actor ev)\<rparr>) t))"

definition approval_projector :: "event \<Rightarrow> approval_row list \<Rightarrow> approval_row list res" where
  "approval_projector ev t =
     (if ev_type ev = ''ApprovalRequested'' then on_approval_requested ev t
      else if ev_type ev = ''ApprovalGranted'' then on_approval_granted ev t
      else if ev_type ev = ''ApprovalDenied'' then on_approval_denied ev t
      else Inr t)"

section \<open>Memories\<close>

definition origin_from_actor :: "string \<Rightarrow> string" where
  "origin_from_actor actor = (if actor = ''user'' then ''self_report'' else ''claim'')"

definition initial_claim_status :: "string \<Rightarrow> string option" where
  "initial_claim_status origin = (if origin = ''claim'' then Some ''proposed'' else None)"

definition set_claim_status_if_claim ::
  "string \<Rightarrow> string \<Rightarrow> memory_row list \<Rightarrow> memory_row list" where
  "set_claim_status_if_claim mid status t =
     (case sql_find m_id mid t of
        None \<Rightarrow> t
      | Some r \<Rightarrow> if m_origin r = ''claim''
                  then sql_update (\<lambda>r. m_id r = mid) (\<lambda>r. r\<lparr>m_claim_status := Some status\<rparr>) t
                  else t)"

definition on_memory_derived :: "event \<Rightarrow> memory_row list \<Rightarrow> memory_row list res" where
  "on_memory_derived ev t =
     (let p = ev_payload ev;
          origin = origin_from_actor (ev_actor ev);
          category = getd p ''category'' (VStr ''general'');
          content = getd p ''content'' (VStr []);
          source = getd p ''source'' (VStr []);
          confidence = getd p ''confidence'' (VNum (1/2));
          derived = getd p ''derived_from_event'' (opt_str (ev_caused_by ev))
      in rbind (bind_params [category, content, source, get p ''embedding_id'', confidence, derived,
                             get p ''source_document_id'', get p ''source_document_name''])
         (\<lambda>_. rbind (not_null [category, content])
         (\<lambda>_. Inr (sql_replace m_id
            \<lparr>m_id = ev_agg_id ev, m_category = category, m_content = content, m_source = source,
             m_embedding_id = get p ''embedding_id'', m_confidence = real_cell confidence,
             m_derived_from = derived, m_decayed_at = None, m_status = VStr ''active'',
             m_origin = origin, m_claim_status = initial_claim_status origin,
             m_doc_id = get p ''source_document_id'', m_doc_name = get p ''source_document_name'',
             m_created_at = ev_ts ev\<rparr> t))))"

definition on_memory_decayed :: "event \<Rightarrow> memory_row list \<Rightarrow> memory_row list res" where
  "on_memory_decayed ev t =
     rbind (py_float (getd (ev_payload ev) ''confidence'' (VNum (1/10))))
       (\<lambda>c. Inr (sql_update (\<lambda>r. m_id r = ev_agg_id ev)
          (\<lambda>r. r\<lparr>m_confidence := VNum c, m_decayed_at := Some (ev_ts ev)\<rparr>) t))"

definition memory_cols :: "(string \<times> (val \<Rightarrow> memory_row \<Rightarrow> memory_row)) list" where
  "memory_cols =
     [(''content'', \<lambda>v r. r\<lparr>m_content := v\<rparr>), (''category'', \<lambda>v r. r\<lparr>m_category := v\<rparr>),
      (''source'', \<lambda>v r. r\<lparr>m_source := v\<rparr>),
      (''confidence'', \<lambda>v r. r\<lparr>m_confidence := real_cell v\<rparr>),
      (''embedding_id'', \<lambda>v r. r\<lparr>m_embedding_id := v\<rparr>)]"

definition on_memory_updated :: "event \<Rightarrow> memory_row list \<Rightarrow> memory_row list res" where
  "on_memory_updated ev t =
     (let p = ev_payload ev; fields = present memory_cols p in
      if fields = [] then Inr t
      else rbind (bind_params (map (\<lambda>(k, _). get p k) fields))
        (\<lambda>_. sql_update_checked (\<not> null_given [''content'', ''category''] p)
               (\<lambda>r. m_id r = ev_agg_id ev) (set_present memory_cols p) t))"

definition on_memory_deleted :: "event \<Rightarrow> memory_row list \<Rightarrow> memory_row list res" where
  "on_memory_deleted ev t = Inr (sql_delete (\<lambda>r. m_id r = ev_agg_id ev) t)"

definition memory_projector :: "event \<Rightarrow> memory_row list \<Rightarrow> memory_row list res" where
  "memory_projector ev t =
     (if ev_type ev = ''MemoryDerived'' then on_memory_derived ev t
      else if ev_type ev = ''MemoryDecayed'' then on_memory_decayed ev t
      else if ev_type ev = ''MemoryUpdated'' then on_memory_updated ev t
      else if ev_type ev = ''MemoryDeleted'' then on_memory_deleted ev t
      else if ev_type ev = ''ClaimRatified''
        then Inr (set_claim_status_if_claim (ev_agg_id ev) ''ratified'' t)
      else if ev_type ev = ''ClaimRejected''
        then Inr (set_claim_status_if_claim (ev_agg_id ev) ''rejected'' t)
      else if ev_type ev = ''ClaimContested''
        then Inr (set_claim_status_if_claim (ev_agg_id ev) ''contested'' t)
      else Inr t)"

section \<open>Work items\<close>

definition children_of :: "string \<Rightarrow> work_row list \<Rightarrow> work_row list" where
  "children_of pid t = filter (\<lambda>r. w_parent r = VStr pid) t"

definition count_completed :: "work_row list \<Rightarrow> nat" where
  "count_completed rows = length (filter (\<lambda>r. w_status r = VStr ''completed'') rows)"

definition progress_of :: "work_row list \<Rightarrow> rat" where
  "progress_of rows =
     (if rows = [] then 0 else of_nat (count_completed rows) / of_nat (length rows))"

text \<open>\<open>_recalculate_parent_goal_progress\<close>; the hint is the parent that a deletion captured.\<close>

definition recalculate_parent_goal_progress ::
  "string \<Rightarrow> time \<Rightarrow> val option \<Rightarrow> work_row list \<Rightarrow> work_row list" where
  "recalculate_parent_goal_progress child ts hint t =
     (let parent = (case hint of
                      Some h \<Rightarrow> h
                    | None \<Rightarrow> (case sql_find w_id child t of None \<Rightarrow> VNull | Some r \<Rightarrow> w_parent r))
      in case parent of
           VStr pid \<Rightarrow>
             if pid = [] then t
             else (case sql_find w_id pid t of
                     None \<Rightarrow> t
                   | Some g \<Rightarrow>
                       if w_work_type g \<noteq> VStr ''goal'' then t
                       else sql_update (\<lambda>r. w_id r = pid)
                              (\<lambda>r. r\<lparr>w_progress := VNum (progress_of (children_of pid t)),
                                     w_last_activity := VTime ts, w_updated_at := ts\<rparr>) t)
         | _ \<Rightarrow> t)"

definition on_work_item_created :: "event \<Rightarrow> work_row list \<Rightarrow> work_row list res" where
  "on_work_item_created ev t =
     (let p = ev_payload ev;
          title = getd p ''title'' (VStr []);
          description = getd p ''description'' (VStr []);
          work_type = getd p ''work_type'' (VStr ''task'');
          parent = get p ''parent_work_id'';
          status = getd p ''status'' (VStr ''pending'');
          priority = getd p ''priority'' (VInt 0);
          created = getd p ''created_at'' (VTime (ev_ts ev));
          progress = getd p ''progress'' (VInt 0);
          importance = getd p ''importance'' (VNum (1/2));
          urgency = getd p ''urgency'' (VNum (1/2))
      in rbind (bind_params [title, description, work_type, parent, status, priority,
                 get p ''dependencies_json'', get p ''executable_plan'', created, progress,
                 importance, urgency, get p ''deadline'', get p ''last_activity_at''])
         (\<lambda>_. rbind (not_null [title])
         (\<lambda>_. Inr (recalculate_parent_goal_progress (ev_agg_id ev) (ev_ts ev) None
            (sql_replace w_id
               \<lparr>w_id = ev_agg_id ev, w_title = text_aff title, w_description = text_aff description,
                w_work_type = text_aff work_type, w_parent = text_aff parent,
                w_status = text_aff status, w_priority = priority,
                w_deps = get p ''dependencies_json'', w_plan = get p ''executable_plan'',
                w_created_at = created, w_updated_at = ev_ts ev, w_completed_at = VNull,
                w_progress = real_cell progress, w_importance = real_cell importance,
                w_urgency = real_cell urgency, w_deadline = get p ''deadline'',
                w_last_activity = get p ''last_activity_at''\<rparr> t)))))"

definition work_cols :: "(string \<times> (val \<Rightarrow> work_row \<Rightarrow> work_row)) list" where
  "work_cols =
     [(''title'', \<lambda>v r. r\<lparr>w_title := text_aff v\<rparr>),
      (''description'', \<lambda>v r. r\<lparr>w_description := text_aff v\<rparr>),
      (''status'', \<lambda>v r. r\<lparr>w_status := text_aff v\<rparr>),
      (''priority'', \<lambda>v r. r\<lparr>w_priority := v\<rparr>),
      (''dependencies_json'', \<lambda>v r. r\<lparr>w_deps := v\<rparr>),
      (''executable_plan'', \<lambda>v r. r\<lparr>w_plan := v\<rparr>),
      (''completed_at'', \<lambda>v r. r\<lparr>w_completed_at := v\<rparr>),
      (''parent_work_id'', \<lambda>v r. r\<lparr>w_parent := text_aff v\<rparr>),
      (''progress'', \<lambda>v r. r\<lparr>w_progress := real_cell v\<rparr>),
      (''importance'', \<lambda>v r. r\<lparr>w_importance := real_cell v\<rparr>),
      (''urgency'', \<lambda>v r. r\<lparr>w_urgency := real_cell v\<rparr>),
      (''deadline'', \<lambda>v r. r\<lparr>w_deadline := v\<rparr>),
      (''last_activity_at'', \<lambda>v r. r\<lparr>w_last_activity := v\<rparr>)]"

definition on_work_item_updated :: "event \<Rightarrow> work_row list \<Rightarrow> work_row list res" where
  "on_work_item_updated ev t =
     (let p = ev_payload ev; fields = present work_cols p in
      if fields = [] then Inr t
      else rbind (bind_params (map (\<lambda>(k, _). get p k) fields))
        (\<lambda>_. rbind (sql_update_checked (\<not> null_given [''title''] p) (\<lambda>r. w_id r = ev_agg_id ev)
                (\<lambda>r. (set_present work_cols p r)\<lparr>w_updated_at := ev_ts ev\<rparr>) t)
        (\<lambda>t'. Inr (if has ''status'' p
                    then recalculate_parent_goal_progress (ev_agg_id ev) (ev_ts ev) None t'
                    else t'))))"

definition on_work_item_status_changed :: "event \<Rightarrow> work_row list \<Rightarrow> work_row list res" where
  "on_work_item_status_changed ev t =
     (let status = get (ev_payload ev) ''status'' in
      if \<not> truthy status then Inr t
      else rbind (bind_params [status])
        (\<lambda>_. Inr (recalculate_parent_goal_progress (ev_agg_id ev) (ev_ts ev) None
          (sql_update (\<lambda>r. w_id r = ev_agg_id ev)
             (\<lambda>r. if status = VStr ''completed''
                  then r\<lparr>w_status := status, w_updated_at := ev_ts ev,
                         w_completed_at := VTime (ev_ts ev), w_progress := VNum 1\<rparr>
                  else r\<lparr>w_status := text_aff status, w_updated_at := ev_ts ev\<rparr>) t))))"

definition on_work_item_deleted :: "event \<Rightarrow> work_row list \<Rightarrow> work_row list res" where
  "on_work_item_deleted ev t =
     (let parent = (case sql_find w_id (ev_agg_id ev) t of None \<Rightarrow> VNull | Some r \<Rightarrow> w_parent r);
          t' = sql_delete (\<lambda>r. w_id r = ev_agg_id ev) t
      in Inr (if truthy parent
              then recalculate_parent_goal_progress (ev_agg_id ev) (ev_ts ev) (Some parent) t'
              else t'))"

definition work_item_projector :: "event \<Rightarrow> work_row list \<Rightarrow> work_row list res" where
  "work_item_projector ev t =
     (if ev_type ev = ''WorkItemCreated'' then on_work_item_created ev t
      else if ev_type ev = ''WorkItemUpdated'' then on_work_item_updated ev t
      else if ev_type ev = ''WorkItemStatusChanged'' then on_work_item_status_changed ev t
      else if ev_type ev = ''WorkItemDeleted'' then on_work_item_deleted ev t
      else Inr t)"

section \<open>User profile\<close>

definition on_user_profile_updated :: "event \<Rightarrow> profile_row list \<Rightarrow> profile_row list res" where
  "on_user_profile_updated ev t =
     rbind (item (ev_payload ev) ''category'') (\<lambda>category.
     rbind (item (ev_payload ev) ''data_json'') (\<lambda>data.
     rbind (item (ev_payload ev) ''confidence'') (\<lambda>confidence.
     rbind (bind_params [category, data, confidence]) (\<lambda>_.
     rbind (text_cell category) (\<lambda>key.
     rbind (not_null [data]) (\<lambda>_.
       Inr (case sql_find pr_id key t of
              None \<Rightarrow> t @ [\<lparr>pr_id = key, pr_data = data, pr_confidence = real_cell confidence,
                            pr_created_at = ev_ts ev, pr_updated_at = ev_ts ev\<rparr>]
            | Some _ \<Rightarrow> sql_update (\<lambda>r. pr_id r = key)
                (\<lambda>r. r\<lparr>pr_data := data, pr_confidence := real_cell confidence,
                       pr_updated_at := ev_ts ev\<rparr>) t)))))))"

definition user_profile_projector :: "event \<Rightarrow> profile_row list \<Rightarrow> profile_row list res" where
  "user_profile_projector ev t =
     (if ev_type ev = ''UserProfileUpdated'' then on_user_profile_updated ev t else Inr t)"

section \<open>Notifications\<close>

text \<open>The unique partial index \<open>ux_notifications_dedup_key\<close> of \<open>schema_init.py\<close>.\<close>

definition dedup_conflict :: "val \<Rightarrow> notification_row list \<Rightarrow> bool" where
  "dedup_conflict k t \<longleftrightarrow> k \<noteq> VNull \<and> k \<noteq> VStr [] \<and> list_ex (\<lambda>r. n_dedup_key r = k) t"

definition on_notification_created ::
  "event \<Rightarrow> notification_row list \<Rightarrow> notification_row list res" where
  "on_notification_created ev t =
     (let p = ev_payload ev;
          typ = getd p ''type'' (VStr []);
          title = getd p ''title'' (VStr []);
          content = getd p ''content'' (VStr []);
          created = getd p ''created_at'' (VTime (ev_ts ev))
      in rbind (bind_params [typ, title, content, get p ''related_id'', get p ''related_type'',
                 get p ''notification_type'', get p ''dedup_key'', created])
         (\<lambda>_. rbind (not_null [typ, title, content])
         (\<lambda>_. Inr (if sql_find n_id (ev_agg_id ev) t \<noteq> None \<or> dedup_conflict (get p ''dedup_key'') t
              then t
              else t @ [\<lparr>n_id = ev_agg_id ev, n_type = typ, n_title = title, n_content = content,
                n_read = False, n_related_id = get p ''related_id'',
                n_related_type = get p ''related_type'',
                n_notification_type = get p ''notification_type'',
                n_dedup_key = get p ''dedup_key'', n_created_at = created\<rparr>]))))"

definition coalesce :: "val \<Rightarrow> val \<Rightarrow> val" where
  "coalesce new old = (if new = VNull then old else new)"

definition on_notification_updated ::
  "event \<Rightarrow> notification_row list \<Rightarrow> notification_row list res" where
  "on_notification_updated ev t =
     (let p = ev_payload ev; content = getd p ''content'' (VStr []) in
      if has ''related_id'' p \<or> has ''related_type'' p
      then rbind (bind_params [content, get p ''related_id'', get p ''related_type''])
        (\<lambda>_. sql_update_checked (content \<noteq> VNull) (\<lambda>r. n_id r = ev_agg_id ev)
           (\<lambda>r. r\<lparr>n_content := content, n_related_id := coalesce (get p ''related_id'') (n_related_id r),
                  n_related_type := coalesce (get p ''related_type'') (n_related_type r)\<rparr>) t)
      else rbind (bind_params [content])
        (\<lambda>_. sql_update_checked (content \<noteq> VNull) (\<lambda>r. n_id r = ev_agg_id ev)
           (\<lambda>r. r\<lparr>n_content := content\<rparr>) t))"

definition on_notification_read ::
  "event \<Rightarrow> notification_row list \<Rightarrow> notification_row list res" where
  "on_notification_read ev t =
     Inr (if ev_agg_id ev = ''all'' then sql_update (\<lambda>r. \<not> n_read r) (\<lambda>r. r\<lparr>n_read := True\<rparr>) t
          else sql_update (\<lambda>r. n_id r = ev_agg_id ev) (\<lambda>r. r\<lparr>n_read := True\<rparr>) t)"

definition notification_projector ::
  "event \<Rightarrow> notification_row list \<Rightarrow> notification_row list res" where
  "notification_projector ev t =
     (if ev_type ev = ''NotificationCreated'' then on_notification_created ev t
      else if ev_type ev = ''NotificationUpdated'' then on_notification_updated ev t
      else if ev_type ev = ''NotificationRead'' then on_notification_read ev t
      else Inr t)"

end
