(* ===== verification/Proj_Other.thy ===== *)
theory Proj_Other
  imports Proj_Core
begin

text \<open>
  The remaining projectors: policies and telemetry (\<open>projectors_governance.py\<close>), inbox mails and
  timers (\<open>projectors_inbox.py\<close>), conversations and messages (\<open>projectors_chat.py\<close>) and the
  Lane A executions (\<open>projectors_execution.py\<close>). The policy projectors also drop the
  in-process risk cache; that effect belongs to the state of the Governance theory.
\<close>

section \<open>Policies\<close>

definition on_policy_created :: "event \<Rightarrow> policy_row list \<Rightarrow> policy_row list res" where
  "on_policy_created ev t =
     (let p = ev_payload ev;
          capability = getd p ''capability'' (VStr []);
          risk = getd p ''risk_level'' (VStr ''low'')
      in rbind (bind_params [capability, risk])
         (\<lambda>_. rbind (not_null [capability])
         (\<lambda>_. Inr (sql_replace po_id
            \<lparr>po_id = ev_agg_id ev, po_capability = capability,
             po_risk = or_default (VStr ''low'') risk, po_status = ''active'',
             po_created_at = ev_ts ev, po_updated_at = ev_ts ev\<rparr> t))))"

definition on_policy_updated :: "event \<Rightarrow> policy_row list \<Rightarrow> policy_row list res" where
  "on_policy_updated ev t =
     (let p = ev_payload ev;
          status = get p ''status'';
          risk = getd p ''risk_level'' (VStr ''low'');
          this = (\<lambda>r. po_id r = ev_agg_id ev)
      in if status = VStr ''revoked''
         then Inr (sql_update this (\<lambda>r. r\<lparr>po_status := ''revoked'', po_updated_at := ev_ts ev\<rparr>) t)
         else if status = VStr ''active''
         then rbind (bind_params [risk]) (\<lambda>_. sql_update_checked (risk \<noteq> VNull) this
                (\<lambda>r. r\<lparr>po_status := ''active'', po_risk := risk, po_updated_at := ev_ts ev\<rparr>) t)
         else rbind (bind_params [risk]) (\<lambda>_. sql_update_checked (risk \<noteq> VNull) this
                (\<lambda>r. r\<lparr>po_risk := risk, po_updated_at := ev_ts ev\<rparr>) t))"

definition policy_projector :: "event \<Rightarrow> policy_row list \<Rightarrow> policy_row list res" where
  "policy_projector ev t =
     (if ev_type ev = ''PolicyCreated'' then on_policy_created ev t
      else if ev_type ev = ''PolicyUpdated'' then on_policy_updated ev t
      else Inr t)"

section \<open>Telemetry\<close>

text \<open>\<open>f"tc_{event.seq}"\<close>; the projector always runs on an event that has its number.\<close>

definition seq_text :: "event \<Rightarrow> string" where
  "seq_text ev = (case ev_seq ev of None \<Rightarrow> ''None'' | Some n \<Rightarrow> show_int n)"

definition tool_call_insert ::
  "event \<Rightarrow> bool \<Rightarrow> val \<Rightarrow> val \<Rightarrow> tool_call_row list \<Rightarrow> tool_call_row list res" where
  "tool_call_insert ev ok latency errtext t =
     (let name = getd (ev_payload ev) ''name'' (VStr []) in
      rbind (bind_params [name, latency, errtext])
        (\<lambda>_. rbind (not_null [name])
        (\<lambda>_. Inr (sql_replace tc_id
           \<lparr>tc_id = ''tc_'' @ seq_text ev, tc_name = name, tc_success = ok,
            tc_latency = real_cell latency, tc_error = errtext, tc_created_at = ev_ts ev\<rparr> t))))"

text \<open>The text \<open>f"denied: {reason}"\<close>, for the textual reasons the governance code gives.\<close>

definition denied_text :: "val \<Rightarrow> val" where
  "denied_text reason = VStr (''denied: '' @ (case reason of VStr s \<Rightarrow> s | _ \<Rightarrow> []))"

definition capability_projector :: "event \<Rightarrow> tool_call_row list \<Rightarrow> tool_call_row list res" where
  "capability_projector ev t =
     (let p = ev_payload ev in
      if ev_type ev = ''CapabilityInvoked''
        then tool_call_insert ev True (getd p ''latency_ms'' (VInt 0)) VNull t
      else if ev_type ev = ''CapabilityFailed''
        then tool_call_insert ev False (getd p ''latency_ms'' (VInt 0)) (getd p ''error'' (VStr [])) t
      else if ev_type ev = ''CapabilityDenied''
        then tool_call_insert ev False (VInt 0) (denied_text (getd p ''reason'' (VStr []))) t
      else Inr t)"

definition on_llm_call_recorded :: "event \<Rightarrow> llm_call_row list \<Rightarrow> llm_call_row list res" where
  "on_llm_call_recorded ev t =
     (let p = ev_payload ev;
          provider = getd p ''provider'' (VStr []);
          model = getd p ''model'' (VStr []);
          ptok = getd p ''prompt_tokens'' (VInt 0);
          ctok = getd p ''completion_tokens'' (VInt 0);
          latency = getd p ''latency_ms'' (VInt 0);
          cost = getd p ''cost'' (VInt 0);
          purpose = py_or (get p ''purpose'') (VStr ''chat'')
      in rbind (bind_params [provider, model, ptok, ctok, latency, cost, get p ''error_message'', purpose])
         (\<lambda>_. rbind (not_null [provider, model])
         (\<lambda>_. Inr (sql_replace lc_id
            \<lparr>lc_id = ''llm_'' @ seq_text ev, lc_provider = provider, lc_model = model,
             lc_prompt_tokens = ptok, lc_completion_tokens = ctok, lc_latency = real_cell latency,
             lc_cost = real_cell cost, lc_success = truthy (getd p ''success'' (VBool True)),
             lc_error = get p ''error_message'', lc_purpose = purpose,
             lc_created_at = ev_ts ev\<rparr> t))))"

definition llm_call_projector :: "event \<Rightarrow> llm_call_row list \<Rightarrow> llm_call_row list res" where
  "llm_call_projector ev t =
     (if ev_type ev = ''LLMCallRecorded'' then on_llm_call_recorded ev t else Inr t)"

section \<open>Inbox mails and timers\<close>

definition on_inbox_email_recorded :: "event \<Rightarrow> inbox_row list \<Rightarrow> inbox_row list res" where
  "on_inbox_email_recorded ev t =
     (let p = ev_payload ev;
          sender = getd p ''sender'' (VStr []);
          subject = getd p ''subject'' (VStr []);
          preview = getd p ''preview'' (VStr []);
          received = getd p ''received_at'' (VStr []);
          category = getd p ''category'' (VStr ''actionable'');
          importance = getd p ''importance'' (VNum (1/2));
          reason = getd p ''reason'' (VStr []);
          created = getd p ''created_at'' (VTime (ev_ts ev))
      in rbind (bind_params [sender, subject, preview, received, category, importance, reason, created])
         (\<lambda>_. Inr (sql_replace ie_id
            \<lparr>ie_id = ev_agg_id ev, ie_sender = sender, ie_subject = subject, ie_preview = preview,
             ie_received_at = received, ie_category = category, ie_importance = real_cell importance,
             ie_reason = reason, ie_notified = False, ie_digested = False,
             ie_status = VStr ''pending'', ie_created_at = created\<rparr> t)))"

definition on_inbox_email_status_changed :: "event \<Rightarrow> inbox_row list \<Rightarrow> inbox_row list res" where
  "on_inbox_email_status_changed ev t =
     (let status = getd (ev_payload ev) ''status'' (VStr ''pending'') in
      rbind (bind_params [status])
        (\<lambda>_. Inr (sql_update (\<lambda>r. ie_id r = ev_agg_id ev) (\<lambda>r. r\<lparr>ie_status := status\<rparr>) t)))"

definition on_inbox_email_flag_set :: "event \<Rightarrow> inbox_row list \<Rightarrow> inbox_row list res" where
  "on_inbox_email_flag_set ev t =
     Inr (if getd (ev_payload ev) ''flag'' (VStr ''notified'') = VStr ''digested''
          then sql_update (\<lambda>r. \<not> ie_digested r) (\<lambda>r. r\<lparr>ie_digested := True\<rparr>) t
          else sql_update (\<lambda>r. ie_id r = ev_agg_id ev) (\<lambda>r. r\<lparr>ie_notified := True\<rparr>) t)"

definition inbox_projector :: "event \<Rightarrow> inbox_row list \<Rightarrow> inbox_row list res" where
  "inbox_projector ev t =
     (if ev_type ev = ''InboxEmailRecorded'' then on_inbox_email_recorded ev t
      else if ev_type ev = ''InboxEmailStatusChanged'' then on_inbox_email_status_changed ev t
      else if ev_type ev = ''InboxEmailFlagSet'' then on_inbox_email_flag_set ev t
      else Inr t)"

definition on_timer_created :: "event \<Rightarrow> timer_row list \<Rightarrow> timer_row list res" where
  "on_timer_created ev t =
     (let p = ev_payload ev;
          handler = getd p ''handler_name'' (VStr []);
          sched = getd p ''schedule_type'' (VStr ''cron'');
          cron = getd p ''cron_expr'' (VStr []);
          fire_at = getd p ''fire_at'' (VStr [])
      in rbind (py_float (getd p ''delay_seconds'' (VInt 0)))
         (\<lambda>delay. rbind (bind_params [handler, sched, cron, fire_at])
         (\<lambda>_. rbind (not_null [handler])
         (\<lambda>_. Inr (sql_replace tm_id
            \<lparr>tm_id = ev_agg_id ev, tm_handler = handler,
             tm_schedule = or_default (VStr ''cron'') sched, tm_cron = or_default (VStr []) cron,
             tm_delay = delay, tm_fire_at = or_default (VStr []) fire_at,
             tm_payload = getd p ''payload'' (VObj []), tm_status = ''active'',
             tm_created_at = ev_ts ev, tm_fired_at = VStr []\<rparr> t)))))"

definition on_timer_fired :: "event \<Rightarrow> timer_row list \<Rightarrow> timer_row list res" where
  "on_timer_fired ev t =
     (let fired = getd (ev_payload ev) ''fired_at'' (VTime (ev_ts ev)) in
      rbind (bind_params [fired])
        (\<lambda>_. sql_update_checked (fired \<noteq> VNull) (\<lambda>r. tm_id r = ev_agg_id ev)
               (\<lambda>r. r\<lparr>tm_status := ''fired'', tm_fired_at := fired\<rparr>) t))"

definition timer_projector :: "event \<Rightarrow> timer_row list \<Rightarrow> timer_row list res" where
  "timer_projector ev t =
     (if ev_type ev = ''TimerCreated'' then on_timer_created ev t
      else if ev_type ev = ''TimerFired'' then on_timer_fired ev t
      else Inr t)"

section \<open>Conversations\<close>

type_synonym chat_tables = "conversation_row list \<times> message_row list"

definition on_conversation_created :: "event \<Rightarrow> chat_tables \<Rightarrow> chat_tables res" where
  "on_conversation_created ev ct =
     (let p = ev_payload ev;
          title = getd p ''title'' (VStr ''New Conversation'');
          created = getd p ''created_at'' (VTime (ev_ts ev))
      in rbind (bind_params [title, get p ''summary'', created])
         (\<lambda>_. Inr (sql_replace cv_id
            \<lparr>cv_id = ev_agg_id ev, cv_title = title, cv_summary = get p ''summary'',
             cv_created_at = created, cv_updated_at = ev_ts ev\<rparr> (fst ct), snd ct)))"

definition on_conversation_updated :: "event \<Rightarrow> chat_tables \<Rightarrow> chat_tables res" where
  "on_conversation_updated ev ct =
     (let p = ev_payload ev in
      rbind (bind_params ((if has ''title'' p then [get p ''title''] else []) @
                          (if has ''summary'' p then [get p ''summary''] else [])))
        (\<lambda>_. Inr (sql_update (\<lambda>r. cv_id r = ev_agg_id ev)
           (\<lambda>r. r\<lparr>cv_updated_at := ev_ts ev,
                  cv_title := (if has ''title'' p then get p ''title'' else cv_title r),
                  cv_summary := (if has ''summary'' p then get p ''summary'' else cv_summary r)\<rparr>)
           (fst ct), snd ct)))"

definition on_conversation_deleted :: "event \<Rightarrow> chat_tables \<Rightarrow> chat_tables res" where
  "on_conversation_deleted ev ct =
     Inr (sql_delete (\<lambda>r. cv_id r = ev_agg_id ev) (fst ct),
          sql_delete (\<lambda>r. ms_conv r = ev_agg_id ev) (snd ct))"

text \<open>A structured \<open>tool_calls\<close> or \<open>sources\<close> value is stored as its JSON text, so no binding
  of it fails; the model keeps the value.\<close>

definition on_message_appended :: "event \<Rightarrow> chat_tables \<Rightarrow> chat_tables res" where
  "on_message_appended ev ct =
     (let p = ev_payload ev;
          mid = py_or (get p ''message_id'') (VStr (ev_id ev));
          role = getd p ''role'' (VStr ''user'');
          content = getd p ''content'' (VStr []);
          created = getd p ''created_at'' (VTime (ev_ts ev))
      in rbind (bind_params [mid, role, content, get p ''tool_call_id'', created])
         (\<lambda>_. rbind (text_cell mid)
         (\<lambda>key. rbind (not_null [role, content])
         (\<lambda>_. if sql_find cv_id (ev_agg_id ev) (fst ct) = None then Inl IntegrityError
              else Inr (sql_update (\<lambda>r. cv_id r = ev_agg_id ev)
                          (\<lambda>r. r\<lparr>cv_updated_at := ev_ts ev\<rparr>) (fst ct),
                        sql_replace ms_id
                          \<lparr>ms_id = key, ms_conv = ev_agg_id ev, ms_role = role, ms_content = content,
                           ms_tool_calls = get p ''tool_calls'',
                           ms_tool_call_id = get p ''tool_call_id'', ms_sources = get p ''sources'',
                           ms_created_at = created, ms_source_event = ev_id ev\<rparr> (snd ct))))))"

definition conversation_projector :: "event \<Rightarrow> chat_tables \<Rightarrow> chat_tables res" where
  "conversation_projector ev ct =
     (if ev_type ev = ''ConversationCreated'' then on_conversation_created ev ct
      else if ev_type ev = ''ConversationUpdated'' then on_conversation_updated ev ct
      else if ev_type ev = ''ConversationDeleted'' then on_conversation_deleted ev ct
      else if ev_type ev = ''MessageAppended'' then on_message_appended ev ct
      else Inr ct)"

section \<open>Executions\<close>

definition policy_json :: "dict \<Rightarrow> dict" where
  "policy_json policy =
     [(''timeout'', getd policy ''timeout'' (VNum 30)),
      (''max_retries'', getd policy ''max_retries'' (VInt 3)),
      (''retry_delay'', getd policy ''retry_delay'' (VNum 5))]"

definition on_execution_requested :: "event \<Rightarrow> handler_row list \<Rightarrow> handler_row list res" where
  "on_execution_requested ev t =
     (let p = ev_payload ev in
      case py_or (get p ''policy'') (VObj []) of
        VObj policy \<Rightarrow>
          rbind (py_int (getd p ''event_seq'' (VInt 0))) (\<lambda>eseq.
          rbind (text_cell (getd p ''trigger_event_id'' (VStr []))) (\<lambda>eid.
          rbind (text_cell (getd p ''trigger_event_type'' (VStr []))) (\<lambda>ety.
          rbind (text_cell (getd p ''handler_name'' (VStr []))) (\<lambda>hn.
          rbind (text_cell (getd p ''instance_id'' (VStr []))) (\<lambda>inst.
          rbind (text_cell (or_default (VStr []) (getd p ''correlation_id'' (VStr [])))) (\<lambda>corr.
          rbind (stamp_cell (getd p ''created_at'' (VTime (ev_ts ev)))) (\<lambda>created.
            Inr (sql_replace he_id
              \<lparr>he_id = ev_agg_id ev, he_event_seq = eseq, he_event_id = eid, he_event_type = ety,
               he_handler_name = hn, he_instance_id = inst, he_status = ''pending'',
               he_retry_count = 0, he_policy = policy_json policy, he_corr = corr,
               he_created_at = created, he_started_at = NoTime, he_completed_at = NoTime,
               he_error = [], he_dead_letter = False\<rparr> t))))))))
      | _ \<Rightarrow> Inl TypeError)"

definition on_execution_started :: "event \<Rightarrow> handler_row list \<Rightarrow> handler_row list res" where
  "on_execution_started ev t =
     rbind (stamp_cell (getd (ev_payload ev) ''started_at'' (VTime (ev_ts ev))))
       (\<lambda>st. Inr (sql_update (\<lambda>r. he_id r = ev_agg_id ev)
          (\<lambda>r. r\<lparr>he_status := ''running'', he_started_at := st, he_dead_letter := False\<rparr>) t))"

definition on_execution_retried :: "event \<Rightarrow> handler_row list \<Rightarrow> handler_row list res" where
  "on_execution_retried ev t =
     (let p = ev_payload ev in
      rbind (text_cell (getd p ''status'' (VStr ''retrying''))) (\<lambda>status.
      rbind (py_int (getd p ''attempt'' (VInt 0))) (\<lambda>attempt.
      rbind (text_cell (getd p ''reason'' (VStr []))) (\<lambda>reason.
        Inr (sql_update (\<lambda>r. he_id r = ev_agg_id ev)
          (\<lambda>r. r\<lparr>he_status := status, he_retry_count := attempt, he_error := reason,
                 he_dead_letter := False\<rparr>) t)))))"

definition on_execution_completed :: "event \<Rightarrow> handler_row list \<Rightarrow> handler_row list res" where
  "on_execution_completed ev t =
     rbind (stamp_cell (getd (ev_payload ev) ''completed_at'' (VTime (ev_ts ev))))
       (\<lambda>st. Inr (sql_update (\<lambda>r. he_id r = ev_agg_id ev)
          (\<lambda>r. r\<lparr>he_status := ''completed'', he_completed_at := st, he_error := [],
                 he_dead_letter := False\<rparr>) t))"

definition on_execution_failed :: "event \<Rightarrow> handler_row list \<Rightarrow> handler_row list res" where
  "on_execution_failed ev t =
     (let p = ev_payload ev in
      rbind (stamp_cell (getd p ''failed_at'' (VTime (ev_ts ev)))) (\<lambda>st.
      rbind (text_cell (getd p ''error'' (VStr []))) (\<lambda>er.
      rbind (py_int (getd p ''attempt'' (VInt 0))) (\<lambda>attempt.
        Inr (sql_update (\<lambda>r. he_id r = ev_agg_id ev)
          (\<lambda>r. r\<lparr>he_status := ''failed'', he_completed_at := st, he_error := er,
                 he_retry_count := attempt, he_dead_letter := truthy (get p ''dead_letter'')\<rparr>) t)))))"

definition execution_projector :: "event \<Rightarrow> handler_row list \<Rightarrow> handler_row list res" where
  "execution_projector ev t =
     (if ev_type ev = ''ExecutionRequested'' then on_execution_requested ev t
      else if ev_type ev = ''ExecutionStarted'' then on_execution_started ev t
      else if ev_type ev = ''ExecutionRetried'' then on_execution_retried ev t
      else if ev_type ev = ''ExecutionCompleted'' then on_execution_completed ev t
      else if ev_type ev = ''ExecutionFailed'' then on_execution_failed ev t
      else Inr t)"

end
