(* ===== verification/Projection.thy ===== *)
theory Projection
  imports Proj_Other
begin

text \<open>
  The projector registry (\<open>kernel/projectors_registry.py\<close>: \<open>apply\<close>, \<open>_OWNED_TABLES\<close>) and what makes
  the projections disposable: a projector reads and writes only the tables of its own aggregate,
  so replaying the events of one aggregate over cleared tables gives exactly the rows that the
  full history left there.

  The contract is the locale \<open>projection_family\<close>; the interpretation on the code's twelve
  aggregates discharges it, and the replay theorems come out of the locale.
\<close>

section \<open>The interface of a family of projections\<close>

locale projection_family =
  fixes step :: "'a \<Rightarrow> 'e \<Rightarrow> 'd \<Rightarrow> 'd res"
    and owner :: "'e \<Rightarrow> 'a option"
    and agree :: "'a \<Rightarrow> 'd \<Rightarrow> 'd \<Rightarrow> bool"
    and wipe :: "'a \<Rightarrow> 'd \<Rightarrow> 'd"
  assumes agree_refl: "agree a d d"
    and agree_sym: "agree a d d' \<Longrightarrow> agree a d' d"
    and agree_trans: "agree a d d' \<Longrightarrow> agree a d' d'' \<Longrightarrow> agree a d d''"
    and agree_ext: "(\<And>a. agree a d d') \<Longrightarrow> d = d'"
    and step_local: "agree a d1 d2 \<Longrightarrow> step a e d1 = Inr d1' \<Longrightarrow>
          \<exists>d2'. step a e d2 = Inr d2' \<and> agree a d1' d2'"
    and step_frame: "step a e d = Inr d' \<Longrightarrow> b \<noteq> a \<Longrightarrow> agree b d d'"
    and wipe_frame: "b \<noteq> a \<Longrightarrow> agree b (wipe a d) d"
    and wipe_same: "agree a (wipe a d) (wipe a d')"
begin

definition project :: "'d \<Rightarrow> 'e \<Rightarrow> 'd res" where
  "project d e = (case owner e of None \<Rightarrow> Inr d | Some a \<Rightarrow> step a e d)"

definition replay :: "'d \<Rightarrow> 'e list \<Rightarrow> 'd res" where
  "replay d es = foldM project d es"

lemma project_other: "project d e = Inr d' \<Longrightarrow> owner e \<noteq> Some a \<Longrightarrow> agree a d d'"
  unfolding project_def
  by (cases "owner e") (auto intro: agree_refl step_frame)

lemma project_local:
  assumes "agree a d1 d2" and "project d1 e = Inr d1'" and "owner e = Some a \<or> owner e = None"
  shows "\<exists>d2'. project d2 e = Inr d2' \<and> agree a d1' d2'"
  using assms step_local unfolding project_def by (cases "owner e") auto

lemma replay_frame:
  assumes "replay d es = Inr d'" and "\<forall>e \<in> set es. owner e \<noteq> Some b"
  shows "agree b d d'"
  using assms unfolding replay_def
proof (induction es arbitrary: d)
  case Nil
  then show ?case by (simp add: agree_refl)
next
  case (Cons e es)
  then obtain d1 where d1: "project d e = Inr d1" "foldM project d1 es = Inr d'" by auto
  with Cons.prems(2) have "agree b d d1" by (auto intro: project_other)
  moreover have "agree b d1 d'" using Cons.IH [OF d1(2)] Cons.prems(2) by simp
  ultimately show ?case by (rule agree_trans)
qed

text \<open>Keeping only the events of one aggregate (with any events nobody owns) does not change what
  that aggregate's tables become.\<close>

lemma replay_filter:
  assumes "replay d es = Inr d'" and "agree a d c"
    and "\<And>e. e \<in> set es \<Longrightarrow> owner e = Some a \<Longrightarrow> keep e"
    and "\<And>e. e \<in> set es \<Longrightarrow> keep e \<Longrightarrow> owner e = Some a \<or> owner e = None"
  shows "\<exists>c'. replay c (filter keep es) = Inr c' \<and> agree a d' c'"
  using assms unfolding replay_def
proof (induction es arbitrary: d c)
  case Nil
  then show ?case by simp
next
  case (Cons e es)
  from Cons.prems(1) obtain d1 where d1: "project d e = Inr d1" "foldM project d1 es = Inr d'"
    by auto
  show ?case
  proof (cases "keep e")
    case True
    with Cons.prems(4) [of e] have own: "owner e = Some a \<or> owner e = None" by simp
    from project_local [OF Cons.prems(2) d1(1) own] obtain c1
      where c1: "project c e = Inr c1" "agree a d1 c1" by blast
    from Cons.IH [OF d1(2) c1(2)] Cons.prems(3,4) obtain c'
      where "foldM project c1 (filter keep es) = Inr c'" "agree a d' c'" by auto
    with True c1 show ?thesis by auto
  next
    case False
    with Cons.prems(3) [of e] have "owner e \<noteq> Some a" by auto
    then have "agree a d1 c"
      using project_other [OF d1(1)] Cons.prems(2) by (blast intro: agree_sym agree_trans)
    from Cons.IH [OF d1(2) this] Cons.prems(3,4) False show ?thesis by auto
  qed
qed

theorem rebuild_restores:
  assumes full: "replay d0 es = Inr d"
    and start: "\<And>a. agree a d0 (wipe a d)"
    and in_scope: "\<And>e. e \<in> set es \<Longrightarrow> owner e = Some a \<Longrightarrow> keep e"
    and out_scope: "\<And>e. e \<in> set es \<Longrightarrow> keep e \<Longrightarrow> owner e = Some a \<or> owner e = None"
  shows "replay (wipe a d) (filter keep es) = Inr d"
proof -
  have "\<exists>d'. replay (wipe a d) (filter keep es) = Inr d' \<and> agree a d d'"
    by (rule replay_filter [OF full start]) (use in_scope out_scope in auto)
  then obtain d' where d': "replay (wipe a d) (filter keep es) = Inr d'" "agree a d d'" by blast
  have "agree b d' d" for b
  proof (cases "b = a")
    case True
    with d'(2) show ?thesis by (simp add: agree_sym)
  next
    case False
    have "\<forall>e \<in> set (filter keep es). owner e \<noteq> Some b"
      using out_scope False by fastforce
    from replay_frame [OF d'(1) this] have "agree b (wipe a d) d'" .
    with wipe_frame [OF False, of d] show ?thesis by (blast intro: agree_sym agree_trans)
  qed
  then have "d' = d" by (rule agree_ext)
  with d'(1) show ?thesis by simp
qed

text \<open>A checkpoint: tables as some earlier replay of the aggregate left them, then only the
  events after it.\<close>

theorem checkpoint_restores:
  assumes full: "replay (wipe a d) (es1 @ es2) = Inr d"
    and own: "\<And>e. e \<in> set (es1 @ es2) \<Longrightarrow> owner e = Some a \<or> owner e = None"
    and mid: "replay d0 es1 = Inr dx" and start: "agree a d0 (wipe a d)"
    and c: "agree a dx c" and c_other: "\<And>b. b \<noteq> a \<Longrightarrow> agree b d c"
  shows "replay c es2 = Inr d"
proof -
  from full obtain d1 where d1: "replay (wipe a d) es1 = Inr d1" "replay d1 es2 = Inr d"
    by (auto simp: replay_def foldM_append)
  have "\<exists>d2. replay d0 (filter (\<lambda>_. True) es1) = Inr d2 \<and> agree a d1 d2"
    by (rule replay_filter [OF d1(1) agree_sym [OF start]]) (use own in auto)
  with mid have "agree a d1 dx" by auto
  with c have "agree a d1 c" by (blast intro: agree_trans)
  have "\<exists>d'. replay c (filter (\<lambda>_. True) es2) = Inr d' \<and> agree a d d'"
    by (rule replay_filter [OF d1(2) \<open>agree a d1 c\<close>]) (use own in auto)
  then obtain d' where d': "replay c es2 = Inr d'" "agree a d d'" by auto
  have "agree b d' d" for b
  proof (cases "b = a")
    case True
    with d'(2) show ?thesis by (simp add: agree_sym)
  next
    case False
    have "\<forall>e \<in> set es2. owner e \<noteq> Some b" using own False by fastforce
    from replay_frame [OF d'(1) this] have "agree b c d'" .
    with c_other [OF False] show ?thesis by (blast intro: agree_sym agree_trans)
  qed
  then have "d' = d" by (rule agree_ext)
  with d'(1) show ?thesis by simp
qed

text \<open>Rebuilding the aggregates one after the other.\<close>

definition rebuild_one :: "('a \<Rightarrow> 'e \<Rightarrow> bool) \<Rightarrow> 'e list \<Rightarrow> 'd \<Rightarrow> 'a \<Rightarrow> 'd res" where
  "rebuild_one keep es d a = replay (wipe a d) (filter (keep a) es)"

lemma rebuild_one_step:
  assumes full: "replay d0 es = Inr d" and start: "\<And>a x. agree a d0 (wipe a x)"
    and in_scope: "\<And>e. e \<in> set es \<Longrightarrow> owner e = Some a \<Longrightarrow> keep a e"
    and out_scope: "\<And>e. e \<in> set es \<Longrightarrow> keep a e \<Longrightarrow> owner e = Some a \<or> owner e = None"
  shows "\<exists>c'. rebuild_one keep es c a = Inr c' \<and> agree a d c' \<and> (\<forall>b. b \<noteq> a \<longrightarrow> agree b c c')"
proof -
  have "\<exists>c'. replay (wipe a c) (filter (keep a) es) = Inr c' \<and> agree a d c'"
    by (rule replay_filter [OF full start]) (use in_scope out_scope in auto)
  then obtain c' where c': "replay (wipe a c) (filter (keep a) es) = Inr c'" "agree a d c'"
    by blast
  have "agree b c c'" if "b \<noteq> a" for b
  proof -
    have "\<forall>e \<in> set (filter (keep a) es). owner e \<noteq> Some b" using out_scope that by fastforce
    from replay_frame [OF c'(1) this] wipe_frame [OF that, of c] show ?thesis
      by (blast intro: agree_sym agree_trans)
  qed
  with c' show ?thesis by (auto simp: rebuild_one_def)
qed

theorem rebuild_each:
  assumes full: "replay d0 es = Inr d" and start: "\<And>a x. agree a d0 (wipe a x)"
    and in_scope: "\<And>a e. e \<in> set es \<Longrightarrow> owner e = Some a \<Longrightarrow> keep a e"
    and out_scope: "\<And>a e. e \<in> set es \<Longrightarrow> keep a e \<Longrightarrow> owner e = Some a \<or> owner e = None"
  shows "\<exists>c'. foldM (rebuild_one keep es) c as = Inr c' \<and> (\<forall>a \<in> set as. agree a d c') \<and>
           (\<forall>a. a \<notin> set as \<longrightarrow> agree a c c')"
proof (induction as arbitrary: c)
  case Nil
  then show ?case by (simp add: agree_refl)
next
  case (Cons a as)
  have "\<exists>c1. rebuild_one keep es c a = Inr c1 \<and> agree a d c1 \<and> (\<forall>b. b \<noteq> a \<longrightarrow> agree b c c1)"
    by (rule rebuild_one_step [OF full start]) (use in_scope out_scope in auto)
  then obtain c1 where c1: "rebuild_one keep es c a = Inr c1" "agree a d c1"
    "\<And>b. b \<noteq> a \<Longrightarrow> agree b c c1" by blast
  from Cons.IH [of c1] obtain c' where c': "foldM (rebuild_one keep es) c1 as = Inr c'"
    "\<And>a. a \<in> set as \<Longrightarrow> agree a d c'" "\<And>a. a \<notin> set as \<Longrightarrow> agree a c1 c'" by blast
  have "agree a d c'"
    using c1(2) c'(2,3) by (cases "a \<in> set as") (auto intro: agree_trans)
  moreover have "agree b c c'" if "b \<notin> set (a # as)" for b
    using that c1(3) [of b] c'(3) [of b] by (auto intro: agree_trans)
  ultimately show ?case using c1(1) c'(1,2) by auto
qed

corollary rebuild_all_restores:
  assumes full: "replay d0 es = Inr d" and start: "\<And>a x. agree a d0 (wipe a x)"
    and in_scope: "\<And>a e. e \<in> set es \<Longrightarrow> owner e = Some a \<Longrightarrow> keep a e"
    and out_scope: "\<And>a e. e \<in> set es \<Longrightarrow> keep a e \<Longrightarrow> owner e = Some a \<or> owner e = None"
    and all: "\<And>a. a \<in> set as"
  shows "foldM (rebuild_one keep es) c as = Inr d"
proof -
  have "\<exists>c'. foldM (rebuild_one keep es) c as = Inr c' \<and> (\<forall>a \<in> set as. agree a d c') \<and>
           (\<forall>a. a \<notin> set as \<longrightarrow> agree a c c')"
    by (rule rebuild_each [OF full start]) (use in_scope out_scope in auto)
  with all obtain c' where c': "foldM (rebuild_one keep es) c as = Inr c'" "\<And>a. agree a d c'"
    by auto
  from c'(2) have "d = c'" by (rule agree_ext)
  with c'(1) show ?thesis by simp
qed

end

section \<open>The registry of the code\<close>

datatype aggregate = Approval | Memory | WorkItem | UserProfile | Notification | Policy
  | Capability | LlmCall | InboxEmail | Timer | Conversation | Execution

fun agg_name :: "aggregate \<Rightarrow> string" where
  "agg_name Approval = ''approval''"
| "agg_name Memory = ''memory''"
| "agg_name WorkItem = ''work_item''"
| "agg_name UserProfile = ''user_profile''"
| "agg_name Notification = ''notification''"
| "agg_name Policy = ''policy''"
| "agg_name Capability = ''capability''"
| "agg_name LlmCall = ''llm_call''"
| "agg_name InboxEmail = ''inbox_email''"
| "agg_name Timer = ''timer''"
| "agg_name Conversation = ''conversation''"
| "agg_name Execution = ''execution''"

text \<open>The insertion order of \<open>_OWNED_TABLES\<close>: the modules are imported in the order chat, core,
  execution, governance, inbox.\<close>

definition registered_aggregates :: "aggregate list" where
  "registered_aggregates = [Conversation, Approval, Memory, WorkItem, UserProfile, Notification,
     Execution, Policy, Capability, LlmCall, InboxEmail, Timer]"

text \<open>\<open>_HANDLERS\<close>: which module's projector an event type is registered with.\<close>

definition handler_table :: "(string \<times> aggregate) list" where
  "handler_table =
     map (\<lambda>t. (t, Approval)) [''ApprovalRequested'', ''ApprovalGranted'', ''ApprovalDenied''] @
     map (\<lambda>t. (t, Memory)) [''MemoryDerived'', ''MemoryDecayed'', ''MemoryUpdated'', ''MemoryDeleted'',
       ''ClaimRatified'', ''ClaimRejected'', ''ClaimContested''] @
     map (\<lambda>t. (t, WorkItem)) [''WorkItemCreated'', ''WorkItemUpdated'', ''WorkItemStatusChanged'',
       ''WorkItemDeleted''] @
     map (\<lambda>t. (t, UserProfile)) [''UserProfileUpdated''] @
     map (\<lambda>t. (t, Notification)) [''NotificationCreated'', ''NotificationUpdated'', ''NotificationRead''] @
     map (\<lambda>t. (t, Policy)) [''PolicyCreated'', ''PolicyUpdated''] @
     map (\<lambda>t. (t, Capability)) [''CapabilityInvoked'', ''CapabilityFailed'', ''CapabilityDenied''] @
     map (\<lambda>t. (t, LlmCall)) [''LLMCallRecorded''] @
     map (\<lambda>t. (t, InboxEmail)) [''InboxEmailRecorded'', ''InboxEmailStatusChanged'',
       ''InboxEmailFlagSet''] @
     map (\<lambda>t. (t, Timer)) [''TimerCreated'', ''TimerFired''] @
     map (\<lambda>t. (t, Conversation)) [''ConversationCreated'', ''ConversationUpdated'',
       ''ConversationDeleted'', ''MessageAppended''] @
     map (\<lambda>t. (t, Execution)) [''ExecutionRequested'', ''ExecutionStarted'', ''ExecutionRetried'',
       ''ExecutionCompleted'', ''ExecutionFailed'']"

definition event_owner :: "event \<Rightarrow> aggregate option" where
  "event_owner ev = map_of handler_table (ev_type ev)"

fun run_projector :: "aggregate \<Rightarrow> event \<Rightarrow> db \<Rightarrow> db res" where
  "run_projector Approval ev d =
     rbind (approval_projector ev (t_approvals d)) (\<lambda>t. Inr (d\<lparr>t_approvals := t\<rparr>))"
| "run_projector Memory ev d =
     rbind (memory_projector ev (t_memories d)) (\<lambda>t. Inr (d\<lparr>t_memories := t\<rparr>))"
| "run_projector WorkItem ev d =
     rbind (work_item_projector ev (t_work_items d)) (\<lambda>t. Inr (d\<lparr>t_work_items := t\<rparr>))"
| "run_projector UserProfile ev d =
     rbind (user_profile_projector ev (t_user_profile d)) (\<lambda>t. Inr (d\<lparr>t_user_profile := t\<rparr>))"
| "run_projector Notification ev d =
     rbind (notification_projector ev (t_notifications d)) (\<lambda>t. Inr (d\<lparr>t_notifications := t\<rparr>))"
| "run_projector Policy ev d =
     rbind (policy_projector ev (t_policy_events d)) (\<lambda>t. Inr (d\<lparr>t_policy_events := t\<rparr>))"
| "run_projector Capability ev d =
     rbind (capability_projector ev (t_tool_calls d)) (\<lambda>t. Inr (d\<lparr>t_tool_calls := t\<rparr>))"
| "run_projector LlmCall ev d =
     rbind (llm_call_projector ev (t_llm_calls d)) (\<lambda>t. Inr (d\<lparr>t_llm_calls := t\<rparr>))"
| "run_projector InboxEmail ev d =
     rbind (inbox_projector ev (t_inbox_emails d)) (\<lambda>t. Inr (d\<lparr>t_inbox_emails := t\<rparr>))"
| "run_projector Timer ev d =
     rbind (timer_projector ev (t_timer_events d)) (\<lambda>t. Inr (d\<lparr>t_timer_events := t\<rparr>))"
| "run_projector Conversation ev d =
     rbind (conversation_projector ev (t_conversations d, t_messages d))
       (\<lambda>(c, m). Inr (d\<lparr>t_conversations := c, t_messages := m\<rparr>))"
| "run_projector Execution ev d =
     rbind (execution_projector ev (t_handler_executions d))
       (\<lambda>t. Inr (d\<lparr>t_handler_executions := t\<rparr>))"

text \<open>\<open>projectors_registry.apply\<close>.\<close>

definition apply_event :: "db \<Rightarrow> event \<Rightarrow> db res" where
  "apply_event d ev = (case event_owner ev of None \<Rightarrow> Inr d | Some a \<Rightarrow> run_projector a ev d)"

text \<open>\<open>DELETE FROM\<close> the tables of one aggregate.\<close>

fun clear_owned :: "aggregate \<Rightarrow> db \<Rightarrow> db" where
  "clear_owned Approval d = d\<lparr>t_approvals := []\<rparr>"
| "clear_owned Memory d = d\<lparr>t_memories := []\<rparr>"
| "clear_owned WorkItem d = d\<lparr>t_work_items := []\<rparr>"
| "clear_owned UserProfile d = d\<lparr>t_user_profile := []\<rparr>"
| "clear_owned Notification d = d\<lparr>t_notifications := []\<rparr>"
| "clear_owned Policy d = d\<lparr>t_policy_events := []\<rparr>"
| "clear_owned Capability d = d\<lparr>t_tool_calls := []\<rparr>"
| "clear_owned LlmCall d = d\<lparr>t_llm_calls := []\<rparr>"
| "clear_owned InboxEmail d = d\<lparr>t_inbox_emails := []\<rparr>"
| "clear_owned Timer d = d\<lparr>t_timer_events := []\<rparr>"
| "clear_owned Conversation d = d\<lparr>t_conversations := [], t_messages := []\<rparr>"
| "clear_owned Execution d = d\<lparr>t_handler_executions := []\<rparr>"

fun same_owned :: "aggregate \<Rightarrow> db \<Rightarrow> db \<Rightarrow> bool" where
  "same_owned Approval d d' = (t_approvals d = t_approvals d')"
| "same_owned Memory d d' = (t_memories d = t_memories d')"
| "same_owned WorkItem d d' = (t_work_items d = t_work_items d')"
| "same_owned UserProfile d d' = (t_user_profile d = t_user_profile d')"
| "same_owned Notification d d' = (t_notifications d = t_notifications d')"
| "same_owned Policy d d' = (t_policy_events d = t_policy_events d')"
| "same_owned Capability d d' = (t_tool_calls d = t_tool_calls d')"
| "same_owned LlmCall d d' = (t_llm_calls d = t_llm_calls d')"
| "same_owned InboxEmail d d' = (t_inbox_emails d = t_inbox_emails d')"
| "same_owned Timer d d' = (t_timer_events d = t_timer_events d')"
| "same_owned Conversation d d' =
     (t_conversations d = t_conversations d' \<and> t_messages d = t_messages d')"
| "same_owned Execution d d' = (t_handler_executions d = t_handler_executions d')"

lemma same_owned_ext:
  assumes same: "\<And>a. same_owned a d d'"
  shows "d = d'"
  using same [of Approval] same [of Memory] same [of WorkItem] same [of UserProfile]
    same [of Notification] same [of Policy] same [of Capability] same [of LlmCall]
    same [of InboxEmail] same [of Timer] same [of Conversation] same [of Execution]
  by (cases d; cases d') simp

lemma run_projector_local:
  "same_owned a d1 d2 \<Longrightarrow> run_projector a e d1 = Inr d1' \<Longrightarrow>
     \<exists>d2'. run_projector a e d2 = Inr d2' \<and> same_owned a d1' d2'"
  by (cases a) auto

lemma run_projector_frame:
  "run_projector a e d = Inr d' \<Longrightarrow> b \<noteq> a \<Longrightarrow> same_owned b d d'"
  by (cases a; cases b) auto

lemma clear_owned_frame: "b \<noteq> a \<Longrightarrow> same_owned b (clear_owned a d) d"
  by (cases a; cases b) auto

lemma clear_owned_same: "same_owned a (clear_owned a d) (clear_owned a d')"
  by (cases a) auto

interpretation pf: projection_family run_projector event_owner same_owned clear_owned
proof unfold_locales
  show "same_owned a d d" for a d by (cases a) auto
  show "same_owned a d d' \<Longrightarrow> same_owned a d' d" for a d d' by (cases a) auto
  show "same_owned a d d' \<Longrightarrow> same_owned a d' d'' \<Longrightarrow> same_owned a d d''" for a d d' d''
    by (cases a) auto
qed (fact same_owned_ext run_projector_local run_projector_frame clear_owned_frame clear_owned_same)+

lemma apply_event_project: "apply_event = pf.project"
  by (intro ext) (simp add: apply_event_def pf.project_def)

lemma clear_owned_empty: "same_owned a empty_db (clear_owned a d)"
  by (cases a) (auto simp: empty_db_def)

lemma handler_of [simp]:
  "map_of handler_table ''ApprovalRequested'' = Some Approval"
  "map_of handler_table ''ApprovalGranted'' = Some Approval"
  "map_of handler_table ''ApprovalDenied'' = Some Approval"
  "map_of handler_table ''MemoryDerived'' = Some Memory"
  "map_of handler_table ''MemoryDecayed'' = Some Memory"
  "map_of handler_table ''MemoryUpdated'' = Some Memory"
  "map_of handler_table ''MemoryDeleted'' = Some Memory"
  "map_of handler_table ''ClaimRatified'' = Some Memory"
  "map_of handler_table ''ClaimRejected'' = Some Memory"
  "map_of handler_table ''ClaimContested'' = Some Memory"
  "map_of handler_table ''WorkItemCreated'' = Some WorkItem"
  "map_of handler_table ''WorkItemUpdated'' = Some WorkItem"
  "map_of handler_table ''WorkItemStatusChanged'' = Some WorkItem"
  "map_of handler_table ''WorkItemDeleted'' = Some WorkItem"
  "map_of handler_table ''PolicyCreated'' = Some Policy"
  "map_of handler_table ''PolicyUpdated'' = Some Policy"
  "map_of handler_table ''CapabilityInvoked'' = Some Capability"
  "map_of handler_table ''CapabilityFailed'' = Some Capability"
  "map_of handler_table ''CapabilityDenied'' = Some Capability"
  "map_of handler_table ''TimerCreated'' = Some Timer"
  "map_of handler_table ''TimerFired'' = Some Timer"
  "map_of handler_table ''NotificationCreated'' = Some Notification"
  "map_of handler_table ''ExecutionRequested'' = Some Execution"
  "map_of handler_table ''ExecutionStarted'' = Some Execution"
  "map_of handler_table ''ExecutionRetried'' = Some Execution"
  "map_of handler_table ''ExecutionCompleted'' = Some Execution"
  "map_of handler_table ''ExecutionFailed'' = Some Execution"
  by code_simp+

text \<open>Events go where the registry sends them: an event whose type has a projector is logged under
  the aggregate type that owns the projector's table.\<close>

definition well_routed :: "event \<Rightarrow> bool" where
  "well_routed ev \<longleftrightarrow>
     (case event_owner ev of None \<Rightarrow> True | Some a \<Rightarrow> ev_agg_type ev = agg_name a)"

lemma agg_name_inj: "agg_name a = agg_name b \<Longrightarrow> a = b"
  by (cases a; cases b) auto

lemma well_routed_scope:
  "well_routed ev \<Longrightarrow> event_owner ev = Some a \<Longrightarrow> ev_agg_type ev = agg_name a"
  "well_routed ev \<Longrightarrow> ev_agg_type ev = agg_name a \<Longrightarrow> event_owner ev = Some a \<or> event_owner ev = None"
  by (auto simp: well_routed_def split: option.splits dest: agg_name_inj)

end
