(* ===== verification/Proj_Inv.thy ===== *)
theory Proj_Inv
  imports Projection
begin

text \<open>
  What every projector keeps of the store: at most one row per primary key in each table, and the
  unique partial index on the deduplication key of the notifications. Both follow from the form
  of the statements, so the proofs are the lemmas \<open>keyed_replace\<close>, \<open>keyed_update\<close> and
  \<open>keyed_delete\<close> applied table by table.
\<close>

section \<open>Rows keep their key\<close>

lemma set_present_keeps:
  assumes "\<And>k f v r. (k, f) \<in> set cols \<Longrightarrow> key (f v r) = key r"
  shows "key (set_present cols p r) = key r"
proof -
  have "\<forall>(k, f) \<in> set fs. \<forall>v r. key (f v r) = key r \<Longrightarrow> key (fold (\<lambda>(k, f) r. f (get p k) r) fs r) = key r"
    for fs :: "(string \<times> (val \<Rightarrow> 'a \<Rightarrow> 'a)) list"
    by (induction fs arbitrary: r) auto
  from this [of "present cols p"] show ?thesis
    using assms by (auto simp: set_present_def present_def)
qed

lemma memory_cols_key: "m_id (set_present memory_cols p r) = m_id r"
  by (rule set_present_keeps) (auto simp: memory_cols_def)

lemma work_cols_key: "w_id (set_present work_cols p r) = w_id r"
  by (rule set_present_keeps) (auto simp: work_cols_def)

lemmas keyed_intros = keyed_replace keyed_update keyed_delete

lemma keyed_update_checked:
  "sql_update_checked ok P f t = Inr t' \<Longrightarrow> keyed key t \<Longrightarrow> (\<And>r. key (f r) = key r) \<Longrightarrow> keyed key t'"
  by (auto dest!: sql_update_checked_Inr intro: keyed_update)

lemma keyed_append_new: "keyed key t \<Longrightarrow> sql_find key (key r) t = None \<Longrightarrow> keyed key (t @ [r])"
  by (auto simp: keyed_def sql_find_None_iff)

lemma keyed_upsert:
  "keyed key t \<Longrightarrow> key r = k \<Longrightarrow> (\<And>r. key (f r) = key r) \<Longrightarrow>
     keyed key (case sql_find key k t of None \<Rightarrow> t @ [r] | Some _ \<Rightarrow> sql_update P f t)"
  by (auto split: option.splits intro: keyed_update keyed_append_new)

section \<open>Table by table\<close>

lemma approval_keyed:
  "approval_projector ev t = Inr t' \<Longrightarrow> keyed ap_id t \<Longrightarrow> keyed ap_id t'"
  by (auto simp: approval_projector_def on_approval_requested_def on_approval_granted_def
      on_approval_denied_def Let_def split: if_splits val.splits intro!: keyed_intros)

lemma memory_keyed: "memory_projector ev t = Inr t' \<Longrightarrow> keyed m_id t \<Longrightarrow> keyed m_id t'"
  by (auto simp: memory_projector_def on_memory_derived_def on_memory_decayed_def
      on_memory_updated_def on_memory_deleted_def set_claim_status_if_claim_def Let_def memory_cols_key
      split: if_splits option.splits intro!: keyed_intros elim!: keyed_update_checked)

lemma recalculate_keyed:
  "keyed w_id t \<Longrightarrow> keyed w_id (recalculate_parent_goal_progress c ts h t)"
  by (auto simp: recalculate_parent_goal_progress_def Let_def split: val.splits option.splits
      intro!: keyed_intros)

lemma work_item_keyed: "work_item_projector ev t = Inr t' \<Longrightarrow> keyed w_id t \<Longrightarrow> keyed w_id t'"
  by (auto simp: work_item_projector_def on_work_item_created_def on_work_item_updated_def
      on_work_item_status_changed_def on_work_item_deleted_def Let_def work_cols_key
      split: if_splits option.splits intro!: recalculate_keyed keyed_intros
      elim!: keyed_update_checked)

lemma user_profile_keyed:
  "user_profile_projector ev t = Inr t' \<Longrightarrow> keyed pr_id t \<Longrightarrow> keyed pr_id t'"
  by (auto simp: user_profile_projector_def on_user_profile_updated_def
      split: if_splits intro!: keyed_upsert)

lemma notification_keyed:
  "notification_projector ev t = Inr t' \<Longrightarrow> keyed n_id t \<Longrightarrow> keyed n_id t'"
  by (auto simp: notification_projector_def on_notification_created_def
      on_notification_updated_def on_notification_read_def Let_def
      split: if_splits intro!: keyed_intros keyed_append_new elim!: keyed_update_checked)

lemma policy_keyed: "policy_projector ev t = Inr t' \<Longrightarrow> keyed po_id t \<Longrightarrow> keyed po_id t'"
  by (auto simp: policy_projector_def on_policy_created_def on_policy_updated_def Let_def
      split: if_splits intro!: keyed_intros elim!: keyed_update_checked)

lemma capability_keyed: "capability_projector ev t = Inr t' \<Longrightarrow> keyed tc_id t \<Longrightarrow> keyed tc_id t'"
  by (auto simp: capability_projector_def tool_call_insert_def Let_def
      split: if_splits intro!: keyed_intros)

lemma llm_call_keyed: "llm_call_projector ev t = Inr t' \<Longrightarrow> keyed lc_id t \<Longrightarrow> keyed lc_id t'"
  by (auto simp: llm_call_projector_def on_llm_call_recorded_def Let_def
      split: if_splits intro!: keyed_intros)

lemma inbox_keyed: "inbox_projector ev t = Inr t' \<Longrightarrow> keyed ie_id t \<Longrightarrow> keyed ie_id t'"
  by (auto simp: inbox_projector_def on_inbox_email_recorded_def on_inbox_email_status_changed_def
      on_inbox_email_flag_set_def Let_def split: if_splits intro!: keyed_intros)

lemma timer_keyed: "timer_projector ev t = Inr t' \<Longrightarrow> keyed tm_id t \<Longrightarrow> keyed tm_id t'"
  by (auto simp: timer_projector_def on_timer_created_def on_timer_fired_def Let_def
      split: if_splits intro!: keyed_intros elim!: keyed_update_checked)

lemma conversation_keyed:
  "conversation_projector ev (c, m) = Inr (c', m') \<Longrightarrow> keyed cv_id c \<and> keyed ms_id m \<Longrightarrow>
     keyed cv_id c' \<and> keyed ms_id m'"
  by (auto simp: conversation_projector_def on_conversation_created_def
      on_conversation_updated_def on_conversation_deleted_def on_message_appended_def Let_def
      split: if_splits intro!: keyed_intros)

lemma execution_keyed: "execution_projector ev t = Inr t' \<Longrightarrow> keyed he_id t \<Longrightarrow> keyed he_id t'"
  by (auto simp: execution_projector_def on_execution_requested_def on_execution_started_def
      on_execution_retried_def on_execution_completed_def on_execution_failed_def Let_def
      split: if_splits val.splits intro!: keyed_intros)

lemma run_projector_keyed:
  "run_projector a ev d = Inr d' \<Longrightarrow> db_keyed d \<Longrightarrow> db_keyed d'"
  by (cases a)
    (auto simp: db_keyed_def dest: approval_keyed memory_keyed work_item_keyed user_profile_keyed
      notification_keyed policy_keyed capability_keyed llm_call_keyed inbox_keyed timer_keyed
      conversation_keyed execution_keyed)

section \<open>One notification per deduplication key\<close>

definition dedup_unique :: "notification_row list \<Rightarrow> bool" where
  "dedup_unique t \<longleftrightarrow>
     distinct (filter (\<lambda>k. k \<noteq> VNull \<and> k \<noteq> VStr []) (map n_dedup_key t))"

lemma dedup_unique_update:
  "(\<And>r. n_dedup_key (f r) = n_dedup_key r) \<Longrightarrow>
     dedup_unique (sql_update P f t) = dedup_unique t"
  unfolding dedup_unique_def by (simp add: map_key_update)

lemma notification_dedup_unique:
  "notification_projector ev t = Inr t' \<Longrightarrow> dedup_unique t \<Longrightarrow> dedup_unique t'"
  by (auto simp: notification_projector_def on_notification_created_def
      on_notification_updated_def on_notification_read_def Let_def dedup_unique_update
      split: if_splits dest!: sql_update_checked_Inr)
    (auto simp: dedup_unique_def dedup_conflict_def list_ex_iff)

lemma run_projector_dedup_unique:
  "run_projector a ev d = Inr d' \<Longrightarrow> dedup_unique (t_notifications d) \<Longrightarrow>
     dedup_unique (t_notifications d')"
  by (cases a) (auto dest: notification_dedup_unique)

section \<open>Messages belong to a conversation\<close>

text \<open>The foreign key \<open>messages.conversation_id\<close>.\<close>

definition chat_fk :: "chat_tables \<Rightarrow> bool" where
  "chat_fk ct \<longleftrightarrow> ms_conv ` set (snd ct) \<subseteq> cv_id ` set (fst ct)"

lemma cv_ids_except: "cv_id ` {x \<in> A. cv_id x \<noteq> k} = cv_id ` A - {k}"
  by auto

lemma conversation_fk:
  "conversation_projector ev ct = Inr ct' \<Longrightarrow> chat_fk ct \<Longrightarrow> chat_fk ct'"
  by (auto simp: conversation_projector_def on_conversation_created_def
      on_conversation_updated_def on_conversation_deleted_def on_message_appended_def Let_def
      chat_fk_def keys_update cv_ids_except set_sql_replace sql_delete_def sql_find_None_iff image_subset_iff
      split: if_splits)

lemma run_projector_fk:
  "run_projector a ev d = Inr d' \<Longrightarrow> chat_fk (t_conversations d, t_messages d) \<Longrightarrow>
     chat_fk (t_conversations d', t_messages d')"
  by (cases a) (auto dest: conversation_fk)

text \<open>The constraints of the schema, together.\<close>

definition db_ok :: "db \<Rightarrow> bool" where
  "db_ok d \<longleftrightarrow> db_keyed d \<and> dedup_unique (t_notifications d) \<and>
     chat_fk (t_conversations d, t_messages d)"

lemma db_ok_empty [simp]: "db_ok empty_db"
  by (simp add: db_ok_def dedup_unique_def empty_db_def db_keyed_def chat_fk_def)

lemma apply_event_ok: "apply_event d ev = Inr d' \<Longrightarrow> db_ok d \<Longrightarrow> db_ok d'"
  unfolding apply_event_def db_ok_def
  by (auto split: option.splits dest: run_projector_keyed run_projector_dedup_unique run_projector_fk)

end
