(* ===== verification/Kernel.thy ===== *)
theory Kernel
  imports Proj_Inv
begin

text \<open>
  The kernel's truth layer: \<open>kernel/kernel.py\<close> (\<open>emit_event\<close>, \<open>read_events\<close>), the event
  lg queries of \<open>kernel/query_builder.py\<close> and the sovereignty operations of
  \<open>kernel/sovereignty_ops.py\<close> (checkpoints, \<open>rebuild\<close>, export and import, pruning).

  \<^item> \<open>kernel\<close> is the SQLite file: the event log in rowid order, the AUTOINCREMENT value, the
    governed tables, the checkpoints, the repair queue. \<open>k_fresh\<close> numbers the uuids drawn so
    far, \<open>k_now\<close> is the wall clock (one reading per operation) and \<open>k_outbox\<close> collects the
    events handed to \<open>_dispatch\<close>, in order.
  \<^item> \<open>with get_db()\<close> commits or rolls back as a whole: an exception is \<open>Inl\<close> and the caller's
    kernel is the old one.
  \<^item> The kernel here has no memory index (\<open>_memory_index is None\<close>), so the post-commit
    synchronisation does nothing to the store.
\<close>

section \<open>State\<close>

record checkpoint =
  cp_agent :: string
  cp_agg :: string
  cp_seq :: int
  cp_tables :: db
  cp_created_at :: time

record repair =
  rp_id :: int
  rp_agg :: string
  rp_type :: string
  rp_seq :: int
  rp_error :: string
  rp_retry :: int
  rp_status :: string
  rp_created_at :: time
  rp_last_retry :: "time option"

record kernel =
  k_reg :: schema_registry
  k_log :: "log_row list"
  k_seq :: int
  k_db :: db
  k_checkpoints :: "checkpoint list"
  k_repairs :: "repair list"
  k_repair_seq :: int
  k_fresh :: nat
  k_now :: time
  k_outbox :: "event list"

definition boot :: "schema_registry \<Rightarrow> time \<Rightarrow> kernel" where
  "boot reg t = \<lparr>k_reg = reg, k_log = [], k_seq = 0, k_db = empty_db, k_checkpoints = [],
     k_repairs = [], k_repair_seq = 0, k_fresh = 0, k_now = t, k_outbox = []\<rparr>"

definition new_event_id :: "nat \<Rightarrow> string" where
  "new_event_id n = ''evt_'' @ show_nat n"

lemma new_event_id_inj [simp]: "new_event_id m = new_event_id n \<longleftrightarrow> m = n"
  by (simp add: new_event_id_def)

section \<open>Writing\<close>

text \<open>\<open>Kernel.emit_event\<close>: insert the row (the column \<open>id\<close> is UNIQUE), project the event in the
  same transaction, hand it to the dispatcher.\<close>

definition emit_event ::
  "kernel \<Rightarrow> string \<Rightarrow> string \<Rightarrow> string \<Rightarrow> dict \<Rightarrow> string \<Rightarrow> string option \<Rightarrow> string option
     \<Rightarrow> (kernel \<times> event) res" where
  "emit_event k et agg aid payload actor caused corr =
     (let event = create_event (k_reg k) (new_event_id (k_fresh k)) (k_now k) et agg aid
                    (Some payload) actor caused corr;
          seq = k_seq k + 1;
          event' = with_seq seq event
      in if ev_id event \<in> lr_id ` set (k_log k) then Inl IntegrityError
         else rbind (apply_event (k_db k) event')
           (\<lambda>d. Inr (k\<lparr>k_log := k_log k @ [row_of_event seq event], k_seq := seq, k_db := d,
                       k_fresh := k_fresh k + 1, k_outbox := k_outbox k @ [event']\<rparr>, event')))"

section \<open>Reading\<close>

definition safe_offset :: "int option \<Rightarrow> nat option" where
  "safe_offset offset =
     (case offset of
        None \<Rightarrow> None
      | Some n \<Rightarrow> if n = 0 then None
                  else Some (nat (if n < 0 then 0 else if n > max_limit * 10 then max_limit * 10 else n)))"

definition safe_order :: "string option \<Rightarrow> (string \<times> 'o) list \<Rightarrow> 'o \<Rightarrow> 'o" where
  "safe_order order allowed dflt =
     (case order of None \<Rightarrow> dflt | Some o' \<Rightarrow> (case map_of allowed o' of None \<Rightarrow> dflt | Some x \<Rightarrow> x))"

record event_query =
  q_agg_type :: "string option"
  q_agg_id :: "string option"
  q_agg_ids :: "string list option"
  q_type :: "string option"
  q_types :: "string list option"
  q_corr :: "string option"
  q_since_seq :: int
  q_since_ts :: "time option"
  q_until_ts :: "time option"
  q_goal :: "string option"
  q_limit :: "int option"
  q_offset :: "int option"
  q_order :: string
  q_id :: "string option"

definition all_events :: event_query where
  "all_events = \<lparr>q_agg_type = None, q_agg_id = None, q_agg_ids = None, q_type = None,
     q_types = None, q_corr = None, q_since_seq = 0, q_since_ts = None, q_until_ts = None,
     q_goal = None, q_limit = None, q_offset = None, q_order = ''asc'', q_id = None\<rparr>"

definition opt_eq :: "'a option \<Rightarrow> 'a \<Rightarrow> bool" where
  "opt_eq o' x \<longleftrightarrow> (case o' of None \<Rightarrow> True | Some y \<Rightarrow> x = y)"

definition row_matches :: "event_query \<Rightarrow> log_row \<Rightarrow> bool" where
  "row_matches q r \<longleftrightarrow>
     q_since_seq q < lr_seq r \<and> opt_eq (q_id q) (lr_id r) \<and> opt_eq (q_agg_type q) (lr_agg_type r) \<and>
     (case q_agg_ids q of
        Some ids \<Rightarrow> lr_agg_id r \<in> set ids
      | None \<Rightarrow> opt_eq (q_agg_id q) (lr_agg_id r)) \<and>
     (if q_types q \<noteq> None \<and> q_types q \<noteq> Some [] then lr_type r \<in> set (the (q_types q))
      else opt_eq (q_type q) (lr_type r)) \<and>
     (case q_goal q of
        None \<Rightarrow> True
      | Some g \<Rightarrow> (case lr_payload r of
                    None \<Rightarrow> False
                  | Some p \<Rightarrow> get p ''goal_id'' = VStr g \<or> get p ''parent_work_id'' = VStr g)) \<and>
     (case q_corr q of None \<Rightarrow> True | Some c \<Rightarrow> lr_corr r = Some c) \<and>
     (case q_since_ts q of None \<Rightarrow> True | Some t \<Rightarrow> t \<le> lr_ts r) \<and>
     (case q_until_ts q of None \<Rightarrow> True | Some t \<Rightarrow> lr_ts r \<le> t)"

text \<open>An \<open>OFFSET\<close> without a \<open>LIMIT\<close> is a syntax error of SQLite.\<close>

definition fetch_event_log_rows :: "event_query \<Rightarrow> log_row list \<Rightarrow> log_row list res" where
  "fetch_event_log_rows q lg =
     (let rows = sort_key lr_seq (filter (row_matches q) lg);
          ordered = safe_order (Some (q_order q)) [(''asc'', rows), (''desc'', rev rows)] rows
      in case (safe_limit (q_limit q) None, safe_offset (q_offset q)) of
           (None, Some n) \<Rightarrow> Inl (RuntimeError ''near OFFSET: syntax error'')
         | (lm, None) \<Rightarrow> Inr (take_opt lm ordered)
         | (Some m, Some n) \<Rightarrow> Inr (take m (drop n ordered)))"

definition read_events :: "kernel \<Rightarrow> event_query \<Rightarrow> event list res" where
  "read_events k q = rbind (fetch_event_log_rows q (k_log k)) (traverse (from_row (k_reg k)))"

text \<open>\<open>fetch_event_log_dicts\<close>: batches of \<open>n\<close> rows behind a \<open>seq\<close> cursor.\<close>

definition export_batch :: "log_row list \<Rightarrow> nat \<Rightarrow> int \<Rightarrow> log_row list" where
  "export_batch lg n l = take n (sort_key lr_seq (filter (\<lambda>r. l < lr_seq r) lg))"

function export_loop :: "log_row list \<Rightarrow> nat \<Rightarrow> int \<Rightarrow> log_row list" where
  "export_loop lg n last_seq =
     (let rows = export_batch lg n last_seq in
      if rows = [] then []
      else if length rows < n then rows
      else rows @ export_loop lg n (lr_seq (List.last rows)))"
  by pat_completeness auto
termination
proof (relation "measure (\<lambda>(lg, n, l). length (filter (\<lambda>r. l < lr_seq r) lg))")
  fix lg :: "log_row list" and n l rows
  assume rows: "rows = export_batch lg n l" "rows \<noteq> []"
  let ?r = "List.last rows"
  have "set rows \<subseteq> set (filter (\<lambda>r. l < lr_seq r) lg)"
    unfolding rows(1) export_batch_def by (auto dest: in_set_takeD)
  with last_in_set [OF rows(2)] have "?r \<in> set (filter (\<lambda>r. l < lr_seq r) lg)" by blast
  then have r: "?r \<in> set lg" "l < lr_seq ?r" by auto
  have "length (filter (\<lambda>r. lr_seq ?r < lr_seq r) lg) < length (filter (\<lambda>r. l < lr_seq r) lg)"
    by (rule length_filter_less [OF _ r(1)]) (use r(2) in auto)
  then show "((lg, n, lr_seq ?r), lg, n, l) \<in>
      measure (\<lambda>(lg, n, l). length (filter (\<lambda>r. l < lr_seq r) lg))"
    by simp
qed simp

declare export_loop.simps [simp del]

definition max_batch :: nat where
  "max_batch = 5000"

definition fetch_event_log_dicts :: "log_row list \<Rightarrow> int \<Rightarrow> log_row list" where
  "fetch_event_log_dicts lg batch_size =
     export_loop lg (if batch_size < 1 then 1 else if batch_size > 5000 then max_batch
                     else nat batch_size) 0"

definition export_event_log_rows :: "kernel \<Rightarrow> log_row list" where
  "export_event_log_rows k = fetch_event_log_dicts (k_log k) 2000"

section \<open>Checkpoints and rebuilding\<close>

definition agg_of_name :: "string \<Rightarrow> aggregate option" where
  "agg_of_name s = List.find (\<lambda>a. agg_name a = s) registered_aggregates"

definition events_of :: "string \<Rightarrow> event_query" where
  "events_of agg = all_events\<lparr>q_agg_type := Some agg\<rparr>"

definition last_seq_of :: "event list \<Rightarrow> int" where
  "last_seq_of evs = fold max (map (\<lambda>e. case ev_seq e of Some n \<Rightarrow> n | None \<Rightarrow> 0) evs) 0"

text \<open>\<open>save_projection_snapshot\<close>: the snapshot keeps the rows of the owned tables; the record
  holds the whole store and the restore reads the owned tables of it.\<close>

definition save_projection_snapshot :: "kernel \<Rightarrow> string \<Rightarrow> string \<Rightarrow> kernel res" where
  "save_projection_snapshot k agg agent =
     rbind (read_events k (events_of agg))
       (\<lambda>evs. Inr (k\<lparr>k_checkpoints :=
          filter (\<lambda>c. \<not> (cp_agent c = agent \<and> cp_agg c = agg)) (k_checkpoints k) @
          [\<lparr>cp_agent = agent, cp_agg = agg, cp_seq = last_seq_of evs, cp_tables = k_db k,
            cp_created_at = k_now k\<rparr>]\<rparr>))"

text \<open>\<open>_restore_table_snapshot\<close>: \<open>INSERT OR REPLACE\<close> row by row. A replaced notification
  also goes when it holds the same deduplication key; a message needs its conversation.\<close>

definition restore_rows :: "('r \<Rightarrow> string) \<Rightarrow> 'r list \<Rightarrow> 'r list \<Rightarrow> 'r list" where
  "restore_rows key rows t = fold (sql_replace key) rows t"

definition restore_notifications ::
  "notification_row list \<Rightarrow> notification_row list \<Rightarrow> notification_row list" where
  "restore_notifications rows t =
     fold (\<lambda>r t. sql_replace n_id r
        (if n_dedup_key r = VNull \<or> n_dedup_key r = VStr [] then t
         else sql_delete (\<lambda>x. n_dedup_key x = n_dedup_key r) t)) rows t"

definition restore_messages ::
  "conversation_row list \<Rightarrow> message_row list \<Rightarrow> message_row list \<Rightarrow> message_row list res" where
  "restore_messages cs rows t =
     foldM (\<lambda>t r. if sql_find cv_id (ms_conv r) cs = None then Inl IntegrityError
                  else Inr (sql_replace ms_id r t)) t rows"

fun restore_owned :: "aggregate \<Rightarrow> db \<Rightarrow> db \<Rightarrow> db res" where
  "restore_owned Approval s d =
     Inr (d\<lparr>t_approvals := restore_rows ap_id (t_approvals s) (t_approvals d)\<rparr>)"
| "restore_owned Memory s d =
     Inr (d\<lparr>t_memories := restore_rows m_id (t_memories s) (t_memories d)\<rparr>)"
| "restore_owned WorkItem s d =
     Inr (d\<lparr>t_work_items := restore_rows w_id (t_work_items s) (t_work_items d)\<rparr>)"
| "restore_owned UserProfile s d =
     Inr (d\<lparr>t_user_profile := restore_rows pr_id (t_user_profile s) (t_user_profile d)\<rparr>)"
| "restore_owned Notification s d =
     Inr (d\<lparr>t_notifications := restore_notifications (t_notifications s) (t_notifications d)\<rparr>)"
| "restore_owned Policy s d =
     Inr (d\<lparr>t_policy_events := restore_rows po_id (t_policy_events s) (t_policy_events d)\<rparr>)"
| "restore_owned Capability s d =
     Inr (d\<lparr>t_tool_calls := restore_rows tc_id (t_tool_calls s) (t_tool_calls d)\<rparr>)"
| "restore_owned LlmCall s d =
     Inr (d\<lparr>t_llm_calls := restore_rows lc_id (t_llm_calls s) (t_llm_calls d)\<rparr>)"
| "restore_owned InboxEmail s d =
     Inr (d\<lparr>t_inbox_emails := restore_rows ie_id (t_inbox_emails s) (t_inbox_emails d)\<rparr>)"
| "restore_owned Timer s d =
     Inr (d\<lparr>t_timer_events := restore_rows tm_id (t_timer_events s) (t_timer_events d)\<rparr>)"
| "restore_owned Conversation s d =
     (let cs = restore_rows cv_id (t_conversations s) (t_conversations d) in
      rbind (restore_messages cs (t_messages s) (t_messages d))
        (\<lambda>ms. Inr (d\<lparr>t_conversations := cs, t_messages := ms\<rparr>)))"
| "restore_owned Execution s d =
     Inr (d\<lparr>t_handler_executions :=
            restore_rows he_id (t_handler_executions s) (t_handler_executions d)\<rparr>)"

definition find_checkpoint :: "kernel \<Rightarrow> string \<Rightarrow> string \<Rightarrow> checkpoint option" where
  "find_checkpoint k agg agent =
     List.find (\<lambda>c. cp_agent c = agent \<and> cp_agg c = agg) (k_checkpoints k)"

text \<open>\<open>rebuild\<close> returns the number of events it reports as replayed.\<close>

definition rebuild :: "kernel \<Rightarrow> string \<Rightarrow> string \<Rightarrow> (kernel \<times> nat) res" where
  "rebuild k agg agent =
     rbind (read_events k (events_of agg)) (\<lambda>evs.
       let cp = find_checkpoint k agg agent;
           cleared = (case agg_of_name agg of None \<Rightarrow> k_db k | Some a \<Rightarrow> clear_owned a (k_db k));
           last_seq = (case cp of None \<Rightarrow> 0 | Some c \<Rightarrow> cp_seq c);
           todo = filter (\<lambda>e. case ev_seq e of None \<Rightarrow> True | Some n \<Rightarrow> last_seq < n) evs
       in rbind (case (cp, agg_of_name agg) of
                   (Some c, Some a) \<Rightarrow> restore_owned a (cp_tables c) cleared
                 | _ \<Rightarrow> Inr cleared)
            (\<lambda>d1. rbind (foldM apply_event d1 todo)
            (\<lambda>d. Inr (k\<lparr>k_db := d\<rparr>, if cp = None then length evs else length todo))))"

definition rebuild_all :: "kernel \<Rightarrow> kernel res" where
  "rebuild_all k =
     foldM (\<lambda>k a. rbind (rebuild k (agg_name a) ''kernel'') (\<lambda>(k', n). Inr k')) k registered_aggregates"

section \<open>Import, prune\<close>

definition rebuild_aggregate_on_conn :: "kernel \<Rightarrow> db \<Rightarrow> aggregate \<Rightarrow> db res" where
  "rebuild_aggregate_on_conn k d a =
     rbind (traverse (from_row (k_reg k))
              (sort_key lr_seq (filter (\<lambda>r. lr_agg_type r = agg_name a) (k_log k))))
       (foldM apply_event (clear_owned a d))"

definition import_event_log_rows :: "kernel \<Rightarrow> log_row list \<Rightarrow> bool \<Rightarrow> (kernel \<times> nat) res" where
  "import_event_log_rows k rows rebuild_projections =
     (if \<not> distinct (map lr_seq rows) \<or> \<not> distinct (map lr_id rows) then Inl IntegrityError
      else let k1 = k\<lparr>k_log := sort_key lr_seq rows, k_seq := fold max (map lr_seq rows) 0,
                      k_db := empty_db, k_checkpoints := [], k_repairs := []\<rparr>
           in rbind (if rebuild_projections
                     then foldM (rebuild_aggregate_on_conn k1) (k_db k1) registered_aggregates
                     else Inr (k_db k1))
                (\<lambda>d. Inr (k1\<lparr>k_db := d\<rparr>, length rows)))"

text \<open>\<open>prune_handler_executions\<close>; only instants are ever written to \<open>completed_at\<close>, any other
  text is left alone here.\<close>

definition day_us :: int where
  "day_us = 86400000000"

fun stamp_before :: "stamp \<Rightarrow> time \<Rightarrow> bool" where
  "stamp_before (At t) cutoff = (t < cutoff)"
| "stamp_before _ cutoff = False"

definition prunable :: "time \<Rightarrow> handler_row \<Rightarrow> bool" where
  "prunable cutoff r \<longleftrightarrow> he_status r \<in> {''completed'', ''failed''} \<and> stamp_before (he_completed_at r) cutoff"

definition prune_handler_executions :: "kernel \<Rightarrow> int \<Rightarrow> kernel \<times> nat" where
  "prune_handler_executions k retention_days =
     (if retention_days \<le> 0 then (k, 0)
      else let cutoff = k_now k - retention_days * day_us;
               t = t_handler_executions (k_db k)
           in (k\<lparr>k_db := (k_db k)\<lparr>t_handler_executions := sql_delete (prunable cutoff) t\<rparr>\<rparr>,
               length (filter (prunable cutoff) t)))"

end
