(* ===== verification/Kernel_Inv.thy ===== *)
theory Kernel_Inv
  imports Kernel
begin

text \<open>
  The event log is the truth: in every kernel reached by emitting routed events, saving
  checkpoints, rebuilding and importing one's own export, the governed tables are the replay of
  the log, so \<open>rebuild\<close> (from scratch or from a checkpoint), \<open>rebuild_all\<close> and a restored
  export give back exactly the tables there were. \<open>kernel_ok\<close> is the invariant, \<open>kernel_step\<close>
  the operations, \<open>kernel_reach\<close> the reachable kernels.
\<close>

section \<open>Rows and events\<close>

definition row_event :: "log_row \<Rightarrow> event" where
  "row_event r =
     \<lparr>ev_type = lr_type r, ev_agg_type = lr_agg_type r, ev_agg_id = lr_agg_id r,
      ev_payload = (case lr_payload r of None \<Rightarrow> [] | Some p \<Rightarrow> p), ev_actor = lr_actor r,
      ev_caused_by = lr_caused_by r, ev_corr = lr_corr r, ev_id = lr_id r,
      ev_seq = Some (lr_seq r), ev_ts = lr_ts r\<rparr>"

definition row_ok :: "schema_registry \<Rightarrow> log_row \<Rightarrow> bool" where
  "row_ok reg r \<longleftrightarrow> (case lr_payload r of None \<Rightarrow> False | Some p \<Rightarrow> stamped reg (lr_type r) p)"

definition seq_of :: "event \<Rightarrow> int" where
  "seq_of e = (case ev_seq e of None \<Rightarrow> 0 | Some n \<Rightarrow> n)"

definition k_events :: "kernel \<Rightarrow> event list" where
  "k_events k = map row_event (k_log k)"

lemma from_row_ok: "row_ok reg r \<Longrightarrow> from_row reg r = Inr (row_event r)"
  by (auto simp: row_ok_def from_row_def row_event_def upcast_stamped split: option.splits)

lemma row_event_of_event [simp]: "row_event (row_of_event n ev) = with_seq n ev"
  by (simp add: row_event_def row_of_event_def with_seq_def)

lemma row_ok_of_event:
  "stamped reg (ev_type ev) (ev_payload ev) \<Longrightarrow> row_ok reg (row_of_event n ev)"
  by (simp add: row_ok_def row_of_event_def)

lemma row_event_fields [simp]:
  "ev_agg_type (row_event r) = lr_agg_type r" "ev_type (row_event r) = lr_type r"
  "ev_seq (row_event r) = Some (lr_seq r)" "seq_of (row_event r) = lr_seq r"
  "ev_id (row_event r) = lr_id r"
  by (simp_all add: row_event_def seq_of_def)

section \<open>Maximum and order of the sequence numbers\<close>

lemma fold_max_snoc [simp]: "fold max (xs @ [y :: int]) z = max y (fold max xs z)"
  by simp

lemma fold_max_ge: "z \<le> fold max xs (z :: int)" "x \<in> set xs \<Longrightarrow> x \<le> fold max xs z"
proof -
  have "(\<forall>x \<in> set xs. x \<le> fold max xs z) \<and> z \<le> fold max xs z"
    by (induction xs rule: rev_induct) auto
  then show "z \<le> fold max xs z" "x \<in> set xs \<Longrightarrow> x \<le> fold max xs z" by auto
qed

lemma fold_max_le: "(\<And>x. x \<in> set xs \<Longrightarrow> x \<le> b) \<Longrightarrow> z \<le> b \<Longrightarrow> fold max xs (z :: int) \<le> b"
  by (induction xs rule: rev_induct) auto

definition increasing :: "log_row list \<Rightarrow> bool" where
  "increasing lg \<longleftrightarrow> sorted_wrt (<) (map lr_seq lg)"

lemma increasing_filter: "increasing lg \<Longrightarrow> increasing (filter P lg)"
  unfolding increasing_def by (induction lg) auto

lemma sort_increasing: "increasing lg \<Longrightarrow> sort_key lr_seq lg = lg"
  unfolding increasing_def
  by (rule sort_key_id_if_sorted) (auto intro: strict_sorted_imp_sorted)

lemma increasing_split:
  "increasing lg \<Longrightarrow>
     filter (\<lambda>r. lr_seq r \<le> s) lg @ filter (\<lambda>r. s < lr_seq r) lg = lg"
  unfolding increasing_def
proof (induction lg)
  case (Cons r lg)
  show ?case
  proof (cases "lr_seq r \<le> s")
    case True
    with Cons show ?thesis by simp
  next
    case False
    with Cons.prems have "filter (\<lambda>r. lr_seq r \<le> s) lg = []"
      by (auto simp: filter_empty_conv)
    moreover have "filter (\<lambda>r. s < lr_seq r) lg = lg"
      using False Cons.prems by (auto simp: filter_id_conv)
    ultimately show ?thesis using False by simp
  qed
qed simp

section \<open>The invariant\<close>

definition checkpoint_ok :: "kernel \<Rightarrow> checkpoint \<Rightarrow> bool" where
  "checkpoint_ok k c \<longleftrightarrow>
     cp_seq c \<le> k_seq k \<and> db_ok (cp_tables c) \<and>
     (\<forall>a. agg_of_name (cp_agg c) = Some a \<longrightarrow>
        (\<exists>d. foldM apply_event empty_db
               (filter (\<lambda>e. ev_agg_type e = cp_agg c \<and> seq_of e \<le> cp_seq c) (k_events k)) = Inr d \<and>
             same_owned a d (cp_tables c)))"

definition kernel_ok :: "kernel \<Rightarrow> bool" where
  "kernel_ok k \<longleftrightarrow>
     increasing (k_log k) \<and> (\<forall>r \<in> set (k_log k). 0 < lr_seq r \<and> row_ok (k_reg k) r) \<and>
     k_seq k = fold max (map lr_seq (k_log k)) 0 \<and>
     distinct (map lr_id (k_log k)) \<and> (\<forall>n \<ge> k_fresh k. new_event_id n \<notin> lr_id ` set (k_log k)) \<and>
     (\<forall>e \<in> set (k_events k). well_routed e) \<and>
     foldM apply_event empty_db (k_events k) = Inr (k_db k) \<and>
     (\<forall>c \<in> set (k_checkpoints k). checkpoint_ok k c)"

lemma kernel_okD:
  assumes "kernel_ok k"
  shows "increasing (k_log k)" and "\<And>r. r \<in> set (k_log k) \<Longrightarrow> 0 < lr_seq r \<and> row_ok (k_reg k) r"
    and "\<And>e. e \<in> set (k_events k) \<Longrightarrow> well_routed e"
    and "foldM apply_event empty_db (k_events k) = Inr (k_db k)"
    and "\<And>c. c \<in> set (k_checkpoints k) \<Longrightarrow> checkpoint_ok k c"
  using assms by (auto simp: kernel_ok_def)

lemma kernel_ok_boot: "kernel_ok (boot reg t)"
  by (simp add: kernel_ok_def boot_def increasing_def k_events_def)

lemma seq_le: "kernel_ok k \<Longrightarrow> r \<in> set (k_log k) \<Longrightarrow> lr_seq r \<le> k_seq k"
  by (auto simp: kernel_ok_def intro: fold_max_ge)

lemma kernel_db_ok: "kernel_ok k \<Longrightarrow> db_ok (k_db k)"
  by (rule foldM_invariant [OF kernel_okD(4)]) (auto intro: apply_event_ok)

lemma emit_event_ok:
  assumes ok: "kernel_ok k"
    and em: "emit_event k et agg aid p actor caused corr = Inr (k', ev)"
    and routed: "well_routed ev"
  shows "kernel_ok k'"
proof -
  let ?e = "create_event (k_reg k) (new_event_id (k_fresh k)) (k_now k) et agg aid (Some p) actor caused corr"
  let ?n = "k_seq k + 1"
  from em obtain d where d: "apply_event (k_db k) (with_seq ?n ?e) = Inr d" and
    ev: "ev = with_seq ?n ?e" and
    k': "k' = k\<lparr>k_log := k_log k @ [row_of_event ?n ?e], k_seq := ?n, k_db := d,
          k_fresh := k_fresh k + 1, k_outbox := k_outbox k @ [ev]\<rparr>"
    by (auto simp: emit_event_def Let_def split: if_splits)
  have events: "k_events k' = k_events k @ [ev]"
    by (simp add: k_events_def k' ev)
  have n: "0 < ?n" "\<And>r. r \<in> set (k_log k) \<Longrightarrow> lr_seq r < ?n"
    using seq_le [OF ok] fold_max_ge(1) [of 0 "map lr_seq (k_log k)"] ok
    by (force simp: kernel_ok_def)+
  have cp: "checkpoint_ok k' c" if "c \<in> set (k_checkpoints k)" for c
  proof -
    from kernel_okD(5) [OF ok that] have "checkpoint_ok k c" .
    moreover from this have "\<not> seq_of ev \<le> cp_seq c"
      by (auto simp: checkpoint_ok_def ev with_seq_def seq_of_def)
    moreover have "k_seq k' = ?n" by (simp add: k')
    ultimately show ?thesis by (auto simp: checkpoint_ok_def events)
  qed
  have ids: "lr_id (row_of_event ?n ?e) = new_event_id (k_fresh k)"
    by (simp add: row_of_event_def create_event_def)
  show ?thesis
    unfolding kernel_ok_def
  proof (intro conjI)
    show "increasing (k_log k')"
      using ok n(2) by (auto simp: kernel_ok_def increasing_def k' sorted_wrt_append row_of_event_def)
    show "\<forall>r \<in> set (k_log k'). 0 < lr_seq r \<and> row_ok (k_reg k') r"
      using ok n(1) by (auto simp: kernel_ok_def k' row_ok_of_event create_event_def)
        (simp add: row_of_event_def)
    show "k_seq k' = fold max (map lr_seq (k_log k')) 0"
      using ok by (auto simp: kernel_ok_def k' row_of_event_def)
    show "distinct (map lr_id (k_log k'))"
      using ok ids by (auto simp: kernel_ok_def k')
    show "\<forall>n \<ge> k_fresh k'. new_event_id n \<notin> lr_id ` set (k_log k')"
      using ok ids by (auto simp: kernel_ok_def k')
    show "\<forall>e \<in> set (k_events k'). well_routed e"
      using ok routed by (auto simp: events kernel_ok_def)
    have "k_db k' = d" by (simp add: k')
    with d ev show "foldM apply_event empty_db (k_events k') = Inr (k_db k')"
      by (simp add: events foldM_append kernel_okD(4) [OF ok])
    show "\<forall>c \<in> set (k_checkpoints k'). checkpoint_ok k' c"
      using cp by (auto simp: k')
  qed
qed

section \<open>Reading the log\<close>

lemma agg_of_name_name [simp]: "agg_of_name (agg_name a) = Some a"
  by (cases a) (simp_all add: agg_of_name_def registered_aggregates_def)

lemma agg_of_name_Some: "agg_of_name s = Some a \<Longrightarrow> s = agg_name a"
  by (auto simp: agg_of_name_def find_Some_iff)

lemma read_events_of:
  assumes "kernel_ok k"
  shows "read_events k (events_of agg) = Inr (filter (\<lambda>e. ev_agg_type e = agg) (k_events k))"
proof -
  have rows: "filter (row_matches (events_of agg)) (k_log k) =
      filter (\<lambda>r. lr_agg_type r = agg) (k_log k)"
    by (rule filter_cong)
      (use kernel_okD(2) [OF assms] in \<open>auto simp: row_matches_def events_of_def all_events_def opt_eq_def\<close>)
  have "fetch_event_log_rows (events_of agg) (k_log k) =
      Inr (filter (\<lambda>r. lr_agg_type r = agg) (k_log k))"
    unfolding fetch_event_log_rows_def rows
    by (simp add: sort_increasing increasing_filter kernel_okD(1) [OF assms] events_of_def
        all_events_def safe_limit_def safe_offset_def safe_order_def take_opt_def)
  moreover have "traverse (from_row (k_reg k)) (filter (\<lambda>r. lr_agg_type r = agg) (k_log k)) =
      Inr (map row_event (filter (\<lambda>r. lr_agg_type r = agg) (k_log k)))"
    by (rule traverse_total) (use kernel_okD(2) [OF assms] in \<open>auto intro: from_row_ok\<close>)
  ultimately show ?thesis
    by (simp add: read_events_def k_events_def filter_map comp_def)
qed

section \<open>Restoring a snapshot\<close>

lemma keyed_fresh: "keyed key (t @ r # rows) \<Longrightarrow> filter (\<lambda>x. key x \<noteq> key r) t = t"
proof -
  assume "keyed key (t @ r # rows)"
  then have "key r \<notin> key ` set t" by (simp add: keyed_def)
  then have "\<forall>x \<in> set t. key x \<noteq> key r" by (metis imageI)
  then show ?thesis by (simp add: filter_id_conv)
qed

lemma restore_rows_append: "keyed key (t @ rows) \<Longrightarrow> restore_rows key rows t = t @ rows"
proof (induction rows arbitrary: t)
  case (Cons r rows)
  have "filter (\<lambda>x. key x \<noteq> key r) t = t"
    using Cons.prems(1) by (rule keyed_fresh)
  then have "sql_replace key r t = t @ [r]" by (simp add: sql_replace_def)
  with Cons.IH [of "t @ [r]"] Cons.prems show ?case by (simp add: restore_rows_def)
qed (simp add: restore_rows_def)

lemma restore_rows_Nil: "keyed key rows \<Longrightarrow> restore_rows key rows [] = rows"
  using restore_rows_append [of key "[]" rows] by simp

lemma restore_notifications_append:
  "keyed n_id (t @ rows) \<Longrightarrow> dedup_unique (t @ rows) \<Longrightarrow>
     restore_notifications rows t = t @ rows"
proof (induction rows arbitrary: t)
  case (Cons r rows)
  have "filter (\<lambda>x. n_id x \<noteq> n_id r) t = t"
    using Cons.prems(1) by (rule keyed_fresh)
  moreover have "sql_delete (\<lambda>x. n_dedup_key x = n_dedup_key r) t = t"
    if "n_dedup_key r \<noteq> VNull" "n_dedup_key r \<noteq> VStr []"
  proof -
    have "n_dedup_key r \<notin> set (filter (\<lambda>k. k \<noteq> VNull \<and> k \<noteq> VStr []) (map n_dedup_key t))"
      using Cons.prems(2) that by (simp add: dedup_unique_def)
    with that have "\<forall>x \<in> set t. n_dedup_key x \<noteq> n_dedup_key r" by (auto simp: image_iff)
    then show ?thesis by (simp add: sql_delete_def filter_id_conv)
  qed
  ultimately show ?case
    using Cons.IH [of "t @ [r]"] Cons.prems by (simp add: restore_notifications_def sql_replace_def)
qed (simp add: restore_notifications_def)

lemma restore_messages_append:
  "keyed ms_id (t @ rows) \<Longrightarrow> ms_conv ` set rows \<subseteq> cv_id ` set cs \<Longrightarrow>
     restore_messages cs rows t = Inr (t @ rows)"
proof (induction rows arbitrary: t)
  case (Cons r rows)
  have "filter (\<lambda>x. ms_id x \<noteq> ms_id r) t = t"
    using Cons.prems(1) by (rule keyed_fresh)
  then show ?case
    using Cons.IH [of "t @ [r]"] Cons.prems
    by (auto simp: restore_messages_def sql_replace_def sql_find_None_iff)
qed (simp add: restore_messages_def)

lemma restore_owned_cleared:
  assumes "db_ok s"
  shows "\<exists>d'. restore_owned a s (clear_owned a d) = Inr d' \<and> same_owned a s d' \<and>
           (\<forall>b. b \<noteq> a \<longrightarrow> same_owned b d d')"
proof -
  have keyed: "keyed ap_id (t_approvals s)" "keyed m_id (t_memories s)" "keyed w_id (t_work_items s)"
    "keyed pr_id (t_user_profile s)" "keyed po_id (t_policy_events s)"
    "keyed tc_id (t_tool_calls s)" "keyed lc_id (t_llm_calls s)" "keyed ie_id (t_inbox_emails s)"
    "keyed tm_id (t_timer_events s)" "keyed cv_id (t_conversations s)"
    "keyed he_id (t_handler_executions s)"
    using assms by (auto simp: db_ok_def db_keyed_def)
  have notif: "restore_notifications (t_notifications s) [] = t_notifications s"
    using assms restore_notifications_append [of "[]" "t_notifications s"]
    by (simp add: db_ok_def db_keyed_def)
  have msgs: "restore_messages (t_conversations s) (t_messages s) [] = Inr (t_messages s)"
    using assms restore_messages_append [of "[]" "t_messages s" "t_conversations s"]
    by (simp add: db_ok_def db_keyed_def chat_fk_def)
  have "b \<noteq> a \<Longrightarrow> \<exists>d'. restore_owned a s (clear_owned a d) = Inr d' \<and> same_owned b d d'" for b
    using msgs by (cases a; cases b) (simp_all add: restore_rows_Nil keyed)
  moreover have "\<exists>d'. restore_owned a s (clear_owned a d) = Inr d' \<and> same_owned a s d'"
    using msgs notif by (cases a) (simp_all add: restore_rows_Nil keyed)
  ultimately show ?thesis by (metis sum.inject(2))
qed

section \<open>Rebuilding gives the tables back\<close>

lemma replay_is_foldM: "pf.replay = foldM apply_event"
  by (intro ext) (simp add: pf.replay_def apply_event_project)

lemma scope:
  assumes "kernel_ok k" and "e \<in> set (k_events k)"
  shows "event_owner e = Some a \<Longrightarrow> ev_agg_type e = agg_name a"
    and "ev_agg_type e = agg_name a \<Longrightarrow> event_owner e = Some a \<or> event_owner e = None"
  using well_routed_scope [OF kernel_okD(3) [OF assms]] by auto

lemma rebuild_from_scratch:
  assumes "kernel_ok k"
  shows "foldM apply_event (clear_owned a (k_db k))
    (filter (\<lambda>e. ev_agg_type e = agg_name a) (k_events k)) = Inr (k_db k)"
proof -
  have "pf.replay (clear_owned a (k_db k)) (filter (\<lambda>e. ev_agg_type e = agg_name a) (k_events k)) =
      Inr (k_db k)"
  proof (rule pf.rebuild_restores)
    show "pf.replay empty_db (k_events k) = Inr (k_db k)"
      using kernel_okD(4) [OF assms] by (simp add: replay_is_foldM)
  qed (use scope [OF assms] clear_owned_empty in auto)
  then show ?thesis by (simp add: replay_is_foldM)
qed

lemma foldM_apply_unowned:
  "(\<And>e. e \<in> set es \<Longrightarrow> event_owner e = None) \<Longrightarrow> foldM apply_event d es = Inr d"
  by (induction es) (auto simp: apply_event_def)

lemma unregistered_unowned:
  assumes "kernel_ok k" and "agg_of_name agg = None" and "e \<in> set (k_events k)"
    and "ev_agg_type e = agg"
  shows "event_owner e = None"
  using scope(1) [OF assms(1,3)] assms(2,4) by (cases "event_owner e") auto

lemma events_split:
  assumes "kernel_ok k"
  shows "filter (\<lambda>e. ev_agg_type e = agg \<and> seq_of e \<le> s) (k_events k) @
         filter (\<lambda>e. s < seq_of e) (filter (\<lambda>e. ev_agg_type e = agg) (k_events k)) =
         filter (\<lambda>e. ev_agg_type e = agg) (k_events k)"
proof -
  let ?l = "filter (\<lambda>r. lr_agg_type r = agg) (k_log k)"
  have "increasing ?l" by (intro increasing_filter kernel_okD(1) assms)
  from arg_cong [OF increasing_split [OF this, of s], of "map row_event"]
  show ?thesis by (simp add: k_events_def filter_map comp_def conj_commute)
qed

lemma rebuild_from_checkpoint:
  assumes ok: "kernel_ok k" and c: "c \<in> set (k_checkpoints k)" and agg: "cp_agg c = agg_name a"
  shows "\<exists>d1. restore_owned a (cp_tables c) (clear_owned a (k_db k)) = Inr d1 \<and>
     foldM apply_event d1
       (filter (\<lambda>e. cp_seq c < seq_of e) (filter (\<lambda>e. ev_agg_type e = agg_name a) (k_events k))) =
     Inr (k_db k)"
proof -
  from kernel_okD(5) [OF ok c] have cok: "checkpoint_ok k c" .
  let ?E1 = "filter (\<lambda>e. ev_agg_type e = agg_name a \<and> seq_of e \<le> cp_seq c) (k_events k)"
  let ?E2 = "filter (\<lambda>e. cp_seq c < seq_of e) (filter (\<lambda>e. ev_agg_type e = agg_name a) (k_events k))"
  from cok agg obtain dx where dx: "foldM apply_event empty_db ?E1 = Inr dx"
    "same_owned a dx (cp_tables c)" by (auto simp: checkpoint_ok_def)
  from cok restore_owned_cleared [of "cp_tables c" a "k_db k"] obtain d1 where
    d1: "restore_owned a (cp_tables c) (clear_owned a (k_db k)) = Inr d1"
    "same_owned a (cp_tables c) d1" "\<And>b. b \<noteq> a \<Longrightarrow> same_owned b (k_db k) d1"
    by (auto simp: checkpoint_ok_def)
  have split: "?E1 @ ?E2 = filter (\<lambda>e. ev_agg_type e = agg_name a) (k_events k)"
    by (rule events_split [OF ok])
  have "pf.replay d1 ?E2 = Inr (k_db k)"
  proof (rule pf.checkpoint_restores)
    show "pf.replay (clear_owned a (k_db k)) (?E1 @ ?E2) = Inr (k_db k)"
      unfolding split replay_is_foldM by (rule rebuild_from_scratch [OF ok])
    show "pf.replay empty_db ?E1 = Inr dx" using dx(1) by (simp add: replay_is_foldM)
    show "same_owned a dx d1" using dx(2) d1(2) pf.agree_trans by blast
    show "event_owner e = Some a \<or> event_owner e = None" if "e \<in> set (?E1 @ ?E2)" for e
      by (rule scope(2) [OF ok]) (use that in auto)
  qed (use clear_owned_empty d1(3) in auto)
  with d1(1) show ?thesis by (simp add: replay_is_foldM)
qed

lemma find_checkpoint_Some:
  "find_checkpoint k agg agent = Some c \<Longrightarrow> c \<in> set (k_checkpoints k) \<and> cp_agg c = agg"
  by (auto simp: find_checkpoint_def find_Some_iff)

lemma todo_seq:
  "filter (\<lambda>e. P e \<and> (case ev_seq e of None \<Rightarrow> True | Some n \<Rightarrow> s < n)) (k_events k) =
   filter (\<lambda>e. P e \<and> s < seq_of e) (k_events k)"
  by (rule filter_cong) (auto simp: k_events_def)

lemma rebuild_same:
  assumes ok: "kernel_ok k"
  shows "\<exists>n. rebuild k agg agent = Inr (k, n)"
proof -
  let ?E = "filter (\<lambda>e. ev_agg_type e = agg) (k_events k)"
  have pos: "filter (\<lambda>e. 0 < seq_of e) ?E = ?E"
    unfolding filter_id_conv using kernel_okD(2) [OF ok] by (auto simp: k_events_def)
  have upd: "k\<lparr>k_db := k_db k\<rparr> = k" by simp
  note defs = rebuild_def read_events_of [OF ok] todo_seq Let_def
  show ?thesis
  proof (cases "agg_of_name agg")
    case None
    have "foldM apply_event (k_db k) (filter P ?E) = Inr (k_db k)" for P
      by (rule foldM_apply_unowned) (use unregistered_unowned [OF ok None] in auto)
    then show ?thesis using None by (auto simp: defs split: option.splits)
  next
    case (Some a)
    then have agg: "agg = agg_name a" by (rule agg_of_name_Some)
    show ?thesis
    proof (cases "find_checkpoint k agg agent")
      case None
      with Some rebuild_from_scratch [OF ok, of a] pos show ?thesis
        by (simp add: defs agg)
    next
      case (Some c)
      from find_checkpoint_Some [OF Some] agg have c: "c \<in> set (k_checkpoints k)" "cp_agg c = agg_name a"
        by auto
      from rebuild_from_checkpoint [OF ok c] Some \<open>agg_of_name agg = Some a\<close> show ?thesis
        by (auto simp: defs agg)
    qed
  qed
qed

lemma rebuild_all_same:
  assumes "kernel_ok k"
  shows "rebuild_all k = Inr k"
proof -
  have "foldM (\<lambda>k a. rbind (rebuild k (agg_name a) ''kernel'') (\<lambda>(k', n). Inr k')) k as = Inr k" for as
  proof (induction as)
    case (Cons a as)
    from rebuild_same [OF assms, of "agg_name a" "''kernel''"] obtain n
      where "rebuild k (agg_name a) ''kernel'' = Inr (k, n)" by blast
    with Cons show ?case by simp
  qed simp
  then show ?thesis by (simp add: rebuild_all_def)
qed

end
