(* ===== verification/Sovereignty.thy ===== *)
theory Sovereignty
  imports Kernel_Inv
begin

text \<open>
  The sovereignty operations over the reachable kernels: the batched export is the whole log
  whatever the batch size, an import of it restores log and tables, rebuilding changes nothing,
  and pruning is the one operation that a rebuild undoes.
\<close>

section \<open>The batched export\<close>

lemma export_batch_increasing:
  "increasing lg \<Longrightarrow> export_batch lg n l = take n (filter (\<lambda>r. l < lr_seq r) lg)"
  by (simp add: export_batch_def sort_increasing increasing_filter)

lemma increasing_after:
  assumes "increasing rs" and "n < length rs"
  shows "filter (\<lambda>r. lr_seq (rs ! n) < lr_seq r) rs = drop (Suc n) rs"
proof -
  let ?a = "take (Suc n) rs" and ?b = "drop (Suc n) rs"
  have nth: "\<And>i j. i < j \<Longrightarrow> j < length rs \<Longrightarrow> lr_seq (rs ! i) < lr_seq (rs ! j)"
    using assms(1) by (auto simp: increasing_def sorted_wrt_iff_nth_less)
  have "filter (\<lambda>r. lr_seq (rs ! n) < lr_seq r) ?a = []"
  proof -
    have "\<not> lr_seq (rs ! n) < lr_seq (rs ! i)" if "i < Suc n" for i
      using that nth [of i n] assms(2) by (cases "i = n") auto
    then show ?thesis by (auto simp: filter_empty_conv in_set_conv_nth)
  qed
  moreover have "filter (\<lambda>r. lr_seq (rs ! n) < lr_seq r) ?b = ?b"
    using nth [of n] by (auto simp: filter_id_conv in_set_conv_nth)
  ultimately show ?thesis
    using filter_append [of "\<lambda>r. lr_seq (rs ! n) < lr_seq r" ?a ?b] by simp
qed

lemma export_loop_all:
  assumes "increasing lg" and "0 < n"
  shows "export_loop lg n l = filter (\<lambda>r. l < lr_seq r) lg"
  using assms
proof (induction lg n l rule: export_loop.induct)
  case (1 lg n l)
  let ?rest = "filter (\<lambda>r. l < lr_seq r) lg"
  have batch: "export_batch lg n l = take n ?rest"
    using "1.prems"(1) by (rule export_batch_increasing)
  show ?case
  proof (cases "length ?rest < n")
    case True
    then show ?thesis by (subst export_loop.simps) (simp add: batch Let_def)
  next
    case False
    with "1.prems"(2) have ne: "take n ?rest \<noteq> []" "\<not> length (take n ?rest) < n" by auto
    have lastr: "List.last (take n ?rest) = ?rest ! (n - 1)"
      using False "1.prems"(2) by (subst last_conv_nth) auto
    have after: "filter (\<lambda>r. lr_seq (?rest ! (n - 1)) < lr_seq r) ?rest = drop n ?rest"
      using increasing_after [OF increasing_filter [OF "1.prems"(1)], of "n - 1" "\<lambda>r. l < lr_seq r"]
        False "1.prems"(2) by simp
    have "l < lr_seq (?rest ! (n - 1))"
      using nth_mem [of "n - 1" ?rest] False "1.prems"(2) by auto
    then have "filter (\<lambda>r. lr_seq (?rest ! (n - 1)) < lr_seq r) lg = drop n ?rest"
      unfolding after [symmetric] filter_filter by (intro filter_cong) auto
    moreover have "export_loop lg n (lr_seq (List.last (take n ?rest))) =
        filter (\<lambda>r. lr_seq (List.last (take n ?rest)) < lr_seq r) lg"
      using "1.IH" [OF refl] ne "1.prems" by (simp add: batch)
    ultimately show ?thesis
      using ne by (subst export_loop.simps) (simp add: batch Let_def lastr)
  qed
qed

lemma export_complete:
  assumes "increasing lg" and "\<And>r. r \<in> set lg \<Longrightarrow> 0 < lr_seq r"
  shows "fetch_event_log_dicts lg batch_size = lg"
  using export_loop_all [OF assms(1)] assms(2)
  by (auto simp: fetch_event_log_dicts_def max_batch_def filter_id_conv)

section \<open>Importing an export\<close>

lemma increasing_distinct: "increasing lg \<Longrightarrow> distinct (map lr_seq lg)"
  unfolding increasing_def by (simp add: strict_sorted_iff)

lemma rebuild_aggregate_is_replay:
  assumes "kernel_ok k" and "k_log k1 = k_log k" and "k_reg k1 = k_reg k"
  shows "rebuild_aggregate_on_conn k1 =
    pf.rebuild_one (\<lambda>a e. ev_agg_type e = agg_name a) (k_events k)"
proof (intro ext)
  fix d a
  let ?rows = "filter (\<lambda>r. lr_agg_type r = agg_name a) (k_log k)"
  have "traverse (from_row (k_reg k)) ?rows = Inr (map row_event ?rows)"
    by (rule traverse_total) (use kernel_okD(2) [OF assms(1)] in \<open>auto intro: from_row_ok\<close>)
  then show "rebuild_aggregate_on_conn k1 d a =
      pf.rebuild_one (\<lambda>a e. ev_agg_type e = agg_name a) (k_events k) d a"
    using assms(2,3)
    by (simp add: rebuild_aggregate_on_conn_def pf.rebuild_one_def replay_is_foldM k_events_def
        filter_map comp_def sort_increasing increasing_filter kernel_okD(1) [OF assms(1)])
qed

lemma registered_all: "a \<in> set registered_aggregates"
  by (cases a) (simp_all add: registered_aggregates_def)

lemma rebuild_all_on_conn:
  assumes "kernel_ok k" and "k_log k1 = k_log k" and "k_reg k1 = k_reg k"
  shows "foldM (rebuild_aggregate_on_conn k1) d registered_aggregates = Inr (k_db k)"
  unfolding rebuild_aggregate_is_replay [OF assms]
proof (rule pf.rebuild_all_restores)
  show "pf.replay empty_db (k_events k) = Inr (k_db k)"
    using kernel_okD(4) [OF assms(1)] by (simp add: replay_is_foldM)
qed (use scope [OF assms(1)] clear_owned_empty registered_all in auto)

lemma import_export:
  assumes ok: "kernel_ok k" and reg: "k_reg k0 = k_reg k"
  shows "import_event_log_rows k0 (export_event_log_rows k) True =
    Inr (k0\<lparr>k_log := k_log k, k_seq := k_seq k, k_db := k_db k, k_checkpoints := [],
            k_repairs := []\<rparr>, length (k_log k))"
proof -
  have rows: "export_event_log_rows k = k_log k"
    unfolding export_event_log_rows_def
    by (rule export_complete) (use kernel_okD(1,2) [OF ok] in auto)
  have d: "distinct (map lr_seq (k_log k))" "distinct (map lr_id (k_log k))"
    "fold max (map lr_seq (k_log k)) 0 = k_seq k"
    using ok by (auto simp: kernel_ok_def dest: increasing_distinct)
  let ?k1 = "k0\<lparr>k_log := k_log k, k_seq := k_seq k, k_db := empty_db, k_checkpoints := [], k_repairs := []\<rparr>"
  have "foldM (rebuild_aggregate_on_conn ?k1) empty_db registered_aggregates = Inr (k_db k)"
    by (rule rebuild_all_on_conn [OF ok]) (simp_all add: reg)
  with d show ?thesis
    by (simp add: import_event_log_rows_def rows sort_increasing [OF kernel_okD(1) [OF ok]] Let_def)
qed

section \<open>The reachable kernels\<close>

lemma snapshot_ok:
  assumes ok: "kernel_ok k" and sv: "save_projection_snapshot k agg agent = Inr k'"
  shows "kernel_ok k'"
proof -
  let ?E = "filter (\<lambda>e. ev_agg_type e = agg) (k_events k)"
  let ?c = "\<lparr>cp_agent = agent, cp_agg = agg, cp_seq = last_seq_of ?E, cp_tables = k_db k,
            cp_created_at = k_now k\<rparr>"
  from sv have k': "k' = k\<lparr>k_checkpoints :=
      filter (\<lambda>c. \<not> (cp_agent c = agent \<and> cp_agg c = agg)) (k_checkpoints k) @ [?c]\<rparr>"
    by (simp add: save_projection_snapshot_def read_events_of [OF ok])
  have le: "seq_of e \<le> last_seq_of ?E" if "e \<in> set ?E" for e
    using that unfolding last_seq_of_def seq_of_def [symmetric] by (intro fold_max_ge) auto
  have "last_seq_of ?E \<le> k_seq k"
    unfolding last_seq_of_def seq_of_def [symmetric]
  proof (rule fold_max_le)
    show "0 \<le> k_seq k"
      using ok fold_max_ge(1) [of 0 "map lr_seq (k_log k)"] by (simp add: kernel_ok_def)
  qed (auto simp: k_events_def seq_le [OF ok])
  moreover have "\<exists>d. foldM apply_event empty_db
        (filter (\<lambda>e. ev_agg_type e = agg \<and> seq_of e \<le> last_seq_of ?E) (k_events k)) = Inr d \<and>
      same_owned a d (k_db k)" if "agg_of_name agg = Some a" for a
  proof -
    have E: "filter (\<lambda>e. ev_agg_type e = agg \<and> seq_of e \<le> last_seq_of ?E) (k_events k) =
        filter (\<lambda>e. ev_agg_type e = agg_name a) (k_events k)"
      using le agg_of_name_Some [OF that] by (intro filter_cong) auto
    have "\<exists>d. pf.replay empty_db (filter (\<lambda>e. ev_agg_type e = agg_name a) (k_events k)) = Inr d \<and>
        same_owned a (k_db k) d"
    proof (rule pf.replay_filter)
      show "pf.replay empty_db (k_events k) = Inr (k_db k)"
        using kernel_okD(4) [OF ok] by (simp add: replay_is_foldM)
    qed (use scope [OF ok] pf.agree_refl in auto)
    then show ?thesis
      unfolding E by (auto simp: replay_is_foldM intro: pf.agree_sym)
  qed
  ultimately have "checkpoint_ok k ?c"
    using kernel_db_ok [OF ok] by (simp add: checkpoint_ok_def)
  with ok show ?thesis
    by (auto simp: kernel_ok_def k' k_events_def checkpoint_ok_def)
qed

text \<open>The operations on the truth layer. A write is routed: its event type belongs to the
  aggregate type it is logged under (\<open>well_routed\<close>).\<close>

inductive kernel_step :: "kernel \<Rightarrow> kernel \<Rightarrow> bool" where
  emit: "emit_event k et agg aid p actor caused corr = Inr (k', ev) \<Longrightarrow> well_routed ev \<Longrightarrow>
    kernel_step k k'"
| snapshot: "save_projection_snapshot k agg agent = Inr k' \<Longrightarrow> kernel_step k k'"
| rebuild: "rebuild k agg agent = Inr (k', n) \<Longrightarrow> kernel_step k k'"
| rebuild_all: "rebuild_all k = Inr k' \<Longrightarrow> kernel_step k k'"
| restore: "import_event_log_rows k (export_event_log_rows k) True = Inr (k', n) \<Longrightarrow> kernel_step k k'"
| clock: "k_now k \<le> t \<Longrightarrow> kernel_step k (k\<lparr>k_now := t\<rparr>)"
| dispatched: "kernel_step k (k\<lparr>k_outbox := []\<rparr>)"
| repairs: "kernel_step k (k\<lparr>k_repairs := rs, k_repair_seq := n\<rparr>)"

inductive_cases kernel_stepE: "kernel_step k k'"

inductive kernel_reach :: "schema_registry \<Rightarrow> kernel \<Rightarrow> bool" where
  start: "kernel_reach reg (boot reg t)"
| step: "kernel_reach reg k \<Longrightarrow> kernel_step k k' \<Longrightarrow> kernel_reach reg k'"

lemma kernel_ok_irrelevant [simp]:
  "kernel_ok (k\<lparr>k_now := t\<rparr>) = kernel_ok k" "kernel_ok (k\<lparr>k_outbox := o'\<rparr>) = kernel_ok k"
  "kernel_ok (k\<lparr>k_repairs := rs, k_repair_seq := n\<rparr>) = kernel_ok k"
  by (simp_all add: kernel_ok_def k_events_def checkpoint_ok_def)

lemma kernel_step_ok: "kernel_step k k' \<Longrightarrow> kernel_ok k \<Longrightarrow> kernel_ok k'"
proof (erule kernel_stepE)
  fix n
  assume ok: "kernel_ok k" and im: "import_event_log_rows k (export_event_log_rows k) True = Inr (k', n)"
  from im import_export [OF ok refl] show "kernel_ok k'"
    using ok by (auto simp: kernel_ok_def k_events_def)
next
  fix agg agent n
  assume ok: "kernel_ok k" and r: "rebuild k agg agent = Inr (k', n)"
  from r rebuild_same [OF ok, of agg agent] ok show "kernel_ok k'" by auto
qed (auto simp: rebuild_all_same intro: emit_event_ok snapshot_ok)

lemma kernel_reach_ok: "kernel_reach reg k \<Longrightarrow> kernel_ok k"
  by (induction rule: kernel_reach.induct) (auto intro: kernel_ok_boot kernel_step_ok)

section \<open>Properties\<close>

text \<open>A kernel that recorded a goal, a child task, its completion and a checkpoint of the work
  items; the witnesses run on it.\<close>

definition emit_ok :: "kernel \<Rightarrow> string \<Rightarrow> string \<Rightarrow> string \<Rightarrow> dict \<Rightarrow> kernel" where
  "emit_ok k et agg aid p =
     (case emit_event k et agg aid p ''user'' None None of Inl e \<Rightarrow> k | Inr (k', ev) \<Rightarrow> k')"

definition sample_kernel :: kernel where
  "sample_kernel =
     emit_ok (emit_ok (boot current_registry 100)
        ''WorkItemCreated'' ''work_item'' ''g1'' [(''title'', VStr ''Goal''), (''work_type'', VStr ''goal'')])
        ''WorkItemCreated'' ''work_item'' ''t1''
          [(''title'', VStr ''Task''), (''parent_work_id'', VStr ''g1''), (''status'', VStr ''completed'')]"

lemma emit_ok_reach:
  assumes "kernel_reach reg k" and "well_routed (with_seq (k_seq k + 1)
    (create_event (k_reg k) (new_event_id (k_fresh k)) (k_now k) et agg aid (Some p) ''user'' None None))"
  shows "kernel_reach reg (emit_ok k et agg aid p)"
proof (cases "emit_event k et agg aid p ''user'' None None")
  case (Inl e)
  with assms(1) show ?thesis by (simp add: emit_ok_def)
next
  case (Inr r)
  obtain k' ev where r: "r = (k', ev)" by force
  with Inr have "ev = with_seq (k_seq k + 1)
      (create_event (k_reg k) (new_event_id (k_fresh k)) (k_now k) et agg aid (Some p) ''user'' None None)"
    by (auto simp: emit_event_def Let_def split: if_splits)
  with Inr r assms show ?thesis
    by (auto simp: emit_ok_def intro: kernel_reach.step kernel_step.emit)
qed

lemma well_routed_work_item:
  "et \<in> {''WorkItemCreated'', ''WorkItemStatusChanged''} \<Longrightarrow>
     well_routed (with_seq n (create_event reg i t et ''work_item'' aid p actor caused corr))"
  by (auto simp: well_routed_def event_owner_def with_seq_def create_event_def)

lemma sample_reach: "kernel_reach current_registry sample_kernel"
  unfolding sample_kernel_def
  by (intro emit_ok_reach kernel_reach.start well_routed_work_item) auto



text \<open>Every table of a reachable kernel satisfies the constraints of the schema: one row per
  primary key, one notification per deduplication key, no message without its conversation.\<close>

lemma reachable_db_constraints:
  assumes "kernel_reach reg k"
  shows "db_ok (k_db k)"
  by (rule kernel_db_ok [OF kernel_reach_ok [OF assms]])

text \<open>C31. \<open>rebuild\<close> of any aggregate type, with or without a checkpoint of any agent, succeeds and
  leaves the kernel exactly as it was.\<close>

theorem rebuild_is_identity:
  assumes "kernel_reach reg k"
  shows "\<exists>n. rebuild k agg agent = Inr (k, n)"
  by (rule rebuild_same [OF kernel_reach_ok [OF assms]])

theorem rebuild_is_identity_witness:
  "\<exists>n. rebuild sample_kernel ''work_item'' ''kernel'' = Inr (sample_kernel, n)"
  by (rule rebuild_is_identity [OF sample_reach])

text \<open>C32. A kernel restored from the export of a reachable kernel has its log, its sequence number
  and its tables, whatever it held before.\<close>

theorem export_import_restores:
  assumes "kernel_reach reg k" and "k_reg k0 = k_reg k"
  shows "\<exists>k'. import_event_log_rows k0 (export_event_log_rows k) True = Inr (k', length (k_log k)) \<and>
    k_log k' = k_log k \<and> k_seq k' = k_seq k \<and> k_db k' = k_db k"
  using import_export [OF kernel_reach_ok [OF assms(1)] assms(2)] by auto

theorem export_import_restores_witness:
  "\<exists>k'. import_event_log_rows (boot (k_reg sample_kernel) 7) (export_event_log_rows sample_kernel) True =
      Inr (k', length (k_log sample_kernel)) \<and>
    k_log k' = k_log sample_kernel \<and> k_seq k' = k_seq sample_kernel \<and> k_db k' = k_db sample_kernel"
  by (rule export_import_restores [OF sample_reach]) (simp add: boot_def)

text \<open>The batched export returns the whole log in order, whatever batch size is asked for.\<close>

lemma export_any_batch:
  assumes "kernel_reach reg k"
  shows "fetch_event_log_dicts (k_log k) batch_size = k_log k"
  using kernel_okD(1,2) [OF kernel_reach_ok [OF assms]] by (intro export_complete) auto

text \<open>The log is append-only: no operation drops, reorders or rewrites a logged row.\<close>

lemma log_append_only:
  assumes "kernel_reach reg k" and "kernel_step k k'"
  shows "\<exists>rows. k_log k' = k_log k @ rows"
proof -
  have ok: "kernel_ok k" by (rule kernel_reach_ok [OF assms(1)])
  from assms(2) show ?thesis
  proof (cases rule: kernel_step.cases)
    case emit
    then show ?thesis by (auto simp: emit_event_def Let_def split: if_splits)
  next
    case (rebuild agg agent n)
    then show ?thesis using rebuild_same [OF ok, of agg agent] by auto
  next
    case restore
    then show ?thesis using import_export [OF ok refl] by auto
  qed (auto simp: save_projection_snapshot_def rebuild_all_same [OF ok])
qed

lemma emitted_row:
  "emit_event k et agg aid p actor caused corr = Inr (k', ev) \<Longrightarrow>
     \<exists>r. k_log k' = k_log k @ [r] \<and> row_event r = ev \<and> lr_id r = ev_id ev \<and> k_reg k' = k_reg k"
  by (auto simp: emit_event_def Let_def row_of_event_def row_event_def with_seq_def create_event_def
      split: if_splits)

text \<open>A write can be read back: after \<open>emit_event\<close> returned an event, reading the log by
  that event's id gives exactly that event.\<close>

lemma emitted_event_readable:
  assumes "kernel_reach reg k" and "emit_event k et agg aid p actor caused corr = Inr (k', ev)"
    and "well_routed ev"
  shows "read_events k' (all_events\<lparr>q_id := Some (ev_id ev)\<rparr>) = Inr [ev]"
proof -
  have ok: "kernel_ok k'" by (rule emit_event_ok [OF kernel_reach_ok [OF assms(1)] assms(2,3)])
  from emitted_row [OF assms(2)] obtain r where r: "k_log k' = k_log k @ [r]" "row_event r = ev"
    "lr_id r = ev_id ev" by blast
  have fresh: "lr_id r \<notin> lr_id ` set (k_log k)"
    using ok r(1) by (auto simp: kernel_ok_def)
  have pos: "0 < lr_seq r" "row_ok (k_reg k') r" using kernel_okD(2) [OF ok, of r] r(1) by auto
  have m: "row_matches (all_events\<lparr>q_id := Some (ev_id ev)\<rparr>) x \<longleftrightarrow> 0 < lr_seq x \<and> lr_id x = ev_id ev" for x
    by (auto simp: row_matches_def all_events_def opt_eq_def)
  have "filter (row_matches (all_events\<lparr>q_id := Some (ev_id ev)\<rparr>)) (k_log k) = []"
    unfolding filter_empty_conv m using fresh r(3) by (metis imageI)
  then have "filter (row_matches (all_events\<lparr>q_id := Some (ev_id ev)\<rparr>)) (k_log k') = [r]"
    using pos r(3) by (simp add: r(1) m)
  then have "fetch_event_log_rows (all_events\<lparr>q_id := Some (ev_id ev)\<rparr>) (k_log k') = Inr [r]"
    by (simp add: fetch_event_log_rows_def all_events_def safe_limit_def safe_offset_def
        safe_order_def take_opt_def)
  then show ?thesis
    using from_row_ok [OF pos(2)] r(2) by (simp add: read_events_def)
qed

lemma prune_frame:
  "\<exists>t. fst (prune_handler_executions k days) = k\<lparr>k_db := (k_db k)\<lparr>t_handler_executions := t\<rparr>\<rparr>"
  by (cases "days \<le> 0") (auto simp: prune_handler_executions_def Let_def intro: exI [of _ "t_handler_executions (k_db k)"])

text \<open>Pruning finished executions is soft: it never touches the event log, and a rebuild of
  the execution aggregate without a checkpoint brings every pruned row back.\<close>

lemma prune_undone_by_rebuild:
  assumes "kernel_reach reg k" and "find_checkpoint k ''execution'' agent = None"
  shows "\<exists>n. rebuild (fst (prune_handler_executions k days)) ''execution'' agent = Inr (k, n)"
proof -
  from prune_frame obtain t where
    p: "fst (prune_handler_executions k days) = k\<lparr>k_db := (k_db k)\<lparr>t_handler_executions := t\<rparr>\<rparr>" by blast
  let ?k = "k\<lparr>k_db := (k_db k)\<lparr>t_handler_executions := t\<rparr>\<rparr>"
  have read: "read_events ?k q = read_events k q" for q by (simp add: read_events_def)
  have agg: "agg_of_name ''execution'' = Some Execution"
    using agg_of_name_name [of Execution] by simp
  have "rebuild ?k ''execution'' agent = rebuild k ''execution'' agent"
    using assms(2) by (simp add: rebuild_def read agg find_checkpoint_def Let_def)
  then show ?thesis
    using rebuild_same [OF kernel_reach_ok [OF assms(1)], of "''execution''" agent] by (simp add: p)
qed

end
