(* ===== verification/Lane_A.thy ===== *)
theory Lane_A
  imports Sovereignty
begin

text \<open>
  The unit of durable handler execution: \<open>core/runtime/scheduled_execution.py\<close> (policy, state
  machine, row conversion), the emit helpers of \<open>core/runtime/execution_events.py\<close> and the
  identities of \<open>core/runtime/execution.py\<close>.

  An item's \<open>started_at\<close> or \<open>completed_at\<close> of \<open>None\<close> is \<open>NoTime\<close>, an \<open>error\<close> of \<open>None\<close> is the
  empty text: the code stores both as the empty text and reads the empty text back as \<open>None\<close>.
\<close>

section \<open>Policy\<close>

record policy =
  pol_timeout :: rat
  pol_max_retries :: int
  pol_delay :: rat

definition default_policy :: policy where
  "default_policy = \<lparr>pol_timeout = 30, pol_max_retries = 3, pol_delay = 5\<rparr>"

text \<open>\<open>policy_for_event\<close>: \<open>tool_loop\<close> is \<open>settings.total_tool_loop_timeout\<close>, \<open>brief\<close> the answer
  of \<open>_is_project_brief_execute\<close>, which looks up the product's plan of the work item.\<close>

definition policy_for_event :: "rat \<Rightarrow> bool \<Rightarrow> string \<Rightarrow> policy" where
  "policy_for_event tool_loop brief et =
     (if et = ''ChatRequested''
      then \<lparr>pol_timeout = tool_loop, pol_max_retries = 2, pol_delay = 2\<rparr>
      else if et = ''ExecuteRequested'' \<and> brief
      then \<lparr>pol_timeout = tool_loop, pol_max_retries = 1, pol_delay = 2\<rparr>
      else default_policy)"

section \<open>Items and their state machine\<close>

record exec_item =
  it_id :: string
  it_event_seq :: int
  it_event_id :: string
  it_event_type :: string
  it_handler :: string
  it_instance :: string
  it_status :: string
  it_retries :: int
  it_policy :: policy
  it_corr :: string
  it_created_at :: stamp
  it_started_at :: stamp
  it_completed_at :: stamp
  it_error :: string
  it_dead :: bool
  it_event :: "event option"

definition lane_a_transitions :: "(string \<times> string list) list" where
  "lane_a_transitions =
     [(''pending'', [''running'', ''failed'']),
      (''running'', [''completed'', ''failed'', ''retrying'']),
      (''retrying'', [''pending'', ''running'', ''failed'']),
      (''completed'', []),
      (''failed'', [''retrying'', ''pending''])]"

definition lane_allowed :: "string \<Rightarrow> string \<Rightarrow> bool" where
  "lane_allowed s s' \<longleftrightarrow>
     s' \<in> set (case map_of lane_a_transitions s of None \<Rightarrow> [] | Some l \<Rightarrow> l)"

definition transition_to :: "time \<Rightarrow> string \<Rightarrow> exec_item \<Rightarrow> exec_item res" where
  "transition_to now status it =
     (if \<not> lane_allowed (it_status it) status then Inl (ValueError ''Invalid ScheduledExecution transition'')
      else Inr (it\<lparr>it_status := status,
        it_started_at := (if status = ''running'' \<and> it_started_at it = NoTime then At now
                          else it_started_at it),
        it_completed_at := (if status = ''completed'' \<or> status = ''failed'' then At now
                            else it_completed_at it)\<rparr>))"

definition can_retry :: "exec_item \<Rightarrow> bool" where
  "can_retry it \<longleftrightarrow> it_retries it < pol_max_retries (it_policy it)"

section \<open>Rows\<close>

definition policy_dict :: "policy \<Rightarrow> dict" where
  "policy_dict p = [(''timeout'', VNum (pol_timeout p)), (''max_retries'', VInt (pol_max_retries p)),
     (''retry_delay'', VNum (pol_delay p))]"

definition to_row :: "exec_item \<Rightarrow> handler_row" where
  "to_row it =
     \<lparr>he_id = it_id it, he_event_seq = it_event_seq it, he_event_id = it_event_id it,
      he_event_type = it_event_type it, he_handler_name = it_handler it,
      he_instance_id = it_instance it, he_status = it_status it, he_retry_count = it_retries it,
      he_policy = policy_dict (it_policy it), he_corr = it_corr it,
      he_created_at = it_created_at it, he_started_at = it_started_at it,
      he_completed_at = it_completed_at it, he_error = it_error it, he_dead_letter = it_dead it\<rparr>"

text \<open>The policy of a row is the JSON object the scheduler wrote, with the dataclass defaults
  for missing keys. A non-numeric entry would raise where it is first compared or awaited; it
  raises here.\<close>

definition policy_of_dict :: "dict \<Rightarrow> policy res" where
  "policy_of_dict d =
     rbind (py_float (getd d ''timeout'' (VNum 30))) (\<lambda>t.
     rbind (py_int (getd d ''max_retries'' (VInt 3))) (\<lambda>m.
     rbind (py_float (getd d ''retry_delay'' (VNum 5))) (\<lambda>w.
       Inr \<lparr>pol_timeout = t, pol_max_retries = m, pol_delay = w\<rparr>)))"

definition item_of_row :: "handler_row \<Rightarrow> exec_item res" where
  "item_of_row r =
     rbind (policy_of_dict (he_policy r)) (\<lambda>p.
       Inr \<lparr>it_id = he_id r, it_event_seq = he_event_seq r, it_event_id = he_event_id r,
        it_event_type = he_event_type r, it_handler = he_handler_name r,
        it_instance = he_instance_id r, it_status = he_status r, it_retries = he_retry_count r,
        it_policy = p, it_corr = he_corr r, it_created_at = he_created_at r,
        it_started_at = he_started_at r, it_completed_at = he_completed_at r,
        it_error = he_error r, it_dead = he_dead_letter r, it_event = None\<rparr>)"

lemma policy_dict_roundtrip [simp]: "policy_of_dict (policy_dict p) = Inr p"
  by (simp add: policy_of_dict_def policy_dict_def)

lemma policy_json_policy_dict [simp]: "policy_json (policy_dict p) = policy_dict p"
  by (simp add: policy_json_def policy_dict_def)

lemma item_row_of_to_row: "item_of_row (to_row it) = Inr (it\<lparr>it_event := None\<rparr>)"
  by (simp add: item_of_row_def to_row_def)

section \<open>Facts of the state machine\<close>

lemma lane_allowed_cases:
  "lane_allowed s s' \<longleftrightarrow>
     s = ''pending'' \<and> s' \<in> {''running'', ''failed''} \<or>
     s = ''running'' \<and> s' \<in> {''completed'', ''failed'', ''retrying''} \<or>
     s = ''retrying'' \<and> s' \<in> {''pending'', ''running'', ''failed''} \<or>
     s = ''failed'' \<and> s' \<in> {''retrying'', ''pending''}"
  by (auto simp: lane_allowed_def lane_a_transitions_def)

lemma completed_is_final: "\<not> lane_allowed ''completed'' s"
  by (simp add: lane_allowed_cases)

section \<open>The events of an execution\<close>

definition text_or_none :: "string \<Rightarrow> string option" where
  "text_or_none s = (if s = [] then None else Some s)"

definition requested_payload :: "exec_item \<Rightarrow> string \<Rightarrow> dict" where
  "requested_payload it actor =
     [(''execution_id'', VStr (it_id it)), (''actor'', VStr actor),
      (''handler_name'', VStr (it_handler it)), (''trigger_event_id'', VStr (it_event_id it)),
      (''trigger_event_seq'', VInt (it_event_seq it)),
      (''trigger_event_type'', VStr (it_event_type it)), (''instance_id'', VStr (it_instance it)),
      (''policy'', VObj (policy_dict (it_policy it))), (''correlation_id'', VStr (it_corr it)),
      (''created_at'', stamp_val (it_created_at it)), (''event_seq'', VInt (it_event_seq it))]"

definition emit_execution_requested :: "kernel \<Rightarrow> exec_item \<Rightarrow> string \<Rightarrow> (kernel \<times> event) res" where
  "emit_execution_requested k it actor =
     emit_event k ''ExecutionRequested'' ''execution'' (it_id it) (requested_payload it actor)
       actor (text_or_none (it_event_id it)) (text_or_none (it_corr it))"

definition emit_execution_started :: "kernel \<Rightarrow> exec_item \<Rightarrow> (kernel \<times> event) res" where
  "emit_execution_started k it =
     emit_event k ''ExecutionStarted'' ''execution'' (it_id it)
       [(''execution_id'', VStr (it_id it)), (''attempt'', VInt (it_retries it + 1)),
        (''started_at'', stamp_val (it_started_at it))]
       ''scheduler'' None (text_or_none (it_corr it))"

definition emit_execution_completed :: "kernel \<Rightarrow> exec_item \<Rightarrow> (kernel \<times> event) res" where
  "emit_execution_completed k it =
     emit_event k ''ExecutionCompleted'' ''execution'' (it_id it)
       [(''execution_id'', VStr (it_id it)), (''completed_at'', stamp_val (it_completed_at it)),
        (''result_summary'', VStr [])]
       ''scheduler'' None (text_or_none (it_corr it))"

text \<open>\<open>emit_execution_failed\<close> sets \<open>item.dead_letter\<close> before it emits, so it returns the item.
  Every caller passes \<open>dead_letter\<close>.\<close>

definition emit_execution_failed ::
  "kernel \<Rightarrow> exec_item \<Rightarrow> bool \<Rightarrow> bool \<Rightarrow> (kernel \<times> exec_item) res" where
  "emit_execution_failed k it terminal dead_letter =
     (let it' = (if dead_letter then it\<lparr>it_dead := True\<rparr> else it) in
      rbind (emit_event k ''ExecutionFailed'' ''execution'' (it_id it')
        [(''execution_id'', VStr (it_id it')), (''failed_at'', stamp_val (it_completed_at it')),
         (''error'', VStr (it_error it')), (''attempt'', VInt (it_retries it')),
         (''terminal'', VBool terminal), (''dead_letter'', VBool dead_letter)]
        ''scheduler'' None (text_or_none (it_corr it')))
      (\<lambda>(k', ev). Inr (k', it')))"

definition emit_execution_retried ::
  "kernel \<Rightarrow> exec_item \<Rightarrow> string \<Rightarrow> string \<Rightarrow> (kernel \<times> event) res" where
  "emit_execution_retried k it reason status =
     emit_event k ''ExecutionRetried'' ''execution'' (it_id it)
       [(''execution_id'', VStr (it_id it)), (''attempt'', VInt (it_retries it)),
        (''reason'', VStr reason), (''status'', VStr status)]
       ''scheduler'' None (text_or_none (it_corr it))"

lemmas execution_emits = emit_execution_requested_def emit_execution_started_def
  emit_execution_completed_def emit_execution_failed_def emit_execution_retried_def

section \<open>What an emission does to the store\<close>

definition handler_rows :: "kernel \<Rightarrow> handler_row list" where
  "handler_rows k = t_handler_executions (k_db k)"

text \<open>\<open>wrote k k' rows\<close>: from \<open>k\<close> to \<open>k'\<close> one execution event was logged and the execution
  table became \<open>rows\<close>; nothing else of the store changed.\<close>

definition wrote :: "kernel \<Rightarrow> kernel \<Rightarrow> handler_row list \<Rightarrow> bool" where
  "wrote k k' rows \<longleftrightarrow> k_db k' = (k_db k)\<lparr>t_handler_executions := rows\<rparr> \<and> k_now k' = k_now k \<and>
     kernel_ok k' \<and> k_seq k' = k_seq k + 1"

lemma wroteD:
  "wrote k k' rows \<Longrightarrow> handler_rows k' = rows"
  "wrote k k' rows \<Longrightarrow> kernel_ok k'" "wrote k k' rows \<Longrightarrow> k_now k' = k_now k"
  "wrote k k' rows \<Longrightarrow> t_work_items (k_db k') = t_work_items (k_db k)"
  by (simp_all add: wrote_def handler_rows_def)

definition exec_event :: "kernel \<Rightarrow> string \<Rightarrow> string \<Rightarrow> dict \<Rightarrow> string \<Rightarrow> string option \<Rightarrow> string option \<Rightarrow> event" where
  "exec_event k et aid p actor caused corr =
     with_seq (k_seq k + 1) (create_event (k_reg k) (new_event_id (k_fresh k)) (k_now k) et
       ''execution'' aid (Some p) actor caused corr)"

lemma exec_event_fields [simp]:
  "ev_type (exec_event k et aid p actor caused corr) = et"
  "ev_agg_type (exec_event k et aid p actor caused corr) = ''execution''"
  "ev_agg_id (exec_event k et aid p actor caused corr) = aid"
  "ev_ts (exec_event k et aid p actor caused corr) = k_now k"
  "ev_payload (exec_event k et aid p actor caused corr) = stamp_event_payload (k_reg k) et (Some p)"
  by (simp_all add: exec_event_def with_seq_def create_event_def)

lemma emit_execution_event:
  assumes ok: "kernel_ok k" and et: "map_of handler_table et = Some Execution"
    and proj: "execution_projector (exec_event k et aid p actor caused corr) (handler_rows k) = Inr rows"
  shows "\<exists>k' ev. emit_event k et ''execution'' aid p actor caused corr = Inr (k', ev) \<and> wrote k k' rows"
proof -
  let ?e = "exec_event k et aid p actor caused corr"
  have own: "event_owner ?e = Some Execution"
    using et by (simp add: event_owner_def)
  have ap: "apply_event (k_db k) ?e = Inr ((k_db k)\<lparr>t_handler_executions := rows\<rparr>)"
    using proj by (simp add: apply_event_def own handler_rows_def)
  have fresh: "new_event_id (k_fresh k) \<notin> lr_id ` set (k_log k)"
    using ok by (auto simp: kernel_ok_def)
  obtain k' where em: "emit_event k et ''execution'' aid p actor caused corr = Inr (k', ?e)"
    and k': "k_db k' = (k_db k)\<lparr>t_handler_executions := rows\<rparr>" "k_now k' = k_now k"
      "k_seq k' = k_seq k + 1"
    using ap fresh by (simp add: emit_event_def Let_def exec_event_def create_event_def)
  have "well_routed ?e" by (simp add: well_routed_def own)
  from emit_event_ok [OF ok em this] em k' show ?thesis by (auto simp: wrote_def)
qed

lemma schema_key_neq:
  "''policy'' \<noteq> schema_key" "''started_at'' \<noteq> schema_key" "''completed_at'' \<noteq> schema_key"
  "''failed_at'' \<noteq> schema_key" "''error'' \<noteq> schema_key" "''attempt'' \<noteq> schema_key"
  "''dead_letter'' \<noteq> schema_key" "''status'' \<noteq> schema_key" "''reason'' \<noteq> schema_key"
  "''event_seq'' \<noteq> schema_key" "''trigger_event_id'' \<noteq> schema_key"
  "''trigger_event_type'' \<noteq> schema_key" "''handler_name'' \<noteq> schema_key"
  "''instance_id'' \<noteq> schema_key" "''correlation_id'' \<noteq> schema_key" "''created_at'' \<noteq> schema_key"
  by (simp_all add: schema_key_def)

abbreviation of_id :: "string \<Rightarrow> handler_row \<Rightarrow> bool" where
  "of_id i \<equiv> (\<lambda>r. he_id r = i)"

lemma emit_started:
  assumes "kernel_ok k" and "it_started_at it \<noteq> Junk []"
  shows "\<exists>k' ev. emit_execution_started k it = Inr (k', ev) \<and> wrote k k' (sql_update (of_id (it_id it))
    (\<lambda>r. r\<lparr>he_status := ''running'', he_started_at := it_started_at it, he_dead_letter := False\<rparr>)
    (handler_rows k))"
  unfolding emit_execution_started_def
  by (rule emit_execution_event [OF assms(1)])
    (use assms(2) in \<open>simp_all add: execution_projector_def on_execution_started_def schema_key_neq\<close>)

lemma emit_completed:
  assumes "kernel_ok k" and "it_completed_at it \<noteq> Junk []"
  shows "\<exists>k' ev. emit_execution_completed k it = Inr (k', ev) \<and> wrote k k' (sql_update (of_id (it_id it))
    (\<lambda>r. r\<lparr>he_status := ''completed'', he_completed_at := it_completed_at it, he_error := [],
           he_dead_letter := False\<rparr>) (handler_rows k))"
  unfolding emit_execution_completed_def
  by (rule emit_execution_event [OF assms(1)])
    (use assms(2) in \<open>simp_all add: execution_projector_def on_execution_completed_def schema_key_neq\<close>)

lemma emit_retried:
  assumes "kernel_ok k"
  shows "\<exists>k' ev. emit_execution_retried k it reason st = Inr (k', ev) \<and> wrote k k' (sql_update (of_id (it_id it))
    (\<lambda>r. r\<lparr>he_status := st, he_retry_count := it_retries it, he_error := reason,
           he_dead_letter := False\<rparr>) (handler_rows k))"
  unfolding emit_execution_retried_def
  by (rule emit_execution_event [OF assms])
    (simp_all add: execution_projector_def on_execution_retried_def schema_key_neq)

lemma emit_failed:
  assumes "kernel_ok k" and "it_completed_at it \<noteq> Junk []"
  shows "\<exists>k'. emit_execution_failed k it term dl =
      Inr (k', if dl then it\<lparr>it_dead := True\<rparr> else it) \<and> wrote k k' (sql_update (of_id (it_id it))
    (\<lambda>r. r\<lparr>he_status := ''failed'', he_completed_at := it_completed_at it, he_error := it_error it,
           he_retry_count := it_retries it, he_dead_letter := dl\<rparr>) (handler_rows k))"
proof -
  let ?it = "if dl then it\<lparr>it_dead := True\<rparr> else it"
  have "\<exists>k' ev. emit_event k ''ExecutionFailed'' ''execution'' (it_id ?it)
        [(''execution_id'', VStr (it_id ?it)), (''failed_at'', stamp_val (it_completed_at ?it)),
         (''error'', VStr (it_error ?it)), (''attempt'', VInt (it_retries ?it)),
         (''terminal'', VBool term), (''dead_letter'', VBool dl)]
        ''scheduler'' None (text_or_none (it_corr ?it)) = Inr (k', ev) \<and>
      wrote k k' (sql_update (of_id (it_id it))
        (\<lambda>r. r\<lparr>he_status := ''failed'', he_completed_at := it_completed_at it, he_error := it_error it,
           he_retry_count := it_retries it, he_dead_letter := dl\<rparr>) (handler_rows k))"
    by (rule emit_execution_event [OF assms(1)])
      (use assms(2) in \<open>simp_all add: execution_projector_def on_execution_failed_def schema_key_neq\<close>)
  then show ?thesis by (auto simp: emit_execution_failed_def Let_def)
qed

lemma requested_get:
  "getd (requested_payload it actor) ''policy'' d = VObj (policy_dict (it_policy it))"
  "getd (requested_payload it actor) ''event_seq'' d = VInt (it_event_seq it)"
  "getd (requested_payload it actor) ''trigger_event_id'' d = VStr (it_event_id it)"
  "getd (requested_payload it actor) ''trigger_event_type'' d = VStr (it_event_type it)"
  "getd (requested_payload it actor) ''handler_name'' d = VStr (it_handler it)"
  "getd (requested_payload it actor) ''instance_id'' d = VStr (it_instance it)"
  "getd (requested_payload it actor) ''correlation_id'' d = VStr (it_corr it)"
  "getd (requested_payload it actor) ''created_at'' d = stamp_val (it_created_at it)"
  by (simp_all add: requested_payload_def)

lemma emit_requested:
  assumes "kernel_ok k" and "it_created_at it \<noteq> Junk []"
  shows "\<exists>k' ev. emit_execution_requested k it actor = Inr (k', ev) \<and> wrote k k'
    (sql_replace he_id ((to_row it)\<lparr>he_status := ''pending'', he_retry_count := 0,
       he_started_at := NoTime, he_completed_at := NoTime, he_error := [], he_dead_letter := False\<rparr>)
     (handler_rows k))"
  unfolding emit_execution_requested_def
  by (rule emit_execution_event [OF assms(1)])
    (use assms(2) in \<open>simp_all add: execution_projector_def on_execution_requested_def
       schema_key_neq requested_get py_or_def policy_dict_def or_default_def to_row_def policy_json_def\<close>)

end
