(* ===== verification/Exec_Repo.thy ===== *)
theory Exec_Repo
  imports Lane_A
begin

text \<open>
  Reading executions (\<open>kernel/execution_repository.py\<close>) and folding a dead-lettered execution
  into the work item it ran for (\<open>runtime_loop.py\<close>: \<open>_current_execute_requested\<close>,
  \<open>failed_handler_close_error\<close>, \<open>close_dead_lettered_domain_work\<close>,
  \<open>dead_letter_replay_block_reason\<close>), with the durable lease expiry that uses both.
\<close>

section \<open>Scans of the execution table\<close>

definition read_scheduled_execution :: "kernel \<Rightarrow> string \<Rightarrow> exec_item option res" where
  "read_scheduled_execution k i =
     (case sql_find he_id i (handler_rows k) of
        None \<Rightarrow> Inr None
      | Some r \<Rightarrow> rbind (item_of_row r) (\<lambda>it. Inr (Some it)))"

definition items_where :: "(handler_row \<Rightarrow> bool) \<Rightarrow> kernel \<Rightarrow> exec_item list res" where
  "items_where P k = traverse item_of_row (sort_key he_created_at (filter P (handler_rows k)))"

definition read_scheduled_executions ::
  "kernel \<Rightarrow> string option \<Rightarrow> string option \<Rightarrow> exec_item list res" where
  "read_scheduled_executions k status instance_id =
     items_where (\<lambda>r. opt_eq status (he_status r) \<and> opt_eq instance_id (he_instance_id r)) k"

definition recover_scheduled_executions :: "kernel \<Rightarrow> (exec_item list \<times> exec_item list) res" where
  "recover_scheduled_executions k =
     rbind (items_where (\<lambda>r. he_status r = ''running'') k) (\<lambda>running.
     rbind (items_where (\<lambda>r. he_status r \<in> {''pending'', ''retrying''}) k) (\<lambda>pending.
       Inr (running, pending)))"

definition count_scheduled_executions_by_status :: "kernel \<Rightarrow> (string \<times> nat) list" where
  "count_scheduled_executions_by_status k =
     map (\<lambda>s. (s, length (filter (\<lambda>r. he_status r = s) (handler_rows k))))
       (remdups (map he_status (handler_rows k)))"

text \<open>Empty and unreadable start texts are stale.\<close>

fun started_stale :: "time \<Rightarrow> stamp \<Rightarrow> bool" where
  "started_stale cutoff (At t) = (t \<le> cutoff)"
| "started_stale cutoff _ = True"

definition second_us :: int where
  "second_us = 1000000"

definition list_stale_running_executions :: "kernel \<Rightarrow> int \<Rightarrow> exec_item list res" where
  "list_stale_running_executions k ttl_seconds =
     (if ttl_seconds \<le> 0 then Inr []
      else let cutoff = k_now k - ttl_seconds * second_us in
           rbind (items_where (\<lambda>r. he_status r = ''running'') k)
             (\<lambda>items. Inr (filter (\<lambda>it. started_stale cutoff (it_started_at it)) items)))"

definition list_dead_letter_executions :: "kernel \<Rightarrow> exec_item list res" where
  "list_dead_letter_executions k = items_where he_dead_letter k"

section \<open>The current attempt of a work item\<close>

definition exec_aggregate :: "string \<Rightarrow> string" where
  "exec_aggregate work_id = ''exec_'' @ work_id"

definition status_events :: "kernel \<Rightarrow> string \<Rightarrow> event list res" where
  "status_events k work_id =
     read_events k (all_events\<lparr>q_agg_type := Some ''work_item'', q_agg_id := Some work_id,
       q_types := Some [''WorkItemCreated'', ''WorkItemStatusChanged'', ''WorkItemUpdated''],
       q_order := ''desc''\<rparr>)"

definition execute_requests :: "kernel \<Rightarrow> string \<Rightarrow> event list res" where
  "execute_requests k work_id =
     read_events k (all_events\<lparr>q_type := Some ''ExecuteRequested'', q_agg_type := Some ''action'',
       q_agg_id := Some (exec_aggregate work_id), q_order := ''desc'', q_limit := Some 1\<rparr>)"

definition current_execute_requested :: "kernel \<Rightarrow> string \<Rightarrow> event option res" where
  "current_execute_requested k work_id =
     rbind (status_events k work_id) (\<lambda>evs.
       let running = List.find (\<lambda>e. get (ev_payload e) ''status'' = VStr ''running'') evs;
           running_seq = (case running of None \<Rightarrow> 0 | Some e \<Rightarrow> seq_of e)
       in rbind (execute_requests k work_id) (\<lambda>reqs.
            case reqs of
              [] \<Rightarrow> Inr None
            | latest # _ \<Rightarrow>
                Inr (if running_seq < seq_of latest then Some latest
                     else (case running of
                             Some r \<Rightarrow> if ev_caused_by r = Some (ev_id latest) then Some latest else None
                           | None \<Rightarrow> None))))"

definition work_id_for_execute_execution :: "kernel \<Rightarrow> exec_item \<Rightarrow> string res" where
  "work_id_for_execute_execution k it =
     rbind (case it_event it of
              Some e \<Rightarrow> Inr (Some e)
            | None \<Rightarrow> rbind (read_events k (all_events\<lparr>q_id := Some (it_event_id it), q_limit := Some 1\<rparr>))
                       (\<lambda>found. Inr (case found of [] \<Rightarrow> None | e # _ \<Rightarrow> Some e)))
       (\<lambda>ev. Inr (case ev of
          None \<Rightarrow> []
        | Some e \<Rightarrow>
            if ev_type e \<noteq> ''ExecuteRequested'' then []
            else let action_id = strip (py_str (py_or (get (ev_payload e) ''action_id'') (VStr []))) in
              if action_id \<noteq> [] then action_id
              else if starts_with ''exec_'' (ev_agg_id e) then drop 5 (ev_agg_id e) else []))"

section \<open>Closing the work item of a dead letter\<close>

definition terminal_handler_statuses :: "string list" where
  "terminal_handler_statuses = [''completed'', ''failed'']"

definition failed_handler_close_error :: "exec_item list \<Rightarrow> string option" where
  "failed_handler_close_error handlers =
     (if handlers = [] then None
      else if list_ex (\<lambda>it. it_status it \<notin> set terminal_handler_statuses) handlers then None
      else if \<not> list_ex (\<lambda>it. it_status it = ''failed'') handlers then None
      else Some (take 500 (case List.find (\<lambda>it. it_error it \<noteq> []) handlers of
                             None \<Rightarrow> ''execution_failed''
                           | Some it \<Rightarrow> it_error it)))"

definition emit_running_work_failed :: "kernel \<Rightarrow> string \<Rightarrow> string \<Rightarrow> kernel res" where
  "emit_running_work_failed k work_id er =
     rbind (emit_event k ''WorkItemStatusChanged'' ''work_item'' work_id
              [(''status'', VStr ''failed''), (''error'', VStr er)] ''kernel'' None None)
       (\<lambda>(k', ev). Inr k')"

definition work_status :: "kernel \<Rightarrow> string \<Rightarrow> val option" where
  "work_status k work_id = map_option w_status (sql_find w_id work_id (t_work_items (k_db k)))"

definition close_dead_lettered :: "kernel \<Rightarrow> exec_item \<Rightarrow> (kernel \<times> bool) res" where
  "close_dead_lettered k it =
     (if \<not> it_dead it \<or> it_status it \<noteq> ''failed'' \<or> it_event_type it \<noteq> ''ExecuteRequested'' \<or>
         it_event_id it = [] then Inr (k, False)
      else rbind (work_id_for_execute_execution k it) (\<lambda>work_id.
        if work_id = [] then Inr (k, False)
        else if work_status k work_id \<noteq> Some (VStr ''running'') then Inr (k, False)
        else rbind (current_execute_requested k work_id) (\<lambda>cur.
          if map_option ev_id cur \<noteq> Some (it_event_id it) then Inr (k, False)
          else rbind (read_scheduled_executions k None None) (\<lambda>items.
            case failed_handler_close_error (filter (\<lambda>x. it_event_id x = it_event_id it) items) of
              None \<Rightarrow> Inr (k, False)
            | Some er \<Rightarrow> rbind (emit_running_work_failed k work_id er) (\<lambda>k'. Inr (k', True))))))"

text \<open>\<open>close_dead_lettered_domain_work\<close> logs an exception and answers False.\<close>

definition close_dead_lettered_domain_work :: "kernel \<Rightarrow> exec_item \<Rightarrow> kernel \<times> bool" where
  "close_dead_lettered_domain_work k it =
     (case close_dead_lettered k it of Inl e \<Rightarrow> (k, False) | Inr r \<Rightarrow> r)"

definition replay_terminal_statuses :: "string list" where
  "replay_terminal_statuses = [''completed'', ''failed'', ''cancelled'']"

definition replay_block_reason :: "kernel \<Rightarrow> exec_item \<Rightarrow> string option res" where
  "replay_block_reason k it =
     rbind (work_id_for_execute_execution k it) (\<lambda>work_id.
       if work_id = [] then Inr None
       else (case work_status k work_id of
               None \<Rightarrow> Inr (Some ''work_missing'')
             | Some v \<Rightarrow>
                 let status = py_str (py_or v (VStr [])) in
                 if status \<in> set replay_terminal_statuses
                 then Inr (Some (''work_terminal:'' @ status))
                 else rbind (current_execute_requested k work_id) (\<lambda>cur.
                   Inr (if map_option ev_id cur \<noteq> Some (it_event_id it)
                        then Some ''not_current_attempt'' else None))))"

definition dead_letter_replay_block_reason :: "kernel \<Rightarrow> exec_item \<Rightarrow> string option" where
  "dead_letter_replay_block_reason k it =
     (case replay_block_reason k it of Inl e \<Rightarrow> Some ''work_status_unreadable'' | Inr r \<Rightarrow> r)"

section \<open>Lease expiry without a scheduler\<close>

definition expire_one :: "time \<Rightarrow> kernel \<Rightarrow> exec_item \<Rightarrow> (kernel \<times> exec_item) res" where
  "expire_one now k it =
     (let it1 = it\<lparr>it_error := ''timeout'', it_completed_at := At now\<rparr> in
      rbind (if it_status it1 = ''running'' then transition_to now ''failed'' it1 else Inr it1) (\<lambda>it2.
        let terminal = \<not> can_retry it2 in emit_execution_failed k it2 terminal terminal))"

fun expire_all :: "time \<Rightarrow> kernel \<Rightarrow> exec_item list \<Rightarrow> (kernel \<times> exec_item list) res" where
  "expire_all now k [] = Inr (k, [])"
| "expire_all now k (it # its) =
     rbind (expire_one now k it) (\<lambda>(k1, it1).
     rbind (expire_all now k1 its) (\<lambda>(k2, its2). Inr (k2, it1 # its2)))"

definition expire_stale_running_leases :: "kernel \<Rightarrow> int \<Rightarrow> (kernel \<times> nat) res" where
  "expire_stale_running_leases k ttl =
     (if ttl \<le> 0 then Inr (k, 0)
      else rbind (list_stale_running_executions k ttl) (\<lambda>stale.
        rbind (expire_all (k_now k) k stale) (\<lambda>(k1, its).
          Inr (fold (\<lambda>it k. fst (close_dead_lettered_domain_work k it)) (filter it_dead its) k1,
               length stale))))"

end
