(* ===== verification/Scheduler.thy ===== *)
theory Scheduler
  imports Exec_Repo
begin

text \<open>
  The Lane A scheduler, \<open>core/runtime/agent_scheduler.py\<close>, with the handler registry and the
  cooperative cancel flags.

  \<^item> \<open>ScheduledExecution\<close> objects are mutable and shared between the queue, the active table and
    the coroutines, so they live on a heap (\<open>s_heap\<close>, an object is its index). \<open>s_active\<close> is the
    dict from execution id to object and task.
  \<^item> A coroutine \<open>_process_work_item\<close> runs uninterrupted between its awaits: \<open>task_start\<close> is its
    first segment, \<open>task_done\<close> what follows the handler, \<open>task_wake\<close> what follows the retry
    delay, \<open>task_cancelled\<close> the delivery of a \<open>CancelledError\<close>. The handler itself is external:
    its result is an \<open>outcome\<close>, its writes are steps of the environment.
  \<^item> An \<open>action\<close> works on the kernel and one item and may raise half way, keeping what it already
    changed. \<open>_shadow_compare\<close> only logs; \<open>shadow_diffs\<close> is its answer.
\<close>

section \<open>Actions on one item\<close>

type_synonym st = "kernel \<times> exec_item"
type_synonym action = "st \<Rightarrow> st \<times> err option"

fun run_acts :: "action list \<Rightarrow> action" where
  "run_acts [] st = (st, None)"
| "run_acts (a # as) st = (case a st of (st', None) \<Rightarrow> run_acts as st' | (st', Some e) \<Rightarrow> (st', Some e))"

definition modify :: "(exec_item \<Rightarrow> exec_item) \<Rightarrow> action" where
  "modify f = (\<lambda>(k, it). ((k, f it), None))"

definition goto :: "string \<Rightarrow> action" where
  "goto status = (\<lambda>(k, it). case transition_to (k_now k) status it of
     Inl e \<Rightarrow> ((k, it), Some e) | Inr it' \<Rightarrow> ((k, it'), None))"

text \<open>\<open>_emit_verify\<close>: emit, then close the work item of a dead letter.\<close>

definition emitting :: "(kernel \<Rightarrow> exec_item \<Rightarrow> kernel res) \<Rightarrow> action" where
  "emitting em = (\<lambda>(k, it). case em k it of
     Inl e \<Rightarrow> ((k, it), Some e)
   | Inr k' \<Rightarrow> ((if it_dead it then fst (close_dead_lettered_domain_work k' it) else k', it), None))"

definition started :: action where
  "started = emitting (\<lambda>k it. rbind (emit_execution_started k it) (\<lambda>(k', e). Inr k'))"

definition completed :: action where
  "completed = emitting (\<lambda>k it. rbind (emit_execution_completed k it) (\<lambda>(k', e). Inr k'))"

definition requested :: "string \<Rightarrow> action" where
  "requested actor = emitting (\<lambda>k it. rbind (emit_execution_requested k it actor) (\<lambda>(k', e). Inr k'))"

definition retried :: "string \<Rightarrow> action" where
  "retried status = emitting (\<lambda>k it. rbind (emit_execution_retried k it (it_error it) status) (\<lambda>(k', e). Inr k'))"

definition failed :: "bool \<Rightarrow> bool \<Rightarrow> action" where
  "failed terminal dead_letter = run_acts
     [modify (\<lambda>it. if dead_letter then it\<lparr>it_dead := True\<rparr> else it),
      emitting (\<lambda>k it. rbind (emit_execution_failed k it terminal dead_letter) (\<lambda>(k', it'). Inr k'))]"

definition set_error :: "string \<Rightarrow> action" where
  "set_error e = modify (\<lambda>it. it\<lparr>it_error := e\<rparr>)"

definition bump_retry :: action where
  "bump_retry = modify (\<lambda>it. it\<lparr>it_retries := it_retries it + 1\<rparr>)"

definition queue_full_error :: string where
  "queue_full_error = ''queue_full''"

text \<open>\<open>_mark_cancelled\<close>; the caller clears the cancel flag.\<close>

definition mark_cancelled :: "bool \<Rightarrow> action" where
  "mark_cancelled emit_only_if_running = (\<lambda>(k, it).
     if emit_only_if_running then
       if it_status it = ''failed'' then ((k, it), None)
       else if it_status it \<noteq> ''running'' then set_error ''cancelled'' (k, it)
       else run_acts [set_error ''cancelled'', goto ''failed'', failed True False] (k, it)
     else if it_status it \<noteq> ''failed''
       then run_acts [set_error ''cancelled'', goto ''failed'', failed True False] (k, it)
       else run_acts [set_error ''cancelled'', failed True False] (k, it))"

text \<open>\<open>_maybe_retry\<close> up to its sleep; the flag tells whether the coroutine goes on to sleep.\<close>

definition sleeps :: "exec_item \<Rightarrow> bool" where
  "sleeps it \<longleftrightarrow> it_error it \<noteq> ''cancelled'' \<and> can_retry it"

definition maybe_retry :: action where
  "maybe_retry = (\<lambda>(k, it).
     if it_error it = ''cancelled'' then mark_cancelled False (k, it)
     else if can_retry it then run_acts [bump_retry, goto ''retrying'', retried ''retrying''] (k, it)
     else run_acts [goto ''failed'', failed True True] (k, it))"

text \<open>What \<open>_shadow_compare\<close> compares. The attached event is not a field of the row.\<close>

definition shadow_diffs :: "kernel \<Rightarrow> exec_item \<Rightarrow> bool" where
  "shadow_diffs k it =
     (case read_scheduled_execution k (it_id it) of
        Inr (Some it') \<Rightarrow> to_row it' \<noteq> to_row it
      | _ \<Rightarrow> True)"

section \<open>The scheduler\<close>

datatype phase = Created | InHandler event | RetrySleep | Finished | Forgotten

record task =
  tk_oid :: nat
  tk_exec :: string
  tk_phase :: phase
  tk_cancel :: bool

record config =
  cf_max_pending :: int
  cf_max_concurrent :: int
  cf_handlers :: "(string \<times> string list) list"
  cf_tool_loop :: rat
  cf_brief :: "event \<Rightarrow> bool"

record sched =
  s_kernel :: kernel
  s_heap :: "exec_item list"
  s_pending :: "nat list"
  s_active :: "(string \<times> (nat \<times> nat)) list"
  s_tasks :: "task list"
  s_cancelled :: "string list"
  s_fresh :: nat
  s_rejected :: "event list"

definition max_pending :: "config \<Rightarrow> int" where
  "max_pending cf = max 1 (cf_max_pending cf)"

definition max_concurrent :: "config \<Rightarrow> int" where
  "max_concurrent cf = max 1 (cf_max_concurrent cf)"

text \<open>\<open>handler_registry.get_handlers\<close>, by function name, and \<open>get_handler_named\<close>.\<close>

definition get_handlers :: "config \<Rightarrow> string \<Rightarrow> string list" where
  "get_handlers cf et = (case map_of (cf_handlers cf) et of None \<Rightarrow> [] | Some hs \<Rightarrow> hs)"

definition handler_named :: "config \<Rightarrow> string \<Rightarrow> string \<Rightarrow> bool" where
  "handler_named cf et name \<longleftrightarrow> name \<in> set (get_handlers cf et)"

text \<open>The decorator \<open>subscribe\<close> keeps one entry per function name.\<close>

definition subscribe :: "string \<Rightarrow> string \<Rightarrow> (string \<times> string list) list \<Rightarrow> (string \<times> string list) list" where
  "subscribe et name reg =
     (let bucket = (case map_of reg et of None \<Rightarrow> [] | Some hs \<Rightarrow> hs) in
      AList.update et (if name \<in> set bucket then bucket else bucket @ [name]) reg)"

definition on_item :: "nat \<Rightarrow> action \<Rightarrow> sched \<Rightarrow> sched \<times> err option" where
  "on_item oid act s =
     (case act (s_kernel s, s_heap s ! oid) of
        ((k, it), e) \<Rightarrow> (s\<lparr>s_kernel := k, s_heap := (s_heap s)[oid := it]\<rparr>, e))"

definition alloc :: "exec_item \<Rightarrow> sched \<Rightarrow> sched \<times> nat" where
  "alloc it s = (s\<lparr>s_heap := s_heap s @ [it]\<rparr>, length (s_heap s))"

definition set_phase :: "nat \<Rightarrow> phase \<Rightarrow> sched \<Rightarrow> sched" where
  "set_phase tid ph s = s\<lparr>s_tasks := (s_tasks s)[tid := (s_tasks s ! tid)\<lparr>tk_phase := ph\<rparr>]\<rparr>"

definition task_live :: "task \<Rightarrow> bool" where
  "task_live t \<longleftrightarrow> tk_phase t \<noteq> Finished \<and> tk_phase t \<noteq> Forgotten"

definition cancel_task :: "nat \<Rightarrow> sched \<Rightarrow> sched" where
  "cancel_task tid s = (if task_live (s_tasks s ! tid)
     then s\<lparr>s_tasks := (s_tasks s)[tid := (s_tasks s ! tid)\<lparr>tk_cancel := True\<rparr>]\<rparr> else s)"

definition clear_flag :: "string \<Rightarrow> sched \<Rightarrow> sched" where
  "clear_flag i s = s\<lparr>s_cancelled := removeAll i (s_cancelled s)\<rparr>"

definition is_execution_cancelled :: "sched \<Rightarrow> string \<Rightarrow> bool" where
  "is_execution_cancelled s i \<longleftrightarrow> i \<noteq> [] \<and> i \<in> set (s_cancelled s)"

section \<open>Recovery\<close>

text \<open>The running rows of \<open>_recover\<close>: out of budget they are dead-lettered, otherwise they go
  back to the queue with one more attempt counted.\<close>

definition recover_running :: action where
  "recover_running = (\<lambda>(k, it0).
     let it = it0\<lparr>it_error := ''interrupted''\<rparr> in
     if \<not> can_retry it then run_acts [goto ''failed'', failed True True] (k, it)
     else run_acts [bump_retry, goto ''retrying'', retried ''retrying'', goto ''pending'',
                    retried ''pending''] (k, it))"

fun recover_loop :: "exec_item list \<Rightarrow> sched \<Rightarrow> sched \<times> err option" where
  "recover_loop [] s = (s, None)"
| "recover_loop (it # its) s =
     (case alloc it s of (s1, oid) \<Rightarrow>
        case on_item oid recover_running s1 of
          (s2, Some e) \<Rightarrow> (s2, Some e)
        | (s2, None) \<Rightarrow> recover_loop its
            (if can_retry it then s2\<lparr>s_pending := s_pending s2 @ [oid]\<rparr> else s2))"

definition alloc_all :: "exec_item list \<Rightarrow> sched \<Rightarrow> sched" where
  "alloc_all its s = s\<lparr>s_heap := s_heap s @ its,
     s_pending := s_pending s @ [length (s_heap s) ..< length (s_heap s) + length its]\<rparr>"

definition fresh_sched :: "kernel \<Rightarrow> nat \<Rightarrow> sched" where
  "fresh_sched k n = \<lparr>s_kernel = k, s_heap = [], s_pending = [], s_active = [], s_tasks = [],
     s_cancelled = [], s_fresh = n, s_rejected = []\<rparr>"

text \<open>\<open>Scheduler.__init__\<close> on a kernel; \<open>n\<close> is where the uuids of the process continue.\<close>

definition recover :: "kernel \<Rightarrow> nat \<Rightarrow> sched \<times> err option" where
  "recover k n =
     (let s = fresh_sched k n in
      case recover_scheduled_executions k of
        Inl e \<Rightarrow> (s, None)
      | Inr (running, pending) \<Rightarrow>
          (case recover_loop running s of
             (s1, Some e) \<Rightarrow> (s1, Some e)
           | (s1, None) \<Rightarrow> (alloc_all pending s1, None)))"

section \<open>Enqueueing\<close>

datatype enqueued = Enqueued "nat list" | QueueFull | EnqueueRaised err

definition new_item :: "config \<Rightarrow> kernel \<Rightarrow> string \<Rightarrow> policy option \<Rightarrow> event \<Rightarrow> string \<Rightarrow> string \<Rightarrow> nat \<Rightarrow> exec_item" where
  "new_item cf k instance_id pol ev handler er n =
     \<lparr>it_id = ''wi_'' @ show_nat n, it_event_seq = seq_of ev, it_event_id = ev_id ev,
      it_event_type = ev_type ev, it_handler = handler, it_instance = instance_id,
      it_status = ''pending'', it_retries = 0,
      it_policy = (case pol of Some p \<Rightarrow> p
                   | None \<Rightarrow> policy_for_event (cf_tool_loop cf) (cf_brief cf ev) (ev_type ev)),
      it_corr = (case ev_corr ev of None \<Rightarrow> [] | Some c \<Rightarrow> c), it_created_at = At (k_now k),
      it_started_at = NoTime, it_completed_at = NoTime, it_error = er, it_dead = False,
      it_event = Some ev\<rparr>"

definition create_item :: "config \<Rightarrow> string \<Rightarrow> policy option \<Rightarrow> event \<Rightarrow> string \<Rightarrow> string \<Rightarrow> sched \<Rightarrow> sched \<times> nat" where
  "create_item cf instance_id pol ev handler er s =
     alloc (new_item cf (s_kernel s) instance_id pol ev handler er (s_fresh s))
       (s\<lparr>s_fresh := s_fresh s + 1\<rparr>)"

fun enqueue_loop :: "config \<Rightarrow> string \<Rightarrow> string \<Rightarrow> policy option \<Rightarrow> event \<Rightarrow> string list \<Rightarrow> sched
    \<Rightarrow> sched \<times> enqueued" where
  "enqueue_loop cf inst actor pol ev [] s = (s, Enqueued [])"
| "enqueue_loop cf inst actor pol ev (h # hs) s =
     (case create_item cf inst pol ev h [] s of (s1, oid) \<Rightarrow>
        case on_item oid (requested actor) (s1\<lparr>s_pending := s_pending s1 @ [oid]\<rparr>) of
          (s2, Some e) \<Rightarrow> (s2, EnqueueRaised e)
        | (s2, None) \<Rightarrow>
            (case enqueue_loop cf inst actor pol ev hs s2 of
               (s3, Enqueued oids) \<Rightarrow> (s3, Enqueued (oid # oids))
             | r \<Rightarrow> r))"

text \<open>\<open>_reject_enqueue_backpressure\<close>.\<close>

fun reject_loop :: "config \<Rightarrow> string \<Rightarrow> string \<Rightarrow> policy option \<Rightarrow> event \<Rightarrow> string list \<Rightarrow> sched
    \<Rightarrow> sched \<times> err option" where
  "reject_loop cf inst actor pol ev [] s = (s, None)"
| "reject_loop cf inst actor pol ev (h # hs) s =
     (case create_item cf inst pol ev h queue_full_error s of (s1, oid) \<Rightarrow>
        case on_item oid (run_acts [requested actor, goto ''failed'', failed True False]) s1 of
          (s2, Some e) \<Rightarrow> (s2, Some e)
        | (s2, None) \<Rightarrow> reject_loop cf inst actor pol ev hs s2)"

text \<open>\<open>_unblock_submit_command\<close> hands the rejected request to \<open>resolve_pending_command\<close>.\<close>

definition unblock_submit_command :: "event \<Rightarrow> sched \<Rightarrow> sched" where
  "unblock_submit_command ev s =
     (if ends_with ''Requested'' (ev_type ev) then s\<lparr>s_rejected := s_rejected s @ [ev]\<rparr> else s)"

definition enqueue :: "config \<Rightarrow> string \<Rightarrow> string \<Rightarrow> policy option \<Rightarrow> event \<Rightarrow> sched \<Rightarrow> sched \<times> enqueued" where
  "enqueue cf inst actor pol ev s =
     (let handlers = get_handlers cf (ev_type ev) in
      if handlers = [] then (s, Enqueued [])
      else if int (length (s_pending s)) + int (length handlers) > max_pending cf
      then (case reject_loop cf inst actor pol ev handlers s of
              (s1, Some e) \<Rightarrow> (s1, EnqueueRaised e)
            | (s1, None) \<Rightarrow> (unblock_submit_command ev s1, QueueFull))
      else enqueue_loop cf inst actor pol ev handlers s)"

section \<open>The worker loop and the coroutines\<close>

definition start_task :: "nat \<Rightarrow> sched \<Rightarrow> sched" where
  "start_task oid s =
     (let i = it_id (s_heap s ! oid); tid = length (s_tasks s) in
      s\<lparr>s_tasks := s_tasks s @ [\<lparr>tk_oid = oid, tk_exec = i, tk_phase = Created, tk_cancel = False\<rparr>],
        s_active := AList.update i (oid, tid) (s_active s)\<rparr>)"

fun fill_slots :: "config \<Rightarrow> nat list \<Rightarrow> sched \<Rightarrow> sched" where
  "fill_slots cf [] s = s\<lparr>s_pending := []\<rparr>"
| "fill_slots cf (oid # oids) s =
     (if int (length (s_active s)) < max_concurrent cf
      then fill_slots cf oids (start_task oid s)
      else s\<lparr>s_pending := oid # oids\<rparr>)"

definition loop_tick :: "config \<Rightarrow> sched \<Rightarrow> sched" where
  "loop_tick cf s = fill_slots cf (s_pending s) s"

definition finish :: "nat \<Rightarrow> sched \<Rightarrow> sched" where
  "finish tid s = set_phase tid Finished s"

text \<open>\<open>except ...: item.error = ...; await self._maybe_retry(item)\<close>.\<close>

definition fail_or_retry :: "nat \<Rightarrow> string \<Rightarrow> sched \<Rightarrow> sched" where
  "fail_or_retry tid er s =
     (let oid = tk_oid (s_tasks s ! tid);
          s1 = fst (on_item oid (set_error er) s);
          it = s_heap s1 ! oid
      in case on_item oid maybe_retry s1 of
           (s2, None) \<Rightarrow> set_phase tid (if sleeps it then RetrySleep else Finished) s2
         | (s2, Some e) \<Rightarrow> finish tid s2)"

definition err_text :: "err \<Rightarrow> string" where
  "err_text e = (case e of ValueError m \<Rightarrow> m | KeyError m \<Rightarrow> m | RuntimeError m \<Rightarrow> m | _ \<Rightarrow> [])"

definition item_event :: "kernel \<Rightarrow> exec_item \<Rightarrow> event option res" where
  "item_event k it =
     (case it_event it of
        Some e \<Rightarrow> Inr (Some e)
      | None \<Rightarrow>
          if it_event_id it = [] then Inr None
          else rbind (read_events k (all_events\<lparr>q_id := Some (it_event_id it), q_limit := Some 1\<rparr>))
                 (\<lambda>found. Inr (case found of [] \<Rightarrow> None | e # _ \<Rightarrow> Some e)))"

definition no_handler_error :: "exec_item \<Rightarrow> string" where
  "no_handler_error it = ''No handler '' @ [CHR 0x27] @ it_handler it @ [CHR 0x27] @ '' for '' @ it_event_type it"

definition task_start :: "config \<Rightarrow> nat \<Rightarrow> sched \<Rightarrow> sched" where
  "task_start cf tid s =
     (let oid = tk_oid (s_tasks s ! tid); i = it_id (s_heap s ! oid) in
      if is_execution_cancelled s i
      then finish tid (fst (on_item oid (mark_cancelled False) (clear_flag i s)))
      else case on_item oid (run_acts [goto ''running'', started]) s of
             (s1, Some e) \<Rightarrow> finish tid s1
           | (s1, None) \<Rightarrow>
               (case item_event (s_kernel s1) (s_heap s1 ! oid) of
                  Inl e \<Rightarrow> fail_or_retry tid (err_text e) s1
                | Inr None \<Rightarrow>
                    finish tid (fst (on_item oid (run_acts [set_error ''No event attached to ScheduledExecution'',
                      goto ''failed'', failed True True]) s1))
                | Inr (Some ev) \<Rightarrow>
                    if handler_named cf (it_event_type (s_heap s1 ! oid)) (it_handler (s_heap s1 ! oid))
                    then set_phase tid (InHandler ev) s1
                    else finish tid (fst (on_item oid (run_acts [set_error (no_handler_error (s_heap s1 ! oid)),
                      goto ''failed'', failed True True]) s1))))"

datatype outcome = Returned | TimedOut string | Raised string

definition task_done :: "nat \<Rightarrow> outcome \<Rightarrow> sched \<Rightarrow> sched" where
  "task_done tid out s =
     (let oid = tk_oid (s_tasks s ! tid); it = s_heap s ! oid in
      case out of
        TimedOut msg \<Rightarrow> fail_or_retry tid msg s
      | Raised msg \<Rightarrow> fail_or_retry tid msg s
      | Returned \<Rightarrow>
          if it_status it = ''failed'' then finish tid s
          else if is_execution_cancelled s (it_id it)
          then finish tid (fst (on_item oid (mark_cancelled False) (clear_flag (it_id it) s)))
          else (case on_item oid (run_acts [set_error [], goto ''completed'', completed]) s of
                  (s1, None) \<Rightarrow> finish tid s1
                | (s1, Some e) \<Rightarrow> fail_or_retry tid (err_text e) s1))"

text \<open>After the retry delay.\<close>

definition task_wake :: "config \<Rightarrow> nat \<Rightarrow> sched \<Rightarrow> sched" where
  "task_wake cf tid s =
     (let oid = tk_oid (s_tasks s ! tid) in
      case on_item oid (run_acts [goto ''pending'', retried ''pending'']) s of
        (s1, Some e) \<Rightarrow> finish tid s1
      | (s1, None) \<Rightarrow>
          finish tid
            (if int (length (s_pending s1)) \<ge> max_pending cf
             then fst (on_item oid (run_acts [set_error queue_full_error, goto ''failed'', failed True False]) s1)
             else s1\<lparr>s_pending := s_pending s1 @ [oid]\<rparr>))"

text \<open>Delivery of the \<open>CancelledError\<close>: before the first step nothing of the coroutine runs, in
  the handler \<open>_mark_cancelled(emit_only_if_running=True)\<close> does, in the retry delay nothing
  catches it.\<close>

definition task_cancelled :: "nat \<Rightarrow> sched \<Rightarrow> sched" where
  "task_cancelled tid s =
     (let oid = tk_oid (s_tasks s ! tid) in
      case tk_phase (s_tasks s ! tid) of
        InHandler ev \<Rightarrow>
          finish tid (fst (on_item oid (mark_cancelled True) (clear_flag (it_id (s_heap s ! oid)) s)))
      | _ \<Rightarrow> finish tid s)"

text \<open>The done-callback \<open>_forget_active\<close> pops by execution id.\<close>

definition task_forget :: "nat \<Rightarrow> sched \<Rightarrow> sched" where
  "task_forget tid s =
     set_phase tid Forgotten (s\<lparr>s_active := AList.delete (tk_exec (s_tasks s ! tid)) (s_active s)\<rparr>)"

section \<open>Cancelling\<close>

fun cancel_pending :: "string \<Rightarrow> nat list \<Rightarrow> sched \<Rightarrow> sched \<times> bool \<times> nat list \<times> err option" where
  "cancel_pending i [] s = (s, False, [], None)"
| "cancel_pending i (oid # oids) s =
     (if it_id (s_heap s ! oid) = i
      then (case on_item oid (mark_cancelled False) s of
              (s1, Some e) \<Rightarrow> (s1, True, [], Some e)
            | (s1, None) \<Rightarrow> (case cancel_pending i oids s1 of (s2, f, kept, e) \<Rightarrow> (s2, True, kept, e)))
      else (case cancel_pending i oids s of (s2, f, kept, e) \<Rightarrow> (s2, f, oid # kept, e)))"

definition request_cancel :: "string \<Rightarrow> sched \<Rightarrow> sched \<times> bool" where
  "request_cancel i s =
     (if i = [] then (s, False)
      else case cancel_pending i (s_pending s) (s\<lparr>s_cancelled := List.insert i (s_cancelled s)\<rparr>) of
        (s1, found, kept, Some e) \<Rightarrow> (s1, False)
      | (s1, found, kept, None) \<Rightarrow>
          let s2 = s1\<lparr>s_pending := kept\<rparr> in
          (case map_of (s_active s2) i of
             None \<Rightarrow> (s2, found)
           | Some (oid, tid) \<Rightarrow>
               (case (if it_status (s_heap s2 ! oid) \<in> {''running'', ''pending'', ''retrying''}
                      then on_item oid (mark_cancelled False) s2 else (s2, None)) of
                  (s3, Some e) \<Rightarrow> (s3, False)
                | (s3, None) \<Rightarrow> (cancel_task tid s3, found \<or> task_live (s_tasks s3 ! tid)))))"

fun cancel_each :: "string list \<Rightarrow> sched \<Rightarrow> sched \<times> nat" where
  "cancel_each [] s = (s, 0)"
| "cancel_each (i # is) s =
     (case request_cancel i s of (s1, found) \<Rightarrow>
        case cancel_each is s1 of (s2, n) \<Rightarrow> (s2, (if found then n + 1 else n)))"

definition runs_action :: "string \<Rightarrow> exec_item \<Rightarrow> bool" where
  "runs_action action_id it \<longleftrightarrow> (case it_event it of
     None \<Rightarrow> False
   | Some e \<Rightarrow> ev_type e = ''ExecuteRequested'' \<and> get (ev_payload e) ''action_id'' = VStr action_id)"

definition cancel_executions_for :: "string \<Rightarrow> sched \<Rightarrow> sched \<times> nat" where
  "cancel_executions_for action_id s =
     (if action_id = [] then (s, 0)
      else let its = map (\<lambda>oid. s_heap s ! oid) (s_pending s @ map (\<lambda>(i, oid, tid). oid) (s_active s))
           in cancel_each (map it_id (filter (runs_action action_id) its)) s)"

definition cancel_by_correlation_id :: "string \<Rightarrow> string \<Rightarrow> sched \<Rightarrow> sched \<times> nat" where
  "cancel_by_correlation_id corr event_type s =
     (if corr = [] then (s, 0)
      else let hit = (\<lambda>it. it_corr it = corr \<and> it_event_type it = event_type);
               live = map (\<lambda>oid. s_heap s ! oid) (s_pending s @ map (\<lambda>(i, oid, tid). oid) (s_active s));
               durable = (case items_where
                   (\<lambda>r. he_status r \<in> {''running'', ''pending'', ''retrying''}) (s_kernel s) of
                 Inl e \<Rightarrow> [] | Inr its \<Rightarrow> its)
           in cancel_each (remdups (map it_id (filter hit (live @ durable)))) s)"

section \<open>Lease reclaim and replay\<close>

definition reclaimable :: "time \<Rightarrow> exec_item \<Rightarrow> bool" where
  "reclaimable cutoff it \<longleftrightarrow> (case it_started_at it of At t \<Rightarrow> t \<le> cutoff | _ \<Rightarrow> False)"

definition reclaim_fail :: action where
  "reclaim_fail = (\<lambda>(k, it). run_acts [set_error ''timeout'', goto ''failed'',
     failed (\<not> can_retry it) (\<not> can_retry it)] (k, it))"

definition reclaim_requeue :: action where
  "reclaim_requeue = run_acts [bump_retry, goto ''retrying'', retried ''retrying'',
     goto ''pending'', retried ''pending'']"

definition reclaim_one :: "config \<Rightarrow> exec_item \<Rightarrow> sched \<Rightarrow> sched \<times> nat" where
  "reclaim_one cf it s =
     (case (case map_of (s_active s) (it_id it) of
              Some (oid, tid) \<Rightarrow>
                (cancel_task tid (s\<lparr>s_active := AList.delete (it_id it) (s_active s)\<rparr>), oid)
            | None \<Rightarrow> alloc it s) of
       (s1, oid) \<Rightarrow>
         let live = s_heap s1 ! oid in
         if it_status live \<noteq> ''running'' then (s1, 0)
         else let s2 = fst (on_item oid reclaim_fail s1) in
           if \<not> can_retry live then (s2, 1)
           else let s3 = fst (on_item oid reclaim_requeue s2) in
             if int (length (s_pending s3)) < max_pending cf
             then (s3\<lparr>s_pending := s_pending s3 @ [oid]\<rparr>, 1)
             else (fst (on_item oid (run_acts [set_error queue_full_error, goto ''failed'', failed True True]) s3), 1))"

fun reclaim_loop :: "config \<Rightarrow> time \<Rightarrow> exec_item list \<Rightarrow> sched \<Rightarrow> sched \<times> nat" where
  "reclaim_loop cf cutoff [] s = (s, 0)"
| "reclaim_loop cf cutoff (it # its) s =
     (if reclaimable cutoff it
      then (case reclaim_one cf it s of (s1, n) \<Rightarrow>
              case reclaim_loop cf cutoff its s1 of (s2, m) \<Rightarrow> (s2, n + m))
      else reclaim_loop cf cutoff its s)"

definition reclaim_stale_leases :: "config \<Rightarrow> int \<Rightarrow> sched \<Rightarrow> sched \<times> nat" where
  "reclaim_stale_leases cf ttl s =
     (if ttl \<le> 0 then (s, 0)
      else case read_scheduled_executions (s_kernel s) (Some ''running'') None of
             Inl e \<Rightarrow> (s, 0)
           | Inr running \<Rightarrow> reclaim_loop cf (k_now (s_kernel s) - ttl * second_us) running s)"

definition requeue_pending :: "config \<Rightarrow> nat \<Rightarrow> bool \<Rightarrow> sched \<Rightarrow> sched \<times> bool" where
  "requeue_pending cf oid force s =
     (let i = it_id (s_heap s ! oid) in
      if i = [] then (s, False)
      else if map_of (s_active s) i \<noteq> None then (s, True)
      else if list_ex (\<lambda>p. it_id (s_heap s ! p) = i) (s_pending s) then (s, True)
      else if \<not> force \<and> int (length (s_pending s)) \<ge> max_pending cf then (s, False)
      else (s\<lparr>s_pending := s_pending s @ [oid]\<rparr>, True))"

text \<open>\<open>replay_dead_letters\<close>: the durable pass over the dead letters, then the live queue.\<close>

definition replay_action :: "exec_item \<Rightarrow> action" where
  "replay_action it = run_acts
     ([modify (\<lambda>it. it\<lparr>it_dead := False, it_error := []\<rparr>)] @
      (if it_status it = ''failed'' then [goto ''retrying''] else []) @
      [emitting (\<lambda>k it. rbind (emit_execution_retried k it ''dead_letter_replay'' ''retrying'') (\<lambda>(k', e). Inr k')),
       goto ''pending'',
       emitting (\<lambda>k it. rbind (emit_execution_retried k it ''dead_letter_replay'' ''pending'') (\<lambda>(k', e). Inr k'))])"

fun replay_durable :: "nat \<Rightarrow> exec_item list \<Rightarrow> sched \<Rightarrow> sched \<times> nat list \<times> err option" where
  "replay_durable n [] s = (s, [], None)"
| "replay_durable n (it # its) s =
     (if n = 0 then (s, [], None)
      else if dead_letter_replay_block_reason (s_kernel s) it \<noteq> None then replay_durable n its s
      else case alloc it s of (s1, oid) \<Rightarrow>
        (case on_item oid (replay_action it) s1 of
           (s2, Some e) \<Rightarrow> (s2, [], Some e)
         | (s2, None) \<Rightarrow>
             (case replay_durable (n - 1) its s2 of (s3, oids, e) \<Rightarrow> (s3, oid # oids, e))))"

fun replay_live :: "config \<Rightarrow> nat list \<Rightarrow> sched \<Rightarrow> sched \<times> nat list" where
  "replay_live cf [] s = (s, [])"
| "replay_live cf (oid # oids) s =
     (let it = s_heap s ! oid;
          ev = (case item_event (s_kernel s) it of Inr e \<Rightarrow> e | Inl _ \<Rightarrow> None);
          s1 = s\<lparr>s_heap := (s_heap s)[oid := it\<lparr>it_event := ev\<rparr>]\<rparr>
      in case requeue_pending cf oid True s1 of (s2, ok) \<Rightarrow>
           case replay_live cf oids s2 of (s3, done') \<Rightarrow> (s3, if ok then oid # done' else done'))"

definition replay_dead_letters :: "config \<Rightarrow> int \<Rightarrow> sched \<Rightarrow> sched \<times> nat list" where
  "replay_dead_letters cf limit s =
     (if limit \<le> 0 then (s, [])
      else case list_dead_letter_executions (s_kernel s) of
             Inl e \<Rightarrow> (s, [])
           | Inr its \<Rightarrow>
               (case replay_durable (nat limit) its s of
                  (s1, oids, Some e) \<Rightarrow> (s1, [])
                | (s1, oids, None) \<Rightarrow> replay_live cf oids s1))"

end
