(* ===== verification/Exec_Actions.thy ===== *)
theory Exec_Actions
  imports Scheduler
begin

text \<open>
  What each action of the scheduler does to an item that agrees with its row: it succeeds, the
  item it leaves agrees with its row again, and no other row changes. \<open>synced\<close> is the agreement
  that \<open>_shadow_compare\<close> checks, \<open>kept\<close> the effect.
\<close>

section \<open>Well-formed items and rows\<close>

definition stamps_ok :: "exec_item \<Rightarrow> bool" where
  "stamps_ok it \<longleftrightarrow> it_created_at it \<noteq> Junk [] \<and> it_started_at it \<noteq> Junk [] \<and> it_completed_at it \<noteq> Junk []"

text \<open>The retry budget.\<close>

definition budget_ok :: "exec_item \<Rightarrow> bool" where
  "budget_ok it \<longleftrightarrow> 0 \<le> it_retries it \<and> it_retries it \<le> max 0 (pol_max_retries (it_policy it))"

definition item_ok :: "exec_item \<Rightarrow> bool" where
  "item_ok it \<longleftrightarrow> stamps_ok it \<and> budget_ok it"

definition rows_ok :: "kernel \<Rightarrow> bool" where
  "rows_ok k \<longleftrightarrow> (\<forall>r \<in> set (handler_rows k). \<exists>it. r = to_row it \<and> item_ok it)"

definition row_of :: "kernel \<Rightarrow> string \<Rightarrow> handler_row option" where
  "row_of k i = sql_find he_id i (handler_rows k)"

definition synced :: "kernel \<Rightarrow> exec_item \<Rightarrow> bool" where
  "synced k it \<longleftrightarrow> row_of k (it_id it) = Some (to_row it) \<and> item_ok it"

definition kept :: "kernel \<Rightarrow> exec_item \<Rightarrow> kernel \<Rightarrow> exec_item \<Rightarrow> bool" where
  "kept k it k' it' \<longleftrightarrow> kernel_ok k' \<and> rows_ok k' \<and> synced k' it' \<and> k_now k' = k_now k \<and>
     it_id it' = it_id it \<and> (\<forall>i. i \<noteq> it_id it \<longrightarrow> row_of k' i = row_of k i) \<and>
     he_id ` set (handler_rows k') = he_id ` set (handler_rows k)"

lemma kept_trans: "kept k it k' it' \<Longrightarrow> kept k' it' k'' it'' \<Longrightarrow> kept k it k'' it''"
  by (simp add: kept_def)

lemma kept_ok:
  "kept k it k' it' \<Longrightarrow> kernel_ok k'" "kept k it k' it' \<Longrightarrow> rows_ok k'"
  "kept k it k' it' \<Longrightarrow> synced k' it'" "kept k it k' it' \<Longrightarrow> k_now k' = k_now k"
  by (simp_all add: kept_def)

lemma rows_keyed: "kernel_ok k \<Longrightarrow> keyed he_id (handler_rows k)"
  using kernel_db_ok [of k] by (simp add: db_ok_def db_keyed_def handler_rows_def)

lemma row_of_mem: "kernel_ok k \<Longrightarrow> r \<in> set (handler_rows k) \<Longrightarrow> row_of k (he_id r) = Some r"
  unfolding row_of_def by (rule sql_find_mem [OF rows_keyed])

lemma row_of_Some: "row_of k i = Some r \<Longrightarrow> r \<in> set (handler_rows k) \<and> he_id r = i"
  unfolding row_of_def by (auto dest: sql_find_in sql_find_key)

lemma he_id_to_row [simp]: "he_id (to_row it) = it_id it"
  by (simp add: to_row_def)

text \<open>Agreement with the row is what the shadow comparison looks at.\<close>

lemma synced_no_diff: "synced k it \<Longrightarrow> \<not> shadow_diffs k it"
  by (simp add: synced_def shadow_diffs_def read_scheduled_execution_def row_of_def item_row_of_to_row)
    (simp add: to_row_def)

section \<open>Closing the work item leaves the executions alone\<close>

lemma emit_event_rows:
  assumes ok: "kernel_ok k" and em: "emit_event k et agg aid p actor caused corr = Inr (k', ev)"
    and et: "map_of handler_table et \<noteq> Some Execution" and routed: "well_routed ev"
  shows "kernel_ok k' \<and> handler_rows k' = handler_rows k \<and> k_now k' = k_now k"
proof -
  from em obtain d where d: "apply_event (k_db k) ev = Inr d" and k': "k_db k' = d" "k_now k' = k_now k"
    and et': "ev_type ev = et"
    by (auto simp: emit_event_def Let_def with_seq_def create_event_def split: if_splits)
  have "t_handler_executions d = t_handler_executions (k_db k)"
  proof (cases "event_owner ev")
    case None
    with d show ?thesis by (simp add: apply_event_def)
  next
    case (Some a)
    with et et' have "a \<noteq> Execution" by (auto simp: event_owner_def)
    with Some d run_projector_frame [of a ev "k_db k" d Execution] show ?thesis
      by (simp add: apply_event_def)
  qed
  with k' emit_event_ok [OF ok em routed] show ?thesis by (simp add: handler_rows_def)
qed

lemma emit_running_work_failed_rows:
  assumes "kernel_ok k" and "emit_running_work_failed k w er = Inr k'"
  shows "kernel_ok k' \<and> handler_rows k' = handler_rows k \<and> k_now k' = k_now k"
proof -
  from assms(2) obtain ev where em: "emit_event k ''WorkItemStatusChanged'' ''work_item'' w
      [(''status'', VStr ''failed''), (''error'', VStr er)] ''kernel'' None None = Inr (k', ev)"
    by (auto simp: emit_running_work_failed_def)
  have "well_routed ev"
    using em by (auto simp: emit_event_def Let_def well_routed_def event_owner_def with_seq_def
        create_event_def split: if_splits)
  from emit_event_rows [OF assms(1) em _ this] show ?thesis by simp
qed

lemma close_rows:
  assumes "kernel_ok k"
  shows "kernel_ok (fst (close_dead_lettered_domain_work k it)) \<and>
    handler_rows (fst (close_dead_lettered_domain_work k it)) = handler_rows k \<and>
    k_now (fst (close_dead_lettered_domain_work k it)) = k_now k"
proof (cases "close_dead_lettered k it")
  case (Inl e)
  with assms show ?thesis by (simp add: close_dead_lettered_domain_work_def)
next
  case (Inr r)
  obtain k' b where r: "r = (k', b)" by force
  from Inr r have "k' = k \<or> (\<exists>w er. emit_running_work_failed k w er = Inr k')"
    by (auto simp: close_dead_lettered_def Let_def split: if_splits option.splits)
  with assms Inr r show ?thesis
    by (auto simp: close_dead_lettered_domain_work_def dest: emit_running_work_failed_rows)
qed

section \<open>One emission\<close>

lemma emitting_spec:
  assumes ok: "kernel_ok k" "rows_ok k" "synced k it0"
    and em: "em k it1 = Inr k1"
    and wr: "wrote k k1 (sql_update (of_id (it_id it0)) f (handler_rows k))"
    and f: "\<And>r. he_id (f r) = he_id r" "f (to_row it0) = to_row it1"
    and it1: "it_id it1 = it_id it0" "item_ok it1"
  shows "\<exists>k'. emitting em (k, it1) = ((k', it1), None) \<and> kept k it0 k' it1"
proof -
  let ?k = "if it_dead it1 then fst (close_dead_lettered_domain_work k1 it1) else k1"
  have k1: "kernel_ok k1" "k_now k1 = k_now k"
    "handler_rows k1 = sql_update (of_id (it_id it0)) f (handler_rows k)"
    using wroteD [OF wr] by auto
  have k': "kernel_ok ?k" "handler_rows ?k = handler_rows k1" "k_now ?k = k_now k"
    using close_rows [OF k1(1), of it1] k1 by auto
  have find: "row_of ?k i = map_option (\<lambda>r. if he_id r = it_id it0 then f r else r) (row_of k i)" for i
    unfolding row_of_def k'(2) k1(3) by (rule sql_find_update) (rule f(1))
  have self: "row_of ?k (it_id it0) = Some (to_row it1)"
    using ok(3) f(2) it1(1) by (simp add: find synced_def)
  have other: "row_of ?k i = row_of k i" if "i \<noteq> it_id it0" for i
    using that by (cases "row_of k i") (auto simp: find dest: row_of_Some)
  have rows: "rows_ok ?k"
    unfolding rows_ok_def
  proof
    fix r
    assume r: "r \<in> set (handler_rows ?k)"
    show "\<exists>it. r = to_row it \<and> item_ok it"
    proof (cases "he_id r = it_id it0")
      case True
      with row_of_mem [OF k'(1) r] self have "r = to_row it1" by simp
      with it1(2) show ?thesis by blast
    next
      case False
      with row_of_mem [OF k'(1) r] other [OF False] have "r \<in> set (handler_rows k)"
        by (auto dest: row_of_Some)
      with ok(2) show ?thesis by (simp add: rows_ok_def)
    qed
  qed
  have ids: "he_id ` set (handler_rows ?k) = he_id ` set (handler_rows k)"
    unfolding k'(2) k1(3) by (rule keys_update) (rule f(1))
  have "kept k it0 ?k it1"
    using k' rows self other it1 ids by (simp add: kept_def synced_def)
  then show ?thesis by (auto simp: emitting_def em)
qed

section \<open>The actions\<close>

lemma run_acts_append: "run_acts (as @ bs) st =
    (case run_acts as st of (st', None) \<Rightarrow> run_acts bs st' | (st', Some e) \<Rightarrow> (st', Some e))"
  by (induction as arbitrary: st) (auto split: prod.splits option.splits)

lemma run_acts_then:
  "run_acts [a, b] st = (st', None) \<Longrightarrow> c st' = (st'', e) \<Longrightarrow> run_acts [a, b, c] st = (st'', e)"
  by (auto split: prod.splits option.splits)

lemma item_okD: "item_ok it \<Longrightarrow> it_started_at it \<noteq> Junk []" "item_ok it \<Longrightarrow> it_completed_at it \<noteq> Junk []"
  "item_ok it \<Longrightarrow> it_created_at it \<noteq> Junk []"
  by (simp_all add: item_ok_def stamps_ok_def)

definition failed_item :: "time \<Rightarrow> string \<Rightarrow> bool \<Rightarrow> exec_item \<Rightarrow> exec_item" where
  "failed_item now er dl it = it\<lparr>it_error := er, it_status := ''failed'', it_completed_at := At now, it_dead := dl\<rparr>"

lemma item_ok_simps [simp]:
  "item_ok (it\<lparr>it_error := er\<rparr>) = item_ok it" "item_ok (it\<lparr>it_status := st\<rparr>) = item_ok it"
  "item_ok (it\<lparr>it_dead := d\<rparr>) = item_ok it"
  "item_ok it \<Longrightarrow> item_ok (it\<lparr>it_completed_at := At t\<rparr>)"
  "item_ok it \<Longrightarrow> item_ok (it\<lparr>it_started_at := At t\<rparr>)"
  by (simp_all add: item_ok_def stamps_ok_def budget_ok_def)

lemma fail_spec:
  assumes ok: "kernel_ok k" "rows_ok k" "synced k it" and st: "it_status it \<in> {''pending'', ''running'', ''retrying''}"
    and alive: "\<not> it_dead it"
  shows "\<exists>k'. run_acts [goto ''failed'', failed t dl] (k, it\<lparr>it_error := er\<rparr>) =
     ((k', failed_item (k_now k) er dl it), None) \<and> kept k it k' (failed_item (k_now k) er dl it)"
proof -
  let ?it = "failed_item (k_now k) er dl it"
  have iok: "item_ok ?it" using ok(3) by (simp add: synced_def failed_item_def item_ok_def stamps_ok_def budget_ok_def)
  have go: "goto ''failed'' (k, it\<lparr>it_error := er\<rparr>) = ((k, ?it\<lparr>it_dead := False\<rparr>), None)"
    using st alive by (auto simp: goto_def transition_to_def lane_allowed_cases failed_item_def)
  from emit_failed [OF ok(1) item_okD(2) [OF iok], of t dl] obtain k1 where
    em: "emit_execution_failed k ?it t dl = Inr (k1, if dl then ?it\<lparr>it_dead := True\<rparr> else ?it)" and
    wr: "wrote k k1 (sql_update (of_id (it_id ?it)) (\<lambda>r. r\<lparr>he_status := ''failed'',
       he_completed_at := it_completed_at ?it, he_error := it_error ?it,
       he_retry_count := it_retries ?it, he_dead_letter := dl\<rparr>) (handler_rows k))" by blast
  have "\<exists>k'. emitting (\<lambda>k it. rbind (emit_execution_failed k it t dl) (\<lambda>(k', it'). Inr k')) (k, ?it) =
      ((k', ?it), None) \<and> kept k it k' ?it"
    by (rule emitting_spec [OF ok _ wr [unfolded failed_item_def, simplified]])
      (use em iok in \<open>simp_all add: failed_item_def to_row_def\<close>)
  moreover have "(if dl then ?it\<lparr>it_dead := False\<rparr>\<lparr>it_dead := True\<rparr> else ?it\<lparr>it_dead := False\<rparr>) = ?it"
    by (simp add: failed_item_def)
  ultimately show ?thesis
    using go by (auto simp: failed_def modify_def)
qed

lemma retry_spec:
  assumes ok: "kernel_ok k" "rows_ok k" "synced k it" and st: "it_status it \<in> {''running'', ''failed''}"
    and alive: "\<not> it_dead it" and can: "can_retry it"
  shows "\<exists>k'. run_acts [bump_retry, goto ''retrying'', retried ''retrying''] (k, it\<lparr>it_error := er\<rparr>) =
     ((k', it\<lparr>it_error := er, it_retries := it_retries it + 1, it_status := ''retrying''\<rparr>), None) \<and>
     kept k it k' (it\<lparr>it_error := er, it_retries := it_retries it + 1, it_status := ''retrying''\<rparr>)"
proof -
  let ?it = "it\<lparr>it_error := er, it_retries := it_retries it + 1, it_status := ''retrying''\<rparr>"
  have iok: "item_ok ?it"
    using ok(3) can by (auto simp: synced_def item_ok_def stamps_ok_def budget_ok_def can_retry_def)
  have go: "run_acts [bump_retry, goto ''retrying''] (k, it\<lparr>it_error := er\<rparr>) = ((k, ?it), None)"
    using st by (auto simp: goto_def transition_to_def lane_allowed_cases bump_retry_def modify_def)
  from emit_retried [OF ok(1), of ?it "it_error ?it" "''retrying''"] obtain k1 ev where
    em: "emit_execution_retried k ?it (it_error ?it) ''retrying'' = Inr (k1, ev)" and
    wr: "wrote k k1 (sql_update (of_id (it_id ?it)) (\<lambda>r. r\<lparr>he_status := ''retrying'',
       he_retry_count := it_retries ?it, he_error := it_error ?it, he_dead_letter := False\<rparr>) (handler_rows k))"
    by blast
  have "\<exists>k'. retried ''retrying'' (k, ?it) = ((k', ?it), None) \<and> kept k it k' ?it"
    unfolding retried_def
    by (rule emitting_spec [OF ok _ wr [simplified]]) (use em iok alive in \<open>simp_all add: to_row_def\<close>)
  with run_acts_then [OF go] show ?thesis by blast
qed

lemma pending_spec:
  assumes ok: "kernel_ok k" "rows_ok k" "synced k it" and st: "it_status it \<in> {''retrying''}"
    and alive: "\<not> it_dead it"
  shows "\<exists>k'. run_acts [goto ''pending'', retried ''pending''] (k, it) =
     ((k', it\<lparr>it_status := ''pending''\<rparr>), None) \<and> kept k it k' (it\<lparr>it_status := ''pending''\<rparr>)"
proof -
  let ?it = "it\<lparr>it_status := ''pending''\<rparr>"
  have iok: "item_ok ?it" using ok(3) by (simp add: synced_def)
  have go: "goto ''pending'' (k, it) = ((k, ?it), None)"
    using st by (auto simp: goto_def transition_to_def lane_allowed_cases)
  from emit_retried [OF ok(1), of ?it "it_error ?it" "''pending''"] obtain k1 ev where
    em: "emit_execution_retried k ?it (it_error ?it) ''pending'' = Inr (k1, ev)" and
    wr: "wrote k k1 (sql_update (of_id (it_id ?it)) (\<lambda>r. r\<lparr>he_status := ''pending'',
       he_retry_count := it_retries ?it, he_error := it_error ?it, he_dead_letter := False\<rparr>) (handler_rows k))"
    by blast
  have "\<exists>k'. retried ''pending'' (k, ?it) = ((k', ?it), None) \<and> kept k it k' ?it"
    unfolding retried_def
    by (rule emitting_spec [OF ok _ wr [simplified]]) (use em iok alive in \<open>simp_all add: to_row_def\<close>)
  with go show ?thesis by auto
qed

definition running_item :: "time \<Rightarrow> exec_item \<Rightarrow> exec_item" where
  "running_item now it = it\<lparr>it_status := ''running'',
     it_started_at := (if it_started_at it = NoTime then At now else it_started_at it)\<rparr>"

lemma start_spec:
  assumes ok: "kernel_ok k" "rows_ok k" "synced k it" and st: "it_status it \<in> {''pending'', ''retrying''}"
    and alive: "\<not> it_dead it"
  shows "\<exists>k'. run_acts [goto ''running'', started] (k, it) =
     ((k', running_item (k_now k) it), None) \<and> kept k it k' (running_item (k_now k) it)"
proof -
  let ?it = "running_item (k_now k) it"
  have iok: "item_ok ?it"
    using ok(3) by (auto simp: synced_def running_item_def item_ok_def stamps_ok_def budget_ok_def)
  have go: "goto ''running'' (k, it) = ((k, ?it), None)"
    using st by (auto simp: goto_def transition_to_def lane_allowed_cases running_item_def)
  from emit_started [OF ok(1) item_okD(1) [OF iok]] obtain k1 ev where
    em: "emit_execution_started k ?it = Inr (k1, ev)" and
    wr: "wrote k k1 (sql_update (of_id (it_id ?it)) (\<lambda>r. r\<lparr>he_status := ''running'',
       he_started_at := it_started_at ?it, he_dead_letter := False\<rparr>) (handler_rows k))"
    by blast
  have "\<exists>k'. started (k, ?it) = ((k', ?it), None) \<and> kept k it k' ?it"
    unfolding started_def
    by (rule emitting_spec [OF ok _ wr [unfolded running_item_def, simplified]])
      (use em iok alive in \<open>simp_all add: to_row_def running_item_def\<close>)
  with go show ?thesis by auto
qed

definition completed_item :: "time \<Rightarrow> exec_item \<Rightarrow> exec_item" where
  "completed_item now it = it\<lparr>it_error := [], it_status := ''completed'', it_completed_at := At now\<rparr>"

lemma complete_spec:
  assumes ok: "kernel_ok k" "rows_ok k" "synced k it" and st: "it_status it = ''running''"
    and alive: "\<not> it_dead it"
  shows "\<exists>k'. run_acts [set_error [], goto ''completed'', completed] (k, it) =
     ((k', completed_item (k_now k) it), None) \<and> kept k it k' (completed_item (k_now k) it)"
proof -
  let ?it = "completed_item (k_now k) it"
  have iok: "item_ok ?it"
    using ok(3) by (auto simp: synced_def completed_item_def item_ok_def stamps_ok_def budget_ok_def)
  have go: "run_acts [set_error [], goto ''completed''] (k, it) = ((k, ?it), None)"
    using st by (auto simp: goto_def transition_to_def lane_allowed_cases completed_item_def set_error_def modify_def)
  from emit_completed [OF ok(1) item_okD(2) [OF iok]] obtain k1 ev where
    em: "emit_execution_completed k ?it = Inr (k1, ev)" and
    wr: "wrote k k1 (sql_update (of_id (it_id ?it)) (\<lambda>r. r\<lparr>he_status := ''completed'',
       he_completed_at := it_completed_at ?it, he_error := [], he_dead_letter := False\<rparr>) (handler_rows k))"
    by blast
  have "\<exists>k'. completed (k, ?it) = ((k', ?it), None) \<and> kept k it k' ?it"
    unfolding completed_def
    by (rule emitting_spec [OF ok _ wr [unfolded completed_item_def, simplified]])
      (use em iok alive in \<open>simp_all add: to_row_def completed_item_def\<close>)
  with run_acts_then [OF go] show ?thesis by blast
qed

text \<open>The first row of a new execution.\<close>

lemma request_spec:
  assumes ok: "kernel_ok k" "rows_ok k" and iok: "item_ok it" and new: "it_status it = ''pending''"
      "it_retries it = 0" "it_started_at it = NoTime" "it_completed_at it = NoTime" "\<not> it_dead it"
    and free: "row_of k (it_id it) = None"
  shows "\<exists>k'. requested actor (k, it) = ((k', it), None) \<and> kernel_ok k' \<and> rows_ok k' \<and>
    k_now k' = k_now k \<and> row_of k' (it_id it) = Some (to_row (it\<lparr>it_error := []\<rparr>)) \<and>
    (\<forall>i. i \<noteq> it_id it \<longrightarrow> row_of k' i = row_of k i) \<and>
    he_id ` set (handler_rows k') = insert (it_id it) (he_id ` set (handler_rows k))"
proof -
  from emit_requested [OF ok(1) item_okD(3) [OF iok], of actor] obtain k' ev where
    em: "emit_execution_requested k it actor = Inr (k', ev)" and
    wr: "wrote k k' (sql_replace he_id ((to_row it)\<lparr>he_status := ''pending'', he_retry_count := 0,
       he_started_at := NoTime, he_completed_at := NoTime, he_error := [], he_dead_letter := False\<rparr>)
       (handler_rows k))" by blast
  have r: "(to_row it)\<lparr>he_status := ''pending'', he_retry_count := 0, he_started_at := NoTime,
      he_completed_at := NoTime, he_error := [], he_dead_letter := False\<rparr> = to_row (it\<lparr>it_error := []\<rparr>)"
    using new by (simp add: to_row_def)
  have k': "kernel_ok k'" "k_now k' = k_now k"
    "handler_rows k' = sql_replace he_id (to_row (it\<lparr>it_error := []\<rparr>)) (handler_rows k)"
    using wroteD [OF wr] by (auto simp: r)
  have "rows_ok k'"
    using ok(2) iok unfolding rows_ok_def k'(3) set_sql_replace
    by (auto intro: exI [of _ "it\<lparr>it_error := []\<rparr>"])
  moreover have "he_id ` set (handler_rows k') = insert (it_id it) (he_id ` set (handler_rows k))"
    using free unfolding k'(3) set_sql_replace row_of_def sql_find_None_iff by (auto simp: image_iff)
  ultimately show ?thesis
    using em new k' by (auto simp: requested_def emitting_def row_of_def sql_find_replace)
qed

lemma cancel_spec:
  assumes ok: "kernel_ok k" "rows_ok k" "synced k it"
    and st: "it_status it \<in> {''pending'', ''running'', ''retrying''}" and alive: "\<not> it_dead it"
  shows "\<exists>k'. mark_cancelled False (k, it) = ((k', failed_item (k_now k) ''cancelled'' False it), None) \<and>
    kept k it k' (failed_item (k_now k) ''cancelled'' False it)"
  using fail_spec [OF ok st alive, of True False "''cancelled''"] st
  by (auto simp: mark_cancelled_def set_error_def modify_def)

text \<open>\<open>_maybe_retry\<close> on a running item: another attempt, or the dead letter.\<close>

definition retry_item :: "string \<Rightarrow> exec_item \<Rightarrow> exec_item" where
  "retry_item er it = it\<lparr>it_error := er, it_retries := it_retries it + 1, it_status := ''retrying''\<rparr>"

definition after_failure :: "time \<Rightarrow> string \<Rightarrow> exec_item \<Rightarrow> exec_item" where
  "after_failure now er it =
     (if er = ''cancelled'' then failed_item now er False it
      else if can_retry it then retry_item er it
      else failed_item now er True it)"

lemma maybe_retry_spec:
  assumes ok: "kernel_ok k" "rows_ok k" "synced k it" and st: "it_status it = ''running''"
    and alive: "\<not> it_dead it"
  shows "\<exists>k'. maybe_retry (k, it\<lparr>it_error := er\<rparr>) = ((k', after_failure (k_now k) er it), None) \<and>
    kept k it k' (after_failure (k_now k) er it)"
proof -
  have st': "it_status it \<in> {''pending'', ''running'', ''retrying''}" "it_status it \<in> {''running'', ''failed''}"
    using st by auto
  have can: "can_retry (it\<lparr>it_error := er\<rparr>) = can_retry it" by (simp add: can_retry_def)
  consider "er = ''cancelled''" | "er \<noteq> ''cancelled''" "can_retry it" | "er \<noteq> ''cancelled''" "\<not> can_retry it"
    by blast
  then show ?thesis
  proof cases
    case 1
    then show ?thesis
      using fail_spec [OF ok st'(1) alive, of True False er] st
      by (auto simp: maybe_retry_def mark_cancelled_def set_error_def modify_def after_failure_def)
  next
    case 2
    then show ?thesis
      using retry_spec [OF ok st'(2) alive, of er]
      by (auto simp: maybe_retry_def can after_failure_def retry_item_def)
  next
    case 3
    then show ?thesis
      using fail_spec [OF ok st'(1) alive, of True True er]
      by (auto simp: maybe_retry_def can after_failure_def)
  qed
qed

text \<open>\<open>_recover\<close> on an interrupted row.\<close>

definition recovered_item :: "time \<Rightarrow> exec_item \<Rightarrow> exec_item" where
  "recovered_item now it =
     (if can_retry it then (retry_item ''interrupted'' it)\<lparr>it_status := ''pending''\<rparr>
      else failed_item now ''interrupted'' True it)"

lemma recover_spec:
  assumes ok: "kernel_ok k" "rows_ok k" "synced k it" and st: "it_status it = ''running''"
    and alive: "\<not> it_dead it"
  shows "\<exists>k'. recover_running (k, it) = ((k', recovered_item (k_now k) it), None) \<and>
    kept k it k' (recovered_item (k_now k) it)"
proof (cases "can_retry it")
  case False
  moreover have "can_retry (it\<lparr>it_error := ''interrupted''\<rparr>) = can_retry it" by (simp add: can_retry_def)
  ultimately show ?thesis
    using fail_spec [OF ok _ alive, of True True "''interrupted''"] st
    by (auto simp: recover_running_def recovered_item_def)
next
  case True
  let ?it = "retry_item ''interrupted'' it"
  have can: "can_retry (it\<lparr>it_error := ''interrupted''\<rparr>)" using True by (simp add: can_retry_def)
  from retry_spec [OF ok _ alive True, of "''interrupted''"] st obtain k1 where
    k1: "run_acts [bump_retry, goto ''retrying'', retried ''retrying''] (k, it\<lparr>it_error := ''interrupted''\<rparr>) =
      ((k1, ?it), None)" "kept k it k1 ?it"
    by (auto simp: retry_item_def)
  have "it_status ?it \<in> {''retrying''}" "\<not> it_dead ?it" using alive by (simp_all add: retry_item_def)
  from pending_spec [OF kept_ok(1-3) [OF k1(2)] this] obtain k2 where
    k2: "run_acts [goto ''pending'', retried ''pending''] (k1, ?it) = ((k2, ?it\<lparr>it_status := ''pending''\<rparr>), None)"
      "kept k1 ?it k2 (?it\<lparr>it_status := ''pending''\<rparr>)" by blast
  have "run_acts ([bump_retry, goto ''retrying'', retried ''retrying''] @ [goto ''pending'', retried ''pending''])
      (k, it\<lparr>it_error := ''interrupted''\<rparr>) = ((k2, ?it\<lparr>it_status := ''pending''\<rparr>), None)"
    unfolding run_acts_append k1(1) using k2(1) by simp
  with can True kept_trans [OF k1(2) k2(2)] show ?thesis
    by (auto simp: recover_running_def recovered_item_def)
qed

end
