(* ===== verification/Sched_Inv.thy ===== *)
theory Sched_Inv
  imports Exec_Actions
begin

text \<open>
  The invariant of the scheduler and its preservation by every step: what the scheduler holds in
  memory agrees with the execution table, no unfinished row is without an owner, no execution is
  owned twice. The steps are those of \<open>Scheduler\<close> except the lease reclaim and the dead-letter
  replay, which do not preserve it (theory Sched_Props).
\<close>

section \<open>The invariant\<close>

definition open_status :: "string \<Rightarrow> bool" where
  "open_status s \<longleftrightarrow> s \<in> {''pending'', ''running'', ''retrying''}"

definition closed_status :: "string \<Rightarrow> bool" where
  "closed_status s \<longleftrightarrow> s \<in> {''completed'', ''failed''}"

lemma closed_not_open: "closed_status s \<Longrightarrow> \<not> open_status s"
  by (auto simp: open_status_def closed_status_def)

abbreviation oid_ids :: "exec_item list \<Rightarrow> nat \<Rightarrow> string" where
  "oid_ids h \<equiv> (\<lambda>x. it_id (h ! x))"

definition core :: "kernel \<Rightarrow> exec_item list \<Rightarrow> nat set \<Rightarrow> bool" where
  "core k h S \<longleftrightarrow> kernel_ok k \<and> rows_ok k \<and>
     (\<forall>x \<in> S. x < length h \<and> synced k (h ! x) \<and> \<not> it_dead (h ! x)) \<and> inj_on (oid_ids h) S \<and>
     (\<forall>r \<in> set (handler_rows k). open_status (he_status r) \<longrightarrow> he_id r \<in> oid_ids h ` S)"

definition live_oids :: "task list \<Rightarrow> nat list" where
  "live_oids ts = map tk_oid (filter task_live ts)"

definition tracked :: "sched \<Rightarrow> nat list" where
  "tracked s = s_pending s @ live_oids (s_tasks s)"

definition waiting :: "exec_item \<Rightarrow> bool" where
  "waiting it \<longleftrightarrow> it_status it \<in> {''pending'', ''retrying''}"

definition phase_status :: "phase \<Rightarrow> string \<Rightarrow> bool" where
  "phase_status ph st = (case ph of
     Created \<Rightarrow> st \<in> {''pending'', ''retrying''} | InHandler ev \<Rightarrow> st = ''running''
   | RetrySleep \<Rightarrow> st = ''retrying'' | _ \<Rightarrow> True)"

definition task_ok :: "exec_item list \<Rightarrow> task \<Rightarrow> bool" where
  "task_ok h t \<longleftrightarrow> (task_live t \<longrightarrow>
     (if tk_cancel t then it_status (h ! tk_oid t) = ''failed''
      else phase_status (tk_phase t) (it_status (h ! tk_oid t))))"

definition active_ok :: "sched \<Rightarrow> bool" where
  "active_ok s \<longleftrightarrow> (\<forall>i x t. map_of (s_active s) i = Some (x, t) \<longrightarrow>
     x < length (s_heap s) \<and> t < length (s_tasks s) \<and> tk_oid (s_tasks s ! t) = x \<and>
     it_id (s_heap s ! x) = i \<and>
     (task_live (s_tasks s ! t) \<or> x \<in> set (s_pending s) \<or>
       x \<notin> set (tracked s) \<and> closed_status (it_status (s_heap s ! x))))"

definition fresh_ok :: "kernel \<Rightarrow> nat \<Rightarrow> bool" where
  "fresh_ok k n \<longleftrightarrow> (\<forall>m \<ge> n. ''wi_'' @ show_nat m \<notin> he_id ` set (handler_rows k))"

definition sched_ok :: "sched \<Rightarrow> bool" where
  "sched_ok s \<longleftrightarrow> core (s_kernel s) (s_heap s) (set (tracked s)) \<and> distinct (tracked s) \<and>
     (\<forall>x \<in> set (s_pending s). waiting (s_heap s ! x)) \<and>
     (\<forall>j < length (s_tasks s). task_ok (s_heap s) (s_tasks s ! j)) \<and> active_ok s \<and> fresh_ok (s_kernel s) (s_fresh s)"

section \<open>One item changes\<close>

lemma core_rows_open:
  assumes "core k h S" and "x \<in> S" and kp: "kept k (h ! x) k' it'" and r: "r \<in> set (handler_rows k')"
    and o': "open_status (he_status r)"
  shows "he_id r = it_id (h ! x) \<and> r = to_row it' \<or>
    he_id r \<noteq> it_id (h ! x) \<and> he_id r \<in> oid_ids h ` (S - {x})"
proof -
  from kp have ok': "kernel_ok k'" and sy: "row_of k' (it_id it') = Some (to_row it')"
    and id: "it_id it' = it_id (h ! x)" and other: "\<And>i. i \<noteq> it_id (h ! x) \<Longrightarrow> row_of k' i = row_of k i"
    by (auto simp: kept_def synced_def)
  show ?thesis
  proof (cases "he_id r = it_id (h ! x)")
    case True
    with row_of_mem [OF ok' r] sy id show ?thesis by simp
  next
    case False
    with row_of_mem [OF ok' r] other have "row_of k (he_id r) = Some r" by simp
    then have "r \<in> set (handler_rows k)" by (auto dest: row_of_Some)
    with assms(1) o' have "he_id r \<in> oid_ids h ` S" by (auto simp: core_def)
    with False show ?thesis by auto
  qed
qed

lemma core_act:
  assumes c: "core k h S" and x: "x \<in> S" and kp: "kept k (h ! x) k' it'"
    and S': "S' = S \<and> \<not> it_dead it' \<or> S' = S - {x} \<and> \<not> open_status (it_status it')"
  shows "core k' (h[x := it']) S'"
proof -
  from c x have len: "x < length h" by (auto simp: core_def)
  have sub: "S' \<subseteq> S" using S' by auto
  from kp have id: "it_id it' = it_id (h ! x)" by (simp add: kept_def)
  have ids: "oid_ids (h[x := it']) = oid_ids h"
  proof
    fix y
    show "oid_ids (h[x := it']) y = oid_ids h y" using id len by (cases "y = x") simp_all
  qed
  show ?thesis
    unfolding core_def ids
  proof (intro conjI ballI impI)
    show "kernel_ok k'" "rows_ok k'" using kp by (simp_all add: kept_def)
    show "inj_on (oid_ids h) S'" using c sub by (auto simp: core_def intro: inj_on_subset)
    fix y
    assume y: "y \<in> S'"
    with sub have yS: "y \<in> S" by auto
    show "y < length (h[x := it'])" using c yS by (simp add: core_def)
    show "synced k' (h[x := it'] ! y)"
    proof (cases "y = x")
      case True
      with kp len show ?thesis by (simp add: kept_def)
    next
      case False
      with c x yS have "it_id (h ! y) \<noteq> it_id (h ! x)" by (auto simp: core_def inj_on_def)
      with kp c yS False show ?thesis by (simp add: kept_def core_def synced_def)
    qed
    show "\<not> it_dead (h[x := it'] ! y)"
      using S' c y yS len by (cases "y = x") (auto simp: core_def)
  next
    fix r
    assume "r \<in> set (handler_rows k')" "open_status (he_status r)"
    from core_rows_open [OF c x kp this] show "he_id r \<in> oid_ids h ` S'"
      using S' x \<open>open_status (he_status r)\<close> by (auto simp: to_row_def)
  qed
qed

lemma task_ok_update:
  "x \<noteq> tk_oid t \<Longrightarrow> task_ok (h[x := it]) t = task_ok h t"
  by (simp add: task_ok_def)

lemma live_oids_update:
  assumes "tid < length ts" and "task_live (ts ! tid)"
  shows "task_live t' \<Longrightarrow> tk_oid t' = tk_oid (ts ! tid) \<Longrightarrow> live_oids (ts[tid := t']) = live_oids ts"
    and "\<not> task_live t' \<Longrightarrow> distinct (live_oids ts) \<Longrightarrow>
      set (live_oids (ts[tid := t'])) = set (live_oids ts) - {tk_oid (ts ! tid)} \<and>
      distinct (live_oids (ts[tid := t']))"
proof -
  have ts: "ts = take tid ts @ ts ! tid # drop (Suc tid) ts"
    using assms(1) by (rule id_take_nth_drop)
  have upd: "ts[tid := t'] = take tid ts @ t' # drop (Suc tid) ts"
    using assms(1) by (rule upd_conv_take_nth_drop)
  have l: "live_oids ts = live_oids (take tid ts) @ tk_oid (ts ! tid) # live_oids (drop (Suc tid) ts)"
    using assms(2) by (subst ts) (simp add: live_oids_def)
  show "task_live t' \<Longrightarrow> tk_oid t' = tk_oid (ts ! tid) \<Longrightarrow> live_oids (ts[tid := t']) = live_oids ts"
    unfolding upd l by (simp add: live_oids_def)
  show "\<not> task_live t' \<Longrightarrow> distinct (live_oids ts) \<Longrightarrow>
      set (live_oids (ts[tid := t'])) = set (live_oids ts) - {tk_oid (ts ! tid)} \<and>
      distinct (live_oids (ts[tid := t']))"
    unfolding l upd by (auto simp: live_oids_def)
qed

lemma live_mem: "tid < length ts \<Longrightarrow> task_live (ts ! tid) \<Longrightarrow> tk_oid (ts ! tid) \<in> set (live_oids ts)"
  by (auto simp: live_oids_def)

lemma distinct_filter_nth:
  "distinct (map f (filter P xs)) \<Longrightarrow> i < length xs \<Longrightarrow> j < length xs \<Longrightarrow> P (xs ! i) \<Longrightarrow> P (xs ! j) \<Longrightarrow>
     f (xs ! i) = f (xs ! j) \<Longrightarrow> i = j"
proof (induction xs arbitrary: i j)
  case (Cons x xs)
  have mem: "f (xs ! m) \<noteq> f x \<and> f x \<noteq> f (xs ! m)" if "P x" "P (xs ! m)" "m < length xs" for m
  proof -
    have "f (xs ! m) \<in> f ` {y \<in> set xs. P y}" using that by auto
    moreover have "f x \<notin> f ` {y \<in> set xs. P y}" using Cons.prems(1) that(1) by simp
    ultimately show ?thesis by metis
  qed
  have d: "distinct (map f (filter P xs))" using Cons.prems(1) by (simp split: if_splits)
  show ?case
  proof (cases i; cases j)
    fix i' j'
    assume "i = Suc i'" "j = Suc j'"
    then show "i = j" using Cons.IH [OF d, of i' j'] Cons.prems by simp
  qed (use Cons.prems mem in auto)
qed simp

lemma live_oid_unique:
  "distinct (live_oids ts) \<Longrightarrow> i < length ts \<Longrightarrow> j < length ts \<Longrightarrow> task_live (ts ! i) \<Longrightarrow>
     task_live (ts ! j) \<Longrightarrow> tk_oid (ts ! i) = tk_oid (ts ! j) \<Longrightarrow> i = j"
  unfolding live_oids_def by (rule distinct_filter_nth)

lemma fresh_kept: "kept k it k' it' \<Longrightarrow> fresh_ok k n \<Longrightarrow> fresh_ok k' n"
  by (simp add: kept_def fresh_ok_def)

lemma task_live_simps [simp]:
  "task_live (t\<lparr>tk_oid := y\<rparr>) = task_live t" "task_live (t\<lparr>tk_cancel := b\<rparr>) = task_live t"
  "task_live (t\<lparr>tk_phase := ph\<rparr>) \<longleftrightarrow> ph \<noteq> Finished \<and> ph \<noteq> Forgotten"
  by (simp_all add: task_live_def)

text \<open>The step of one coroutine: its item changes as \<open>kept\<close> says; it goes on in a phase that
  fits, or it ends with a closed item, or it ends with the item back in the queue.\<close>

lemma task_step:
  assumes ok: "sched_ok s" and tid: "tid < length (s_tasks s)" and live: "task_live (s_tasks s ! tid)"
    and x: "x = tk_oid (s_tasks s ! tid)" and kp: "kept (s_kernel s) (s_heap s ! x) k' it'"
    and how: "task_live t' \<and> task_ok [it'] (t'\<lparr>tk_oid := 0\<rparr>) \<and> pend' = s_pending s \<and> \<not> it_dead it' \<or>
      \<not> task_live t' \<and> pend' = s_pending s \<and> closed_status (it_status it') \<or>
      \<not> task_live t' \<and> pend' = s_pending s @ [x] \<and> waiting it' \<and> \<not> it_dead it'"
    and t': "tk_oid t' = x"
  shows "sched_ok (s\<lparr>s_kernel := k', s_heap := (s_heap s)[x := it'], s_pending := pend',
     s_tasks := (s_tasks s)[tid := t']\<rparr>)" (is "sched_ok ?s")
proof -
  let ?ts = "s_tasks s" and ?ts' = "(s_tasks s)[tid := t']" and ?h = "s_heap s"
  from ok have c: "core (s_kernel s) ?h (set (tracked s))" and d: "distinct (tracked s)"
    and pend: "\<forall>y \<in> set (s_pending s). waiting (?h ! y)"
    and tasks: "\<forall>j < length ?ts. task_ok ?h (?ts ! j)" and act: "active_ok s"
    and fr: "fresh_ok (s_kernel s) (s_fresh s)"
    by (auto simp: sched_ok_def)
  have xl: "x \<in> set (live_oids ?ts)" using live_mem [OF tid live] by (simp add: x)
  then have xt: "x \<in> set (tracked s)" by (simp add: tracked_def)
  from d xl have xp: "x \<notin> set (s_pending s)" by (auto simp: tracked_def)
  from c xt have len: "x < length ?h" by (auto simp: core_def)
  have dl: "distinct (live_oids ?ts)" using d by (simp add: tracked_def)
  have id: "it_id it' = it_id (?h ! x)" using kp by (simp add: kept_def)
  have T: "tracked ?s = pend' @ live_oids ?ts'" by (simp add: tracked_def)
  have S: "set (tracked ?s) = set (tracked s) \<and> \<not> it_dead it' \<or>
      set (tracked ?s) = set (tracked s) - {x} \<and> \<not> open_status (it_status it')"
    and D: "distinct (tracked ?s)"
  proof -
    have gone: "\<not> task_live t' \<Longrightarrow> set (live_oids ?ts') = set (live_oids ?ts) - {x} \<and> distinct (live_oids ?ts')"
      using live_oids_update(2) [OF tid live _ dl] x by simp
    have same: "task_live t' \<Longrightarrow> live_oids ?ts' = live_oids ?ts"
      using live_oids_update(1) [OF tid live] t' x by simp
    consider "task_live t'" "pend' = s_pending s" "\<not> it_dead it'"
      | "\<not> task_live t'" "pend' = s_pending s" "closed_status (it_status it')"
      | "\<not> task_live t'" "pend' = s_pending s @ [x]" "\<not> it_dead it'" using how by blast
    then have "(set (tracked ?s) = set (tracked s) \<and> \<not> it_dead it' \<or>
      set (tracked ?s) = set (tracked s) - {x} \<and> \<not> open_status (it_status it')) \<and> distinct (tracked ?s)"
    proof cases
      case 1
      then show ?thesis using same d by (simp add: tracked_def)
    next
      case 2
      have "set (tracked ?s) = set (tracked s) - {x}"
        using gone [OF 2(1)] 2(2) xp unfolding T by (auto simp: tracked_def)
      moreover have "distinct (tracked ?s)" using gone [OF 2(1)] 2(2) d unfolding T by (auto simp: tracked_def)
      ultimately show ?thesis using closed_not_open [OF 2(3)] by simp
    next
      case 3
      have "set (tracked ?s) = set (tracked s)"
        using gone [OF 3(1)] 3(2) xl unfolding T by (auto simp: tracked_def)
      moreover have "distinct (tracked ?s)"
        using gone [OF 3(1)] 3(2) d xp unfolding T by (auto simp: tracked_def)
      ultimately show ?thesis using 3(3) by simp
    qed
    then show "set (tracked ?s) = set (tracked s) \<and> \<not> it_dead it' \<or>
      set (tracked ?s) = set (tracked s) - {x} \<and> \<not> open_status (it_status it')"
      and "distinct (tracked ?s)" by blast+
  qed
  have E: "\<not> task_live t' \<Longrightarrow> pend' = s_pending s \<Longrightarrow> x \<notin> set (tracked ?s)"
    using live_oids_update(2) [OF tid live _ dl] x xp unfolding T by auto
  have core': "core k' (?h[x := it']) (set (tracked ?s))"
    by (rule core_act [OF c xt kp S])
  have pend'': "\<forall>y \<in> set pend'. waiting (?h[x := it'] ! y)"
    using how pend xp len by (auto simp: nth_list_update)
  have tasks': "\<forall>j < length ?ts'. task_ok (?h[x := it']) (?ts' ! j)"
  proof (intro allI impI)
    fix j
    assume j: "j < length ?ts'"
    show "task_ok (?h[x := it']) (?ts' ! j)"
    proof (cases "j = tid")
      case True
      with how t' len tid show ?thesis by (auto simp: task_ok_def)
    next
      case False
      have "task_live (?ts ! j) \<Longrightarrow> tk_oid (?ts ! j) \<noteq> x"
        using live_oid_unique [OF dl _ tid _ live, of j] j False x by auto
      then have "task_ok (?h[x := it']) (?ts ! j) = task_ok ?h (?ts ! j)"
        by (auto simp: task_ok_def)
      with False tasks j show ?thesis by simp
    qed
  qed
  have act': "active_ok ?s"
    unfolding active_ok_def
  proof (intro allI impI)
    fix i y t
    assume "map_of (s_active ?s) i = Some (y, t)"
    then have a: "y < length ?h" "t < length ?ts" "tk_oid (?ts ! t) = y" "it_id (?h ! y) = i"
      "task_live (?ts ! t) \<or> y \<in> set (s_pending s) \<or> y \<notin> set (tracked s) \<and> closed_status (it_status (?h ! y))"
      using act by (auto simp: active_ok_def)
    have "task_live (?ts' ! t) \<or> y \<in> set pend' \<or>
        y \<notin> set (tracked ?s) \<and> closed_status (it_status (?h[x := it'] ! y))"
    proof (cases "t = tid")
      case True
      with a x have "y = x" by simp
      with how E len True tid show ?thesis by auto
    next
      case False
      have "y = x \<Longrightarrow> \<not> task_live (?ts ! t) \<and> y \<notin> set (s_pending s)"
        using live_oid_unique [OF dl a(2) tid _ live] a(3) x xp False by auto
      with a(5) xt have "y \<noteq> x" by auto
      moreover have "set (tracked ?s) \<subseteq> set (tracked s)" using S by auto
      ultimately show ?thesis using a False how by auto
    qed
    moreover have "tk_oid (?ts' ! t) = y" using a t' x by (cases "t = tid") (use tid in auto)
    moreover have "it_id (?h[x := it'] ! y) = i" using a id by (cases "y = x") (use len in auto)
    ultimately show "y < length (s_heap ?s) \<and> t < length (s_tasks ?s) \<and> tk_oid (s_tasks ?s ! t) = y \<and>
        it_id (s_heap ?s ! y) = i \<and> (task_live (s_tasks ?s ! t) \<or> y \<in> set (s_pending ?s) \<or>
        y \<notin> set (tracked ?s) \<and> closed_status (it_status (s_heap ?s ! y)))"
      using a by simp
  qed
  show ?thesis
    using core' D pend'' tasks' act' fresh_kept [OF kp fr] by (simp add: sched_ok_def)
qed

section \<open>The coroutine steps\<close>

text \<open>The cancel flags and the rejected requests play no part in it.\<close>

lemma sched_ok_flags [simp]: "sched_ok (s\<lparr>s_cancelled := fl\<rparr>) = sched_ok s"
  "sched_ok (s\<lparr>s_rejected := rj\<rparr>) = sched_ok s"
  by (simp_all add: sched_ok_def tracked_def active_ok_def)

lemma on_item_eq:
  "act (s_kernel s, s_heap s ! x) = ((k', it'), e) \<Longrightarrow>
     on_item x act s = (s\<lparr>s_kernel := k', s_heap := (s_heap s)[x := it']\<rparr>, e)"
  by (simp add: on_item_def)

lemma live_item:
  assumes "sched_ok s" and "tid < length (s_tasks s)" and "task_live (s_tasks s ! tid)"
  shows "kernel_ok (s_kernel s)" "rows_ok (s_kernel s)"
    "synced (s_kernel s) (s_heap s ! tk_oid (s_tasks s ! tid))"
    "\<not> it_dead (s_heap s ! tk_oid (s_tasks s ! tid))" "tk_oid (s_tasks s ! tid) < length (s_heap s)"
    "task_ok (s_heap s) (s_tasks s ! tid)"
proof -
  have "tk_oid (s_tasks s ! tid) \<in> set (tracked s)"
    using live_mem [OF assms(2,3)] by (simp add: tracked_def)
  with assms show "kernel_ok (s_kernel s)" "rows_ok (s_kernel s)"
    "synced (s_kernel s) (s_heap s ! tk_oid (s_tasks s ! tid))"
    "\<not> it_dead (s_heap s ! tk_oid (s_tasks s ! tid))" "tk_oid (s_tasks s ! tid) < length (s_heap s)"
    "task_ok (s_heap s) (s_tasks s ! tid)"
    by (auto simp: sched_ok_def core_def)
qed

lemma failed_item_fields [simp]:
  "it_status (failed_item t e d it) = ''failed''" "it_dead (failed_item t e d it) = d"
  "it_id (failed_item t e d it) = it_id it"
  by (simp_all add: failed_item_def)

lemma closed_failed [simp]: "closed_status ''failed''" "closed_status ''completed''"
  by (simp_all add: closed_status_def)

lemma after_failure_closed:
  "\<not> (er \<noteq> ''cancelled'' \<and> can_retry it) \<Longrightarrow> closed_status (it_status (after_failure now er it))"
  by (auto simp: after_failure_def)

lemma after_failure_sleeping:
  "er \<noteq> ''cancelled'' \<Longrightarrow> can_retry it \<Longrightarrow> after_failure now er it = retry_item er it"
  by (simp add: after_failure_def)

lemma fail_or_retry_eq:
  assumes x: "x = tk_oid (s_tasks s ! tid)" "x < length (s_heap s)"
    and ok: "kernel_ok (s_kernel s)" "rows_ok (s_kernel s)" "synced (s_kernel s) (s_heap s ! x)"
    and st: "it_status (s_heap s ! x) = ''running''" "\<not> it_dead (s_heap s ! x)"
  shows "\<exists>k'. fail_or_retry tid er s = s\<lparr>s_kernel := k',
      s_heap := (s_heap s)[x := after_failure (k_now (s_kernel s)) er (s_heap s ! x)],
      s_tasks := (s_tasks s)[tid := (s_tasks s ! tid)\<lparr>tk_phase :=
        (if er \<noteq> ''cancelled'' \<and> can_retry (s_heap s ! x) then RetrySleep else Finished)\<rparr>]\<rparr> \<and>
    kept (s_kernel s) (s_heap s ! x) k' (after_failure (k_now (s_kernel s)) er (s_heap s ! x))"
proof -
  let ?it = "s_heap s ! x"
  from maybe_retry_spec [OF ok st, of er] obtain k' where
    k': "maybe_retry (s_kernel s, ?it\<lparr>it_error := er\<rparr>) =
        ((k', after_failure (k_now (s_kernel s)) er ?it), None)"
      "kept (s_kernel s) ?it k' (after_failure (k_now (s_kernel s)) er ?it)" by blast
  have "sleeps (?it\<lparr>it_error := er\<rparr>) \<longleftrightarrow> er \<noteq> ''cancelled'' \<and> can_retry ?it"
    by (simp add: sleeps_def can_retry_def)
  with k' x show ?thesis
    by (auto simp: fail_or_retry_def Let_def on_item_def set_error_def modify_def set_phase_def finish_def)
qed

lemma fail_act_spec:
  assumes ok: "kernel_ok k" "rows_ok k" "synced k it"
    and st: "it_status it \<in> {''pending'', ''running'', ''retrying''}" and alive: "\<not> it_dead it"
  shows "\<exists>k'. run_acts [set_error er, goto ''failed'', failed t dl] (k, it) =
     ((k', failed_item (k_now k) er dl it), None) \<and> kept k it k' (failed_item (k_now k) er dl it)"
  using fail_spec [OF ok st alive, of t dl er] by (simp add: set_error_def modify_def)

lemma task_same_step:
  assumes "sched_ok s" "tid < length (s_tasks s)" "task_live (s_tasks s ! tid)"
    "x = tk_oid (s_tasks s ! tid)" "kept (s_kernel s) (s_heap s ! x) k' it'"
    "task_live t'" "task_ok [it'] (t'\<lparr>tk_oid := 0\<rparr>)" "\<not> it_dead it'" "tk_oid t' = x"
  shows "sched_ok (s\<lparr>s_kernel := k', s_heap := (s_heap s)[x := it'], s_tasks := (s_tasks s)[tid := t']\<rparr>)"
  using task_step [OF assms(1-5), of t' "s_pending s"] assms(6-9) by simp

lemma task_finish_step:
  assumes "sched_ok s" "tid < length (s_tasks s)" "task_live (s_tasks s ! tid)"
    "x = tk_oid (s_tasks s ! tid)" "kept (s_kernel s) (s_heap s ! x) k' it'" "closed_status (it_status it')"
  shows "sched_ok (s\<lparr>s_kernel := k', s_heap := (s_heap s)[x := it'],
     s_tasks := (s_tasks s)[tid := (s_tasks s ! tid)\<lparr>tk_phase := Finished\<rparr>]\<rparr>)"
  using task_step [OF assms(1-5), of "(s_tasks s ! tid)\<lparr>tk_phase := Finished\<rparr>" "s_pending s"] assms(4,6)
  by simp

lemma task_phase_step:
  assumes "sched_ok s" "tid < length (s_tasks s)" "task_live (s_tasks s ! tid)" "\<not> tk_cancel (s_tasks s ! tid)"
    "x = tk_oid (s_tasks s ! tid)" "kept (s_kernel s) (s_heap s ! x) k' it'"
    "phase_status ph (it_status it')" "ph \<noteq> Finished" "ph \<noteq> Forgotten" "\<not> it_dead it'"
  shows "sched_ok (s\<lparr>s_kernel := k', s_heap := (s_heap s)[x := it'],
     s_tasks := (s_tasks s)[tid := (s_tasks s ! tid)\<lparr>tk_phase := ph\<rparr>]\<rparr>)"
proof -
  let ?t = "(s_tasks s ! tid)\<lparr>tk_phase := ph\<rparr>"
  have "task_live ?t \<and> task_ok [it'] (?t\<lparr>tk_oid := 0\<rparr>)" using assms by (simp add: task_ok_def)
  with task_step [OF assms(1-3,5,6), of ?t "s_pending s"] assms(5,10) show ?thesis by simp
qed

lemma retry_item_fields [simp]:
  "it_status (retry_item er it) = ''retrying''" "it_dead (retry_item er it) = it_dead it"
  by (simp_all add: retry_item_def)

lemma task_fail_step:
  assumes ok: "sched_ok s" and tid: "tid < length (s_tasks s)" and live: "task_live (s_tasks s ! tid)"
    "\<not> tk_cancel (s_tasks s ! tid)" and x: "x = tk_oid (s_tasks s ! tid)"
    and kp: "kept (s_kernel s) (s_heap s ! x) k1 it1" and it1: "it_status it1 = ''running''" "\<not> it_dead it1"
  shows "sched_ok (fail_or_retry tid er (s\<lparr>s_kernel := k1, s_heap := (s_heap s)[x := it1]\<rparr>))"
proof -
  let ?s = "s\<lparr>s_kernel := k1, s_heap := (s_heap s)[x := it1]\<rparr>"
  have len: "x < length (s_heap s)" using live_item(5) [OF ok tid live(1)] x by simp
  from fail_or_retry_eq [of x ?s tid er] obtain k' where
    k': "fail_or_retry tid er ?s = ?s\<lparr>s_kernel := k',
      s_heap := (s_heap ?s)[x := after_failure (k_now k1) er it1],
      s_tasks := (s_tasks s)[tid := (s_tasks s ! tid)\<lparr>tk_phase :=
        (if er \<noteq> ''cancelled'' \<and> can_retry it1 then RetrySleep else Finished)\<rparr>]\<rparr>"
      "kept k1 it1 k' (after_failure (k_now k1) er it1)"
    using x len kept_ok(1-3) [OF kp] it1 by auto
  have kp': "kept (s_kernel s) (s_heap s ! x) k' (after_failure (k_now k1) er it1)"
    by (rule kept_trans [OF kp k'(2)])
  show ?thesis
  proof (cases "er \<noteq> ''cancelled'' \<and> can_retry it1")
    case True
    then have "after_failure (k_now k1) er it1 = retry_item er it1" by (simp add: after_failure_def)
    then show ?thesis
      using task_phase_step [OF ok tid live x kp', of RetrySleep] True it1 k'(1)
      by (simp add: phase_status_def)
  next
    case False
    from task_finish_step [OF ok tid live(1) x kp' after_failure_closed [OF False]]
    show ?thesis using False k'(1) by (simp del: de_Morgan_conj)
  qed
qed

lemma task_ended_step:
  assumes ok: "sched_ok s" and tid: "tid < length (s_tasks s)" and live: "task_live (s_tasks s ! tid)"
    and x: "x = tk_oid (s_tasks s ! tid)"
    and kp: "kept (s_kernel s) (s_heap s ! x) k1 it1"
    and act: "act (k1, it1) = ((k2, it2), None)" and kp2: "kept k1 it1 k2 it2"
    and st: "closed_status (it_status it2)"
  shows "sched_ok (finish tid (fst (on_item x act (s\<lparr>s_kernel := k1, s_heap := (s_heap s)[x := it1]\<rparr>))))"
proof -
  have len: "x < length (s_heap s)" using live_item(5) [OF ok tid live] x by simp
  from task_finish_step [OF ok tid live x kept_trans [OF kp kp2] st] act len show ?thesis
    by (simp add: on_item_def finish_def set_phase_def)
qed

lemma kept_refl: "kernel_ok k \<Longrightarrow> rows_ok k \<Longrightarrow> synced k it \<Longrightarrow> kept k it k it"
  by (simp add: kept_def)

text \<open>The same from the state itself, with a cancel flag dropped.\<close>

lemma task_cleared_step:
  assumes ok: "sched_ok s" and tid: "tid < length (s_tasks s)" and live: "task_live (s_tasks s ! tid)"
    and x: "x = tk_oid (s_tasks s ! tid)"
    and act: "act (s_kernel s, s_heap s ! x) = ((k', it'), None)" and kp: "kept (s_kernel s) (s_heap s ! x) k' it'"
    and st: "closed_status (it_status it')"
  shows "sched_ok (finish tid (fst (on_item x act (clear_flag i s))))"
proof -
  have ok': "sched_ok (clear_flag i s)" using ok by (simp add: clear_flag_def)
  have f: "s_tasks (clear_flag i s) = s_tasks s" "s_kernel (clear_flag i s) = s_kernel s"
    "s_heap (clear_flag i s) = s_heap s" by (simp_all add: clear_flag_def)
  from task_finish_step [OF ok', of tid x k' it'] tid live x kp st act f show ?thesis
    by (simp add: on_item_def finish_def set_phase_def)
qed

lemma task_start_ok:
  assumes ok: "sched_ok s" and tid: "tid < length (s_tasks s)"
    and ph: "tk_phase (s_tasks s ! tid) = Created" "\<not> tk_cancel (s_tasks s ! tid)"
  shows "sched_ok (task_start cf tid s)"
proof -
  let ?x = "tk_oid (s_tasks s ! tid)"
  let ?it = "s_heap s ! ?x" and ?k = "s_kernel s"
  have live: "task_live (s_tasks s ! tid)" using ph by (simp add: task_live_def)
  note it = live_item [OF ok tid live]
  have st: "it_status ?it \<in> {''pending'', ''retrying''}"
    using it(6) live ph by (simp add: task_ok_def phase_status_def)
  then have st': "it_status ?it \<in> {''pending'', ''running'', ''retrying''}" by auto
  have kr: "kept ?k ?it ?k ?it" by (rule kept_refl [OF it(1-3)])
  show ?thesis
  proof (cases "is_execution_cancelled s (it_id ?it)")
    case True
    from cancel_spec [OF it(1-3) st' it(4)] obtain k2 where
      k2: "mark_cancelled False (?k, ?it) = ((k2, failed_item (k_now ?k) ''cancelled'' False ?it), None)"
        "kept ?k ?it k2 (failed_item (k_now ?k) ''cancelled'' False ?it)" by blast
    have "sched_ok (finish tid (fst (on_item ?x (mark_cancelled False) (clear_flag (it_id ?it) s))))"
      by (rule task_cleared_step [where act = "mark_cancelled False" and k' = k2, OF ok tid live HOL.refl k2]) simp
    with True show ?thesis by (simp add: task_start_def Let_def)
  next
    case False
    let ?r = "running_item (k_now ?k) ?it"
    from start_spec [OF it(1-3) st it(4)] obtain k1 where
      k1: "run_acts [goto ''running'', started] (?k, ?it) = ((k1, ?r), None)" "kept ?k ?it k1 ?r" by blast
    let ?s = "s\<lparr>s_kernel := k1, s_heap := (s_heap s)[?x := ?r]\<rparr>"
    have r: "it_status ?r = ''running''" "\<not> it_dead ?r" using it(4) by (simp_all add: running_item_def)
    have r': "it_status ?r \<in> {''pending'', ''running'', ''retrying''}" using r by simp
    have on: "on_item ?x (run_acts [goto ''running'', started]) s = (?s, None)"
      by (rule on_item_eq) (rule k1(1))
    note start = task_start_def Let_def on it(5)
    have die: "sched_ok (finish tid (fst (on_item ?x (run_acts [set_error er, goto ''failed'', failed True True]) ?s)))" for er
    proof -
      from fail_act_spec [OF kept_ok(1-3) [OF k1(2)] r' r(2), of er True True] obtain k2 where
        "run_acts [set_error er, goto ''failed'', failed True True] (k1, ?r) =
          ((k2, failed_item (k_now k1) er True ?r), None)" "kept k1 ?r k2 (failed_item (k_now k1) er True ?r)"
        by blast
      from task_ended_step [where act = "run_acts [set_error er, goto ''failed'', failed True True]" and ?k2.0 = k2,
          OF ok tid live HOL.refl k1(2) this] show ?thesis by simp
    qed
    show ?thesis
    proof (cases "item_event k1 ?r")
      case (Inl e)
      with task_fail_step [OF ok tid live ph(2) HOL.refl k1(2) r, of "err_text e"] False show ?thesis
        by (simp add: start)
    next
      case (Inr ev)
      show ?thesis
      proof (cases ev)
        case None
        with Inr False die show ?thesis by (simp add: start)
      next
        case (Some e)
        have "sched_ok (set_phase tid (InHandler e) ?s)"
          using task_phase_step [OF ok tid live ph(2) HOL.refl k1(2), of "InHandler e"] r
          by (simp add: set_phase_def phase_status_def)
        with Inr Some False die show ?thesis by (simp add: start)
      qed
    qed
  qed
qed

lemma finish_id_step:
  assumes ok: "sched_ok s" and tid: "tid < length (s_tasks s)" and live: "task_live (s_tasks s ! tid)"
    and st: "closed_status (it_status (s_heap s ! tk_oid (s_tasks s ! tid)))"
  shows "sched_ok (finish tid s)"
proof -
  note it = live_item [OF ok tid live]
  from task_finish_step [OF ok tid live HOL.refl kept_refl [OF it(1-3)] st] show ?thesis
    by (simp add: finish_def set_phase_def)
qed

lemma task_done_ok:
  assumes ok: "sched_ok s" and tid: "tid < length (s_tasks s)"
    and ph: "tk_phase (s_tasks s ! tid) = InHandler ev" "\<not> tk_cancel (s_tasks s ! tid)"
  shows "sched_ok (task_done tid out s)"
proof -
  let ?x = "tk_oid (s_tasks s ! tid)"
  let ?it = "s_heap s ! ?x" and ?k = "s_kernel s"
  have live: "task_live (s_tasks s ! tid)" using ph by (simp add: task_live_def)
  note it = live_item [OF ok tid live]
  have st: "it_status ?it = ''running''"
    using it(6) live ph by (simp add: task_ok_def phase_status_def)
  have kr: "kept ?k ?it ?k ?it" by (rule kept_refl [OF it(1-3)])
  have fail: "sched_ok (fail_or_retry tid er s)" for er
    using task_fail_step [OF ok tid live ph(2) HOL.refl kr st it(4), of er] by simp
  have cancel: "sched_ok (finish tid (fst (on_item ?x (mark_cancelled False) (clear_flag (it_id ?it) s))))"
  proof -
    have st': "it_status ?it \<in> {''pending'', ''running'', ''retrying''}" using st by simp
    from cancel_spec [OF it(1-3) st' it(4)] obtain k2 where
      k2: "mark_cancelled False (?k, ?it) = ((k2, failed_item (k_now ?k) ''cancelled'' False ?it), None)"
        "kept ?k ?it k2 (failed_item (k_now ?k) ''cancelled'' False ?it)" by blast
    show ?thesis by (rule task_cleared_step [where act = "mark_cancelled False" and k' = k2, OF ok tid live HOL.refl k2]) simp
  qed
  from complete_spec [OF it(1-3) st it(4)] obtain k2 where
    k2: "run_acts [set_error [], goto ''completed'', completed] (?k, ?it) =
        ((k2, completed_item (k_now ?k) ?it), None)" "kept ?k ?it k2 (completed_item (k_now ?k) ?it)"
    by blast
  have "closed_status (it_status (completed_item (k_now ?k) ?it))" by (simp add: completed_item_def)
  from task_finish_step [OF ok tid live HOL.refl k2(2) this]
  have complete: "sched_ok (finish tid (s\<lparr>s_kernel := k2, s_heap := (s_heap s)[?x := completed_item (k_now ?k) ?it]\<rparr>))"
    by (simp add: finish_def set_phase_def)
  show ?thesis
    using fail cancel complete st k2(1) by (cases out) (simp_all add: task_done_def Let_def on_item_eq)
qed

lemma task_wake_ok:
  assumes ok: "sched_ok s" and tid: "tid < length (s_tasks s)"
    and ph: "tk_phase (s_tasks s ! tid) = RetrySleep" "\<not> tk_cancel (s_tasks s ! tid)"
  shows "sched_ok (task_wake cf tid s)"
proof -
  let ?x = "tk_oid (s_tasks s ! tid)"
  let ?it = "s_heap s ! ?x" and ?k = "s_kernel s"
  have live: "task_live (s_tasks s ! tid)" using ph by (simp add: task_live_def)
  note it = live_item [OF ok tid live]
  have st: "it_status ?it \<in> {''retrying''}"
    using it(6) live ph by (simp add: task_ok_def phase_status_def)
  let ?p = "?it\<lparr>it_status := ''pending''\<rparr>"
  from pending_spec [OF it(1-3) st it(4)] obtain k1 where
    k1: "run_acts [goto ''pending'', retried ''pending''] (?k, ?it) = ((k1, ?p), None)" "kept ?k ?it k1 ?p"
    by blast
  let ?s = "s\<lparr>s_kernel := k1, s_heap := (s_heap s)[?x := ?p]\<rparr>"
  have on: "on_item ?x (run_acts [goto ''pending'', retried ''pending'']) s = (?s, None)"
    by (rule on_item_eq) (rule k1(1))
  have alive: "\<not> it_dead ?p" using it(4) by simp
  show ?thesis
  proof (cases "int (length (s_pending s)) \<ge> max_pending cf")
    case True
    have st': "it_status ?p \<in> {''pending'', ''running'', ''retrying''}" by simp
    from fail_act_spec [OF kept_ok(1-3) [OF k1(2)] st' alive, of queue_full_error True False] obtain k2 where
      k2: "run_acts [set_error queue_full_error, goto ''failed'', failed True False] (k1, ?p) =
        ((k2, failed_item (k_now k1) queue_full_error False ?p), None)"
        "kept k1 ?p k2 (failed_item (k_now k1) queue_full_error False ?p)" by blast
    have "sched_ok (finish tid (fst (on_item ?x (run_acts [set_error queue_full_error, goto ''failed'', failed True False]) ?s)))"
      by (rule task_ended_step [where act = "run_acts [set_error queue_full_error, goto ''failed'', failed True False]"
            and ?k2.0 = k2, OF ok tid live HOL.refl k1(2) k2]) simp
    with True on show ?thesis by (simp add: task_wake_def Let_def)
  next
    case False
    let ?t = "(s_tasks s ! tid)\<lparr>tk_phase := Finished\<rparr>"
    have "waiting ?p" by (simp add: waiting_def)
    with task_step [OF ok tid live HOL.refl k1(2), of ?t "s_pending s @ [?x]"] alive
    have "sched_ok (finish tid (?s\<lparr>s_pending := s_pending ?s @ [?x]\<rparr>))"
      by (simp add: finish_def set_phase_def)
    with False on show ?thesis by (simp add: task_wake_def Let_def)
  qed
qed

lemma task_cancelled_ok:
  assumes ok: "sched_ok s" and tid: "tid < length (s_tasks s)" and live: "task_live (s_tasks s ! tid)"
    and c: "tk_cancel (s_tasks s ! tid)"
  shows "sched_ok (task_cancelled tid s)"
proof -
  let ?x = "tk_oid (s_tasks s ! tid)"
  note it = live_item [OF ok tid live]
  have st: "it_status (s_heap s ! ?x) = ''failed''" using it(6) live c by (simp add: task_ok_def)
  then have st': "closed_status (it_status (s_heap s ! ?x))" by simp
  have "mark_cancelled True (s_kernel s, s_heap s ! ?x) = ((s_kernel s, s_heap s ! ?x), None)"
    using st by (simp add: mark_cancelled_def)
  from task_cleared_step [where act = "mark_cancelled True" and k' = "s_kernel s" and x = ?x, OF ok tid live HOL.refl this kept_refl [OF it(1-3)] st'] finish_id_step [OF ok tid live st']
  show ?thesis by (cases "tk_phase (s_tasks s ! tid)") (simp_all add: task_cancelled_def Let_def)
qed

lemma task_forget_ok:
  assumes ok: "sched_ok s" and tid: "tid < length (s_tasks s)" and ph: "tk_phase (s_tasks s ! tid) = Finished"
  shows "sched_ok (task_forget tid s)"
proof -
  let ?t = "(s_tasks s ! tid)\<lparr>tk_phase := Forgotten\<rparr>"
  let ?ts' = "(s_tasks s)[tid := ?t]"
  have same: "task_live (?ts' ! j) = task_live (s_tasks s ! j)" "tk_oid (?ts' ! j) = tk_oid (s_tasks s ! j)" for j
    using ph tid by (cases "j = tid"; simp add: task_live_def)+
  have lv: "live_oids ?ts' = live_oids (s_tasks s)"
  proof -
    have "s_tasks s = take tid (s_tasks s) @ s_tasks s ! tid # drop (Suc tid) (s_tasks s)"
      using tid by (rule id_take_nth_drop)
    moreover have "?ts' = take tid (s_tasks s) @ ?t # drop (Suc tid) (s_tasks s)"
      using tid by (rule upd_conv_take_nth_drop)
    moreover have "\<not> task_live (s_tasks s ! tid)" "\<not> task_live ?t" using ph by (simp_all add: task_live_def)
    ultimately show ?thesis by (metis filter.simps(2) filter_append live_oids_def)
  qed
  let ?s = "task_forget tid s"
  have T: "tracked ?s = tracked s"
    by (simp add: tracked_def task_forget_def set_phase_def lv)
  have tasks: "task_ok (s_heap s) (?ts' ! j)" if "j < length (s_tasks s)" for j
    using ok that ph tid by (cases "j = tid") (auto simp: sched_ok_def task_ok_def)
  have "active_ok ?s"
    using ok same T unfolding active_ok_def sched_ok_def
    by (auto simp: task_forget_def set_phase_def AList.delete_conv split: if_splits)
  with ok tasks T show ?thesis
    by (simp add: sched_ok_def) (simp add: task_forget_def set_phase_def)
qed

end
