(* ===== verification/Sched_Steps.thy ===== *)
theory Sched_Steps
  imports Sched_Inv
begin

text \<open>
  The remaining steps of the scheduler keep its invariant: filling the slots, cancelling,
  enqueueing (also when it is refused) and the recovery at start-up; then the step relation
  \<open>sched_step\<close> and the reachable schedulers.
\<close>

section \<open>Filling the slots\<close>

lemma start_task_ok:
  assumes ok: "sched_ok (s\<lparr>s_pending := oid # oids\<rparr>)"
  shows "sched_ok ((start_task oid s)\<lparr>s_pending := oids\<rparr>)" (is "sched_ok ?s'")
proof -
  let ?s = "s\<lparr>s_pending := oid # oids\<rparr>"
  let ?i = "it_id (s_heap s ! oid)"
  let ?t = "\<lparr>tk_oid = oid, tk_exec = ?i, tk_phase = Created, tk_cancel = False\<rparr>"
  have f: "s_tasks ?s' = s_tasks s @ [?t]" "s_heap ?s' = s_heap s" "s_kernel ?s' = s_kernel s"
    "s_active ?s' = AList.update ?i (oid, length (s_tasks s)) (s_active s)" "s_fresh ?s' = s_fresh s"
    by (simp_all add: start_task_def Let_def)
  have T: "tracked ?s' = oids @ live_oids (s_tasks s) @ [oid]" "tracked ?s = oid # oids @ live_oids (s_tasks s)"
    unfolding tracked_def f(1) by (simp_all add: live_oids_def task_live_def)
  have S: "set (tracked ?s') = set (tracked ?s)" and D: "distinct (tracked ?s')"
    using ok unfolding T sched_ok_def by auto
  have c: "core (s_kernel s) (s_heap s) (set (tracked ?s))" using ok by (simp add: sched_ok_def)
  have w: "waiting (s_heap s ! oid)" "\<forall>x \<in> set oids. waiting (s_heap s ! x)"
    using ok by (simp_all add: sched_ok_def)
  have len: "oid < length (s_heap s)" using c by (auto simp: core_def T)
  have tasks: "task_ok (s_heap s) ((s_tasks s @ [?t]) ! j)" if "j < length (s_tasks s) + 1" for j
  proof (cases "j = length (s_tasks s)")
    case True
    with w(1) show ?thesis by (simp add: task_ok_def phase_status_def waiting_def)
  next
    case False
    with that ok show ?thesis by (simp add: sched_ok_def nth_append)
  qed
  have "active_ok ?s'"
    unfolding active_ok_def
  proof (intro allI impI)
    fix i y t
    assume a: "map_of (s_active ?s') i = Some (y, t)"
    show "y < length (s_heap ?s') \<and> t < length (s_tasks ?s') \<and> tk_oid (s_tasks ?s' ! t) = y \<and>
        it_id (s_heap ?s' ! y) = i \<and> (task_live (s_tasks ?s' ! t) \<or> y \<in> set (s_pending ?s') \<or>
        y \<notin> set (tracked ?s') \<and> closed_status (it_status (s_heap ?s' ! y)))"
    proof (cases "i = ?i")
      case True
      with a have "y = oid" "t = length (s_tasks s)" by (simp_all add: f update_conv)
      with True len show ?thesis by (simp add: f task_live_def)
    next
      case False
      with a have "map_of (s_active ?s) i = Some (y, t)" by (simp add: f update_conv)
      with ok have b: "y < length (s_heap s)" "t < length (s_tasks s)" "tk_oid (s_tasks s ! t) = y"
        "it_id (s_heap s ! y) = i" "task_live (s_tasks s ! t) \<or> y \<in> set (oid # oids) \<or>
          y \<notin> set (tracked ?s) \<and> closed_status (it_status (s_heap s ! y))"
        by (auto simp: sched_ok_def active_ok_def)
      from b(4) False have "y \<noteq> oid" by auto
      with b S show ?thesis by (auto simp: f nth_append)
    qed
  qed
  with c D w(2) tasks ok show ?thesis by (simp add: sched_ok_def S f)
qed

lemma fill_slots_ok: "sched_ok (s\<lparr>s_pending := p\<rparr>) \<Longrightarrow> sched_ok (fill_slots cf p s)"
proof (induction cf p s rule: fill_slots.induct)
  case (2 cf oid oids s)
  then show ?case
    using start_task_ok [OF 2(2)] by (simp split: if_splits)
qed simp

lemma loop_tick_ok: "sched_ok s \<Longrightarrow> sched_ok (loop_tick cf s)"
  unfolding loop_tick_def by (rule fill_slots_ok) simp

section \<open>Cancelling\<close>

lemma cancel_pending_none:
  "\<forall>x \<in> set p. it_id (s_heap s ! x) \<noteq> i \<Longrightarrow> cancel_pending i p s = (s, False, p, None)"
  by (induction p) auto

lemma cancel_pending_hit:
  assumes "p = xs @ x # ys" and "\<forall>y \<in> set xs. it_id (s_heap s ! y) \<noteq> i" and "it_id (s_heap s ! x) = i"
    and hit: "on_item x (mark_cancelled False) s = (s1, None)"
    and ys: "\<forall>y \<in> set ys. it_id (s_heap s1 ! y) \<noteq> i"
  shows "cancel_pending i p s = (s1, True, xs @ ys, None)"
  using assms(1,2)
proof (induction xs arbitrary: p)
  case Nil
  with assms(3) hit cancel_pending_none [OF ys] show ?case by simp
next
  case (Cons y xs)
  then show ?case by simp
qed

lemma remove_pending_ok:
  assumes ok: "sched_ok s" and p: "s_pending s = xs @ x # ys"
    and kp: "kept (s_kernel s) (s_heap s ! x) k' it'" and st: "closed_status (it_status it')"
  shows "sched_ok (s\<lparr>s_kernel := k', s_heap := (s_heap s)[x := it'], s_pending := xs @ ys\<rparr>)" (is "sched_ok ?s")
proof -
  let ?h = "s_heap s"
  from ok have c: "core (s_kernel s) ?h (set (tracked s))" and d: "distinct (tracked s)"
    and fr: "fresh_ok (s_kernel s) (s_fresh s)" by (auto simp: sched_ok_def)
  have xt: "x \<in> set (tracked s)" by (simp add: tracked_def p)
  have len: "x < length ?h" using c xt by (auto simp: core_def)
  have id: "it_id it' = it_id (?h ! x)" using kp by (simp add: kept_def)
  have S: "set (tracked ?s) = set (tracked s) - {x}" and D: "distinct (tracked ?s)"
    using d by (auto simp: tracked_def p)
  have xl: "x \<notin> set (live_oids (s_tasks s))" using d by (auto simp: tracked_def p)
  have core': "core k' (?h[x := it']) (set (tracked ?s))"
    by (rule core_act [OF c xt kp]) (use S st closed_not_open in auto)
  have other: "y \<noteq> x \<Longrightarrow> ?h[x := it'] ! y = ?h ! y" for y by simp
  have tasks: "task_ok (?h[x := it']) (s_tasks s ! j)" if "j < length (s_tasks s)" for j
  proof -
    have "task_live (s_tasks s ! j) \<Longrightarrow> tk_oid (s_tasks s ! j) \<noteq> x" using live_mem [OF that] xl by metis
    then show ?thesis using ok that by (auto simp: sched_ok_def task_ok_def)
  qed
  have pend: "\<forall>y \<in> set (xs @ ys). waiting (?h[x := it'] ! y)"
  proof
    fix y
    assume y: "y \<in> set (xs @ ys)"
    with d have "y \<noteq> x" by (auto simp: tracked_def p)
    with y ok show "waiting (?h[x := it'] ! y)" by (auto simp: sched_ok_def p)
  qed
  have "active_ok ?s"
    unfolding active_ok_def
  proof (intro allI impI)
    fix i y t
    assume "map_of (s_active ?s) i = Some (y, t)"
    then have a: "y < length ?h" "t < length (s_tasks s)" "tk_oid (s_tasks s ! t) = y" "it_id (?h ! y) = i"
      "task_live (s_tasks s ! t) \<or> y \<in> set (s_pending s) \<or> y \<notin> set (tracked s) \<and> closed_status (it_status (?h ! y))"
      using ok by (auto simp: sched_ok_def active_ok_def)
    have "it_id (?h[x := it'] ! y) = i" using a id len by (cases "y = x") auto
    moreover have "task_live (s_tasks s ! t) \<or> y \<in> set (xs @ ys) \<or>
        y \<notin> set (tracked ?s) \<and> closed_status (it_status (?h[x := it'] ! y))"
      using a(5) st len S by (cases "y = x") (auto simp: p)
    ultimately show "y < length (s_heap ?s) \<and> t < length (s_tasks ?s) \<and> tk_oid (s_tasks ?s ! t) = y \<and>
        it_id (s_heap ?s ! y) = i \<and> (task_live (s_tasks ?s ! t) \<or> y \<in> set (s_pending ?s) \<or>
        y \<notin> set (tracked ?s) \<and> closed_status (it_status (s_heap ?s ! y)))"
      using a by simp
  qed
  then show ?thesis using core' D tasks pend fresh_kept [OF kp fr] by (simp add: sched_ok_def)
qed

text \<open>A durable cancel of a queued item: its row is closed, it leaves the queue.\<close>

lemma cancel_pending_ok:
  assumes ok: "sched_ok s"
  shows "\<exists>s1 found kept. cancel_pending i (s_pending s) s = (s1, found, kept, None) \<and>
    sched_ok (s1\<lparr>s_pending := kept\<rparr>) \<and> s_active s1 = s_active s \<and> s_tasks s1 = s_tasks s \<and>
    (\<forall>x \<in> set kept. it_id (s_heap s1 ! x) \<noteq> i) \<and> (found \<longrightarrow> \<not> open_status (the (map_option he_status (row_of (s_kernel s1) i)))) \<and>
    (found \<longleftrightarrow> (\<exists>x \<in> set (s_pending s). it_id (s_heap s ! x) = i))"
proof (cases "\<exists>x \<in> set (s_pending s). it_id (s_heap s ! x) = i")
  case False
  then show ?thesis using cancel_pending_none [of "s_pending s" s i] ok by auto
next
  case True
  then obtain x where x: "x \<in> set (s_pending s)" "it_id (s_heap s ! x) = i" by blast
  then obtain xs ys where p: "s_pending s = xs @ x # ys" by (meson split_list)
  let ?it = "s_heap s ! x" and ?k = "s_kernel s"
  from ok have c: "core ?k (s_heap s) (set (tracked s))" and d: "distinct (tracked s)" by (auto simp: sched_ok_def)
  have xt: "x \<in> set (tracked s)" using x by (simp add: tracked_def)
  have it: "kernel_ok ?k" "rows_ok ?k" "synced ?k ?it" "\<not> it_dead ?it" "x < length (s_heap s)"
    using c xt by (auto simp: core_def)
  have st: "it_status ?it \<in> {''pending'', ''running'', ''retrying''}"
    using ok x(1) by (auto simp: sched_ok_def waiting_def)
  let ?f = "failed_item (k_now ?k) ''cancelled'' False ?it"
  from cancel_spec [OF it(1-3) st it(4)] obtain k' where
    k': "mark_cancelled False (?k, ?it) = ((k', ?f), None)" "kept ?k ?it k' ?f" by blast
  let ?s1 = "s\<lparr>s_kernel := k', s_heap := (s_heap s)[x := ?f]\<rparr>"
  have on: "on_item x (mark_cancelled False) s = (?s1, None)" by (rule on_item_eq) (rule k'(1))
  have ne: "it_id (s_heap s ! y) \<noteq> i" if "y \<in> set xs \<union> set ys" for y
  proof
    assume "it_id (s_heap s ! y) = i"
    moreover have "y \<in> set (tracked s)" using that by (auto simp: tracked_def p)
    ultimately have "y = x" using c xt x(2) by (auto simp: core_def inj_on_def)
    with that d show False by (auto simp: tracked_def p)
  qed
  have ne1: "it_id (s_heap ?s1 ! y) \<noteq> i" if "y \<in> set xs \<union> set ys" for y
  proof -
    have "y \<noteq> x" using that d by (auto simp: tracked_def p)
    with ne [OF that] show ?thesis by simp
  qed
  have "cancel_pending i (s_pending s) s = (?s1, True, xs @ ys, None)"
    by (rule cancel_pending_hit [OF p _ x(2) on]) (use ne ne1 in auto)
  moreover have "sched_ok (?s1\<lparr>s_pending := xs @ ys\<rparr>)"
    using remove_pending_ok [OF ok p k'(2)] by simp
  moreover have "row_of k' i = Some (to_row ?f)" using k'(2) x(2) by (simp add: kept_def synced_def)
  moreover have "\<forall>y \<in> set (xs @ ys). it_id (s_heap ?s1 ! y) \<noteq> i" using ne1 by auto
  ultimately show ?thesis using True by (auto simp: open_status_def to_row_def)
qed

lemma active_entry:
  assumes "sched_ok s" and "map_of (s_active s) i = Some (x, t)"
  shows "x < length (s_heap s)" "t < length (s_tasks s)" "tk_oid (s_tasks s ! t) = x" "it_id (s_heap s ! x) = i"
    "task_live (s_tasks s ! t) \<or> x \<in> set (s_pending s) \<or>
       x \<notin> set (tracked s) \<and> closed_status (it_status (s_heap s ! x))"
  using assms by (auto simp: sched_ok_def active_ok_def)

lemma cancel_task_ok:
  assumes ok: "sched_ok s" and t: "t < length (s_tasks s)"
    and st: "task_live (s_tasks s ! t) \<Longrightarrow> it_status (s_heap s ! tk_oid (s_tasks s ! t)) = ''failed''"
  shows "sched_ok (cancel_task t s)"
proof (cases "task_live (s_tasks s ! t)")
  case True
  let ?t = "(s_tasks s ! t)\<lparr>tk_cancel := True\<rparr>"
  note it = live_item [OF ok t True]
  have "task_live ?t \<and> task_ok [s_heap s ! tk_oid (s_tasks s ! t)] (?t\<lparr>tk_oid := 0\<rparr>)"
    using True st by (simp add: task_ok_def)
  with task_step [OF ok t True HOL.refl kept_refl [OF it(1-3)], of ?t "s_pending s"] it(4) True
  show ?thesis by (simp add: cancel_task_def)
next
  case False
  with ok show ?thesis by (simp add: cancel_task_def)
qed

lemma request_cancel_ok:
  assumes ok: "sched_ok s"
  shows "sched_ok (fst (request_cancel i s))"
proof (cases "i = []")
  case True
  with ok show ?thesis by (simp add: request_cancel_def)
next
  case False
  let ?s0 = "s\<lparr>s_cancelled := List.insert i (s_cancelled s)\<rparr>"
  have ok0: "sched_ok ?s0" using ok by simp
  from cancel_pending_ok [OF ok0, of i] obtain s1 found kp where
    cp: "cancel_pending i (s_pending s) ?s0 = (s1, found, kp, None)" and ok2: "sched_ok (s1\<lparr>s_pending := kp\<rparr>)"
    and no: "\<forall>x \<in> set kp. it_id (s_heap s1 ! x) \<noteq> i" by auto
  let ?s2 = "s1\<lparr>s_pending := kp\<rparr>"
  show ?thesis
  proof (cases "map_of (s_active s1) i")
    case None
    with False cp ok2 show ?thesis by (simp add: request_cancel_def Let_def)
  next
    case (Some e)
    obtain x t where e: "e = (x, t)" by force
    with Some have m: "map_of (s_active ?s2) i = Some (x, t)" by simp
    note a = active_entry [OF ok2 m]
    show ?thesis
    proof (cases "it_status (s_heap s1 ! x) \<in> {''running'', ''pending'', ''retrying''}")
      case True
      with a no have live: "task_live (s_tasks ?s2 ! t)" by (auto simp: closed_status_def)
      note it = live_item [OF ok2 a(2) live]
      have st: "it_status (s_heap ?s2 ! x) \<in> {''pending'', ''running'', ''retrying''}" using True by auto
      from cancel_spec [OF it(1-3), unfolded a(3), OF st it(4) [unfolded a(3)]] obtain k' where
        k': "mark_cancelled False (s_kernel ?s2, s_heap ?s2 ! x) =
          ((k', failed_item (k_now (s_kernel ?s2)) ''cancelled'' False (s_heap ?s2 ! x)), None)"
          "kept (s_kernel ?s2) (s_heap ?s2 ! x) k' (failed_item (k_now (s_kernel ?s2)) ''cancelled'' False (s_heap ?s2 ! x))"
        by blast
      let ?f = "failed_item (k_now (s_kernel ?s2)) ''cancelled'' False (s_heap ?s2 ! x)"
      let ?s3 = "?s2\<lparr>s_kernel := k', s_heap := (s_heap ?s2)[x := ?f]\<rparr>"
      have on: "on_item x (mark_cancelled False) ?s2 = (?s3, None)" by (rule on_item_eq) (rule k'(1))
      let ?t = "(s_tasks s1 ! t)\<lparr>tk_cancel := True\<rparr>"
      have "task_live ?t" "task_ok [?f] (?t\<lparr>tk_oid := 0\<rparr>)" using live by (simp_all add: task_ok_def)
      with task_same_step [OF ok2 a(2) live a(3) [symmetric] k'(2), of ?t] a(3)
      have "sched_ok (cancel_task t ?s3)" using live by (simp add: cancel_task_def)
      with False cp m True on show ?thesis by (simp add: request_cancel_def Let_def)
    next
      case F: False
      have "sched_ok (cancel_task t ?s2)"
      proof (rule cancel_task_ok [OF ok2 a(2)])
        assume live: "task_live (s_tasks ?s2 ! t)"
        have "\<not> open_status (it_status (s_heap ?s2 ! x))" using F by (auto simp: open_status_def)
        with live_item(6) [OF ok2 a(2) live] live a(3)
        show "it_status (s_heap ?s2 ! tk_oid (s_tasks ?s2 ! t)) = ''failed''"
          by (auto simp: task_ok_def phase_status_def open_status_def task_live_def split: if_splits phase.splits)
      qed
      with False cp m F show ?thesis by (simp add: request_cancel_def Let_def)
    qed
  qed
qed

section \<open>Enqueueing\<close>

definition wrote_new :: "kernel \<Rightarrow> kernel \<Rightarrow> exec_item \<Rightarrow> bool" where
  "wrote_new k k' it \<longleftrightarrow> kernel_ok k' \<and> rows_ok k' \<and> synced k' it \<and>
     (\<forall>i. i \<noteq> it_id it \<longrightarrow> row_of k' i = row_of k i) \<and>
     he_id ` set (handler_rows k') = insert (it_id it) (he_id ` set (handler_rows k))"

lemma new_item_step:
  assumes ok: "sched_ok s" and wr: "wrote_new (s_kernel s) k' it" and id: "it_id it = ''wi_'' @ show_nat (s_fresh s)"
    and how: "p' = s_pending s @ [length (s_heap s)] \<and> waiting it \<and> \<not> it_dead it \<or>
      p' = s_pending s \<and> closed_status (it_status it)"
    and s': "s_kernel s' = k'" "s_heap s' = s_heap s @ [it]" "s_pending s' = p'" "s_tasks s' = s_tasks s"
      "s_active s' = s_active s" "s_fresh s' = Suc (s_fresh s)"
  shows "sched_ok s'"
proof -
  let ?h = "s_heap s" and ?n = "length (s_heap s)" and ?k = "s_kernel s"
  from ok have c: "core ?k ?h (set (tracked s))" and d: "distinct (tracked s)"
    and fr: "fresh_ok ?k (s_fresh s)" by (auto simp: sched_ok_def)
  have lt: "y < ?n" if "y \<in> set (tracked s)" for y using c that by (auto simp: core_def)
  have hn: "(?h @ [it]) ! y = ?h ! y" if "y < ?n" for y using that by (simp add: nth_append)
  have new: "it_id it \<notin> he_id ` set (handler_rows ?k)" using fr id by (simp add: fresh_ok_def)
  have wr': "kernel_ok k'" "rows_ok k'" "synced k' it" "\<And>i. i \<noteq> it_id it \<Longrightarrow> row_of k' i = row_of ?k i"
    "he_id ` set (handler_rows k') = insert (it_id it) (he_id ` set (handler_rows ?k))"
    using wr by (auto simp: wrote_new_def)
  have oldid: "it_id (?h ! y) \<noteq> it_id it" if "y \<in> set (tracked s)" for y
  proof -
    from c that have "row_of ?k (it_id (?h ! y)) = Some (to_row (?h ! y))" by (auto simp: core_def synced_def)
    then have "it_id (?h ! y) \<in> he_id ` set (handler_rows ?k)" by (metis row_of_Some imageI)
    with new show ?thesis by auto
  qed
  have T: "tracked s' = p' @ live_oids (s_tasks s)" by (simp add: tracked_def s')
  have S: "set (tracked s') = (if p' = s_pending s then set (tracked s) else insert ?n (set (tracked s)))"
    using how unfolding T by (auto simp: tracked_def)
  have D: "distinct (tracked s')"
    using how d lt [of ?n] unfolding T by (auto simp: tracked_def)
  have "core k' (s_heap s') (set (tracked s'))"
    unfolding core_def s'(2)
  proof (intro conjI ballI impI)
    show "kernel_ok k'" "rows_ok k'" by fact+
    fix y
    assume y: "y \<in> set (tracked s')"
    have "y < length (?h @ [it]) \<and> synced k' ((?h @ [it]) ! y) \<and> \<not> it_dead ((?h @ [it]) ! y)"
    proof (cases "y \<in> set (tracked s)")
      case True
      from c True have "synced ?k (?h ! y)" "\<not> it_dead (?h ! y)" by (auto simp: core_def)
      with wr'(4) [OF oldid [OF True]] lt [OF True] show ?thesis by (simp add: synced_def nth_append)
    next
      case False
      with y S have "y = ?n" "p' \<noteq> s_pending s" by (auto split: if_splits)
      with how wr'(3) show ?thesis by simp
    qed
    then show "y < length (?h @ [it])" "synced k' ((?h @ [it]) ! y)" "\<not> it_dead ((?h @ [it]) ! y)" by blast+
  next
    have "inj_on (oid_ids ?h) (set (tracked s))" using c by (simp add: core_def)
    then have i1: "inj_on (oid_ids (?h @ [it])) (set (tracked s))"
      by (rule inj_on_cong [THEN iffD1, rotated]) (use hn lt in auto)
    have "oid_ids (?h @ [it]) ?n \<notin> oid_ids (?h @ [it]) ` (set (tracked s))"
      using oldid lt hn by force
    with i1 show "inj_on (oid_ids (?h @ [it])) (set (tracked s'))"
      using S lt by (auto simp: inj_on_insert)
  next
    fix r
    assume r: "r \<in> set (handler_rows k')" "open_status (he_status r)"
    show "he_id r \<in> oid_ids (?h @ [it]) ` set (tracked s')"
    proof (cases "he_id r = it_id it")
      case True
      with row_of_mem [OF wr'(1) r(1)] wr'(3) have "r = to_row it" by (simp add: synced_def)
      with r(2) how have "p' \<noteq> s_pending s" by (auto simp: to_row_def dest: closed_not_open)
      then have "?n \<in> set (tracked s')" using S by simp
      with True show ?thesis by (intro image_eqI [of _ _ ?n]) simp_all
    next
      case False
      with row_of_mem [OF wr'(1) r(1)] wr'(4) have "r \<in> set (handler_rows ?k)" by (auto dest: row_of_Some)
      with r(2) c obtain y where y: "y \<in> set (tracked s)" "he_id r = it_id (?h ! y)" by (auto simp: core_def)
      then have "y \<in> set (tracked s')" using S by (simp split: if_splits)
      with y lt [OF y(1)] show ?thesis by (intro image_eqI [of _ _ y]) (simp_all add: nth_append)
    qed
  qed
  moreover have "\<forall>y \<in> set p'. waiting ((?h @ [it]) ! y)"
    using how ok lt hn by (auto simp: sched_ok_def tracked_def)
  moreover have "task_ok (?h @ [it]) (s_tasks s ! j)" if "j < length (s_tasks s)" for j
  proof -
    have "task_live (s_tasks s ! j) \<Longrightarrow> tk_oid (s_tasks s ! j) < ?n"
      using live_mem [OF that] lt by (simp add: tracked_def)
    with ok that hn show ?thesis by (auto simp: sched_ok_def task_ok_def)
  qed
  moreover have "active_ok s'"
    unfolding active_ok_def s'
  proof (intro allI impI)
    fix i y t
    assume "map_of (s_active s) i = Some (y, t)"
    note a = active_entry [OF ok this]
    with how S hn show "y < length (?h @ [it]) \<and> t < length (s_tasks s) \<and> tk_oid (s_tasks s ! t) = y \<and>
        it_id ((?h @ [it]) ! y) = i \<and> (task_live (s_tasks s ! t) \<or> y \<in> set p' \<or>
        y \<notin> set (tracked s') \<and> closed_status (it_status ((?h @ [it]) ! y)))"
      by (auto split: if_splits)
  qed
  moreover have "fresh_ok k' (Suc (s_fresh s))"
    using fr id wr'(5) by (auto simp: fresh_ok_def)
  ultimately show ?thesis using D by (simp add: sched_ok_def s')
qed

lemma new_item_fields:
  "it_id (new_item cf k inst pol ev h er n) = ''wi_'' @ show_nat n"
  "it_status (new_item cf k inst pol ev h er n) = ''pending''" "\<not> it_dead (new_item cf k inst pol ev h er n)"
  "it_retries (new_item cf k inst pol ev h er n) = 0" "it_started_at (new_item cf k inst pol ev h er n) = NoTime"
  "it_completed_at (new_item cf k inst pol ev h er n) = NoTime" "item_ok (new_item cf k inst pol ev h er n)"
  "waiting (new_item cf k inst pol ev h er n)"
  "(new_item cf k inst pol ev h er n)\<lparr>it_error := e\<rparr> = new_item cf k inst pol ev h e n"
  by (simp_all add: new_item_def item_ok_def stamps_ok_def budget_ok_def waiting_def)

lemma new_item_request:
  assumes ok: "sched_ok s"
  shows "\<exists>k'. requested actor (s_kernel s, new_item cf (s_kernel s) inst pol ev h er (s_fresh s)) =
      ((k', new_item cf (s_kernel s) inst pol ev h er (s_fresh s)), None) \<and>
    wrote_new (s_kernel s) k' (new_item cf (s_kernel s) inst pol ev h [] (s_fresh s)) \<and> k_now k' = k_now (s_kernel s)"
proof -
  let ?it = "new_item cf (s_kernel s) inst pol ev h er (s_fresh s)"
  have k: "kernel_ok (s_kernel s)" "rows_ok (s_kernel s)" using ok by (auto simp: sched_ok_def core_def)
  have free: "row_of (s_kernel s) (it_id ?it) = None"
    using ok by (auto simp: row_of_def sql_find_None_iff new_item_fields sched_ok_def fresh_ok_def)
  from request_spec [OF k new_item_fields(7,2,4,5,6,3) free, of actor] show ?thesis
    by (auto simp: wrote_new_def synced_def new_item_fields)
qed

lemma enqueue_one:
  assumes "sched_ok s"
  shows "\<exists>s1 s2. create_item cf inst pol ev h [] s = (s1, length (s_heap s)) \<and>
    on_item (length (s_heap s)) (requested actor) (s1\<lparr>s_pending := s_pending s1 @ [length (s_heap s)]\<rparr>) = (s2, None) \<and>
    sched_ok s2 \<and> s_pending s2 = s_pending s @ [length (s_heap s)] \<and> s_active s2 = s_active s"
proof -
  let ?it = "new_item cf (s_kernel s) inst pol ev h [] (s_fresh s)"
  from new_item_request [OF assms, of actor cf inst pol ev h "[]"] obtain k' where
    k': "requested actor (s_kernel s, ?it) = ((k', ?it), None)" "wrote_new (s_kernel s) k' ?it" by blast
  define s1 where "s1 = fst (create_item cf inst pol ev h [] s)"
  define s2 where "s2 = fst (on_item (length (s_heap s)) (requested actor)
    (s1\<lparr>s_pending := s_pending s1 @ [length (s_heap s)]\<rparr>))"
  have s1: "s1 = s\<lparr>s_fresh := s_fresh s + 1, s_heap := s_heap s @ [?it]\<rparr>"
    by (simp add: s1_def create_item_def alloc_def)
  have on: "on_item (length (s_heap s)) (requested actor) (s1\<lparr>s_pending := s_pending s1 @ [length (s_heap s)]\<rparr>) = (s2, None)"
    using k'(1) by (simp add: s2_def on_item_def s1)
  have f: "s_kernel s2 = k'" "s_heap s2 = s_heap s @ [?it]" "s_pending s2 = s_pending s @ [length (s_heap s)]"
    "s_tasks s2 = s_tasks s" "s_active s2 = s_active s" "s_fresh s2 = Suc (s_fresh s)"
    using k'(1) by (simp_all add: s2_def on_item_def s1)
  have "sched_ok s2"
    by (rule new_item_step [OF assms k'(2) _ _ f]) (simp_all add: new_item_fields)
  moreover have "create_item cf inst pol ev h [] s = (s1, length (s_heap s))"
    by (simp add: create_item_def alloc_def s1)
  ultimately show ?thesis using on f by blast
qed

lemma enqueue_loop_ok:
  assumes "sched_ok s"
  shows "\<exists>s' oids. enqueue_loop cf inst actor pol ev hs s = (s', Enqueued oids) \<and> sched_ok s' \<and>
    s_pending s' = s_pending s @ oids \<and> length oids = length hs \<and> s_active s' = s_active s"
  using assms
proof (induction hs arbitrary: s)
  case Nil
  then show ?case by simp
next
  case (Cons h hs)
  from enqueue_one [OF Cons.prems, of cf inst pol ev h actor] obtain s1 s2 where
    cr: "create_item cf inst pol ev h [] s = (s1, length (s_heap s))" and
    on: "on_item (length (s_heap s)) (requested actor) (s1\<lparr>s_pending := s_pending s1 @ [length (s_heap s)]\<rparr>) = (s2, None)"
    and ok2: "sched_ok s2" "s_pending s2 = s_pending s @ [length (s_heap s)]" "s_active s2 = s_active s" by blast
  from Cons.IH [OF ok2(1)] obtain s' oids where
    s': "enqueue_loop cf inst actor pol ev hs s2 = (s', Enqueued oids)" "sched_ok s'"
      "s_pending s' = s_pending s2 @ oids" "length oids = length hs" "s_active s' = s_active s2" by blast
  have "enqueue_loop cf inst actor pol ev (h # hs) s = (s', Enqueued (length (s_heap s) # oids))"
    by (simp add: cr on s'(1))
  with s' ok2 show ?case by simp
qed

lemma reject_one:
  assumes "sched_ok s"
  shows "\<exists>s1 s2. create_item cf inst pol ev h queue_full_error s = (s1, length (s_heap s)) \<and>
    on_item (length (s_heap s)) (run_acts [requested actor, goto ''failed'', failed True False]) s1 = (s2, None) \<and>
    sched_ok s2 \<and> s_pending s2 = s_pending s \<and> s_active s2 = s_active s \<and> s_rejected s2 = s_rejected s"
proof -
  let ?it = "new_item cf (s_kernel s) inst pol ev h queue_full_error (s_fresh s)"
  let ?new = "new_item cf (s_kernel s) inst pol ev h [] (s_fresh s)"
  let ?f = "failed_item (k_now (s_kernel s)) queue_full_error False ?new"
  let ?act = "run_acts [requested actor, goto ''failed'', failed True False]"
  from new_item_request [OF assms, of actor cf inst pol ev h queue_full_error] obtain k1 where
    k1: "requested actor (s_kernel s, ?it) = ((k1, ?it), None)" "wrote_new (s_kernel s) k1 ?new"
      "k_now k1 = k_now (s_kernel s)" by blast
  have k1': "kernel_ok k1" "rows_ok k1" "synced k1 ?new" using k1(2) by (auto simp: wrote_new_def)
  from fail_spec [OF k1', of True False queue_full_error] k1(3) obtain k2 where
    k2: "run_acts [goto ''failed'', failed True False] (k1, ?it) = ((k2, ?f), None)" "kept k1 ?new k2 ?f"
    by (auto simp: new_item_fields)
  have wr: "wrote_new (s_kernel s) k2 ?f"
    using k1(2) k2(2) by (simp add: wrote_new_def kept_def)
  have "run_acts ([requested actor] @ [goto ''failed'', failed True False]) (s_kernel s, ?it) = ((k2, ?f), None)"
    unfolding run_acts_append using k1(1) k2(1) by simp
  then have acts: "?act (s_kernel s, ?it) = ((k2, ?f), None)" by simp
  define s1 where "s1 = fst (create_item cf inst pol ev h queue_full_error s)"
  define s2 where "s2 = fst (on_item (length (s_heap s)) ?act s1)"
  have s1: "s1 = s\<lparr>s_fresh := s_fresh s + 1, s_heap := s_heap s @ [?it]\<rparr>"
    by (simp add: s1_def create_item_def alloc_def)
  have on: "on_item (length (s_heap s)) ?act s1 = (s2, None)"
    using acts by (simp add: s2_def on_item_def s1 del: run_acts.simps)
  have f: "s_kernel s2 = k2" "s_heap s2 = s_heap s @ [?f]" "s_pending s2 = s_pending s"
    "s_tasks s2 = s_tasks s" "s_active s2 = s_active s" "s_fresh s2 = Suc (s_fresh s)"
    and rj: "s_rejected s2 = s_rejected s"
    using acts by (simp_all add: s2_def on_item_def s1 del: run_acts.simps)
  have "sched_ok s2"
    by (rule new_item_step [OF assms wr _ _ f]) (simp_all add: new_item_fields)
  moreover have "create_item cf inst pol ev h queue_full_error s = (s1, length (s_heap s))"
    by (simp add: create_item_def alloc_def s1)
  ultimately show ?thesis using on f rj by blast
qed

lemma reject_loop_ok:
  assumes "sched_ok s"
  shows "\<exists>s'. reject_loop cf inst actor pol ev hs s = (s', None) \<and> sched_ok s' \<and>
    s_pending s' = s_pending s \<and> s_active s' = s_active s \<and> s_rejected s' = s_rejected s"
  using assms
proof (induction hs arbitrary: s)
  case Nil
  then show ?case by simp
next
  case (Cons h hs)
  from reject_one [OF Cons.prems, of cf inst pol ev h actor] obtain s1 s2 where
    cr: "create_item cf inst pol ev h queue_full_error s = (s1, length (s_heap s))" and
    on: "on_item (length (s_heap s)) (run_acts [requested actor, goto ''failed'', failed True False]) s1 = (s2, None)"
    and ok2: "sched_ok s2" "s_pending s2 = s_pending s" "s_active s2 = s_active s" "s_rejected s2 = s_rejected s" by blast
  from Cons.IH [OF ok2(1)] obtain s' where s': "reject_loop cf inst actor pol ev hs s2 = (s', None)" "sched_ok s'"
    "s_pending s' = s_pending s2" "s_active s' = s_active s2" "s_rejected s' = s_rejected s2" by blast
  have "reject_loop cf inst actor pol ev (h # hs) s = (s', None)"
    by (simp only: reject_loop.simps cr on s'(1) prod.case option.case)
  with s' ok2 show ?case by simp
qed

lemma enqueue_ok:
  assumes "sched_ok s"
  shows "sched_ok (fst (enqueue cf inst actor pol ev s))"
  using assms enqueue_loop_ok [OF assms, of cf inst actor pol ev "get_handlers cf (ev_type ev)"]
    reject_loop_ok [OF assms, of cf inst actor pol ev "get_handlers cf (ev_type ev)"]
  by (auto simp: enqueue_def Let_def unblock_submit_command_def)

section \<open>Recovery\<close>

definition rec_inv :: "sched \<Rightarrow> exec_item list \<Rightarrow> exec_item list \<Rightarrow> bool" where
  "rec_inv s its rest \<longleftrightarrow> kernel_ok (s_kernel s) \<and> rows_ok (s_kernel s) \<and> s_tasks s = [] \<and> s_active s = [] \<and>
     (\<forall>x \<in> set (s_pending s). x < length (s_heap s) \<and> synced (s_kernel s) (s_heap s ! x) \<and>
        \<not> it_dead (s_heap s ! x) \<and> waiting (s_heap s ! x)) \<and>
     (\<forall>it \<in> set its. synced (s_kernel s) it \<and> \<not> it_dead it \<and> it_status it = ''running'') \<and>
     (\<forall>it \<in> set rest. synced (s_kernel s) it \<and> \<not> it_dead it \<and> waiting it) \<and>
     distinct (map (oid_ids (s_heap s)) (s_pending s) @ map it_id its @ map it_id rest) \<and>
     (\<forall>r \<in> set (handler_rows (s_kernel s)). open_status (he_status r) \<longrightarrow>
        he_id r \<in> set (map (oid_ids (s_heap s)) (s_pending s) @ map it_id its @ map it_id rest)) \<and>
     fresh_ok (s_kernel s) (s_fresh s)"

lemma recovered_item_fields [simp]:
  "it_id (recovered_item t it) = it_id it"
  "can_retry it \<Longrightarrow> \<not> it_dead it \<Longrightarrow> waiting (recovered_item t it) \<and> \<not> it_dead (recovered_item t it)"
  "\<not> can_retry it \<Longrightarrow> it_status (recovered_item t it) = ''failed''"
  by (simp_all add: recovered_item_def retry_item_def waiting_def)

lemma rec_step:
  assumes inv: "rec_inv s (it # its) rest"
  shows "\<exists>s'. on_item (length (s_heap s)) recover_running (fst (alloc it s)) = (s', None) \<and>
    kept (s_kernel s) it (s_kernel s') (recovered_item (k_now (s_kernel s)) it) \<and>
    rec_inv (if can_retry it then s'\<lparr>s_pending := s_pending s' @ [length (s_heap s)]\<rparr> else s') its rest"
proof -
  let ?k = "s_kernel s" and ?h = "s_heap s" and ?n = "length (s_heap s)"
  let ?r = "recovered_item (k_now (s_kernel s)) it"
  have it: "kernel_ok ?k" "rows_ok ?k" "synced ?k it" "it_status it = ''running''" "\<not> it_dead it"
    using inv by (auto simp: rec_inv_def)
  from recover_spec [OF it] obtain k' where
    k': "recover_running (?k, it) = ((k', ?r), None)" "kept ?k it k' ?r" by blast
  define s' where "s' = s\<lparr>s_heap := ?h @ [?r], s_kernel := k'\<rparr>"
  have on: "on_item ?n recover_running (fst (alloc it s)) = (s', None)"
    using k'(1) by (simp add: on_item_def alloc_def s'_def)
  have kp: "kernel_ok k'" "rows_ok k'" "synced k' ?r" "\<And>i. i \<noteq> it_id it \<Longrightarrow> row_of k' i = row_of ?k i"
    "he_id ` set (handler_rows k') = he_id ` set (handler_rows ?k)"
    using k'(2) by (auto simp: kept_def)
  have sy: "synced k' x" if "synced ?k x" "it_id x \<noteq> it_id it" for x
    using that kp(4) by (simp add: synced_def)
  have d: "distinct (map (oid_ids ?h) (s_pending s) @ map it_id (it # its) @ map it_id rest)"
    using inv by (simp add: rec_inv_def)
  have pend: "x < ?n \<and> it_id (?h ! x) \<noteq> it_id it \<and> synced ?k (?h ! x) \<and> \<not> it_dead (?h ! x) \<and> waiting (?h ! x)"
    if "x \<in> set (s_pending s)" for x
  proof -
    from that have "it_id (?h ! x) \<in> set (map (oid_ids ?h) (s_pending s))" by simp
    with d have "it_id (?h ! x) \<noteq> it_id it" by auto
    with inv that show ?thesis by (simp add: rec_inv_def)
  qed
  have hn: "map (oid_ids (?h @ [?r])) (s_pending s) = map (oid_ids ?h) (s_pending s)"
    using pend by (auto simp: nth_append)
  have others: "synced k' x \<and> \<not> it_dead x \<and> it_status x = ''running''" if "x \<in> set its" for x
  proof -
    from that have "it_id x \<in> set (map it_id its)" by simp
    with d have "it_id x \<noteq> it_id it" by auto
    with sy inv that show ?thesis by (simp add: rec_inv_def)
  qed
  have waits: "synced k' x \<and> \<not> it_dead x \<and> waiting x" if "x \<in> set rest" for x
  proof -
    from that have "it_id x \<in> set (map it_id rest)" by simp
    with d have "it_id x \<noteq> it_id it" by auto
    with sy inv that show ?thesis by (simp add: rec_inv_def)
  qed
  have old: "he_id r \<in> set (map (oid_ids ?h) (s_pending s) @ map it_id its @ map it_id rest) \<or>
      he_id r = it_id it \<and> r = to_row ?r"
    if "r \<in> set (handler_rows k')" "open_status (he_status r)" for r
  proof (cases "he_id r = it_id it")
    case True
    with row_of_mem [OF kp(1) that(1)] kp(3) show ?thesis by (simp add: synced_def)
  next
    case False
    with row_of_mem [OF kp(1) that(1)] kp(4) have "r \<in> set (handler_rows ?k)" by (auto dest: row_of_Some)
    with that(2) inv False show ?thesis by (auto simp: rec_inv_def)
  qed
  have fr: "fresh_ok k' (s_fresh s)" using inv kp(5) by (simp add: rec_inv_def fresh_ok_def)
  show ?thesis
  proof (intro exI conjI)
    show "on_item ?n recover_running (fst (alloc it s)) = (s', None)" by (rule on)
    show "kept ?k it (s_kernel s') ?r" using k'(2) by (simp add: s'_def)
    show "rec_inv (if can_retry it then s'\<lparr>s_pending := s_pending s' @ [?n]\<rparr> else s') its rest"
    proof (cases "can_retry it")
      case True
      let ?s = "s'\<lparr>s_pending := s_pending s' @ [?n]\<rparr>"
      have ids: "map (oid_ids (s_heap ?s)) (s_pending ?s) = map (oid_ids ?h) (s_pending s) @ [it_id it]"
        using hn by (simp add: s'_def)
      have "x < length (s_heap ?s) \<and> synced k' (s_heap ?s ! x) \<and> \<not> it_dead (s_heap ?s ! x) \<and> waiting (s_heap ?s ! x)"
        if "x \<in> set (s_pending ?s)" for x
        using that pend [of x] sy [of "?h ! x"] kp(3) True it(5) by (cases "x = ?n") (auto simp: s'_def nth_append)
      moreover have "he_id r \<in> set ((map (oid_ids ?h) (s_pending s) @ [it_id it]) @ map it_id its @ map it_id rest)"
        if "r \<in> set (handler_rows k')" "open_status (he_status r)" for r
        using old [OF that] by auto
      moreover have "distinct ((map (oid_ids ?h) (s_pending s) @ [it_id it]) @ map it_id its @ map it_id rest)"
        using d by auto
      moreover have eqs: "s_kernel ?s = k'" "s_tasks ?s = []" "s_active ?s = []" "s_fresh ?s = s_fresh s"
        using inv by (simp_all add: s'_def rec_inv_def)
      ultimately have "rec_inv ?s its rest"
        using kp(1,2) others waits fr unfolding rec_inv_def ids eqs by blast
      with True show ?thesis by simp
    next
      case False
      have ids: "map (oid_ids (s_heap s')) (s_pending s') = map (oid_ids ?h) (s_pending s)"
        using hn by (simp add: s'_def)
      have "x < length (s_heap s') \<and> synced k' (s_heap s' ! x) \<and> \<not> it_dead (s_heap s' ! x) \<and> waiting (s_heap s' ! x)"
        if "x \<in> set (s_pending s')" for x
        using that pend [of x] sy [of "?h ! x"] by (auto simp: s'_def nth_append)
      moreover have "he_id r \<in> set (map (oid_ids ?h) (s_pending s) @ map it_id its @ map it_id rest)"
        if "r \<in> set (handler_rows k')" "open_status (he_status r)" for r
        using old [OF that] that(2) False by (auto simp: to_row_def open_status_def)
      ultimately have "rec_inv s' its rest"
        using kp(1,2) inv others waits d fr unfolding rec_inv_def ids
        by (auto simp: s'_def)
      with False show ?thesis by simp
    qed
  qed
qed

lemma recover_loop_ok:
  "rec_inv s its rest \<Longrightarrow> \<exists>s'. recover_loop its s = (s', None) \<and> rec_inv s' [] rest \<and>
     s_cancelled s' = s_cancelled s \<and> k_now (s_kernel s') = k_now (s_kernel s) \<and>
     (\<forall>x \<in> set its. row_of (s_kernel s') (it_id x) = Some (to_row (recovered_item (k_now (s_kernel s)) x))) \<and>
     (\<forall>i. i \<notin> it_id ` set its \<longrightarrow> row_of (s_kernel s') i = row_of (s_kernel s) i)"
proof (induction its arbitrary: s)
  case Nil
  then show ?case by simp
next
  case (Cons it its)
  obtain s1 where s1: "alloc it s = (s1, length (s_heap s))" by (simp add: alloc_def)
  with rec_step [OF Cons.prems] obtain s2 where
    on: "on_item (length (s_heap s)) recover_running s1 = (s2, None)"
    and kp: "kept (s_kernel s) it (s_kernel s2) (recovered_item (k_now (s_kernel s)) it)"
    and inv: "rec_inv (if can_retry it then s2\<lparr>s_pending := s_pending s2 @ [length (s_heap s)]\<rparr> else s2) its rest"
    by auto
  have fl: "s_cancelled s2 = s_cancelled s"
    using on s1 by (auto simp: on_item_def alloc_def split: prod.splits)
  have notin: "it_id it \<notin> it_id ` set its" using Cons.prems by (simp add: rec_inv_def)
  have k2: "s_kernel (if can_retry it then s2\<lparr>s_pending := s_pending s2 @ [length (s_heap s)]\<rparr> else s2) = s_kernel s2"
    "s_cancelled (if can_retry it then s2\<lparr>s_pending := s_pending s2 @ [length (s_heap s)]\<rparr> else s2) = s_cancelled s2"
    by simp_all
  from Cons.IH [OF inv] notin show ?case
    using kp fl unfolding k2 by (auto simp: s1 on kept_def synced_def)
qed

lemma alloc_all_ok:
  assumes inv: "rec_inv s [] rest"
  shows "sched_ok (alloc_all rest s)"
proof -
  let ?h = "s_heap s" and ?n = "length (s_heap s)" and ?m = "length rest"
  let ?s = "alloc_all rest s"
  have f: "s_heap ?s = ?h @ rest" "s_pending ?s = s_pending s @ [?n ..< ?n + ?m]" "s_kernel ?s = s_kernel s"
    "s_tasks ?s = []" "s_active ?s = []" "s_fresh ?s = s_fresh s"
    using inv by (simp_all add: alloc_all_def rec_inv_def)
  have T: "tracked ?s = s_pending s @ [?n ..< ?n + ?m]" by (simp add: tracked_def f live_oids_def)
  have lt: "x < ?n" if "x \<in> set (s_pending s)" for x using inv that by (simp add: rec_inv_def)
  have "map (\<lambda>x. it_id ((?h @ rest) ! x)) [?n ..< ?n + ?m] = map it_id rest"
    by (rule nth_equalityI) (simp_all add: nth_append)
  moreover have "map (oid_ids (?h @ rest)) (s_pending s) = map (oid_ids ?h) (s_pending s)"
    using lt by (auto simp: nth_append)
  ultimately have ids: "map (oid_ids (s_heap ?s)) (tracked ?s) = map (oid_ids ?h) (s_pending s) @ map it_id rest"
    by (simp add: T f)
  have d: "distinct (map (oid_ids (s_heap ?s)) (tracked ?s))"
    using inv unfolding ids by (simp add: rec_inv_def)
  have each: "x < length (?h @ rest) \<and> synced (s_kernel s) ((?h @ rest) ! x) \<and> \<not> it_dead ((?h @ rest) ! x) \<and>
      waiting ((?h @ rest) ! x)" if "x \<in> set (tracked ?s)" for x
  proof (cases "x \<in> set (s_pending s)")
    case True
    with inv lt [OF True] show ?thesis by (auto simp: rec_inv_def nth_append)
  next
    case False
    with that have x: "?n \<le> x" "x < ?n + ?m" by (auto simp: T)
    then have "rest ! (x - ?n) \<in> set rest" by simp
    with inv x show ?thesis by (auto simp: rec_inv_def nth_append)
  qed
  have "he_id r \<in> oid_ids (s_heap ?s) ` set (tracked ?s)"
    if "r \<in> set (handler_rows (s_kernel s))" "open_status (he_status r)" for r
  proof -
    have "he_id r \<in> set (map (oid_ids (s_heap ?s)) (tracked ?s))"
      unfolding ids using inv that by (simp add: rec_inv_def)
    then show ?thesis by simp
  qed
  then have "core (s_kernel ?s) (s_heap ?s) (set (tracked ?s))"
    using inv each d by (auto simp: core_def rec_inv_def f distinct_map)
  moreover have "distinct (tracked ?s)" using d by (simp add: distinct_map)
  moreover have "\<forall>x \<in> set (s_pending ?s). waiting (s_heap ?s ! x)"
    using each by (simp add: T f)
  ultimately show ?thesis
    using inv by (simp add: sched_ok_def active_ok_def f rec_inv_def)
qed

end
