(* ===== verification/Sched_Recovery.thy ===== *)
theory Sched_Recovery
  imports Sched_Steps
begin

text \<open>
  Start-up of the scheduler on the rows a previous process left, and the step relation of the
  scheduler: every reachable scheduler satisfies the invariant of \<open>Sched_Inv\<close>.
\<close>

section \<open>Reading the rows back\<close>

definition alive_rows :: "kernel \<Rightarrow> bool" where
  "alive_rows k \<longleftrightarrow> (\<forall>r \<in> set (handler_rows k). open_status (he_status r) \<longrightarrow> \<not> he_dead_letter r)"

lemma row_item:
  assumes "rows_ok k" and "r \<in> set (handler_rows k)"
  shows "\<exists>it. item_of_row r = Inr it \<and> to_row it = r \<and> item_ok it"
proof -
  from assms obtain it where it: "r = to_row it" "item_ok it" by (auto simp: rows_ok_def)
  have "item_ok (it\<lparr>it_event := None\<rparr>)" using it(2) by (simp add: item_ok_def stamps_ok_def budget_ok_def)
  moreover have "to_row (it\<lparr>it_event := None\<rparr>) = r" by (simp add: it(1) to_row_def)
  ultimately show ?thesis using it(1) by (auto simp: item_row_of_to_row)
qed

lemma items_where_ok:
  assumes "rows_ok k"
  shows "\<exists>its. items_where P k = Inr its \<and> map to_row its = sort_key he_created_at (filter P (handler_rows k)) \<and>
    (\<forall>it \<in> set its. item_ok it)"
proof -
  let ?rs = "sort_key he_created_at (filter P (handler_rows k))"
  have "\<forall>r \<in> set ?rs. \<exists>it. item_of_row r = Inr it \<and> to_row it = r \<and> item_ok it"
    using row_item [OF assms] by auto
  then obtain g where g: "\<And>r. r \<in> set ?rs \<Longrightarrow> item_of_row r = Inr (g r) \<and> to_row (g r) = r \<and> item_ok (g r)"
    by metis
  have "items_where P k = Inr (map g ?rs)"
    unfolding items_where_def by (rule traverse_total) (use g in auto)
  moreover have "map to_row (map g ?rs) = ?rs" using g by (auto intro: map_idI)
  moreover have "\<forall>it \<in> set (map g ?rs). item_ok it" using g by auto
  ultimately show ?thesis by blast
qed

lemma items_where_ids:
  assumes "map to_row its = sort_key he_created_at (filter P (handler_rows k))" and "kernel_ok k"
  shows "distinct (map it_id its)" "to_row ` set its = {r \<in> set (handler_rows k). P r}"
proof -
  have ids: "map it_id its = map he_id (map to_row its)" by simp
  have "distinct (map he_id (handler_rows k))" using rows_keyed [OF assms(2)] by (simp add: keyed_def)
  then have "distinct (map he_id (filter P (handler_rows k)))" by (rule distinct_map_filter)
  then show "distinct (map it_id its)"
    unfolding ids assms(1) by (simp add: distinct_map)
  have "set (map to_row its) = {r \<in> set (handler_rows k). P r}" unfolding assms(1) by auto
  then show "to_row ` set its = {r \<in> set (handler_rows k). P r}" by simp
qed

lemma row_in_items:
  assumes "map to_row its = sort_key he_created_at (filter P (handler_rows k))" and "kernel_ok k" and "it \<in> set its"
  shows "row_of k (it_id it) = Some (to_row it)" "P (to_row it)" "to_row it \<in> set (handler_rows k)"
proof -
  have "to_row it \<in> {r \<in> set (handler_rows k). P r}"
    using items_where_ids(2) [OF assms(1,2)] assms(3) by blast
  then show "P (to_row it)" and m: "to_row it \<in> set (handler_rows k)" by auto
  from row_of_mem [OF assms(2) m] show "row_of k (it_id it) = Some (to_row it)" by simp
qed

section \<open>Start-up\<close>

lemma to_row_fields [simp]: "he_status (to_row it) = it_status it" "he_dead_letter (to_row it) = it_dead it"
  by (simp_all add: to_row_def)

lemma rec_inv_start:
  assumes ok: "kernel_ok k" "rows_ok k" "alive_rows k" "fresh_ok k n"
    and run: "map to_row running = sort_key he_created_at (filter (\<lambda>r. he_status r = ''running'') (handler_rows k))"
      "\<forall>it \<in> set running. item_ok it"
    and pend: "map to_row pending =
        sort_key he_created_at (filter (\<lambda>r. he_status r \<in> {''pending'', ''retrying''}) (handler_rows k))"
      "\<forall>it \<in> set pending. item_ok it"
  shows "rec_inv (fresh_sched k n) running pending"
proof -
  note r = row_in_items [OF run(1) ok(1)] and p = row_in_items [OF pend(1) ok(1)]
  have R: "synced k it \<and> \<not> it_dead it \<and> it_status it = ''running''" if "it \<in> set running" for it
    using r [OF that] that run(2) ok(3) by (auto simp: synced_def alive_rows_def open_status_def)
  have P: "synced k it \<and> \<not> it_dead it \<and> waiting it" if "it \<in> set pending" for it
    using p [OF that] that pend(2) ok(3) by (auto simp: synced_def alive_rows_def open_status_def waiting_def)
  have disj: "it_id x \<noteq> it_id y" if "x \<in> set running" "y \<in> set pending" for x y
  proof
    assume "it_id x = it_id y"
    with R [OF that(1)] P [OF that(2)] have "to_row x = to_row y" by (simp add: synced_def)
    then have "it_status x = it_status y" by (metis to_row_fields(1))
    with R [OF that(1)] P [OF that(2)] show False by (simp add: waiting_def)
  qed
  have "he_id r \<in> it_id ` set running \<union> it_id ` set pending"
    if "r \<in> set (handler_rows k)" "open_status (he_status r)" for r
  proof -
    have "r \<in> to_row ` set running \<union> to_row ` set pending"
      using that items_where_ids(2) [OF run(1) ok(1)] items_where_ids(2) [OF pend(1) ok(1)]
      by (auto simp: open_status_def)
    then show ?thesis by auto
  qed
  then show ?thesis
    using ok R P disj items_where_ids(1) [OF run(1) ok(1)] items_where_ids(1) [OF pend(1) ok(1)]
    by (auto simp: rec_inv_def fresh_sched_def)
qed

lemma rec_inv_tasks: "rec_inv s its rest \<Longrightarrow> s_tasks s = [] \<and> s_active s = []"
  by (simp add: rec_inv_def)

lemma recover_ok:
  assumes ok: "kernel_ok k" "rows_ok k" "alive_rows k" "fresh_ok k n"
  shows "\<exists>s. recover k n = (s, None) \<and> sched_ok s \<and> s_tasks s = [] \<and> s_active s = [] \<and> s_cancelled s = [] \<and>
    (\<forall>r \<in> set (handler_rows k). he_status r = ''running'' \<longrightarrow>
       (\<exists>it. item_of_row r = Inr it \<and> row_of (s_kernel s) (he_id r) = Some (to_row (recovered_item (k_now k) it)))) \<and>
    (\<forall>r \<in> set (handler_rows k). he_status r \<noteq> ''running'' \<longrightarrow> row_of (s_kernel s) (he_id r) = Some r)"
proof -
  from items_where_ok [OF ok(2), of "\<lambda>r. he_status r = ''running''"] obtain running where
    run: "items_where (\<lambda>r. he_status r = ''running'') k = Inr running"
      "map to_row running = sort_key he_created_at (filter (\<lambda>r. he_status r = ''running'') (handler_rows k))"
      "\<forall>it \<in> set running. item_ok it" by blast
  from items_where_ok [OF ok(2), of "\<lambda>r. he_status r \<in> {''pending'', ''retrying''}"] obtain pending where
    pend: "items_where (\<lambda>r. he_status r \<in> {''pending'', ''retrying''}) k = Inr pending"
      "map to_row pending =
        sort_key he_created_at (filter (\<lambda>r. he_status r \<in> {''pending'', ''retrying''}) (handler_rows k))"
      "\<forall>it \<in> set pending. item_ok it" by blast
  from recover_loop_ok [OF rec_inv_start [OF ok run(2,3) pend(2,3)]] obtain s1 where
    s1: "recover_loop running (fresh_sched k n) = (s1, None)" "rec_inv s1 [] pending"
      "s_cancelled s1 = []"
      "\<forall>x \<in> set running. row_of (s_kernel s1) (it_id x) = Some (to_row (recovered_item (k_now k) x))"
      "\<forall>i. i \<notin> it_id ` set running \<longrightarrow> row_of (s_kernel s1) i = row_of k i"
    unfolding fresh_sched_def by (elim exE conjE) simp
  let ?s = "alloc_all pending s1"
  have f: "s_kernel ?s = s_kernel s1" "s_tasks ?s = s_tasks s1" "s_active ?s = s_active s1"
    "s_cancelled ?s = s_cancelled s1" by (simp_all add: alloc_all_def)
  have rse: "recover_scheduled_executions k = Inr (running, pending)"
    unfolding recover_scheduled_executions_def run(1) pend(1) by simp
  have rc: "recover k n = (?s, None)"
    unfolding recover_def Let_def rse by (simp add: s1(1))
  have A: "\<exists>it. item_of_row r = Inr it \<and> row_of (s_kernel ?s) (he_id r) = Some (to_row (recovered_item (k_now k) it))"
    if "r \<in> set (handler_rows k)" "he_status r = ''running''" for r
  proof -
    from that items_where_ids(2) [OF run(2) ok(1)] obtain it where it: "it \<in> set running" "r = to_row it" by blast
    have "recovered_item (k_now k) (it\<lparr>it_event := None\<rparr>) = (recovered_item (k_now k) it)\<lparr>it_event := None\<rparr>"
      by (simp add: recovered_item_def retry_item_def failed_item_def can_retry_def)
    then have "to_row (recovered_item (k_now k) (it\<lparr>it_event := None\<rparr>)) = to_row (recovered_item (k_now k) it)"
      by (simp add: to_row_def)
    with bspec [OF s1(4) it(1)] show ?thesis by (simp add: it(2) f item_row_of_to_row)
  qed
  have B: "row_of (s_kernel ?s) (he_id r) = Some r" if "r \<in> set (handler_rows k)" "he_status r \<noteq> ''running''" for r
  proof -
    have "he_id r \<notin> it_id ` set running"
    proof
      assume "he_id r \<in> it_id ` set running"
      then obtain it where it: "it \<in> set running" "it_id it = he_id r" by auto
      have "Some r = Some (to_row it)"
        using row_in_items(1) [OF run(2) ok(1) it(1)] row_of_mem [OF ok(1) that(1)] unfolding it(2) by argo
      then have "he_status r = he_status (to_row it)" by (metis option.inject)
      with row_in_items(2) [OF run(2) ok(1) it(1)] that(2) show False by argo
    qed
    with s1(5) row_of_mem [OF ok(1) that(1)] show ?thesis by (simp add: f)
  qed
  show ?thesis
    using alloc_all_ok [OF s1(2)] rec_inv_tasks [OF s1(2)] s1(3) f A B
    by (intro exI [of _ ?s] conjI ballI impI rc) simp_all
qed

section \<open>The step relation\<close>

text \<open>\<open>emit_other\<close> and \<open>clock\<close> are what the rest of the process does to the kernel: it records
  events of other aggregates, and time passes. A \<open>CancelledError\<close> reaches a coroutine at its next
  await (\<open>cancelled\<close>); a coroutine with a pending cancellation takes no other step.\<close>

inductive sched_step :: "config \<Rightarrow> sched \<Rightarrow> sched \<Rightarrow> bool" for cf where
  enqueue: "sched_step cf s (fst (enqueue cf inst actor pol ev s))"
| tick: "sched_step cf s (loop_tick cf s)"
| start: "tid < length (s_tasks s) \<Longrightarrow> tk_phase (s_tasks s ! tid) = Created \<Longrightarrow> \<not> tk_cancel (s_tasks s ! tid) \<Longrightarrow>
    sched_step cf s (task_start cf tid s)"
| finished: "tid < length (s_tasks s) \<Longrightarrow> tk_phase (s_tasks s ! tid) = InHandler ev \<Longrightarrow> \<not> tk_cancel (s_tasks s ! tid) \<Longrightarrow>
    sched_step cf s (task_done tid out s)"
| wake: "tid < length (s_tasks s) \<Longrightarrow> tk_phase (s_tasks s ! tid) = RetrySleep \<Longrightarrow> \<not> tk_cancel (s_tasks s ! tid) \<Longrightarrow>
    sched_step cf s (task_wake cf tid s)"
| cancelled: "tid < length (s_tasks s) \<Longrightarrow> task_live (s_tasks s ! tid) \<Longrightarrow> tk_cancel (s_tasks s ! tid) \<Longrightarrow>
    sched_step cf s (task_cancelled tid s)"
| forget: "tid < length (s_tasks s) \<Longrightarrow> tk_phase (s_tasks s ! tid) = Finished \<Longrightarrow>
    sched_step cf s (task_forget tid s)"
| cancel: "sched_step cf s (fst (request_cancel i s))"
| cancel_for: "sched_step cf s (fst (cancel_executions_for a s))"
| cancel_corr: "sched_step cf s (fst (cancel_by_correlation_id corr et s))"
| emit_other: "emit_event (s_kernel s) et agg aid p actor caused corr = Inr (k', ev) \<Longrightarrow> well_routed ev \<Longrightarrow>
    map_of handler_table et \<noteq> Some Execution \<Longrightarrow> sched_step cf s (s\<lparr>s_kernel := k'\<rparr>)"
| clock: "k_now (s_kernel s) \<le> t \<Longrightarrow> sched_step cf s (s\<lparr>s_kernel := (s_kernel s)\<lparr>k_now := t\<rparr>\<rparr>)"
| restart: "s_fresh s \<le> n \<Longrightarrow> sched_step cf s (fst (recover (s_kernel s) n))"

inductive sched_reach :: "config \<Rightarrow> sched \<Rightarrow> bool" for cf where
  boot: "sched_reach cf (fst (recover (boot reg t) n))"
| step: "sched_reach cf s \<Longrightarrow> sched_step cf s s' \<Longrightarrow> sched_reach cf s'"

inductive_cases sched_stepE: "sched_step cf s s'"

lemma cancel_each_ok: "sched_ok s \<Longrightarrow> sched_ok (fst (cancel_each is s))"
proof (induction "is" arbitrary: s)
  case (Cons i "is")
  from Cons.IH [OF request_cancel_ok [OF Cons.prems, of i]] show ?case
    by (cases "request_cancel i s"; cases "cancel_each is (fst (request_cancel i s))") simp
qed simp

lemma sched_ok_kernel:
  assumes ok: "sched_ok s" and k': "kernel_ok k'" "handler_rows k' = handler_rows (s_kernel s)"
  shows "sched_ok (s\<lparr>s_kernel := k'\<rparr>)"
proof -
  have "core k' (s_heap s) (set (tracked s))"
    using ok k' by (auto simp: sched_ok_def core_def rows_ok_def synced_def row_of_def)
  with ok k' show ?thesis
    by (simp add: sched_ok_def tracked_def active_ok_def fresh_ok_def)
qed

lemma sched_ok_kernel_facts:
  assumes "sched_ok s"
  shows "kernel_ok (s_kernel s)" "rows_ok (s_kernel s)" "alive_rows (s_kernel s)" "fresh_ok (s_kernel s) (s_fresh s)"
proof -
  from assms have c: "core (s_kernel s) (s_heap s) (set (tracked s))" by (simp add: sched_ok_def)
  then show ok: "kernel_ok (s_kernel s)" "rows_ok (s_kernel s)" by (simp_all add: core_def)
  show "fresh_ok (s_kernel s) (s_fresh s)" using assms by (simp add: sched_ok_def)
  show "alive_rows (s_kernel s)"
    unfolding alive_rows_def
  proof (intro ballI impI)
    fix r
    assume r: "r \<in> set (handler_rows (s_kernel s))" and o': "open_status (he_status r)"
    with c obtain x where x: "x \<in> set (tracked s)" "he_id r = it_id (s_heap s ! x)" by (auto simp: core_def)
    with c row_of_mem [OF ok(1) r] have "r = to_row (s_heap s ! x)" by (simp add: core_def synced_def)
    then have "he_dead_letter r = it_dead (s_heap s ! x)" by simp
    with c x show "\<not> he_dead_letter r" by (simp add: core_def)
  qed
qed

lemma restart_ok:
  assumes "sched_ok s" and "s_fresh s \<le> n"
  shows "sched_ok (fst (recover (s_kernel s) n))"
proof -
  have "fresh_ok (s_kernel s) n" using sched_ok_kernel_facts(4) [OF assms(1)] assms(2) by (auto simp: fresh_ok_def)
  from recover_ok [OF sched_ok_kernel_facts(1-3) [OF assms(1)] this] show ?thesis by auto
qed

lemma boot_rows: "handler_rows (boot reg t) = []"
  by (simp add: handler_rows_def boot_def empty_db_def)

lemma recover_boot_ok: "sched_ok (fst (recover (boot reg t) n))"
  using recover_ok [of "boot reg t" n] kernel_ok_boot
  by (auto simp: boot_rows rows_ok_def alive_rows_def fresh_ok_def)

lemma sched_step_ok: "sched_step cf s s' \<Longrightarrow> sched_ok s \<Longrightarrow> sched_ok s'"
proof (erule sched_stepE, goal_cases)
  case (9 a)
  then show ?case by (simp add: cancel_executions_for_def Let_def cancel_each_ok)
next
  case (10 corr et)
  then show ?case by (simp add: cancel_by_correlation_id_def Let_def cancel_each_ok)
next
  case (11 et agg aid p actor caused corr k' ev)
  from emit_event_rows [OF sched_ok_kernel_facts(1) [OF 11(1)] 11(3,5,4)] 11(1,2) show ?case
    by (auto intro: sched_ok_kernel)
next
  case (12 t)
  from sched_ok_kernel_facts(1) [OF 12(1)] 12(1,2) show ?case
    by (auto intro: sched_ok_kernel simp: handler_rows_def)
qed (auto intro: enqueue_ok loop_tick_ok task_start_ok task_done_ok task_wake_ok task_cancelled_ok task_forget_ok
    request_cancel_ok restart_ok)

lemma sched_reach_ok: "sched_reach cf s \<Longrightarrow> sched_ok s"
  by (induction rule: sched_reach.induct) (auto intro: recover_boot_ok sched_step_ok)

end
