(* ===== verification/Sched_Props.thy ===== *)
theory Sched_Props
  imports Sched_Recovery
begin

text \<open>
  The properties of the scheduler: agreement of memory and table, ownership, the retry budget, the
  outcome of a handler, durable cancellation, recovery, backpressure and the order of the queue;
  then the behaviours that fall outside of them, each shown on a reachable scheduler.
\<close>

section \<open>A scheduler that ran\<close>

definition sample_cf :: config where
  "sample_cf = \<lparr>cf_max_pending = 2, cf_max_concurrent = 1,
     cf_handlers = [(''TimerFired'', [''on_timer''])], cf_tool_loop = 300, cf_brief = (\<lambda>ev. False)\<rparr>"

definition sample_event :: event where
  "sample_event = create_event current_registry (new_event_id 0) 5 ''TimerFired'' ''timer'' ''x'' (Some [])
     ''system'' None None"

definition sample_idle :: sched where
  "sample_idle = fst (recover (boot current_registry 5) 0)"

definition sample_queued :: sched where
  "sample_queued = fst (enqueue sample_cf ''personal'' ''system'' None sample_event sample_idle)"

definition sample_ticked :: sched where
  "sample_ticked = loop_tick sample_cf sample_queued"

definition sample_running :: sched where
  "sample_running = task_start sample_cf 0 sample_ticked"

lemma sample_idle_fields:
  "s_pending sample_idle = []" "s_heap sample_idle = []" "s_tasks sample_idle = []" "s_active sample_idle = []"
  "s_kernel sample_idle = boot current_registry 5" "s_fresh sample_idle = 0" "s_cancelled sample_idle = []"
  by (simp_all add: sample_idle_def recover_def recover_scheduled_executions_def items_where_def boot_rows
      fresh_sched_def alloc_all_def Let_def)

lemma sample_handlers: "get_handlers sample_cf (ev_type sample_event) = [''on_timer'']"
  by (simp add: get_handlers_def sample_cf_def sample_event_def create_event_def)

lemma sample_sched_reach:
  "sched_reach sample_cf sample_idle" "sched_reach sample_cf sample_queued" "sched_reach sample_cf sample_ticked"
proof -
  show i: "sched_reach sample_cf sample_idle" unfolding sample_idle_def by (rule sched_reach.boot)
  show q: "sched_reach sample_cf sample_queued"
    unfolding sample_queued_def by (rule sched_reach.step [OF i sched_step.enqueue])
  show "sched_reach sample_cf sample_ticked"
    unfolding sample_ticked_def by (rule sched_reach.step [OF q sched_step.tick])
qed

definition sample_item :: exec_item where
  "sample_item = new_item sample_cf (boot current_registry 5) ''personal'' None sample_event ''on_timer'' [] 0"

lemma sample_queued_fields:
  "s_pending sample_queued = [0]" "s_heap sample_queued = [sample_item]" "s_tasks sample_queued = []"
  "s_active sample_queued = []" "s_cancelled sample_queued = []" "s_fresh sample_queued = 1"
proof -
  have ok: "sched_ok sample_idle" by (rule sched_reach_ok [OF sample_sched_reach(1)])
  from new_item_request [OF ok, of "''system''" sample_cf "''personal''" None sample_event "''on_timer''" "[]"]
  obtain k' where k': "requested ''system'' (s_kernel sample_idle, sample_item) = ((k', sample_item), None)"
    by (auto simp: sample_idle_fields sample_item_def)
  have "sample_queued = fst (enqueue_loop sample_cf ''personal'' ''system'' None sample_event [''on_timer''] sample_idle)"
    unfolding sample_queued_def enqueue_def Let_def sample_handlers
    by (simp add: sample_idle_fields max_pending_def sample_cf_def del: enqueue_loop.simps)
  also have "\<dots> = sample_idle\<lparr>s_fresh := 1, s_heap := [sample_item], s_pending := [0], s_kernel := k'\<rparr>"
    using k' by (simp add: create_item_def alloc_def on_item_def sample_idle_fields sample_item_def [symmetric])
  finally have q: "sample_queued = sample_idle\<lparr>s_fresh := 1, s_heap := [sample_item], s_pending := [0], s_kernel := k'\<rparr>" .
  show "s_pending sample_queued = [0]" "s_heap sample_queued = [sample_item]" "s_tasks sample_queued = []"
    "s_active sample_queued = []" "s_cancelled sample_queued = []" "s_fresh sample_queued = 1"
    unfolding q by (simp_all add: sample_idle_fields)
qed

lemma sample_ticked_fields:
  "s_pending sample_ticked = []" "s_heap sample_ticked = [sample_item]"
  "s_tasks sample_ticked = [\<lparr>tk_oid = 0, tk_exec = it_id sample_item, tk_phase = Created, tk_cancel = False\<rparr>]"
  "s_active sample_ticked = [(it_id sample_item, (0, 0))]" "s_cancelled sample_ticked = []"
  "s_kernel sample_ticked = s_kernel sample_queued" "s_fresh sample_ticked = 1"
  by (simp_all add: sample_ticked_def loop_tick_def sample_queued_fields start_task_def max_concurrent_def
      sample_cf_def Let_def)

lemma sample_running_ok:
  "sched_reach sample_cf sample_running" "length (s_tasks sample_running) = 1"
  "tk_phase (s_tasks sample_running ! 0) = InHandler sample_event" "\<not> tk_cancel (s_tasks sample_running ! 0)"
  "tk_oid (s_tasks sample_running ! 0) = 0" "s_cancelled sample_running = []"
  "s_active sample_running = [(it_id sample_item, (0, 0))]"
  "s_heap sample_running = [running_item (k_now (s_kernel sample_ticked)) sample_item]" "s_fresh sample_running = 1"
proof -
  have c: "tk_phase (s_tasks sample_ticked ! 0) = Created" "\<not> tk_cancel (s_tasks sample_ticked ! 0)"
    "0 < length (s_tasks sample_ticked)" by (simp_all add: sample_ticked_fields)
  show "sched_reach sample_cf sample_running"
    unfolding sample_running_def by (rule sched_reach.step [OF sample_sched_reach(3) sched_step.start [OF c(3,1,2)]])
  have ok: "sched_ok sample_ticked" by (rule sched_reach_ok [OF sample_sched_reach(3)])
  have live: "task_live (s_tasks sample_ticked ! 0)" by (simp add: task_live_def c)
  note it = live_item [OF ok c(3) live, simplified sample_ticked_fields, simplified]
  have st: "it_status sample_item \<in> {''pending'', ''retrying''}"
    by (simp add: sample_item_def new_item_def)
  from start_spec [OF it(1,2,3) st it(4)] obtain k1 where
    k1: "run_acts [goto ''running'', started] (s_kernel sample_queued, sample_item) =
      ((k1, running_item (k_now (s_kernel sample_queued)) sample_item), None)"
    by (auto simp: sample_ticked_fields)
  have on: "on_item 0 (run_acts [goto ''running'', started]) sample_ticked =
      (sample_ticked\<lparr>s_kernel := k1, s_heap := [running_item (k_now (s_kernel sample_queued)) sample_item]\<rparr>, None)"
    using k1 by (simp add: on_item_def sample_ticked_fields del: run_acts.simps)
  have item: "it_event (running_item t sample_item) = Some sample_event"
    "it_event_type (running_item t sample_item) = ''TimerFired''" "it_handler (running_item t sample_item) = ''on_timer''" for t
    by (simp_all add: running_item_def sample_item_def new_item_def sample_event_def create_event_def)
  have h: "handler_named sample_cf ''TimerFired'' ''on_timer''"
    by (simp add: handler_named_def get_handlers_def sample_cf_def)
  have r: "sample_running = set_phase 0 (InHandler sample_event)
      (sample_ticked\<lparr>s_kernel := k1, s_heap := [running_item (k_now (s_kernel sample_queued)) sample_item]\<rparr>)"
    using on item h
    by (simp add: sample_running_def task_start_def Let_def sample_ticked_fields is_execution_cancelled_def
        item_event_def del: run_acts.simps)
  show "length (s_tasks sample_running) = 1"
    "tk_phase (s_tasks sample_running ! 0) = InHandler sample_event" "\<not> tk_cancel (s_tasks sample_running ! 0)"
    "tk_oid (s_tasks sample_running ! 0) = 0" "s_cancelled sample_running = []"
    "s_active sample_running = [(it_id sample_item, (0, 0))]"
    "s_heap sample_running = [running_item (k_now (s_kernel sample_ticked)) sample_item]" "s_fresh sample_running = 1"
    unfolding r by (simp_all add: set_phase_def sample_ticked_fields)
qed

section \<open>Memory and table\<close>



lemma one_owner:
  assumes ok: "sched_ok s" and r: "r \<in> set (handler_rows (s_kernel s))" "open_status (he_status r)"
  shows "length (filter (\<lambda>x. it_id (s_heap s ! x) = he_id r) (tracked s)) = 1"
proof -
  from ok have inj: "inj_on (oid_ids (s_heap s)) (set (tracked s))" and d: "distinct (tracked s)"
    by (simp_all add: sched_ok_def core_def)
  from ok r obtain x where x: "x \<in> set (tracked s)" "it_id (s_heap s ! x) = he_id r"
    by (auto simp: sched_ok_def core_def)
  have "set (filter (\<lambda>x. it_id (s_heap s ! x) = he_id r) (tracked s)) = {x}"
    using x inj by (auto simp: inj_on_def)
  with d show ?thesis by (metis One_nat_def card.empty card.insert distinct_card distinct_filter empty_iff finite.emptyI)
qed


lemma sample_row: "to_row sample_item \<in> set (handler_rows (s_kernel sample_queued))"
proof -
  have "synced (s_kernel sample_queued) sample_item"
    using sched_reach_ok [OF sample_sched_reach(2)] by (auto simp: sched_ok_def core_def tracked_def sample_queued_fields)
  then show ?thesis by (auto simp: synced_def dest: row_of_Some)
qed

lemma sample_item_fields [simp]: "it_id sample_item = ''wi_'' @ show_nat 0" "it_status sample_item = ''pending''"
  by (simp_all add: sample_item_def new_item_fields)


text \<open>The retry budget holds for every row at every moment: the row can be read back, and its
  count of retries lies between zero and the policy's maximum.\<close>

lemma retry_budget:
  assumes "sched_reach cf s" and "r \<in> set (handler_rows (s_kernel s))"
  shows "\<exists>it. item_of_row r = Inr it \<and> 0 \<le> he_retry_count r \<and> he_retry_count r \<le> max 0 (pol_max_retries (it_policy it))"
proof -
  have "rows_ok (s_kernel s)" using sched_reach_ok [OF assms(1)] by (simp add: sched_ok_def core_def)
  from row_item [OF this assms(2)] show ?thesis by (auto simp: item_ok_def budget_ok_def to_row_def)
qed

section \<open>The outcome of a handler\<close>

lemma outcome_rows:
  "to_row (completed_item t it) = (to_row it)\<lparr>he_status := ''completed'', he_completed_at := At t, he_error := []\<rparr>"
  "to_row (failed_item t er dl it) =
     (to_row it)\<lparr>he_status := ''failed'', he_completed_at := At t, he_error := er, he_dead_letter := dl\<rparr>"
  "to_row (retry_item er it) =
     (to_row it)\<lparr>he_status := ''retrying'', he_retry_count := it_retries it + 1, he_error := er\<rparr>"
  by (simp_all add: to_row_def completed_item_def failed_item_def retry_item_def)

lemma fail_or_retry_row:
  assumes ok: "sched_ok s" and tid: "tid < length (s_tasks s)" and ph: "tk_phase (s_tasks s ! tid) = InHandler ev"
    and nc: "\<not> tk_cancel (s_tasks s ! tid)" and it: "it = s_heap s ! tk_oid (s_tasks s ! tid)"
  shows "row_of (s_kernel (fail_or_retry tid er s)) (it_id it) = Some (to_row (after_failure (k_now (s_kernel s)) er it))"
proof -
  have live: "task_live (s_tasks s ! tid)" using ph by (simp add: task_live_def)
  note i = live_item [OF ok tid live]
  have st: "it_status (s_heap s ! tk_oid (s_tasks s ! tid)) = ''running''"
    using i(6) live ph nc by (simp add: task_ok_def phase_status_def)
  from fail_or_retry_eq [OF HOL.refl i(5,1-3) st i(4), of er] show ?thesis
    by (auto simp: it kept_def synced_def after_failure_def failed_item_def retry_item_def split: if_splits)
qed

text \<open>What the outcome of a handler promises about the row.\<close>

definition failure_row :: "time \<Rightarrow> string \<Rightarrow> exec_item \<Rightarrow> handler_row" where
  "failure_row now m it =
     (if m = ''cancelled''
      then (to_row it)\<lparr>he_status := ''failed'', he_completed_at := At now, he_error := m, he_dead_letter := False\<rparr>
      else if it_retries it < pol_max_retries (it_policy it)
      then (to_row it)\<lparr>he_status := ''retrying'', he_retry_count := it_retries it + 1, he_error := m\<rparr>
      else (to_row it)\<lparr>he_status := ''failed'', he_completed_at := At now, he_error := m, he_dead_letter := True\<rparr>)"

definition outcome_row :: "time \<Rightarrow> outcome \<Rightarrow> exec_item \<Rightarrow> handler_row" where
  "outcome_row now out it = (case out of
     Returned \<Rightarrow> (to_row it)\<lparr>he_status := ''completed'', he_completed_at := At now, he_error := []\<rparr>
   | TimedOut m \<Rightarrow> failure_row now m it
   | Raised m \<Rightarrow> failure_row now m it)"

lemma after_failure_row: "to_row (after_failure now m it) = failure_row now m it"
  by (simp add: after_failure_def failure_row_def can_retry_def outcome_rows)

text \<open>What a handler does decides the row, on every branch: a normal return completes it and
  clears the error, a timeout or an exception either counts one more attempt (state retrying, with
  the reason) or, once the budget is spent, puts it on the dead-letter list.\<close>

lemma handler_outcome:
  assumes "sched_reach cf s" and "tid < length (s_tasks s)" and "tk_phase (s_tasks s ! tid) = InHandler ev"
    and "\<not> tk_cancel (s_tasks s ! tid)" and "it = s_heap s ! tk_oid (s_tasks s ! tid)"
    and "\<not> is_execution_cancelled s (it_id it)"
  shows "row_of (s_kernel (task_done tid out s)) (it_id it) = Some (outcome_row (k_now (s_kernel s)) out it)"
proof -
  have ok: "sched_ok s" by (rule sched_reach_ok [OF assms(1)])
  have live: "task_live (s_tasks s ! tid)" using assms(3) by (simp add: task_live_def)
  note i = live_item [OF ok assms(2) live, folded assms(5)]
  have st: "it_status it = ''running''"
    using i(6) live assms(3,4,5) by (simp add: task_ok_def phase_status_def)
  note fail = fail_or_retry_row [OF ok assms(2-5), unfolded after_failure_row]
  from complete_spec [OF i(1-3) st i(4)] obtain k' where
    k': "run_acts [set_error [], goto ''completed'', completed] (s_kernel s, it) =
        ((k', completed_item (k_now (s_kernel s)) it), None)"
      "row_of k' (it_id it) = Some (to_row (completed_item (k_now (s_kernel s)) it))"
    by (auto simp: kept_def synced_def completed_item_def)
  have on: "on_item (tk_oid (s_tasks s ! tid)) (run_acts [set_error [], goto ''completed'', completed]) s =
      (s\<lparr>s_kernel := k', s_heap := (s_heap s)[tk_oid (s_tasks s ! tid) := completed_item (k_now (s_kernel s)) it]\<rparr>, None)"
    by (rule on_item_eq) (use k'(1) assms(5) in simp)
  have "row_of (s_kernel (task_done tid Returned s)) (it_id it) =
      Some (to_row (completed_item (k_now (s_kernel s)) it))"
    using on k'(2) st assms(5,6)
    by (simp add: task_done_def Let_def finish_def set_phase_def del: run_acts.simps)
  then show ?thesis
    using fail by (cases out) (simp_all add: task_done_def Let_def outcome_row_def outcome_rows)
qed

section \<open>Cancellation\<close>

lemma request_cancel_pending:
  assumes ok: "sched_ok s" and i: "i \<noteq> []" and x: "x \<in> set (s_pending s)" "it_id (s_heap s ! x) = i"
  shows "\<exists>s'. request_cancel i s = (s', True) \<and>
    row_of (s_kernel s') i = Some (to_row (failed_item (k_now (s_kernel s)) ''cancelled'' False (s_heap s ! x)))"
proof -
  let ?it = "s_heap s ! x" and ?k = "s_kernel s"
  let ?s0 = "s\<lparr>s_cancelled := List.insert i (s_cancelled s)\<rparr>"
  obtain xs ys where p: "s_pending s = xs @ x # ys" using x(1) by (meson split_list)
  from ok have c: "core ?k (s_heap s) (set (tracked s))" and d: "distinct (tracked s)" by (auto simp: sched_ok_def)
  have xt: "x \<in> set (tracked s)" using x by (simp add: tracked_def)
  have it: "kernel_ok ?k" "rows_ok ?k" "synced ?k ?it" "\<not> it_dead ?it" "x < length (s_heap s)"
    using c xt by (auto simp: core_def)
  have st: "it_status ?it \<in> {''pending'', ''running'', ''retrying''}"
    using ok x(1) by (auto simp: sched_ok_def waiting_def)
  let ?f = "failed_item (k_now ?k) ''cancelled'' False ?it"
  from cancel_spec [OF it(1-3) st it(4)] obtain k' where
    k': "mark_cancelled False (?k, ?it) = ((k', ?f), None)" "kept ?k ?it k' ?f" by blast
  let ?s1 = "?s0\<lparr>s_kernel := k', s_heap := (s_heap s)[x := ?f]\<rparr>"
  have on: "on_item x (mark_cancelled False) ?s0 = (?s1, None)" by (simp add: on_item_def k'(1))
  have ne: "it_id (s_heap s ! y) \<noteq> i" if "y \<in> set (tracked s)" "y \<noteq> x" for y
    using that c xt x(2) by (auto simp: core_def inj_on_def)
  have xy: "y \<in> set (tracked s) \<and> y \<noteq> x" if "y \<in> set xs \<union> set ys" for y
    using that d by (auto simp: tracked_def p)
  have cp: "cancel_pending i (s_pending s) ?s0 = (?s1, True, xs @ ys, None)"
  proof (rule cancel_pending_hit [OF p _ _ on])
    show "\<forall>y \<in> set xs. it_id (s_heap ?s0 ! y) \<noteq> i" using ne xy by simp
    show "it_id (s_heap ?s0 ! x) = i" using x(2) by simp
    show "\<forall>y \<in> set ys. it_id (s_heap ?s1 ! y) \<noteq> i"
    proof
      fix y
      assume "y \<in> set ys"
      with xy have y: "y \<in> set (tracked s)" "y \<noteq> x" by auto
      with ne [OF y] show "it_id (s_heap ?s1 ! y) \<noteq> i" by simp
    qed
  qed
  have row: "row_of k' i = Some (to_row ?f)" using k'(2) x(2) by (simp add: kept_def synced_def failed_item_def)
  show ?thesis
  proof (cases "map_of (s_active s) i")
    case None
    with i cp row show ?thesis by (simp add: request_cancel_def Let_def)
  next
    case (Some e)
    obtain y t where e: "e = (y, t)" by force
    with Some have m: "map_of (s_active s) i = Some (y, t)" by simp
    note a = active_entry [OF ok m]
    have "it_status ((s_heap s)[x := ?f] ! y) \<notin> {''running'', ''pending'', ''retrying''}"
    proof (cases "y = x")
      case False
      with ne a(4) have nt: "y \<notin> set (tracked s)" by blast
      then have "\<not> task_live (s_tasks s ! t)" using live_mem [OF a(2)] a(3) by (auto simp: tracked_def)
      with nt a(5) have "closed_status (it_status (s_heap s ! y))" by (auto simp: tracked_def)
      with False show ?thesis by (auto simp: closed_status_def)
    qed (use it(5) in simp)
    with i cp row m show ?thesis
      by (auto simp: request_cancel_def Let_def cancel_task_def)
  qed
qed

lemma request_cancel_active:
  assumes ok: "sched_ok s" and i: "i \<noteq> []" and m: "map_of (s_active s) i = Some (x, t)"
    and live: "task_live (s_tasks s ! t)" and st: "open_status (it_status (s_heap s ! x))"
  shows "\<exists>s'. request_cancel i s = (s', True) \<and>
    row_of (s_kernel s') i = Some (to_row (failed_item (k_now (s_kernel s)) ''cancelled'' False (s_heap s ! x))) \<and>
    s_heap s' = (s_heap s)[x := failed_item (k_now (s_kernel s)) ''cancelled'' False (s_heap s ! x)] \<and>
    s_tasks s' = (s_tasks s)[t := (s_tasks s ! t)\<lparr>tk_cancel := True\<rparr>]"
proof -
  let ?s0 = "s\<lparr>s_cancelled := List.insert i (s_cancelled s)\<rparr>"
  note a = active_entry [OF ok m]
  note it = live_item [OF ok a(2) live, unfolded a(3)]
  from ok have c: "core (s_kernel s) (s_heap s) (set (tracked s))" and d: "distinct (tracked s)"
    by (auto simp: sched_ok_def)
  have xl: "x \<in> set (live_oids (s_tasks s))" using live_mem [OF a(2) live] a(3) by simp
  then have xt: "x \<in> set (tracked s)" by (simp add: tracked_def)
  have "\<forall>y \<in> set (s_pending s). it_id (s_heap ?s0 ! y) \<noteq> i"
  proof
    fix y
    assume y: "y \<in> set (s_pending s)"
    with d xl have "y \<noteq> x" by (auto simp: tracked_def)
    moreover have "y \<in> set (tracked s)" using y by (simp add: tracked_def)
    ultimately show "it_id (s_heap ?s0 ! y) \<noteq> i" using c xt a(4) by (auto simp: core_def inj_on_def)
  qed
  from cancel_pending_none [OF this] have cp: "cancel_pending i (s_pending s) ?s0 = (?s0, False, s_pending s, None)" .
  have st': "it_status (s_heap s ! x) \<in> {''pending'', ''running'', ''retrying''}" using st by (simp add: open_status_def)
  from cancel_spec [OF it(1-3) st' it(4)] obtain k' where
    k': "mark_cancelled False (s_kernel s, s_heap s ! x) =
        ((k', failed_item (k_now (s_kernel s)) ''cancelled'' False (s_heap s ! x)), None)"
      "row_of k' i = Some (to_row (failed_item (k_now (s_kernel s)) ''cancelled'' False (s_heap s ! x)))"
    using a(4) by (auto simp: kept_def synced_def failed_item_def)
  have st'': "it_status (s_heap s ! x) \<in> {''running'', ''pending'', ''retrying''}" using st' by auto
  show ?thesis
    using i m live st'' k' by (auto simp: request_cancel_def cp Let_def on_item_def cancel_task_def)
qed

text \<open>C4. Cancelling is durable: for an unfinished execution that waits in the queue or that the
  active table knows, \<open>request_cancel\<close> reports it found and leaves its row failed with the error
  cancelled and off the dead-letter list; a process that starts right after, however the first one
  died, keeps that row and does not queue the execution again.\<close>

theorem cancel_is_durable:
  assumes "sched_reach cf s" and "i \<noteq> []" and "r \<in> set (handler_rows (s_kernel s))" and "he_id r = i"
    and "he_status r \<in> {''pending'', ''running'', ''retrying''}"
    and "(\<exists>x \<in> set (s_pending s). it_id (s_heap s ! x) = i) \<or>
      (\<exists>x t. map_of (s_active s) i = Some (x, t) \<and> task_live (s_tasks s ! t))"
  shows "\<exists>s'. request_cancel i s = (s', True) \<and>
    (let r' = r\<lparr>he_status := ''failed'', he_completed_at := At (k_now (s_kernel s)), he_error := ''cancelled'',
        he_dead_letter := False\<rparr>
     in row_of (s_kernel s') i = Some r' \<and>
       (\<forall>n \<ge> s_fresh s'. let s'' = fst (recover (s_kernel s') n) in
          row_of (s_kernel s'') i = Some r' \<and> (\<forall>x \<in> set (s_pending s''). it_id (s_heap s'' ! x) \<noteq> i)))"
proof -
  have ok: "sched_ok s" by (rule sched_reach_ok [OF assms(1)])
  have c: "core (s_kernel s) (s_heap s) (set (tracked s))" using ok by (simp add: sched_ok_def)
  let ?r = "r\<lparr>he_status := ''failed'', he_completed_at := At (k_now (s_kernel s)), he_error := ''cancelled'',
        he_dead_letter := False\<rparr>"
  have row: "row_of (s_kernel s) i = Some r"
    using row_of_mem [OF sched_ok_kernel_facts(1) [OF ok] assms(3)] assms(4) by simp
  have owner: "r = to_row (s_heap s ! x)" if "x \<in> set (tracked s)" "it_id (s_heap s ! x) = i" for x
    using that c row by (auto simp: core_def synced_def)
  have f: "to_row (failed_item (k_now (s_kernel s)) ''cancelled'' False (s_heap s ! x)) = ?r"
    if "x \<in> set (tracked s)" "it_id (s_heap s ! x) = i" for x
    unfolding outcome_rows owner [OF that] ..
  have "\<exists>s'. request_cancel i s = (s', True) \<and> row_of (s_kernel s') i = Some ?r"
    using assms(6)
  proof (elim disjE exE bexE conjE)
    fix x
    assume x: "x \<in> set (s_pending s)" "it_id (s_heap s ! x) = i"
    moreover have "x \<in> set (tracked s)" using x by (simp add: tracked_def)
    ultimately show ?thesis using request_cancel_pending [OF ok assms(2) x] f [of x] by auto
  next
    fix x t
    assume m: "map_of (s_active s) i = Some (x, t)" and live: "task_live (s_tasks s ! t)"
    note a = active_entry [OF ok m]
    have x: "x \<in> set (tracked s)" using live_mem [OF a(2) live] a(3) by (simp add: tracked_def)
    have "open_status (it_status (s_heap s ! x))"
      using owner [OF x a(4)] assms(5) by (simp add: open_status_def)
    from request_cancel_active [OF ok assms(2) m live this] f [OF x a(4)] show ?thesis by auto
  qed
  then obtain s' where s': "request_cancel i s = (s', True)" "row_of (s_kernel s') i = Some ?r" by blast
  have ok': "sched_ok s'" using request_cancel_ok [OF ok, of i] s'(1) by simp
  have again: "row_of (s_kernel (fst (recover (s_kernel s') n))) i = Some ?r \<and>
      (\<forall>x \<in> set (s_pending (fst (recover (s_kernel s') n))). it_id (s_heap (fst (recover (s_kernel s') n)) ! x) \<noteq> i)"
    if n: "s_fresh s' \<le> n" for n
  proof -
    have "fresh_ok (s_kernel s') n" using sched_ok_kernel_facts(4) [OF ok'] n by (auto simp: fresh_ok_def)
    from recover_ok [OF sched_ok_kernel_facts(1-3) [OF ok'] this] obtain s'' where
      s'': "recover (s_kernel s') n = (s'', None)" "sched_ok s''"
        "\<forall>r \<in> set (handler_rows (s_kernel s')). he_status r \<noteq> ''running'' \<longrightarrow> row_of (s_kernel s'') (he_id r) = Some r"
      by blast
    have r'': "row_of (s_kernel s'') i = Some ?r" using s''(3) row_of_Some [OF s'(2)] by auto
    have "it_id (s_heap s'' ! x) \<noteq> i" if x: "x \<in> set (s_pending s'')" for x
    proof
      assume "it_id (s_heap s'' ! x) = i"
      moreover have "synced (s_kernel s'') (s_heap s'' ! x)" and w: "waiting (s_heap s'' ! x)"
        using s''(2) x by (simp_all add: sched_ok_def core_def tracked_def)
      ultimately have "to_row (s_heap s'' ! x) = ?r" using r'' by (simp add: synced_def)
      from arg_cong [OF this, of he_status] w show False by (simp add: waiting_def)
    qed
    with r'' show ?thesis by (simp add: s''(1))
  qed
  show ?thesis using s' again unfolding Let_def by blast
qed

theorem cancel_is_durable_witness:
  "\<exists>s'. request_cancel (it_id sample_item) sample_queued = (s', True) \<and>
    he_status (the (row_of (s_kernel s') (it_id sample_item))) = ''failed''"
proof -
  from cancel_is_durable [OF sample_sched_reach(2) _ sample_row, of "it_id sample_item"] obtain s' where
    s': "request_cancel (it_id sample_item) sample_queued = (s', True)"
      "row_of (s_kernel s') (it_id sample_item) = Some ((to_row sample_item)\<lparr>he_status := ''failed'',
         he_completed_at := At (k_now (s_kernel sample_queued)), he_error := ''cancelled'', he_dead_letter := False\<rparr>)"
    by (auto simp: Let_def sample_queued_fields)
  then show ?thesis by simp
qed

section \<open>Recovery\<close>

definition recovered_row :: "time \<Rightarrow> exec_item \<Rightarrow> handler_row" where
  "recovered_row now it =
     (if it_retries it < pol_max_retries (it_policy it)
      then (to_row it)\<lparr>he_status := ''pending'', he_retry_count := it_retries it + 1, he_error := ''interrupted''\<rparr>
      else (to_row it)\<lparr>he_status := ''failed'', he_completed_at := At now, he_error := ''interrupted'', he_dead_letter := True\<rparr>)"

lemma recovered_item_row: "to_row (recovered_item now it) = recovered_row now it"
  by (simp add: recovered_item_def recovered_row_def can_retry_def retry_item_def failed_item_def to_row_def)

text \<open>C5. A restart loses nothing: a process started on what another one left, at any moment, comes
  up; every interrupted row is queued once more with one more attempt counted, or dead-lettered when
  the budget is spent, every other row is as it was, and what is open waits in the queue exactly
  once with no coroutine running.\<close>

theorem restart_recovers:
  assumes "sched_reach cf s" and "s_fresh s \<le> n"
  shows "\<exists>s'. recover (s_kernel s) n = (s', None) \<and> s_tasks s' = [] \<and>
    (\<forall>r \<in> set (handler_rows (s_kernel s)). he_status r = ''running'' \<longrightarrow>
       (\<exists>it. item_of_row r = Inr it \<and>
          row_of (s_kernel s') (he_id r) = Some (recovered_row (k_now (s_kernel s)) it))) \<and>
    (\<forall>r \<in> set (handler_rows (s_kernel s)). he_status r \<noteq> ''running'' \<longrightarrow> row_of (s_kernel s') (he_id r) = Some r) \<and>
    (\<forall>r \<in> set (handler_rows (s_kernel s')). he_status r \<noteq> ''running'' \<and>
       (he_status r \<in> {''pending'', ''retrying''} \<longrightarrow>
          length (filter (\<lambda>x. it_id (s_heap s' ! x) = he_id r) (s_pending s')) = 1))"
proof -
  have ok: "sched_ok s" by (rule sched_reach_ok [OF assms(1)])
  have "fresh_ok (s_kernel s) n" using sched_ok_kernel_facts(4) [OF ok] assms(2) by (auto simp: fresh_ok_def)
  from recover_ok [OF sched_ok_kernel_facts(1-3) [OF ok] this] obtain s' where
    s': "recover (s_kernel s) n = (s', None)" "sched_ok s'" "s_tasks s' = []" and
    run: "\<forall>r \<in> set (handler_rows (s_kernel s)). he_status r = ''running'' \<longrightarrow>
       (\<exists>it. item_of_row r = Inr it \<and> row_of (s_kernel s') (he_id r) = Some (to_row (recovered_item (k_now (s_kernel s)) it)))" and
    rest: "\<forall>r \<in> set (handler_rows (s_kernel s)). he_status r \<noteq> ''running'' \<longrightarrow> row_of (s_kernel s') (he_id r) = Some r"
    by blast
  have T: "tracked s' = s_pending s'" by (simp add: tracked_def live_oids_def s'(3))
  have reach': "sched_reach cf s'"
    using sched_reach.step [OF assms(1) sched_step.restart [OF assms(2)]] by (simp add: s'(1))
  have open': "he_status r \<noteq> ''running'' \<and> (he_status r \<in> {''pending'', ''retrying''} \<longrightarrow>
      length (filter (\<lambda>x. it_id (s_heap s' ! x) = he_id r) (s_pending s')) = 1)"
    if r: "r \<in> set (handler_rows (s_kernel s'))" for r
  proof (intro conjI impI)
    show "he_status r \<noteq> ''running''"
    proof
      assume run: "he_status r = ''running''"
      with s'(2) r obtain x where x: "x \<in> set (s_pending s')" "he_id r = it_id (s_heap s' ! x)"
        by (auto simp: sched_ok_def core_def open_status_def T)
      moreover have "synced (s_kernel s') (s_heap s' ! x)" "waiting (s_heap s' ! x)"
        using s'(2) x by (simp_all add: sched_ok_def core_def T)
      moreover have "row_of (s_kernel s') (he_id r) = Some r"
        by (rule row_of_mem [OF sched_ok_kernel_facts(1) [OF s'(2)] r])
      ultimately have "to_row (s_heap s' ! x) = r" by (simp add: synced_def)
      from arg_cong [OF this, of he_status] have "he_status r = it_status (s_heap s' ! x)" by simp
      with run \<open>waiting (s_heap s' ! x)\<close> show False by (simp add: waiting_def)
    qed
    assume "he_status r \<in> {''pending'', ''retrying''}"
    then show "length (filter (\<lambda>x. it_id (s_heap s' ! x) = he_id r) (s_pending s')) = 1"
      using one_owner [OF s'(2) r] by (auto simp: T open_status_def)
  qed
  show ?thesis
    using s'(1,3) run rest open' unfolding recovered_item_row by blast
qed

theorem restart_recovers_witness:
  "\<exists>s'. recover (s_kernel sample_running) 5 = (s', None) \<and> s_tasks s' = []"
proof -
  have "s_fresh sample_running \<le> 5"
    by (simp add: sample_running_ok(9))
  from restart_recovers [OF sample_running_ok(1) this] show ?thesis by blast
qed

section \<open>Backpressure and order\<close>

text \<open>Enqueueing never raises and is all or nothing: either one execution per handler is
  appended to the queue in order, within the bound, or the queue is full, nothing is queued, and a
  request event is handed back so that its caller is not left waiting.\<close>

lemma enqueue_all_or_nothing:
  assumes "sched_reach cf s" and "get_handlers cf (ev_type ev) = hs"
  shows "case enqueue cf inst actor pol ev s of
      (s', Enqueued oids) \<Rightarrow> s_pending s' = s_pending s @ oids \<and> length oids = length hs \<and>
        (hs \<noteq> [] \<longrightarrow> int (length (s_pending s')) \<le> max_pending cf)
    | (s', QueueFull) \<Rightarrow> s_pending s' = s_pending s \<and>
        int (length (s_pending s)) + int (length hs) > max_pending cf \<and>
        (ends_with ''Requested'' (ev_type ev) \<longrightarrow> s_rejected s' = s_rejected s @ [ev])
    | (s', EnqueueRaised e) \<Rightarrow> False"
proof -
  have ok: "sched_ok s" by (rule sched_reach_ok [OF assms(1)])
  from enqueue_loop_ok [OF ok, of cf inst actor pol ev hs] obtain s1 oids where
    a: "enqueue_loop cf inst actor pol ev hs s = (s1, Enqueued oids)" "s_pending s1 = s_pending s @ oids"
      "length oids = length hs" by blast
  from reject_loop_ok [OF ok, of cf inst actor pol ev hs] obtain s2 where
    b: "reject_loop cf inst actor pol ev hs s = (s2, None)" "s_pending s2 = s_pending s" "s_rejected s2 = s_rejected s" by blast
  show ?thesis
    using a b by (simp add: enqueue_def Let_def assms(2) unblock_submit_command_def)
qed

lemma length_AList_update: "length (AList.update k v xs) \<le> Suc (length xs)"
  by (induction xs) auto

lemma fill_slots_spec:
  "\<exists>n. s_pending (fill_slots cf p s) = drop n p \<and>
     map tk_oid (s_tasks (fill_slots cf p s)) = map tk_oid (s_tasks s) @ take n p \<and>
     int (length (s_active (fill_slots cf p s))) \<le> max (int (length (s_active s))) (max_concurrent cf) \<and>
     (n < length p \<longrightarrow> int (length (s_active (fill_slots cf p s))) \<ge> max_concurrent cf)"
proof (induction cf p s rule: fill_slots.induct)
  case (1 cf s)
  show ?case by simp
next
  case (2 cf oid oids s)
  show ?case
  proof (cases "int (length (s_active s)) < max_concurrent cf")
    case True
    from "2.IH" [OF True] obtain n where
      n: "s_pending (fill_slots cf oids (start_task oid s)) = drop n oids"
        "map tk_oid (s_tasks (fill_slots cf oids (start_task oid s))) = map tk_oid (s_tasks (start_task oid s)) @ take n oids"
        "int (length (s_active (fill_slots cf oids (start_task oid s)))) \<le>
           max (int (length (s_active (start_task oid s)))) (max_concurrent cf)"
        "n < length oids \<Longrightarrow> int (length (s_active (fill_slots cf oids (start_task oid s)))) \<ge> max_concurrent cf" by blast
    have "length (s_active (start_task oid s)) \<le> Suc (length (s_active s))"
      by (simp add: start_task_def Let_def length_AList_update)
    with True n show ?thesis
      by (intro exI [of _ "Suc n"]) (simp add: start_task_def Let_def)
  next
    case False
    then show ?thesis by (intro exI [of _ 0]) simp
  qed
qed

text \<open>The worker loop is first in first out, bounded and work-conserving: a tick starts a prefix
  of the queue, in order, one coroutine each; it never takes the active table past the limit; and
  it leaves something in the queue only when the limit is reached.\<close>

lemma tick_fifo:
  "\<exists>n. s_pending (loop_tick cf s) = drop n (s_pending s) \<and>
     map tk_oid (s_tasks (loop_tick cf s)) = map tk_oid (s_tasks s) @ take n (s_pending s) \<and>
     int (length (s_active (loop_tick cf s))) \<le> max (int (length (s_active s))) (max_concurrent cf) \<and>
     (s_pending (loop_tick cf s) = [] \<or> int (length (s_active (loop_tick cf s))) \<ge> max_concurrent cf)"
proof -
  from fill_slots_spec [of cf "s_pending s" s] obtain n where
    n: "s_pending (loop_tick cf s) = drop n (s_pending s)"
      "map tk_oid (s_tasks (loop_tick cf s)) = map tk_oid (s_tasks s) @ take n (s_pending s)"
      "int (length (s_active (loop_tick cf s))) \<le> max (int (length (s_active s))) (max_concurrent cf)"
      "n < length (s_pending s) \<longrightarrow> int (length (s_active (loop_tick cf s))) \<ge> max_concurrent cf"
    unfolding loop_tick_def by blast
  then show ?thesis by (intro exI [of _ n]) auto
qed

section \<open>Outside the invariant\<close>

text \<open>C37. A cancelled execution comes back to life when its handler answers the cancellation with
  an exception of its own: the row that \<open>request_cancel\<close> closed as cancelled goes to retrying, with
  one more attempt counted.\<close>

theorem cancelled_execution_resurrected:
  assumes "sched_reach cf s" and "tid < length (s_tasks s)" and "tk_phase (s_tasks s ! tid) = InHandler ev"
    and "tk_cancel (s_tasks s ! tid)" and "it = s_heap s ! tk_oid (s_tasks s ! tid)"
    and "it_retries it < pol_max_retries (it_policy it)" and "m \<noteq> ''cancelled''"
  shows "row_of (s_kernel s) (it_id it) = Some (to_row it) \<and> he_status (to_row it) = ''failed'' \<and>
    row_of (s_kernel (task_done tid (Raised m) s)) (it_id it) =
      Some ((to_row it)\<lparr>he_status := ''retrying'', he_retry_count := it_retries it + 1, he_error := m\<rparr>)"
proof -
  have ok: "sched_ok s" by (rule sched_reach_ok [OF assms(1)])
  have live: "task_live (s_tasks s ! tid)" using assms(3) by (simp add: task_live_def)
  note i = live_item [OF ok assms(2) live, folded assms(5)]
  have st: "it_status it = ''failed''" using i(6) live assms(4,5) by (simp add: task_ok_def)
  have can: "can_retry it" using assms(6) by (simp add: can_retry_def)
  from retry_spec [OF i(1-3) _ i(4) can, of m] st obtain k' where
    k': "run_acts [bump_retry, goto ''retrying'', retried ''retrying''] (s_kernel s, it\<lparr>it_error := m\<rparr>) =
        ((k', retry_item m it), None)" "row_of k' (it_id it) = Some (to_row (retry_item m it))"
    by (auto simp: kept_def synced_def retry_item_def)
  have can': "can_retry (it\<lparr>it_error := m\<rparr>)" using can by (simp add: can_retry_def)
  have "row_of (s_kernel (task_done tid (Raised m) s)) (it_id it) = Some (to_row (retry_item m it))"
    using k' assms(5,7) can' i(5)
    by (simp add: task_done_def fail_or_retry_def Let_def on_item_def set_error_def modify_def maybe_retry_def
        set_phase_def del: run_acts.simps)
  with i(3) st show ?thesis by (simp add: synced_def outcome_rows)
qed

theorem cancelled_execution_resurrected_witness:
  "\<exists>s. request_cancel (it_id sample_item) sample_running = (s, True) \<and>
     he_status (the (row_of (s_kernel s) (it_id sample_item))) = ''failed'' \<and>
     he_status (the (row_of (s_kernel (task_done 0 (Raised ''boom'') s)) (it_id sample_item))) = ''retrying''"
proof -
  let ?it = "running_item (k_now (s_kernel sample_ticked)) sample_item"
  let ?f = "failed_item (k_now (s_kernel sample_running)) ''cancelled'' False ?it"
  have id: "it_id ?it = it_id sample_item" by (simp add: running_item_def)
  have ok: "sched_ok sample_running" by (rule sched_reach_ok [OF sample_running_ok(1)])
  have live: "task_live (s_tasks sample_running ! 0)" by (simp add: task_live_def sample_running_ok(3))
  have m: "map_of (s_active sample_running) (it_id sample_item) = Some (0, 0)" by (simp add: sample_running_ok(7))
  have st: "open_status (it_status (s_heap sample_running ! 0))"
    by (simp add: sample_running_ok(8) running_item_def open_status_def)
  from request_cancel_active [OF ok _ m live st] obtain s where
    s: "request_cancel (it_id sample_item) sample_running = (s, True)" "s_heap s = [?f]"
      "s_tasks s = (s_tasks sample_running)[0 := (s_tasks sample_running ! 0)\<lparr>tk_cancel := True\<rparr>]"
    by (auto simp: sample_running_ok(8))
  have r: "sched_reach sample_cf s"
    using sched_reach.step [OF sample_running_ok(1) sched_step.cancel] s(1) by (metis fst_conv)
  have t: "0 < length (s_tasks s)" "tk_phase (s_tasks s ! 0) = InHandler sample_event" "tk_cancel (s_tasks s ! 0)"
    "s_heap s ! tk_oid (s_tasks s ! 0) = ?f"
    using sample_running_ok(2,3,5) by (simp_all add: s)
  have b: "it_retries ?f < pol_max_retries (it_policy ?f)"
    by (simp add: failed_item_def running_item_def sample_item_def new_item_def policy_for_event_def
        default_policy_def sample_event_def create_event_def)
  from cancelled_execution_resurrected [OF r t(1-3) t(4) [symmetric] b, of "''boom''"] id s(1)
  show ?thesis by (auto simp: failed_item_def)
qed

end
