(* ===== verification/Event_Dispatch.thy ===== *)
theory Event_Dispatch
  imports Sched_Props
begin

text \<open>
  The event bus of \<open>kernel/event_dispatch.py\<close> and the request/response commands over it:
  subscribers, the asynchronous dispatcher, \<open>submit_command\<close> with its pending futures, and
  \<open>resolve_pending_command\<close>, with which a refused request is answered.

  A future and the key its \<open>submit_command\<close> waits under are a \<open>command\<close>; \<open>b_pending\<close> is the dict
  \<open>_pending_commands\<close>; \<open>b_ready\<close> holds the \<open>_resolve\<close> callbacks handed to
  \<open>call_soon_threadsafe\<close> that have not run. \<open>loops\<close> says which event loops run at a call.
\<close>

section \<open>Completion types\<close>

text \<open>\<open>str.replace\<close> for a non-empty pattern.\<close>

function replace_all :: "string \<Rightarrow> string \<Rightarrow> string \<Rightarrow> string" where
  "replace_all old new [] = []"
| "replace_all old new (c # cs) =
     (if old \<noteq> [] \<and> starts_with old (c # cs) then new @ replace_all old new (drop (length old - 1) cs)
      else c # replace_all old new cs)"
  by pat_completeness auto
termination by (relation "measure (\<lambda>(old, new, s). length s)") auto

definition default_completion_type :: "string \<Rightarrow> string" where
  "default_completion_type et =
     (if ends_with ''Requested'' et then replace_all ''Requested'' ''Completed'' et
      else et @ ''Completed'')"

section \<open>The bus\<close>

datatype fut = Waiting | Resolved event | Abandoned

record command =
  cm_key :: "string \<times> string"
  cm_state :: fut

record subscriber =
  sub_type :: "string option"
  sub_agg :: "string option"
  sub_name :: string

record bus =
  b_subs :: "subscriber list"
  b_dispatcher :: bool
  b_pending :: "((string \<times> string) \<times> nat) list"
  b_cmds :: "command list"
  b_ready :: "(nat \<times> event) list"
  b_calls :: "(string \<times> event) list"
  b_tasks :: "event list"

record loops =
  lp_future :: bool
  lp_thread :: bool
  lp_dispatch :: bool

definition empty_bus :: "subscriber list \<Rightarrow> bool \<Rightarrow> bus" where
  "empty_bus subs dsp = \<lparr>b_subs = subs, b_dispatcher = dsp, b_pending = [], b_cmds = [], b_ready = [],
     b_calls = [], b_tasks = []\<rparr>"

definition key_of :: "event \<Rightarrow> string \<times> string" where
  "key_of ev = (case ev_corr ev of None \<Rightarrow> [] | Some c \<Rightarrow> c, ev_type ev)"

text \<open>The loop of the future, else the one of the calling thread, else the main loop.\<close>

definition can_resolve :: "loops \<Rightarrow> bool" where
  "can_resolve lp \<longleftrightarrow> lp_future lp \<or> lp_thread lp \<or> lp_dispatch lp"

definition resolve_future :: "loops \<Rightarrow> nat \<Rightarrow> event \<Rightarrow> bus \<Rightarrow> bus \<times> bool" where
  "resolve_future lp f ev b =
     (if can_resolve lp then (b\<lparr>b_ready := b_ready b @ [(f, ev)]\<rparr>, True) else (b, False))"

definition pop_key :: "string \<times> string \<Rightarrow> bus \<Rightarrow> bus" where
  "pop_key key b = b\<lparr>b_pending := AList.delete key (b_pending b)\<rparr>"

definition sub_matches :: "event \<Rightarrow> subscriber \<Rightarrow> bool" where
  "sub_matches ev s \<longleftrightarrow>
     (sub_type s = None \<or> sub_type s = Some [] \<or> sub_type s = Some (ev_type ev)) \<and>
     (sub_agg s = None \<or> sub_agg s = Some [] \<or> sub_agg s = Some (ev_agg_type ev))"

definition call_subscribers :: "event \<Rightarrow> bus \<Rightarrow> bus" where
  "call_subscribers ev b =
     b\<lparr>b_calls := b_calls b @ map (\<lambda>s. (sub_name s, ev)) (filter (sub_matches ev) (b_subs b))\<rparr>"

text \<open>The task of the asynchronous dispatcher: on the running loop, from another thread on the main
  loop, and not at all when no loop runs.\<close>

definition schedule_dispatcher :: "loops \<Rightarrow> event \<Rightarrow> bus \<Rightarrow> bus" where
  "schedule_dispatcher lp ev b =
     (if b_dispatcher b \<and> (lp_thread lp \<or> lp_dispatch lp) then b\<lparr>b_tasks := b_tasks b @ [ev]\<rparr> else b)"

definition settle :: "loops \<Rightarrow> event \<Rightarrow> bus \<Rightarrow> bus" where
  "settle lp ev b =
     (case map_of (b_pending b) (key_of ev) of
        None \<Rightarrow> b
      | Some f \<Rightarrow>
          if cm_state (b_cmds b ! f) \<noteq> Waiting then b
          else (case resolve_future lp f ev b of
                  (b', False) \<Rightarrow> b'
                | (b', True) \<Rightarrow> if map_of (b_pending b') (key_of ev) = Some f then pop_key (key_of ev) b' else b'))"

definition dispatch :: "loops \<Rightarrow> event \<Rightarrow> bus \<Rightarrow> bus" where
  "dispatch lp ev b = settle lp ev (schedule_dispatcher lp ev (call_subscribers ev b))"

definition synthetic_event :: "string \<Rightarrow> string \<Rightarrow> dict \<Rightarrow> string \<Rightarrow> string \<Rightarrow> string option \<Rightarrow> string \<Rightarrow> time \<Rightarrow> event" where
  "synthetic_event corr ct payload agg aid caused i now =
     \<lparr>ev_type = ct, ev_agg_type = agg, ev_agg_id = aid, ev_payload = payload, ev_actor = ''scheduler'',
      ev_caused_by = caused, ev_corr = Some corr, ev_id = i, ev_seq = None, ev_ts = now\<rparr>"

definition resolve_pending_command ::
  "loops \<Rightarrow> string \<Rightarrow> string \<Rightarrow> dict \<Rightarrow> string \<Rightarrow> string \<Rightarrow> string option \<Rightarrow> string \<Rightarrow> time \<Rightarrow> bus \<Rightarrow> bus \<times> bool" where
  "resolve_pending_command lp corr ct payload agg aid caused i now b =
     (if corr = [] \<or> ct = [] then (b, False)
      else case map_of (b_pending b) (corr, ct) of
        None \<Rightarrow> (b, False)
      | Some f \<Rightarrow>
          (case resolve_future lp f (synthetic_event corr ct payload agg aid caused i now) b of
             (b', False) \<Rightarrow> (b', False)
           | (b', True) \<Rightarrow> (pop_key (corr, ct) b', True)))"

text \<open>\<open>submit_command\<close> up to its await, and what follows it. \<open>str(exc)\<close> is the text of the error.\<close>

definition register :: "string \<times> string \<Rightarrow> bus \<Rightarrow> bus \<times> nat" where
  "register key b =
     (b\<lparr>b_cmds := b_cmds b @ [\<lparr>cm_key = key, cm_state = Waiting\<rparr>],
        b_pending := AList.update key (length (b_cmds b)) (b_pending b)\<rparr>, length (b_cmds b))"

definition submit_begin :: "loops \<Rightarrow> kernel \<Rightarrow> bus \<Rightarrow> string \<Rightarrow> string \<Rightarrow> string \<Rightarrow> dict \<Rightarrow> string
    \<Rightarrow> string option \<Rightarrow> string \<Rightarrow> string \<Rightarrow> kernel \<times> bus \<times> (dict + nat)" where
  "submit_begin lp k b et agg aid payload actor caused corr ct =
     (case register (corr, ct) b of (b1, f) \<Rightarrow>
        case emit_event k et agg aid payload actor caused (Some corr) of
          Inl e \<Rightarrow> (k, pop_key (corr, ct) b1, Inl [(''error'', VStr (err_text e)), (''status'', VStr ''error'')])
        | Inr (k', ev) \<Rightarrow> (k', dispatch lp ev b1, Inr f))"

definition timeout_dict :: dict where
  "timeout_dict = [(''error'', VStr ''timeout''), (''status'', VStr ''timeout'')]"

text \<open>The await ends when the future is resolved or when the timeout expires, which cancels it.\<close>

definition submit_end :: "nat \<Rightarrow> bus \<Rightarrow> bus \<times> dict" where
  "submit_end f b =
     (let c = b_cmds b ! f in
      case cm_state c of
        Resolved e \<Rightarrow> (pop_key (cm_key c) b, ev_payload e)
      | _ \<Rightarrow> (pop_key (cm_key c) (b\<lparr>b_cmds := (b_cmds b)[f := c\<lparr>cm_state := Abandoned\<rparr>]\<rparr>), timeout_dict))"

text \<open>The loop runs the oldest callback.\<close>

fun run_ready :: "bus \<Rightarrow> bus" where
  "run_ready b = (case b_ready b of
     [] \<Rightarrow> b
   | (f, e) # rest \<Rightarrow>
       (let c = b_cmds b ! f in
        b\<lparr>b_ready := rest,
          b_cmds := (if cm_state c = Waiting then (b_cmds b)[f := c\<lparr>cm_state := Resolved e\<rparr>] else b_cmds b)\<rparr>))"

fun drain :: "nat \<Rightarrow> bus \<Rightarrow> bus" where
  "drain 0 b = b"
| "drain (Suc n) b = drain n (run_ready b)"

section \<open>The invariant\<close>

definition bus_ok :: "bus \<Rightarrow> bool" where
  "bus_ok b \<longleftrightarrow> distinct (map fst (b_pending b)) \<and>
     (\<forall>key f. map_of (b_pending b) key = Some f \<longrightarrow>
        f < length (b_cmds b) \<and> cm_key (b_cmds b ! f) = key \<and> (\<forall>e. (f, e) \<notin> set (b_ready b))) \<and>
     (\<forall>f e. (f, e) \<in> set (b_ready b) \<longrightarrow> f < length (b_cmds b) \<and> cm_key (b_cmds b ! f) = key_of e) \<and>
     (\<forall>c e. c \<in> set (b_cmds b) \<longrightarrow> cm_state c = Resolved e \<longrightarrow> cm_key c = key_of e)"

lemmas bus_okI = bus_ok_def [THEN iffD2, OF conjI, OF _ conjI, OF _ _ conjI, rule_format]

lemma bus_okD:
  assumes "bus_ok b"
  shows "distinct (map fst (b_pending b))"
    "map_of (b_pending b) key = Some f \<Longrightarrow> f < length (b_cmds b) \<and> cm_key (b_cmds b ! f) = key \<and> (\<forall>e. (f, e) \<notin> set (b_ready b))"
    "(f, e) \<in> set (b_ready b) \<Longrightarrow> f < length (b_cmds b) \<and> cm_key (b_cmds b ! f) = key_of e"
    "c \<in> set (b_cmds b) \<Longrightarrow> cm_state c = Resolved e \<Longrightarrow> cm_key c = key_of e"
  using assms unfolding bus_ok_def by blast+

lemma bus_ok_empty: "bus_ok (empty_bus subs dsp)"
  by (simp add: bus_ok_def empty_bus_def)

lemma bus_ok_irrelevant [simp]:
  "bus_ok (b\<lparr>b_calls := x\<rparr>) = bus_ok b" "bus_ok (b\<lparr>b_tasks := y\<rparr>) = bus_ok b"
  by (simp_all add: bus_ok_def)

lemma pop_key_pending:
  "map_of (b_pending (pop_key key b)) key' = (if key' = key then None else map_of (b_pending b) key')"
  "b_cmds (pop_key key b) = b_cmds b" "b_ready (pop_key key b) = b_ready b"
  by (simp_all add: pop_key_def delete_conv')

lemma pop_key_ok:
  assumes ok: "bus_ok b"
  shows "bus_ok (pop_key key b)"
proof (rule bus_okI, goal_cases)
  case 1
  show ?case using bus_okD(1) [OF ok] by (simp add: pop_key_def distinct_delete)
next
  case (2 key' f)
  with bus_okD(2) [OF ok, of key' f] show ?case by (simp add: pop_key_pending split: if_splits)
next
  case (3 f e)
  with bus_okD(3) [OF ok, of f e] show ?case by (simp add: pop_key_pending)
next
  case (4 c e)
  with bus_okD(4) [OF ok, of c e] show ?case by (simp add: pop_key_pending)
qed

lemma resolve_pop_ok:
  assumes ok: "bus_ok b" and f: "map_of (b_pending b) key = Some f" and e: "key_of ev = key"
  shows "bus_ok (pop_key key (b\<lparr>b_ready := b_ready b @ [(f, ev)]\<rparr>))"
proof (rule bus_okI, goal_cases)
  case 1
  show ?case using bus_okD(1) [OF ok] by (simp add: pop_key_def distinct_delete)
next
  case (2 key' g)
  then have g: "map_of (b_pending b) key' = Some g" "key' \<noteq> key" by (simp_all add: pop_key_pending split: if_splits)
  with bus_okD(2) [OF ok g(1)] bus_okD(2) [OF ok f] show ?case by (auto simp: pop_key_pending)
next
  case (3 g e')
  with bus_okD(3) [OF ok, of g e'] bus_okD(2) [OF ok f] e show ?case by (auto simp: pop_key_pending)
next
  case (4 c e')
  with bus_okD(4) [OF ok, of c e'] show ?case by (simp add: pop_key_pending)
qed

lemma settle_ok: "bus_ok b \<Longrightarrow> bus_ok (settle lp ev b)"
  using resolve_pop_ok [of b "key_of ev" _ ev]
  by (auto simp: settle_def resolve_future_def split: option.splits)

lemma dispatch_ok: "bus_ok b \<Longrightarrow> bus_ok (dispatch lp ev b)"
  unfolding dispatch_def by (rule settle_ok) (simp add: schedule_dispatcher_def call_subscribers_def)

lemma resolve_pending_ok: "bus_ok b \<Longrightarrow> bus_ok (fst (resolve_pending_command lp corr ct p agg aid ca i now b))"
  using resolve_pop_ok [of b "(corr, ct)" _ "synthetic_event corr ct p agg aid ca i now"]
  by (auto simp: resolve_pending_command_def resolve_future_def key_of_def synthetic_event_def split: option.splits)

lemma register_ok:
  assumes ok: "bus_ok b"
  shows "bus_ok (fst (register key b))"
proof (rule bus_okI, goal_cases)
  case 1
  show ?case using bus_okD(1) [OF ok] by (simp add: register_def distinct_update)
next
  case (2 key' f)
  have "(length (b_cmds b), e) \<notin> set (b_ready b)" for e using bus_okD(3) [OF ok, of "length (b_cmds b)" e] by auto
  with 2 bus_okD(2) [OF ok, of key' f] show ?case
    by (auto simp: register_def update_conv' nth_append split: if_splits)
next
  case (3 f e)
  with bus_okD(3) [OF ok, of f e] show ?case by (simp add: register_def nth_append)
next
  case (4 c e)
  with bus_okD(4) [OF ok, of c e] show ?case by (auto simp: register_def)
qed

lemma set_state:
  assumes "c \<in> set (cs[f := (cs ! f)\<lparr>cm_state := st\<rparr>])"
  shows "c \<in> set cs \<or> f < length cs \<and> c = (cs ! f)\<lparr>cm_state := st\<rparr>"
proof (cases "f < length cs")
  case True
  with assms set_update_subset_insert [of cs f "(cs ! f)\<lparr>cm_state := st\<rparr>"] show ?thesis by auto
qed (use assms in \<open>simp add: list_update_beyond\<close>)

lemma key_state: "f < length cs \<Longrightarrow> cm_key (cs[g := (cs ! g)\<lparr>cm_state := st\<rparr>] ! f) = cm_key (cs ! f)"
  by (cases "f = g") simp_all

lemma set_state_ok:
  assumes ok: "bus_ok b" and st: "\<And>e. st = Resolved e \<Longrightarrow> f < length (b_cmds b) \<Longrightarrow> cm_key (b_cmds b ! f) = key_of e"
    and rd: "set rd \<subseteq> set (b_ready b)"
  shows "bus_ok (b\<lparr>b_ready := rd, b_cmds := (b_cmds b)[f := (b_cmds b ! f)\<lparr>cm_state := st\<rparr>]\<rparr>)"
proof (rule bus_okI, goal_cases)
  case 1
  show ?case using bus_okD(1) [OF ok] by simp
next
  case (2 key' g)
  with bus_okD(2) [OF ok, of key' g] rd show ?case by (auto simp: key_state)
next
  case (3 g e)
  with bus_okD(3) [OF ok, of g e] rd show ?case by (auto simp: key_state)
next
  case (4 c e)
  with bus_okD(4) [OF ok, of c e] st show ?case by (auto dest!: set_state)
qed

lemma run_ready_ok:
  assumes ok: "bus_ok b"
  shows "bus_ok (run_ready b)"
proof (cases "b_ready b")
  case (Cons r rest)
  obtain f e where r: "r = (f, e)" by force
  have "cm_key (b_cmds b ! f) = key_of e" using bus_okD(3) [OF ok, of f e] Cons r by simp
  then have "bus_ok (b\<lparr>b_ready := rest, b_cmds := (b_cmds b)[f := (b_cmds b ! f)\<lparr>cm_state := Resolved e\<rparr>]\<rparr>)"
    by (intro set_state_ok [OF ok]) (auto simp: Cons)
  moreover have "bus_ok (b\<lparr>b_ready := rest\<rparr>)"
    using ok unfolding bus_ok_def by (simp add: Cons)
  ultimately show ?thesis by (simp add: Cons r Let_def)
qed (use ok in simp)

lemma drain_ok: "bus_ok b \<Longrightarrow> bus_ok (drain n b)"
  by (induction n arbitrary: b) (simp_all add: run_ready_ok del: run_ready.simps)

lemma abandon_ok:
  assumes "bus_ok b"
  shows "bus_ok (b\<lparr>b_cmds := (b_cmds b)[f := (b_cmds b ! f)\<lparr>cm_state := Abandoned\<rparr>]\<rparr>)"
  using set_state_ok [OF assms, of Abandoned f "b_ready b"] by simp

lemma submit_end_ok: "bus_ok b \<Longrightarrow> bus_ok (fst (submit_end f b))"
  by (simp add: submit_end_def Let_def pop_key_ok abandon_ok split: fut.splits)

lemma submit_begin_ok:
  assumes "bus_ok b"
  shows "bus_ok (fst (snd (submit_begin lp k b et agg aid p actor caused corr ct)))"
  using register_ok [OF assms, of "(corr, ct)"]
  by (auto simp: submit_begin_def pop_key_ok dispatch_ok split: sum.splits prod.splits)

inductive bus_reach :: "bus \<Rightarrow> bool" where
  start: "bus_reach (empty_bus subs dsp)"
| submit: "bus_reach b \<Longrightarrow> bus_reach (fst (snd (submit_begin lp k b et agg aid p actor caused corr ct)))"
| event: "bus_reach b \<Longrightarrow> bus_reach (dispatch lp ev b)"
| answer: "bus_reach b \<Longrightarrow> bus_reach (fst (resolve_pending_command lp corr ct p agg aid ca i now b))"
| callback: "bus_reach b \<Longrightarrow> bus_reach (run_ready b)"
| finish: "bus_reach b \<Longrightarrow> bus_reach (fst (submit_end f b))"

lemma bus_reach_ok: "bus_reach b \<Longrightarrow> bus_ok b"
  by (induction rule: bus_reach.induct)
    (auto simp del: run_ready.simps intro: bus_ok_empty submit_begin_ok dispatch_ok resolve_pending_ok run_ready_ok submit_end_ok)

section \<open>Properties\<close>

lemma run_ready_other:
  assumes "b_ready b = (g, e) # rest" and "g \<noteq> f"
  shows "b_ready (run_ready b) = rest" "b_cmds (run_ready b) ! f = b_cmds b ! f"
    "b_pending (run_ready b) = b_pending b"
  using assms by (simp_all add: Let_def)

lemma drain_others:
  "b_ready b = xs @ ys \<Longrightarrow> \<forall>e. (f, e) \<notin> set xs \<Longrightarrow>
     b_ready (drain (length xs) b) = ys \<and> b_cmds (drain (length xs) b) ! f = b_cmds b ! f"
proof (induction xs arbitrary: b)
  case (Cons x xs)
  obtain g e where x: "x = (g, e)" by force
  with Cons.prems have r: "b_ready b = (g, e) # xs @ ys" and ne: "g \<noteq> f" by auto
  have "b_ready (run_ready b) = xs @ ys" by (rule run_ready_other(1) [OF r ne])
  from Cons.IH [OF this] Cons.prems(2) run_ready_other(2) [OF r ne] show ?case
    by (simp del: run_ready.simps)
qed simp

lemma drain_Suc: "drain (Suc n) b = run_ready (drain n b)"
  by (induction n arbitrary: b) (simp_all del: run_ready.simps)

lemma length_cmds_drain: "length (b_cmds (drain n b)) = length (b_cmds b)"
proof (induction n arbitrary: b)
  case (Suc n)
  have "length (b_cmds (run_ready b)) = length (b_cmds b)"
    by (simp add: Let_def split: list.splits)
  with Suc show ?case by (simp del: run_ready.simps)
qed simp

lemma answered:
  assumes "b_ready b = xs @ [(f, ev)]" and "\<forall>e. (f, e) \<notin> set xs" and "f < length (b_cmds b)"
    and "cm_state (b_cmds b ! f) = Waiting"
  shows "snd (submit_end f (drain (Suc (length xs)) b)) = ev_payload ev"
proof -
  from drain_others [OF assms(1,2)] have d: "b_ready (drain (length xs) b) = [(f, ev)]"
    "b_cmds (drain (length xs) b) ! f = b_cmds b ! f" by simp_all
  have "b_cmds (drain (Suc (length xs)) b) ! f = (b_cmds b ! f)\<lparr>cm_state := Resolved ev\<rparr>"
    unfolding drain_Suc using d assms(3,4) by (simp add: Let_def length_cmds_drain)
  then show ?thesis by (simp add: submit_end_def Let_def)
qed

text \<open>A command is only ever answered by its own completion: whatever is dispatched, refused,
  timed out or interleaved, a resolved future holds an event of the completion type its caller waits
  for, with the caller's correlation id.\<close>

lemma resolved_by_matching_event:
  assumes "bus_reach b" and "c \<in> set (b_cmds b)" and "cm_state c = Resolved e"
  shows "key_of e = cm_key c"
  using bus_okD(4) [OF bus_reach_ok [OF assms(1)] assms(2,3)] by simp

definition all_loops :: loops where
  "all_loops = \<lparr>lp_future = True, lp_thread = True, lp_dispatch = True\<rparr>"

definition sample_completion :: event where
  "sample_completion = create_event current_registry (new_event_id 7) 9 ''ChatCompleted'' ''chat'' ''c1''
     (Some [(''reply'', VStr ''hi'')]) ''system'' None (Some ''cmd_1'')"

definition sample_bus :: bus where
  "sample_bus = fst (snd (submit_begin all_loops (boot current_registry 5) (empty_bus [] True)
     ''ChatRequested'' ''chat'' ''c1'' [] ''user'' None ''cmd_1'' ''ChatCompleted''))"

lemma handler_chat_requested: "map_of handler_table ''ChatRequested'' = None"
  by code_simp

lemma sample_bus_fields:
  "bus_reach sample_bus" "b_cmds sample_bus = [\<lparr>cm_key = (''cmd_1'', ''ChatCompleted''), cm_state = Waiting\<rparr>]"
  "b_pending sample_bus = [((''cmd_1'', ''ChatCompleted''), 0)]" "b_ready sample_bus = []"
proof -
  show "bus_reach sample_bus" unfolding sample_bus_def by (intro bus_reach.submit bus_reach.start)
  let ?e = "create_event current_registry (new_event_id 0) 5 ''ChatRequested'' ''chat'' ''c1'' (Some []) ''user'' None (Some ''cmd_1'')"
  have own: "event_owner (with_seq 1 ?e) = None"
    using handler_chat_requested by (simp add: event_owner_def with_seq_def create_event_def)
  then have "apply_event empty_db (with_seq 1 ?e) = Inr empty_db" by (simp add: apply_event_def)
  then obtain k' where em: "emit_event (boot current_registry 5) ''ChatRequested'' ''chat'' ''c1'' [] ''user'' None (Some ''cmd_1'')
      = Inr (k', with_seq 1 ?e)"
    by (simp add: emit_event_def boot_def Let_def)
  have k: "key_of (with_seq 1 ?e) = (''cmd_1'', ''ChatRequested'')" by (simp add: key_of_def with_seq_def create_event_def)
  show "b_cmds sample_bus = [\<lparr>cm_key = (''cmd_1'', ''ChatCompleted''), cm_state = Waiting\<rparr>]"
    "b_pending sample_bus = [((''cmd_1'', ''ChatCompleted''), 0)]" "b_ready sample_bus = []"
    by (simp_all add: sample_bus_def submit_begin_def em register_def empty_bus_def dispatch_def settle_def
        schedule_dispatcher_def call_subscribers_def all_loops_def k)
qed

lemma sample_completion_key: "key_of sample_completion = (''cmd_1'', ''ChatCompleted'')"
  by (simp add: key_of_def sample_completion_def create_event_def)

text \<open>A waiting command is answered: when its completion event is dispatched before the timeout,
  from any thread and with any callbacks already queued, the caller gets that event's payload once
  the loop has run them.\<close>

lemma completion_reaches_waiter:
  assumes "bus_reach b" and "map_of (b_pending b) (key_of ev) = Some f" and "cm_state (b_cmds b ! f) = Waiting"
    and "can_resolve lp"
  shows "snd (submit_end f (drain (Suc (length (b_ready b))) (dispatch lp ev b))) = ev_payload ev"
proof -
  have ok: "bus_ok b" by (rule bus_reach_ok [OF assms(1)])
  let ?b = "dispatch lp ev b"
  have "b_ready ?b = b_ready b @ [(f, ev)]" "b_cmds ?b = b_cmds b"
    using assms(2-4)
    by (simp_all add: dispatch_def settle_def schedule_dispatcher_def call_subscribers_def resolve_future_def pop_key_def)
  with answered [of ?b "b_ready b" f ev] bus_okD(2) [OF ok assms(2)] assms(3) show ?thesis by simp
qed

text \<open>The answer of \<open>Scheduler._unblock_submit_command\<close> to a request that was refused.\<close>

definition answer_rejected :: "loops \<Rightarrow> event \<Rightarrow> string \<Rightarrow> time \<Rightarrow> bus \<Rightarrow> bus" where
  "answer_rejected lp ev i now b =
     (if ends_with ''Requested'' (ev_type ev)
      then fst (resolve_pending_command lp (case ev_corr ev of None \<Rightarrow> [] | Some c \<Rightarrow> c)
             (default_completion_type (ev_type ev))
             [(''status'', VStr ''error''), (''error'', VStr queue_full_error)]
             (if ev_agg_type ev = [] then ''command'' else ev_agg_type ev)
             (if ev_agg_id ev = [] then ''rejected'' else ev_agg_id ev) (Some (ev_id ev)) i now b)
      else b)"

text \<open>Backpressure reaches the caller: when the scheduler refuses a request whose submitter waits
  for the default completion, the submitter gets the error queue_full and does not run into its
  timeout.\<close>

lemma refused_request_answered:
  assumes "bus_reach b" and "ends_with ''Requested'' (ev_type ev)" and "ev_corr ev = Some corr" and "corr \<noteq> []"
    and "map_of (b_pending b) (corr, default_completion_type (ev_type ev)) = Some f"
    and "cm_state (b_cmds b ! f) = Waiting" and "can_resolve lp" and "default_completion_type (ev_type ev) \<noteq> []"
  shows "snd (submit_end f (drain (Suc (length (b_ready b))) (answer_rejected lp ev i now b))) =
    [(''status'', VStr ''error''), (''error'', VStr queue_full_error)]"
proof -
  have ok: "bus_ok b" by (rule bus_reach_ok [OF assms(1)])
  let ?e = "synthetic_event corr (default_completion_type (ev_type ev))
     [(''status'', VStr ''error''), (''error'', VStr queue_full_error)]
     (if ev_agg_type ev = [] then ''command'' else ev_agg_type ev)
     (if ev_agg_id ev = [] then ''rejected'' else ev_agg_id ev) (Some (ev_id ev)) i now"
  let ?b = "answer_rejected lp ev i now b"
  have "b_ready ?b = b_ready b @ [(f, ?e)]" "b_cmds ?b = b_cmds b"
    using assms(2-8) by (simp_all add: answer_rejected_def resolve_pending_command_def resolve_future_def pop_key_def)
  with answered [of ?b "b_ready b" f ?e] bus_okD(2) [OF ok assms(5)] assms(6)
  show ?thesis by (simp add: synthetic_event_def)
qed

text \<open>Two commands with the same correlation id and completion type disturb each other: when the
  first one ends, its clean-up removes the registration of the second, and the completion event the
  second waits for no longer reaches it.\<close>

lemma duplicate_command_loses_waiter:
  assumes "bus_reach b" and "register key b = (b1, f1)" and "register key b1 = (b2, f2)" and "key_of ev = key"
  shows "cm_state (b_cmds (dispatch lp ev (fst (submit_end f1 b2))) ! f2) = Waiting \<and>
    (\<forall>e. (f2, e) \<notin> set (b_ready (dispatch lp ev (fst (submit_end f1 b2)))))"
proof -
  have ok: "bus_ok b" by (rule bus_reach_ok [OF assms(1)])
  let ?n = "length (b_cmds b)"
  have rd: "(f, e) \<in> set (b_ready b) \<Longrightarrow> f < ?n" for f e using bus_okD(3) [OF ok] by blast
  have f: "f1 = ?n" "f2 = Suc ?n" "b_ready b2 = b_ready b"
    "b_cmds b2 = b_cmds b @ [\<lparr>cm_key = key, cm_state = Waiting\<rparr>, \<lparr>cm_key = key, cm_state = Waiting\<rparr>]"
    using assms(2,3) by (auto simp: register_def)
  let ?b = "fst (submit_end f1 b2)"
  have b: "map_of (b_pending ?b) key = None" "b_ready ?b = b_ready b" "length (b_cmds ?b) = Suc (Suc ?n)"
    "cm_state (b_cmds ?b ! Suc ?n) = Waiting"
    using f by (simp_all add: submit_end_def Let_def pop_key_pending nth_append)
  have "b_cmds (dispatch lp ev ?b) = b_cmds ?b" "b_ready (dispatch lp ev ?b) = b_ready b"
    using b(1,2) assms(4) by (simp_all add: dispatch_def settle_def schedule_dispatcher_def call_subscribers_def)
  with b f rd show ?thesis by fastforce
qed

end
