(* ===== verification/Queries.thy ===== *)
theory Queries
  imports Event_Dispatch "HOL-Library.Multiset"
begin

text \<open>
  The read models of \<open>kernel/query_builder.py\<close>: the unified query and the count of each projected
  table, with its filters, its allowed orders and the clamped limit.

  \<^item> A filter of the code's \<open>filters\<close> dict that is absent or \<open>None\<close> is \<open>None\<close>; \<open>limit\<close> absent is the
    default of the query.
  \<^item> \<open>ORDER BY\<close> compares as SQLite does: NULL, then numbers, then texts; instants are the ISO texts
    the code writes, which sort by time, and come before other texts here. Ties keep rowid order.
  \<^item> \<open>x < datetime('now', d)\<close> compares an ISO text with a text that has a blank instead of the T, so
    it is decided by the calendar day (\<open>day_before\<close>).
\<close>

section \<open>SQL values\<close>

type_synonym sql_key = "nat \<times> rat \<times> string"

fun sql_key :: "val \<Rightarrow> sql_key" where
  "sql_key VNull = (0, 0, [])"
| "sql_key (VBool b) = (1, if b then 1 else 0, [])"
| "sql_key (VInt n) = (1, of_int n, [])"
| "sql_key (VNum r) = (1, r, [])"
| "sql_key (VTime t) = (2, of_int t, [])"
| "sql_key (VStr s) = (3, 0, s)"
| "sql_key _ = (4, 0, [])"

datatype 'r order_item = Asc "'r \<Rightarrow> val" | Desc "'r \<Rightarrow> val"

fun order_by :: "'r order_item list \<Rightarrow> 'r list \<Rightarrow> 'r list" where
  "order_by [] xs = xs"
| "order_by (Asc f # os) xs = sort_key (\<lambda>r. sql_key (f r)) (order_by os xs)"
| "order_by (Desc f # os) xs = rev (sort_key (\<lambda>r. sql_key (f r)) (rev (order_by os xs)))"

text \<open>\<open>col = ?\<close>, \<open>col != ?\<close>, \<open>col < ?\<close> on a column that may be NULL.\<close>

definition eq_text :: "string option \<Rightarrow> val \<Rightarrow> bool" where
  "eq_text flt v \<longleftrightarrow> (case flt of None \<Rightarrow> True | Some s \<Rightarrow> v = VStr s)"

definition sql_less :: "val \<Rightarrow> val \<Rightarrow> bool" where
  "sql_less a b \<longleftrightarrow> a \<noteq> VNull \<and> b \<noteq> VNull \<and> sql_key a < sql_key b"

definition coalesce_val :: "val \<Rightarrow> val \<Rightarrow> val" where
  "coalesce_val a b = (if a = VNull then b else a)"

text \<open>\<open>LIKE\<close>: \<open>%\<close> for any text, \<open>_\<close> for any character, ASCII letters without case.\<close>

definition ascii_lower :: "char \<Rightarrow> char" where
  "ascii_lower c = (let n = (of_char c :: nat) in if 65 \<le> n \<and> n \<le> 90 then char_of (n + 32) else c)"

primrec like :: "string \<Rightarrow> string \<Rightarrow> bool" where
  "like [] s \<longleftrightarrow> s = []"
| "like (p # ps) s \<longleftrightarrow>
     (if p = CHR 0x25 then list_ex (\<lambda>i. like ps (drop i s)) [0 ..< Suc (length s)]
      else case s of [] \<Rightarrow> False | c # cs \<Rightarrow> (p = CHR 0x5F \<or> ascii_lower p = ascii_lower c) \<and> like ps cs)"

definition like_val :: "string \<Rightarrow> val \<Rightarrow> bool" where
  "like_val pat v = (case v of VStr s \<Rightarrow> like pat s | _ \<Rightarrow> False)"

definition contains_pattern :: "string \<Rightarrow> string" where
  "contains_pattern s = ''%'' @ s @ ''%''"

definition day_before :: "time \<Rightarrow> time \<Rightarrow> bool" where
  "day_before t cutoff \<longleftrightarrow> t div day_us < cutoff div day_us"

section \<open>Selecting\<close>

text \<open>\<open>_query_by_id\<close> (an empty id is falsy), else \<open>SELECT * ... WHERE ... ORDER BY ... LIMIT\<close>.\<close>

definition by_id :: "('r \<Rightarrow> string) \<Rightarrow> string \<Rightarrow> 'r list \<Rightarrow> 'r list" where
  "by_id key i t = (case sql_find key i t of None \<Rightarrow> [] | Some r \<Rightarrow> [r])"

definition given :: "string option \<Rightarrow> bool" where
  "given i \<longleftrightarrow> (case i of None \<Rightarrow> False | Some s \<Rightarrow> s \<noteq> [])"

definition select_rows :: "('r \<Rightarrow> string) \<Rightarrow> string option \<Rightarrow> ('r \<Rightarrow> bool) \<Rightarrow> 'r order_item list \<Rightarrow> nat option
    \<Rightarrow> 'r list \<Rightarrow> 'r list" where
  "select_rows key i cond os mx t =
     (if given i then by_id key (the i) t else take_opt mx (order_by os (filter cond t)))"

definition count_rows :: "('r \<Rightarrow> string) \<Rightarrow> string option \<Rightarrow> ('r \<Rightarrow> bool) \<Rightarrow> 'r list \<Rightarrow> nat" where
  "count_rows key i cond t =
     (if given i then length (filter (\<lambda>r. key r = the i) t) else length (filter cond t))"

lemma mset_order_by [simp]: "mset (order_by os xs) = mset xs"
  by (induction os xs rule: order_by.induct) simp_all

lemma set_order_by [simp]: "set (order_by os xs) = set xs"
  by (metis mset_order_by set_mset_mset)

lemma length_order_by [simp]: "length (order_by os xs) = length xs"
  by (metis mset_order_by size_mset)

lemma order_by_sorted:
  "os = Asc f # os' \<Longrightarrow> sorted (map (\<lambda>r. sql_key (f r)) (order_by os xs))"
  "os = Desc f # os' \<Longrightarrow> sorted (rev (map (\<lambda>r. sql_key (f r)) (order_by os xs)))"
  by (simp_all add: rev_map)

section \<open>Work items\<close>

record work_filter =
  wf_id :: "string option"
  wf_id_in :: "string list option"
  wf_status :: "string option"
  wf_status_in :: "string list option"
  wf_type :: "string option"
  wf_parent :: "string option"
  wf_root :: bool
  wf_depends :: "string option"
  wf_updated_since :: "time option"
  wf_has_deadline :: bool
  wf_idle_days :: "int option"
  wf_limit :: "int option"
  wf_order :: "string option"

definition all_work :: work_filter where
  "all_work = \<lparr>wf_id = None, wf_id_in = None, wf_status = None, wf_status_in = None, wf_type = None,
     wf_parent = None, wf_root = False, wf_depends = None, wf_updated_since = None, wf_has_deadline = False,
     wf_idle_days = None, wf_limit = None, wf_order = None\<rparr>"

definition work_where :: "time \<Rightarrow> work_filter \<Rightarrow> work_row \<Rightarrow> bool" where
  "work_where now f r \<longleftrightarrow>
     (case wf_status_in f of
        Some ss \<Rightarrow> (\<exists>s \<in> set ss. w_status r = VStr s)
      | None \<Rightarrow> eq_text (wf_status f) (w_status r)) \<and>
     eq_text (wf_type f) (w_work_type r) \<and> eq_text (wf_parent f) (w_parent r) \<and>
     (wf_root f \<longrightarrow> w_parent r = VNull) \<and>
     (case wf_depends f of None \<Rightarrow> True | Some s \<Rightarrow> like_val (contains_pattern s) (w_deps r)) \<and>
     (case wf_idle_days f of None \<Rightarrow> True
      | Some n \<Rightarrow> (case w_last_activity r of VTime t \<Rightarrow> day_before t (now - n * day_us) | _ \<Rightarrow> False)) \<and>
     (case wf_updated_since f of None \<Rightarrow> True | Some t \<Rightarrow> t \<le> w_updated_at r) \<and>
     (wf_has_deadline f \<longrightarrow> w_deadline r \<noteq> VNull)"

definition work_orders :: "(string \<times> work_row order_item list) list" where
  "work_orders =
     [(''created_at_asc'', [Asc w_created_at]), (''created_at_desc'', [Desc w_created_at]),
      (''priority_desc'', [Desc w_priority, Asc w_created_at]),
      (''importance_desc'', [Desc w_importance, Desc w_created_at]),
      (''importance_urgency_desc'', [Desc w_importance, Desc w_urgency]),
      (''last_activity_asc'', [Asc w_last_activity]), (''importance_desc_only'', [Desc w_importance])]"

definition work_order :: "work_filter \<Rightarrow> work_row order_item list" where
  "work_order f = safe_order (wf_order f) work_orders [Asc w_created_at]"

definition query_work_items :: "kernel \<Rightarrow> work_filter \<Rightarrow> work_row list" where
  "query_work_items k f =
     (let t = t_work_items (k_db k) in
      if given (wf_id f) then by_id w_id (the (wf_id f)) t
      else case wf_id_in f of
        Some ids \<Rightarrow> (let unique = remdups (filter (\<lambda>i. i \<noteq> []) ids) in
           if unique = [] then [] else filter (\<lambda>r. w_id r \<in> set unique) t)
      | None \<Rightarrow> select_rows w_id None (work_where (k_now k) f) (work_order f) (safe_limit (wf_limit f) (Some 50)) t)"

definition count_work_items :: "kernel \<Rightarrow> work_filter \<Rightarrow> nat" where
  "count_work_items k f =
     (let t = t_work_items (k_db k) in
      if given (wf_id f) then count_rows w_id (wf_id f) (\<lambda>r. True) t
      else case wf_id_in f of
        Some ids \<Rightarrow> (let unique = remdups (filter (\<lambda>i. i \<noteq> []) ids) in
           if unique = [] then 0 else length (filter (\<lambda>r. w_id r \<in> set unique) t))
      | None \<Rightarrow> count_rows w_id None (work_where (k_now k) f) t)"

section \<open>Approvals\<close>

definition approval_where :: "string option \<Rightarrow> approval_row \<Rightarrow> bool" where
  "approval_where status r \<longleftrightarrow> opt_eq status (ap_status r)"

definition query_approvals :: "kernel \<Rightarrow> string option \<Rightarrow> string option \<Rightarrow> int option \<Rightarrow> approval_row list" where
  "query_approvals k i status mx =
     select_rows ap_id i (approval_where status) [Desc (\<lambda>r. VTime (ap_created_at r))] (safe_limit mx (Some 50))
       (t_approvals (k_db k))"

definition count_approvals :: "kernel \<Rightarrow> string option \<Rightarrow> string option \<Rightarrow> nat" where
  "count_approvals k i status = count_rows ap_id i (approval_where status) (t_approvals (k_db k))"

section \<open>Memories\<close>

record memory_filter =
  mf_category :: "string option"
  mf_origin :: "string option"
  mf_source :: "string option"
  mf_claim :: "string option"
  mf_above :: "rat option"
  mf_below :: "rat option"
  mf_decay :: bool
  mf_created_lte :: "time option"

definition memory_where :: "time \<Rightarrow> memory_filter \<Rightarrow> memory_row \<Rightarrow> bool" where
  "memory_where now f r \<longleftrightarrow>
     eq_text (mf_category f) (m_category r) \<and> opt_eq (mf_origin f) (m_origin r) \<and>
     eq_text (mf_source f) (m_source r) \<and>
     (case mf_claim f of None \<Rightarrow> True | Some s \<Rightarrow> m_claim_status r = Some s) \<and>
     (case mf_above f of None \<Rightarrow> True | Some x \<Rightarrow> sql_less (VNum x) (m_confidence r)) \<and>
     (case mf_below f of None \<Rightarrow> True | Some x \<Rightarrow> sql_less (m_confidence r) (VNum x)) \<and>
     (mf_decay f \<longrightarrow> (case m_decayed_at r of None \<Rightarrow> True | Some t \<Rightarrow> day_before t (now - 7 * day_us))) \<and>
     (case mf_created_lte f of None \<Rightarrow> True | Some t \<Rightarrow> m_created_at r \<le> t)"

definition memory_orders :: "(string \<times> memory_row order_item list) list" where
  "memory_orders =
     (let created = (\<lambda>r. VTime (m_created_at r)) in
      [(''confidence_desc'', [Desc m_confidence, Desc created]), (''created_at_desc'', [Desc created]),
       (''created_desc'', [Desc created]), (''created_at_asc'', [Asc created]), (''created_asc'', [Asc created])])"

definition memory_order :: "string option \<Rightarrow> memory_row order_item list" where
  "memory_order order = safe_order order memory_orders [Desc m_confidence, Desc (\<lambda>r. VTime (m_created_at r))]"

definition query_memories :: "kernel \<Rightarrow> string option \<Rightarrow> memory_filter \<Rightarrow> string option \<Rightarrow> int option \<Rightarrow> memory_row list" where
  "query_memories k i f order mx =
     select_rows m_id i (memory_where (k_now k) f) (memory_order order) (safe_limit mx (Some 50)) (t_memories (k_db k))"

definition count_memories :: "kernel \<Rightarrow> string option \<Rightarrow> memory_filter \<Rightarrow> nat" where
  "count_memories k i f = count_rows m_id i (memory_where (k_now k) f) (t_memories (k_db k))"

section \<open>Notifications\<close>

record notification_filter =
  nf_type :: "string option"
  nf_title :: "string option"
  nf_unread :: bool
  nf_on_day :: "time option"
  nf_related :: "string option"
  nf_kind :: "string option"
  nf_dedup :: "string option"

definition notification_where :: "notification_filter \<Rightarrow> notification_row \<Rightarrow> bool" where
  "notification_where f r \<longleftrightarrow>
     eq_text (nf_type f) (n_type r) \<and> eq_text (nf_title f) (n_title r) \<and> (nf_unread f \<longrightarrow> \<not> n_read r) \<and>
     (case nf_on_day f of None \<Rightarrow> True
      | Some d \<Rightarrow> (case n_created_at r of VTime t \<Rightarrow> t div day_us = d div day_us | _ \<Rightarrow> False)) \<and>
     eq_text (nf_related f) (n_related_id r) \<and> eq_text (nf_kind f) (n_notification_type r) \<and>
     eq_text (nf_dedup f) (n_dedup_key r)"

definition notification_order :: "string option \<Rightarrow> notification_row order_item list" where
  "notification_order order = safe_order order
     [(''created_at_desc'', [Desc n_created_at]), (''created_at_asc'', [Asc n_created_at])] [Desc n_created_at]"

definition query_notifications ::
  "kernel \<Rightarrow> string option \<Rightarrow> notification_filter \<Rightarrow> string option \<Rightarrow> int option \<Rightarrow> notification_row list" where
  "query_notifications k i f order mx =
     select_rows n_id i (notification_where f) (notification_order order) (safe_limit mx (Some 50))
       (t_notifications (k_db k))"

definition count_notifications :: "kernel \<Rightarrow> string option \<Rightarrow> notification_filter \<Rightarrow> nat" where
  "count_notifications k i f = count_rows n_id i (notification_where f) (t_notifications (k_db k))"

section \<open>Conversations and messages\<close>

definition conversation_order :: "string option \<Rightarrow> conversation_row order_item list" where
  "conversation_order order =
     (let updated = (\<lambda>r. VTime (cv_updated_at r)) in
      safe_order order [(''created_at_desc'', [Desc updated]), (''created_at_asc'', [Asc cv_created_at]),
        (''updated_at_desc'', [Desc updated])] [Asc cv_created_at])"

text \<open>An absent order is \<open>created_at_desc\<close>, which sorts by \<open>updated_at\<close>.\<close>

definition query_conversations :: "kernel \<Rightarrow> string option \<Rightarrow> string option \<Rightarrow> int option \<Rightarrow> conversation_row list" where
  "query_conversations k i order mx =
     select_rows cv_id i (\<lambda>r. True)
       (conversation_order (Some (case order of None \<Rightarrow> ''created_at_desc'' | Some x \<Rightarrow> x)))
       (safe_limit mx (Some 50)) (t_conversations (k_db k))"

definition message_order :: "string option \<Rightarrow> message_row order_item list" where
  "message_order order = safe_order order
     [(''created_at_desc'', [Desc ms_created_at]), (''created_at_asc'', [Asc ms_created_at])] [Desc ms_created_at]"

definition query_messages :: "kernel \<Rightarrow> string option \<Rightarrow> string option \<Rightarrow> string option \<Rightarrow> int option \<Rightarrow> message_row list" where
  "query_messages k i conv order mx =
     (if \<not> given i \<and> \<not> given conv then []
      else select_rows ms_id i (\<lambda>r. Some (ms_conv r) = conv) (message_order order) (safe_limit mx (Some 20))
        (t_messages (k_db k)))"

section \<open>Inbox, timers, policies, profile\<close>

record inbox_filter =
  if_status :: "string option"
  if_status_not :: "string option"
  if_category :: "string option"
  if_digested :: "bool option"
  if_notified :: "bool option"
  if_search :: "string option"

definition inbox_where :: "inbox_filter \<Rightarrow> inbox_row \<Rightarrow> bool" where
  "inbox_where f r \<longleftrightarrow>
     eq_text (if_status f) (coalesce_val (ie_status r) (VStr ''pending'')) \<and>
     (case if_status_not f of None \<Rightarrow> True | Some s \<Rightarrow> ie_status r \<noteq> VNull \<and> ie_status r \<noteq> VStr s) \<and>
     eq_text (if_category f) (ie_category r) \<and>
     (case if_digested f of None \<Rightarrow> True | Some b \<Rightarrow> ie_digested r = b) \<and>
     (case if_notified f of None \<Rightarrow> True | Some b \<Rightarrow> ie_notified r = b) \<and>
     (case if_search f of None \<Rightarrow> True
      | Some s \<Rightarrow> s = [] \<or> list_ex (like_val (contains_pattern s)) [ie_subject r, ie_sender r, ie_preview r])"

definition inbox_order :: "string option \<Rightarrow> inbox_row order_item list" where
  "inbox_order order =
     (let received = (\<lambda>r. coalesce_val (ie_received_at r) (ie_created_at r)) in
      safe_order order [(''date_desc'', [Desc received]), (''date_asc'', [Asc received]),
        (''created_at_desc'', [Desc ie_created_at]), (''importance_desc'', [Desc ie_importance, Desc received])]
        [Desc received])"

definition query_inbox_emails :: "kernel \<Rightarrow> string option \<Rightarrow> inbox_filter \<Rightarrow> string option \<Rightarrow> int option \<Rightarrow> inbox_row list" where
  "query_inbox_emails k i f order mx =
     select_rows ie_id i (inbox_where f) (inbox_order order) (safe_limit mx (Some 20)) (t_inbox_emails (k_db k))"

definition count_inbox_emails :: "kernel \<Rightarrow> string option \<Rightarrow> inbox_filter \<Rightarrow> nat" where
  "count_inbox_emails k i f = count_rows ie_id i (inbox_where f) (t_inbox_emails (k_db k))"

text \<open>\<open>fire_at <= ? AND fire_at != ''\<close>: the empty text is the only text before every instant.\<close>

definition timer_where :: "string option \<Rightarrow> time option \<Rightarrow> timer_row \<Rightarrow> bool" where
  "timer_where status fire_at_lt r \<longleftrightarrow> opt_eq status (tm_status r) \<and>
     (case fire_at_lt of None \<Rightarrow> True | Some t \<Rightarrow> (case tm_fire_at r of VTime x \<Rightarrow> x \<le> t | _ \<Rightarrow> False))"

definition query_timer_events :: "kernel \<Rightarrow> string option \<Rightarrow> string option \<Rightarrow> time option \<Rightarrow> int option \<Rightarrow> timer_row list" where
  "query_timer_events k i status fire_at_lt mx =
     select_rows tm_id i (timer_where status fire_at_lt) [Asc tm_fire_at] (safe_limit mx (Some 50))
       (t_timer_events (k_db k))"

definition count_timer_events :: "kernel \<Rightarrow> string option \<Rightarrow> string option \<Rightarrow> time option \<Rightarrow> nat" where
  "count_timer_events k i status fire_at_lt = count_rows tm_id i (timer_where status fire_at_lt) (t_timer_events (k_db k))"

definition policy_where :: "string option \<Rightarrow> string option \<Rightarrow> policy_row \<Rightarrow> bool" where
  "policy_where capability status r \<longleftrightarrow> eq_text capability (po_capability r) \<and> opt_eq status (po_status r)"

definition query_policy_events :: "kernel \<Rightarrow> string option \<Rightarrow> string option \<Rightarrow> int option \<Rightarrow> policy_row list" where
  "query_policy_events k capability status mx =
     select_rows po_id None (policy_where capability status) [Asc po_capability] (safe_limit mx (Some 200))
       (t_policy_events (k_db k))"

definition count_policy_events :: "kernel \<Rightarrow> string option \<Rightarrow> string option \<Rightarrow> nat" where
  "count_policy_events k capability status = count_rows po_id None (policy_where capability status) (t_policy_events (k_db k))"

definition query_user_profile :: "kernel \<Rightarrow> string option \<Rightarrow> int option \<Rightarrow> profile_row list" where
  "query_user_profile k category mx =
     select_rows pr_id category (\<lambda>r. True) [Asc (\<lambda>r. VStr (pr_id r))] (safe_limit mx None) (t_user_profile (k_db k))"

lemma length_filter_key:
  "distinct (map key xs) \<Longrightarrow>
     length (filter (\<lambda>r. key r = i) xs) = (case sql_find key i xs of None \<Rightarrow> 0 | Some r \<Rightarrow> 1)"
proof (induction xs)
  case (Cons x xs)
  show ?case
  proof (cases "key x = i")
    case True
    have "key y \<noteq> i" if "y \<in> set xs" for y using imageI [OF that, of key] Cons.prems True by auto
    then have "filter (\<lambda>r. key r = i) xs = []" by (simp add: filter_empty_conv)
    with True show ?thesis by (simp add: sql_find_def)
  next
    case False
    with Cons show ?thesis by (simp add: sql_find_def)
  qed
qed (simp add: sql_find_def)

section \<open>What every listing promises\<close>

text \<open>A listing: the rows of a table keyed by \<open>key\<close>, a condition, an order and a limit.\<close>

locale listing =
  fixes rows :: "kernel \<Rightarrow> 'r list" and key :: "'r \<Rightarrow> string" and cond :: "kernel \<Rightarrow> 'f \<Rightarrow> 'r \<Rightarrow> bool"
    and query :: "kernel \<Rightarrow> string option \<Rightarrow> 'f \<Rightarrow> 'o \<Rightarrow> int option \<Rightarrow> 'r list"
    and count :: "kernel \<Rightarrow> string option \<Rightarrow> 'f \<Rightarrow> nat" and ord :: "'o \<Rightarrow> 'r order_item list" and dflt :: int
  assumes query_select: "query k i f os mx = select_rows key i (cond k f) (ord os) (safe_limit mx (Some dflt)) (rows k)"
    and count_select: "count k i f = count_rows key i (cond k f) (rows k)"
    and keyed_rows: "kernel_ok k \<Longrightarrow> keyed key (rows k)"
    and default_limit: "0 \<le> dflt" "dflt \<le> max_limit"
begin

lemma clamp: "safe_limit mx (Some dflt) = Some (nat (max 0 (min max_limit (case mx of None \<Rightarrow> dflt | Some n \<Rightarrow> n))))"
  using default_limit by (auto simp: safe_limit_def max_limit_def split: option.splits)

lemma listed_rows_match:
  assumes "r \<in> set (query k i f os mx)"
  shows "r \<in> set (rows k) \<and> (if given i then key r = the i else cond k f r)"
proof (cases "given i")
  case True
  with assms have "sql_find key (the i) (rows k) = Some r"
    by (auto simp: query_select select_rows_def by_id_def split: option.splits)
  with True sql_find_in [OF this] sql_find_key [OF this] show ?thesis by simp
next
  case False
  with assms set_take_opt [of "safe_limit mx (Some dflt)" "order_by (ord os) (filter (cond k f) (rows k))"]
  show ?thesis by (auto simp: query_select select_rows_def)
qed

lemma at_most_the_limit: "length (query k i f os mx) \<le> 5000"
  using safe_limit_bound [of mx "Some dflt"]
  by (auto simp: query_select select_rows_def by_id_def take_opt_def clamp max_limit_def split: option.splits)

text \<open>The count is the length of the listing, as long as the limit does not cut it.\<close>

lemma count_is_length:
  assumes "kernel_ok k" and "count k i f \<le> nat (max 0 (min max_limit (case mx of None \<Rightarrow> dflt | Some n \<Rightarrow> n)))"
  shows "length (query k i f os mx) = count k i f"
proof (cases "given i")
  case False
  with assms(2) show ?thesis
    by (simp add: query_select count_select select_rows_def count_rows_def clamp take_opt_def)
next
  case True
  have d: "distinct (map key (rows k))" using keyed_rows [OF assms(1)] by (simp add: keyed_def)
  have "length (filter (\<lambda>r. key r = the i) (rows k)) = (case sql_find key (the i) (rows k) of None \<Rightarrow> 0 | Some r \<Rightarrow> 1)"
    by (rule length_filter_key [OF d])
  with True show ?thesis
    by (simp add: query_select count_select select_rows_def count_rows_def by_id_def split: option.splits)
qed

end

section \<open>The listings of the code\<close>

lemma keyed_tables:
  "kernel_ok k \<Longrightarrow> keyed ap_id (t_approvals (k_db k))" "kernel_ok k \<Longrightarrow> keyed m_id (t_memories (k_db k))"
  "kernel_ok k \<Longrightarrow> keyed n_id (t_notifications (k_db k))" "kernel_ok k \<Longrightarrow> keyed ie_id (t_inbox_emails (k_db k))"
  "kernel_ok k \<Longrightarrow> keyed tm_id (t_timer_events (k_db k))" "kernel_ok k \<Longrightarrow> keyed po_id (t_policy_events (k_db k))"
  "kernel_ok k \<Longrightarrow> keyed w_id (t_work_items (k_db k))"
  using kernel_db_ok [of k] by (simp_all add: db_ok_def db_keyed_def)

interpretation approvals: listing "\<lambda>k. t_approvals (k_db k)" ap_id "\<lambda>k. approval_where"
    "\<lambda>k i f (u :: unit) mx. query_approvals k i f mx" count_approvals "\<lambda>u. [Desc (\<lambda>r. VTime (ap_created_at r))]" 50
  by unfold_locales (simp_all add: query_approvals_def count_approvals_def keyed_tables max_limit_def)

interpretation memories: listing "\<lambda>k. t_memories (k_db k)" m_id "\<lambda>k. memory_where (k_now k)"
    query_memories count_memories memory_order 50
  by unfold_locales (simp_all add: query_memories_def count_memories_def keyed_tables max_limit_def)

interpretation notifications: listing "\<lambda>k. t_notifications (k_db k)" n_id "\<lambda>k. notification_where"
    query_notifications count_notifications notification_order 50
  by unfold_locales (simp_all add: query_notifications_def count_notifications_def keyed_tables max_limit_def)

interpretation inbox: listing "\<lambda>k. t_inbox_emails (k_db k)" ie_id "\<lambda>k. inbox_where"
    query_inbox_emails count_inbox_emails inbox_order 20
  by unfold_locales (simp_all add: query_inbox_emails_def count_inbox_emails_def keyed_tables max_limit_def)

interpretation timers: listing "\<lambda>k. t_timer_events (k_db k)" tm_id "\<lambda>k (s, x). timer_where s x"
    "\<lambda>k i (s, x) (u :: unit) mx. query_timer_events k i s x mx" "\<lambda>k i (s, x). count_timer_events k i s x"
    "\<lambda>u. [Asc tm_fire_at]" 50
  by unfold_locales (auto simp: query_timer_events_def count_timer_events_def keyed_tables max_limit_def)

interpretation policies: listing "\<lambda>k. t_policy_events (k_db k)" po_id "\<lambda>k (c, s). policy_where c s"
    "\<lambda>k i (c, s) (u :: unit) mx. if given i then by_id po_id (the i) (t_policy_events (k_db k))
       else query_policy_events k c s mx"
    "\<lambda>k i (c, s). if given i then count_rows po_id i (\<lambda>r. True) (t_policy_events (k_db k)) else count_policy_events k c s"
    "\<lambda>u. [Asc po_capability]" 200
  by unfold_locales (auto simp: query_policy_events_def count_policy_events_def select_rows_def count_rows_def
      given_def keyed_tables max_limit_def)

text \<open>The work items, without the explicit list of ids (which no limit applies to).\<close>

interpretation works: listing "\<lambda>k. t_work_items (k_db k)" w_id "\<lambda>k. work_where (k_now k)"
    "\<lambda>k i f os mx. query_work_items k (f\<lparr>wf_id := i, wf_id_in := None, wf_order := os, wf_limit := mx\<rparr>)"
    "\<lambda>k i f. count_work_items k (f\<lparr>wf_id := i, wf_id_in := None\<rparr>)"
    "\<lambda>os. safe_order os work_orders [Asc w_created_at]" 50
proof (unfold_locales, goal_cases)
  case (1 k i f os mx)
  have "work_where (k_now k) (f\<lparr>wf_id := i, wf_id_in := None, wf_order := os, wf_limit := mx\<rparr>) = work_where (k_now k) f"
    by (rule ext, cases "wf_status_in f") (simp_all add: work_where_def)
  then show ?case by (simp add: query_work_items_def Let_def select_rows_def work_order_def given_def)
next
  case (2 k i f)
  have "work_where (k_now k) (f\<lparr>wf_id := i, wf_id_in := None\<rparr>) = work_where (k_now k) f"
    by (rule ext, cases "wf_status_in f") (simp_all add: work_where_def)
  then show ?case by (simp add: count_work_items_def Let_def count_rows_def given_def)
qed (simp_all add: keyed_tables max_limit_def)

section \<open>Properties\<close>

text \<open>A listing of memories holds only stored memories that satisfy every filter, is never longer
  than the hard limit, and is ordered by confidence when that order is asked for.\<close>

lemma memory_listing_sound:
  "set (query_memories k None f order mx) \<subseteq> {r \<in> set (t_memories (k_db k)). memory_where (k_now k) f r} \<and>
   length (query_memories k None f order mx) \<le> 5000 \<and>
   sorted (rev (map (\<lambda>r. sql_key (m_confidence r)) (query_memories k None f (Some ''confidence_desc'') mx)))"
proof -
  have o': "memory_order (Some ''confidence_desc'') = [Desc m_confidence, Desc (\<lambda>r. VTime (m_created_at r))]"
    by (simp add: memory_order_def memory_orders_def safe_order_def Let_def)
  have S: "sorted (rev (map (\<lambda>r. sql_key (m_confidence r)) (take_opt n (order_by (memory_order (Some ''confidence_desc'')) xs))))"
    for n xs
  proof (cases n)
    case None
    then show ?thesis using order_by_sorted(2) [OF o', of xs] by (simp add: take_opt_def)
  next
    case (Some m)
    let ?L = "map (\<lambda>r. sql_key (m_confidence r)) (order_by (memory_order (Some ''confidence_desc'')) xs)"
    have "sorted (drop (length ?L - m) (rev ?L))" by (rule sorted_wrt_drop) (rule order_by_sorted(2) [OF o'])
    then show ?thesis using Some by (simp only: take_opt_def option.case take_map [symmetric] rev_take)
  qed
  have M: "r \<in> set (t_memories (k_db k)) \<and> memory_where (k_now k) f r"
    if "r \<in> set (query_memories k None f order mx)" for r
    using memories.listed_rows_match [OF that] by (simp add: given_def)
  have L: "length (query_memories k None f order mx) \<le> 5000" by (rule memories.at_most_the_limit)
  have "query_memories k None f (Some ''confidence_desc'') mx = take_opt (safe_limit mx (Some 50))
      (order_by (memory_order (Some ''confidence_desc'')) (filter (memory_where (k_now k) f) (t_memories (k_db k))))"
    by (simp add: query_memories_def select_rows_def given_def)
  then have "sorted (rev (map (\<lambda>r. sql_key (m_confidence r)) (query_memories k None f (Some ''confidence_desc'') mx)))"
    by (simp only: S)
  with M L show ?thesis by blast
qed

text \<open>The count of work items agrees with the listing whenever the limit does not cut it, for
  every filter and order.\<close>

lemma work_count_is_length:
  assumes "kernel_reach reg k" and "wf_id_in f = None" and "wf_limit f = Some n"
    and "count_work_items k f \<le> nat (max 0 (min 5000 n))"
  shows "length (query_work_items k f) = count_work_items k f"
proof -
  have f: "f\<lparr>wf_id := wf_id f, wf_id_in := None, wf_order := wf_order f, wf_limit := Some n\<rparr> = f"
    "f\<lparr>wf_id := wf_id f, wf_id_in := None\<rparr> = f" "f\<lparr>wf_limit := Some n\<rparr> = f"
    using assms(2,3) by simp_all
  from works.count_is_length [OF kernel_reach_ok [OF assms(1)], of "wf_id f" f "Some n" "wf_order f"] assms(4)
  show ?thesis unfolding f by (simp add: max_limit_def f)
qed

lemma like_any: "like (CHR 0x25 # ps) s \<longleftrightarrow> (\<exists>a b. s = a @ b \<and> like ps b)"
proof
  assume "like (CHR 0x25 # ps) s"
  then obtain i where "like ps (drop i s)" by (auto simp: list_ex_iff simp del: upt_Suc)
  then show "\<exists>a b. s = a @ b \<and> like ps b" by (metis append_take_drop_id)
next
  assume "\<exists>a b. s = a @ b \<and> like ps b"
  then obtain a b where "s = a @ b" "like ps b" by blast
  then show "like (CHR 0x25 # ps) s" by (auto simp: list_ex_iff simp del: upt_Suc intro!: bexI [of _ "length a"])
qed

lemma like_literal:
  "CHR 0x25 \<notin> set p \<Longrightarrow> CHR 0x5F \<notin> set p \<Longrightarrow>
     like (p @ [CHR 0x25]) s \<longleftrightarrow> (\<exists>m b. s = m @ b \<and> map ascii_lower m = map ascii_lower p)"
proof (induction p arbitrary: s)
  case Nil
  show ?case by (simp only: append_Nil like_any) auto
next
  case (Cons c p)
  show ?case
  proof (cases s)
    case Nil
    with Cons.prems show ?thesis by auto
  next
    case s: (Cons x xs)
    have "like ((c # p) @ [CHR 0x25]) s \<longleftrightarrow>
        ascii_lower c = ascii_lower x \<and> (\<exists>m b. xs = m @ b \<and> map ascii_lower m = map ascii_lower p)"
      using Cons.prems Cons.IH [of xs] by (auto simp: s)
    also have "\<dots> \<longleftrightarrow> (\<exists>m b. s = m @ b \<and> map ascii_lower m = map ascii_lower (c # p))"
    proof
      assume "ascii_lower c = ascii_lower x \<and> (\<exists>m b. xs = m @ b \<and> map ascii_lower m = map ascii_lower p)"
      then obtain m b where "ascii_lower c = ascii_lower x" "xs = m @ b" "map ascii_lower m = map ascii_lower p" by blast
      then have "s = (x # m) @ b \<and> map ascii_lower (x # m) = map ascii_lower (c # p)" by (simp add: s)
      then show "\<exists>m b. s = m @ b \<and> map ascii_lower m = map ascii_lower (c # p)" by blast
    qed (auto simp: s Cons_eq_append_conv)
    finally show ?thesis .
  qed
qed

text \<open>The search of the inbox is a substring search without regard to ASCII case, for a term
  without the wildcards of \<open>LIKE\<close>: the pattern matches exactly the texts that contain it.\<close>

lemma search_is_substring:
  assumes "CHR 0x25 \<notin> set term" and "CHR 0x5F \<notin> set term"
  shows "like_val (contains_pattern term) (VStr text) \<longleftrightarrow>
    (\<exists>a m b. text = a @ m @ b \<and> map ascii_lower m = map ascii_lower term)"
  by (simp add: like_val_def contains_pattern_def like_any like_literal [OF assms] del: like.simps) blast

end
