(* ===== verification/Emissions.thy ===== *)
theory Emissions
  imports Queries
begin

text \<open>
  What a kernel write does, for the operations that emit events of an aggregate with a projector: the
  event is logged and exactly the table its projector owns changes. An event type without a projector
  changes no table.
\<close>

definition next_event :: "kernel \<Rightarrow> string \<Rightarrow> string \<Rightarrow> string \<Rightarrow> dict \<Rightarrow> string \<Rightarrow> string option \<Rightarrow> string option \<Rightarrow> event" where
  "next_event k et agg aid p actor caused corr =
     with_seq (k_seq k + 1) (create_event (k_reg k) (new_event_id (k_fresh k)) (k_now k) et agg aid (Some p) actor caused corr)"

lemma next_event_fields [simp]:
  "ev_type (next_event k et agg aid p actor caused corr) = et"
  "ev_agg_type (next_event k et agg aid p actor caused corr) = agg"
  "ev_agg_id (next_event k et agg aid p actor caused corr) = aid"
  "ev_ts (next_event k et agg aid p actor caused corr) = k_now k"
  "ev_actor (next_event k et agg aid p actor caused corr) = actor"
  "ev_corr (next_event k et agg aid p actor caused corr) = corr"
  "ev_caused_by (next_event k et agg aid p actor caused corr) = caused"
  "ev_payload (next_event k et agg aid p actor caused corr) = stamp_event_payload (k_reg k) et (Some p)"
  by (simp_all add: next_event_def with_seq_def create_event_def)

definition logged :: "kernel \<Rightarrow> event \<Rightarrow> kernel \<Rightarrow> bool" where
  "logged k ev k' \<longleftrightarrow> kernel_ok k' \<and> k_events k' = k_events k @ [ev] \<and> k_now k' = k_now k \<and> k_reg k' = k_reg k \<and>
     k_seq k' = k_seq k + 1"

lemma loggedD:
  "logged k ev k' \<Longrightarrow> kernel_ok k'" "logged k ev k' \<Longrightarrow> k_now k' = k_now k"
  "logged k ev k' \<Longrightarrow> k_events k' = k_events k @ [ev]" "logged k ev k' \<Longrightarrow> k_reg k' = k_reg k"
  by (simp_all add: logged_def)

lemma emit_applied:
  assumes ok: "kernel_ok k" and routed: "well_routed (next_event k et agg aid p actor caused corr)"
    and ap: "apply_event (k_db k) (next_event k et agg aid p actor caused corr) = Inr d"
  shows "\<exists>k'. emit_event k et agg aid p actor caused corr = Inr (k', next_event k et agg aid p actor caused corr) \<and>
    k_db k' = d \<and> logged k (next_event k et agg aid p actor caused corr) k'"
proof -
  let ?e = "next_event k et agg aid p actor caused corr"
  have fresh: "new_event_id (k_fresh k) \<notin> lr_id ` set (k_log k)" using ok by (auto simp: kernel_ok_def)
  obtain k' where em: "emit_event k et agg aid p actor caused corr = Inr (k', ?e)"
    and k': "k_db k' = d" "k_now k' = k_now k" "k_seq k' = k_seq k + 1" "k_reg k' = k_reg k"
    using ap fresh by (simp add: emit_event_def Let_def next_event_def create_event_def)
  from emitted_row [OF em] have "k_events k' = k_events k @ [?e]" by (auto simp: k_events_def)
  with emit_event_ok [OF ok em routed] em k' show ?thesis by (auto simp: logged_def)
qed

lemma emit_fails:
  assumes ok: "kernel_ok k" and "apply_event (k_db k) (next_event k et agg aid p actor caused corr) = Inl e"
  shows "emit_event k et agg aid p actor caused corr = Inl e"
proof -
  have fresh: "new_event_id (k_fresh k) \<notin> lr_id ` set (k_log k)" using ok by (auto simp: kernel_ok_def)
  with assms(2) show ?thesis by (simp add: emit_event_def Let_def next_event_def create_event_def)
qed

lemma emit_unprojected:
  assumes ok: "kernel_ok k" and et: "map_of handler_table et = None"
  shows "\<exists>k'. emit_event k et agg aid p actor caused corr = Inr (k', next_event k et agg aid p actor caused corr) \<and>
    k_db k' = k_db k \<and> logged k (next_event k et agg aid p actor caused corr) k'"
proof (rule emit_applied [OF ok])
  have own: "event_owner (next_event k et agg aid p actor caused corr) = None" using et by (simp add: event_owner_def)
  then show "apply_event (k_db k) (next_event k et agg aid p actor caused corr) = Inr (k_db k)"
    by (simp add: apply_event_def)
  from own show "well_routed (next_event k et agg aid p actor caused corr)" by (simp add: well_routed_def)
qed

lemma emit_owned:
  assumes ok: "kernel_ok k" and et: "map_of handler_table et = Some a" and agg: "agg = agg_name a"
    and pr: "run_projector a (next_event k et agg aid p actor caused corr) (k_db k) = Inr d"
  shows "\<exists>k'. emit_event k et agg aid p actor caused corr = Inr (k', next_event k et agg aid p actor caused corr) \<and>
    k_db k' = d \<and> logged k (next_event k et agg aid p actor caused corr) k'"
proof (rule emit_applied [OF ok])
  have own: "event_owner (next_event k et agg aid p actor caused corr) = Some a" using et by (simp add: event_owner_def)
  with pr show "apply_event (k_db k) (next_event k et agg aid p actor caused corr) = Inr d"
    by (simp add: apply_event_def)
  from own agg show "well_routed (next_event k et agg aid p actor caused corr)" by (simp add: well_routed_def)
qed


end
