(* ===== verification/Plan_Resume.thy ===== *)
theory Plan_Resume
  imports Emissions
begin

text \<open>
  The operational store of \<open>core/runtime/plan_resume.py\<close>: the table \<open>plan_resumes\<close> with the plans that
  wait for an approval, the progress and step results of plans, the dispatch intents of approvals, the
  intents of write-class tools, the checkpoints of chats and the stash of a rerun, all under synthetic
  keys of one table.

  \<^item> Every operation is one transaction on the table; \<open>now\<close> is the wall clock.
  \<^item> \<open>previous_output_json\<close> is a text: NULL or empty (\<open>NoDoc\<close>), one that \<open>json.loads\<close> refuses (\<open>BadDoc\<close>),
    or the text of a value (\<open>Doc\<close>), which \<open>json.loads\<close> gives back.
  \<^item> The sixteen hexadecimal digits of a chat call's SHA-256 are the parameter \<open>digest\<close>.
\<close>

section \<open>Rows\<close>

datatype doc = NoDoc | BadDoc | Doc val

record plan_resume =
  pr_kind :: string
  pr_from :: int
  pr_prev :: "dict option"
  pr_action :: string
  pr_task :: string
  pr_plan :: string

record resume_row =
  rr_id :: string
  rr_kind :: string
  rr_from :: int
  rr_prev :: doc
  rr_action :: string
  rr_task :: string
  rr_plan :: string
  rr_created :: time

type_synonym resumes = "resume_row list"

text \<open>\<open>json.loads(raw or "{}")\<close>.\<close>

fun doc_value :: "doc \<Rightarrow> val option" where
  "doc_value NoDoc = Some (VObj [])"
| "doc_value BadDoc = None"
| "doc_value (Doc v) = Some v"

definition or_empty :: "dict option \<Rightarrow> dict" where
  "or_empty d = (case d of None \<Rightarrow> [] | Some x \<Rightarrow> x)"

definition nonempty :: "dict \<Rightarrow> dict option" where
  "nonempty d = (if d = [] then None else Some d)"

definition resume_row_of :: "string \<Rightarrow> plan_resume \<Rightarrow> time \<Rightarrow> resume_row" where
  "resume_row_of i r now =
     \<lparr>rr_id = i, rr_kind = pr_kind r, rr_from = pr_from r, rr_prev = Doc (VObj (or_empty (pr_prev r))),
      rr_action = pr_action r, rr_task = pr_task r, rr_plan = pr_plan r, rr_created = now\<rparr>"

definition resume_of_row :: "resume_row \<Rightarrow> plan_resume" where
  "resume_of_row r =
     \<lparr>pr_kind = ''execute'', pr_from = rr_from r,
      pr_prev = (case doc_value (rr_prev r) of Some (VObj d) \<Rightarrow> nonempty d | _ \<Rightarrow> None),
      pr_action = rr_action r, pr_task = rr_task r, pr_plan = rr_plan r\<rparr>"

definition with_step_output :: "plan_resume \<Rightarrow> int \<Rightarrow> string \<Rightarrow> nat \<Rightarrow> plan_resume" where
  "with_step_output r step result mx =
     (let prev = or_empty (pr_prev r) in
      r\<lparr>pr_prev := Some (if 0 \<le> step
          then setd (''step_'' @ show_int step @ ''_output'') (VStr (take mx result)) prev else prev)\<rparr>)"

text \<open>\<open>INSERT ... ON CONFLICT DO UPDATE\<close> keeps the place of the row.\<close>

definition upsert :: "('r \<Rightarrow> string) \<Rightarrow> 'r \<Rightarrow> 'r list \<Rightarrow> 'r list" where
  "upsert key r t = (if sql_find key (key r) t = None then t @ [r] else sql_update (\<lambda>x. key x = key r) (\<lambda>_. r) t)"

definition delete_resume :: "string \<Rightarrow> resumes \<Rightarrow> resumes" where
  "delete_resume i t = sql_delete (\<lambda>r. rr_id r = i) t"

definition upsert_resume :: "time \<Rightarrow> string \<Rightarrow> plan_resume \<Rightarrow> resumes \<Rightarrow> resumes" where
  "upsert_resume now i r t = upsert rr_id (resume_row_of i r now) t"

definition register_plan_resume :: "time \<Rightarrow> string \<Rightarrow> plan_resume \<Rightarrow> resumes \<Rightarrow> resumes" where
  "register_plan_resume now i r t = (if i = [] then t else upsert_resume now i r t)"

definition peek_plan_resume :: "string \<Rightarrow> resumes \<Rightarrow> plan_resume option" where
  "peek_plan_resume i t = (if i = [] then None else map_option resume_of_row (sql_find rr_id i t))"

text \<open>\<open>DELETE ... RETURNING *\<close>.\<close>

definition take_plan_resume :: "string \<Rightarrow> resumes \<Rightarrow> plan_resume option \<times> resumes" where
  "take_plan_resume i t =
     (if i = [] then (None, t)
      else (map_option resume_of_row (sql_find rr_id i t), delete_resume i t))"

section \<open>Dispatch intents of approvals\<close>

definition approval_dispatch_key :: "string \<Rightarrow> string" where
  "approval_dispatch_key i = ''aprdis:'' @ i"

definition save_approval_dispatch_intent :: "time \<Rightarrow> string \<Rightarrow> plan_resume \<Rightarrow> string \<Rightarrow> bool \<Rightarrow> resumes \<Rightarrow> resumes" where
  "save_approval_dispatch_intent now i r result dispatched t =
     (if i = [] then t
      else let prev = setd ''dispatched'' (VBool dispatched) (setd ''step'' (VInt (max (pr_from r - 1) 0))
                        (setd ''status'' (VStr ''success'') (setd ''result'' (VStr result) (or_empty (pr_prev r)))))
           in register_plan_resume now (approval_dispatch_key i) (r\<lparr>pr_kind := ''execute'', pr_prev := Some prev\<rparr>) t)"

definition load_approval_dispatch_intent :: "string \<Rightarrow> resumes \<Rightarrow> plan_resume option" where
  "load_approval_dispatch_intent i t = (if i = [] then None else peek_plan_resume (approval_dispatch_key i) t)"

definition clear_approval_dispatch_intent :: "string \<Rightarrow> resumes \<Rightarrow> resumes" where
  "clear_approval_dispatch_intent i t = (if i = [] then t else snd (take_plan_resume (approval_dispatch_key i) t))"

text \<open>A successful result that is a text; the same reading serves the step results.\<close>

definition is_text :: "val \<Rightarrow> bool" where
  "is_text v = (case v of VStr s \<Rightarrow> True | VTime t \<Rightarrow> True | _ \<Rightarrow> False)"

definition success_result :: "plan_resume option \<Rightarrow> val option" where
  "success_result row =
     (case row of None \<Rightarrow> None
      | Some r \<Rightarrow> (case pr_prev r of None \<Rightarrow> None
         | Some d \<Rightarrow> if d = [] \<or> get d ''status'' \<noteq> VStr ''success'' then None
                     else if is_text (get d ''result'') then Some (get d ''result'') else None))"

definition dispatch_intent_result :: "plan_resume option \<Rightarrow> val option" where
  "dispatch_intent_result row =
     (case row of None \<Rightarrow> None
      | Some r \<Rightarrow> (case pr_prev r of None \<Rightarrow> None
         | Some d \<Rightarrow> if d = [] \<or> get d ''status'' \<noteq> VStr ''success'' then None
                     else if is_text (get d ''result'') then Some (get d ''result'') else None))"

definition dispatch_intent_is_done :: "plan_resume option \<Rightarrow> bool" where
  "dispatch_intent_is_done row =
     (case row of None \<Rightarrow> False
      | Some r \<Rightarrow> (case pr_prev r of None \<Rightarrow> False | Some d \<Rightarrow> d \<noteq> [] \<and> truthy (get d ''dispatched'')))"

section \<open>The cursors of a work item\<close>

definition rerun_stash_prefix :: string where
  "rerun_stash_prefix = ''rerun_stash:''"

definition rerun_stash_key :: "string \<Rightarrow> string" where
  "rerun_stash_key w = rerun_stash_prefix @ w"

definition clear_plan_resumes_for_work_item :: "string \<Rightarrow> resumes \<Rightarrow> nat \<times> resumes" where
  "clear_plan_resumes_for_work_item w t =
     (if w = [] then (0, t)
      else let hit = (\<lambda>r. rr_kind r = ''execute'' \<and> rr_action r = w) in
           (length (filter hit t), delete_resume (rerun_stash_key w) (sql_delete hit t)))"

definition resume_blob :: "resume_row \<Rightarrow> dict" where
  "resume_blob row =
     (let r = resume_of_row row in
      [(''approval_id'', VStr (rr_id row)), (''kind'', VStr (pr_kind r)), (''resume_from'', VInt (pr_from r)),
       (''previous_output'', (case pr_prev r of None \<Rightarrow> VNull | Some d \<Rightarrow> VObj d)),
       (''action_id'', VStr (pr_action r)), (''task_id'', VStr (pr_task r)), (''plan_json'', VStr (pr_plan r))])"

definition text_field :: "dict \<Rightarrow> string \<Rightarrow> string" where
  "text_field d k = py_str (py_or (get d k) (VStr []))"

definition resume_from_blob :: "dict \<Rightarrow> plan_resume res" where
  "resume_from_blob blob =
     rbind (py_int (py_or (get blob ''resume_from'') (VInt 0))) (\<lambda>n. Inr
       \<lparr>pr_kind = ''execute'', pr_from = n,
        pr_prev = (case get blob ''previous_output'' of VObj d \<Rightarrow> Some d | _ \<Rightarrow> None),
        pr_action = text_field blob ''action_id'', pr_task = text_field blob ''task_id'',
        pr_plan = text_field blob ''plan_json''\<rparr>)"

definition stash_blobs :: "doc \<Rightarrow> dict list" where
  "stash_blobs raw =
     (case doc_value raw of
        Some (VObj payload) \<Rightarrow>
          (case get payload ''rows'' of
             VList items \<Rightarrow> concat (map (\<lambda>v. case v of VObj d \<Rightarrow> [d] | _ \<Rightarrow> []) items)
           | _ \<Rightarrow> [])
      | _ \<Rightarrow> [])"

text \<open>The rows of a work item besides its stash.\<close>

definition live_resume :: "string \<Rightarrow> resume_row \<Rightarrow> bool" where
  "live_resume w r \<longleftrightarrow> rr_kind r = ''execute'' \<and> rr_action r = w \<and> rr_id r \<noteq> rerun_stash_key w"

definition stash_row :: "time \<Rightarrow> string \<Rightarrow> dict list \<Rightarrow> resume_row" where
  "stash_row now w blobs =
     \<lparr>rr_id = rerun_stash_key w, rr_kind = ''execute'', rr_from = 0, rr_prev = Doc (VObj [(''rows'', VList (map VObj blobs))]),
      rr_action = [], rr_task = [], rr_plan = [], rr_created = now\<rparr>"

definition take_plan_resumes_for_work_item :: "time \<Rightarrow> string \<Rightarrow> resumes \<Rightarrow> ((string \<times> plan_resume) list \<times> resumes) res" where
  "take_plan_resumes_for_work_item now w t =
     (if w = [] then Inr ([], t)
      else let blobs = map resume_blob (filter (live_resume w) t);
               t1 = delete_resume (rerun_stash_key w) (sql_delete (live_resume w) t);
               t2 = (if blobs = [] then t1 else t1 @ [stash_row now w blobs])
           in rbind (traverse (\<lambda>b. rbind (resume_from_blob b) (\<lambda>r. Inr (text_field b ''approval_id'', r))) blobs)
                (\<lambda>rs. Inr (rs, t2)))"

definition restore_plan_resumes_for_work_item :: "time \<Rightarrow> (string \<times> plan_resume) list \<Rightarrow> resumes \<Rightarrow> resumes" where
  "restore_plan_resumes_for_work_item now rows t =
     (let t1 = fold (\<lambda>(i, r) t. if i = [] then t else upsert_resume now i r t) rows t;
          actions = remdups (filter (\<lambda>a. a \<noteq> []) (map (pr_action \<circ> snd) rows))
      in fold (\<lambda>a. delete_resume (rerun_stash_key a)) actions t1)"

definition discard_rerun_plan_stash :: "string \<Rightarrow> resumes \<Rightarrow> resumes" where
  "discard_rerun_plan_stash w t = (if w = [] then t else delete_resume (rerun_stash_key w) t)"

definition restore_blob :: "time \<Rightarrow> string \<Rightarrow> int \<times> resumes \<Rightarrow> dict \<Rightarrow> (int \<times> resumes) res" where
  "restore_blob now key = (\<lambda>(n, t) blob.
     (let i = text_field blob ''approval_id'' in
      if i = [] \<or> i = key then Inr (n, t)
      else rbind (resume_from_blob blob) (\<lambda>r. Inr (n + 1, upsert_resume now i r t))))"

definition restore_rerun_plan_stash :: "time \<Rightarrow> string \<Rightarrow> resumes \<Rightarrow> (int \<times> resumes) res" where
  "restore_rerun_plan_stash now w t =
     (if w = [] then Inr (0, t)
      else let key = rerun_stash_key w in
           if list_ex (live_resume w) t then Inr (0, delete_resume key t)
           else case sql_find rr_id key t of
                  None \<Rightarrow> Inr (0, t)
                | Some row \<Rightarrow> rbind (foldM (restore_blob now key) (0, t) (stash_blobs (rr_prev row)))
                    (\<lambda>(n, t'). Inr (n, delete_resume key t')))"

definition list_rerun_stash_work_ids :: "resumes \<Rightarrow> string list" where
  "list_rerun_stash_work_ids t =
     map (\<lambda>r. drop (length rerun_stash_prefix) (rr_id r))
       (filter (\<lambda>r. like (rerun_stash_prefix @ ''%'') (rr_id r) \<and> starts_with rerun_stash_prefix (rr_id r)) t)"

definition release_finished_rerun_stashes :: "(string \<Rightarrow> bool) \<Rightarrow> resumes \<Rightarrow> nat \<times> resumes" where
  "release_finished_rerun_stashes still_half_open t =
     fold (\<lambda>w (n, t). if w \<noteq> [] \<and> still_half_open w then (n, t) else (Suc n, discard_rerun_plan_stash w t))
       (list_rerun_stash_work_ids t) (0, t)"

definition clear_plan_resumes :: "resumes \<Rightarrow> resumes" where
  "clear_plan_resumes t = []"

section \<open>Progress and step results\<close>

definition progress_key :: "string \<Rightarrow> string" where
  "progress_key a = ''progress:'' @ a"

definition idempotency_key :: "string \<Rightarrow> int \<Rightarrow> string" where
  "idempotency_key c n = ''idem:'' @ c @ '':'' @ show_int n"

definition action_step_key :: "string \<Rightarrow> int \<Rightarrow> string" where
  "action_step_key a n = ''stepres:'' @ a @ '':'' @ show_int n"

definition save_plan_progress :: "time \<Rightarrow> string \<Rightarrow> int \<Rightarrow> dict option \<Rightarrow> resumes \<Rightarrow> resumes" where
  "save_plan_progress now a n prev t =
     (if a = [] then t
      else register_plan_resume now (progress_key a)
        \<lparr>pr_kind = ''execute'', pr_from = n, pr_prev = prev, pr_action = a, pr_task = [], pr_plan = []\<rparr> t)"

definition load_plan_progress :: "string \<Rightarrow> resumes \<Rightarrow> plan_resume option" where
  "load_plan_progress a t = (if a = [] then None else peek_plan_resume (progress_key a) t)"

definition record_step_success :: "time \<Rightarrow> string \<Rightarrow> int \<Rightarrow> string \<Rightarrow> string \<Rightarrow> resumes \<Rightarrow> resumes" where
  "record_step_success now c n result a t =
     (let row = \<lparr>pr_kind = ''execute'', pr_from = n + 1,
                 pr_prev = Some [(''result'', VStr result), (''status'', VStr ''success'')],
                 pr_action = a, pr_task = [], pr_plan = []\<rparr>;
          t1 = (if c = [] then t else register_plan_resume now (idempotency_key c n) row t)
      in if a = [] then t1 else register_plan_resume now (action_step_key a n) row t1)"

definition lookup_step_success :: "string \<Rightarrow> int \<Rightarrow> resumes \<Rightarrow> val option" where
  "lookup_step_success c n t = (if c = [] then None else success_result (peek_plan_resume (idempotency_key c n) t))"

definition lookup_action_step_success :: "string \<Rightarrow> int \<Rightarrow> resumes \<Rightarrow> val option" where
  "lookup_action_step_success a n t = (if a = [] then None else success_result (peek_plan_resume (action_step_key a n) t))"

section \<open>Intents of write-class tools\<close>

definition capability_intent_prefix :: string where
  "capability_intent_prefix = ''cap_intent:''"

definition capability_intent_key :: "string \<Rightarrow> string" where
  "capability_intent_key i = capability_intent_prefix @ i"

definition running_retry_count :: "kernel \<Rightarrow> string \<Rightarrow> int option" where
  "running_retry_count k e =
     (case read_scheduled_execution k e of Inr (Some it) \<Rightarrow> Some (it_retries it) | _ \<Rightarrow> None)"

text \<open>\<open>current\<close> is the execution id of the surrounding \<open>execution_scope\<close>.\<close>

definition record_capability_intent :: "kernel \<Rightarrow> string option \<Rightarrow> string \<Rightarrow> string \<Rightarrow> string \<Rightarrow> string \<Rightarrow> string option
    \<Rightarrow> string option \<Rightarrow> string option \<Rightarrow> int option \<Rightarrow> resumes \<Rightarrow> resumes" where
  "record_capability_intent k current i name summary actor corr execution caused retry t =
     (if i = [] then t
      else let e0 = strip (case execution of None \<Rightarrow> [] | Some e \<Rightarrow> e);
               e = (if e0 = [] then strip (case current of None \<Rightarrow> [] | Some c \<Rightarrow> c) else e0);
               c0 = strip (case caused of None \<Rightarrow> [] | Some c \<Rightarrow> c);
               c = (if c0 = [] then e else c0);
               r = (if retry = None \<and> e \<noteq> [] then running_retry_count k e else retry);
               prev = [(''name'', VStr name), (''args_summary'', VStr summary), (''actor'', VStr actor),
                       (''correlation_id'', VStr (case corr of None \<Rightarrow> [] | Some x \<Rightarrow> x)),
                       (''execution_id'', VStr e), (''caused_by'', VStr c)] @
                      (case r of None \<Rightarrow> [] | Some n \<Rightarrow> [(''retry_count'', VInt n)])
           in register_plan_resume (k_now k) (capability_intent_key i)
                \<lparr>pr_kind = ''execute'', pr_from = 0, pr_prev = Some prev, pr_action = [], pr_task = [], pr_plan = []\<rparr> t)"

definition clear_capability_intent :: "string \<Rightarrow> resumes \<Rightarrow> resumes" where
  "clear_capability_intent i t = (if i = [] then t else snd (take_plan_resume (capability_intent_key i) t))"

definition take_stale_capability_intents :: "resumes \<Rightarrow> dict list \<times> resumes" where
  "take_stale_capability_intents t =
     (let hit = (\<lambda>r. like (capability_intent_prefix @ ''%'') (rr_id r)) in
      (map (\<lambda>r. setd ''intent_key'' (VStr (rr_id r)) (or_empty (pr_prev (resume_of_row r)))) (filter hit t),
       sql_delete hit t))"

section \<open>Chat turns\<close>

definition chat_idempotency_key :: "(string \<Rightarrow> dict \<Rightarrow> string) \<Rightarrow> string \<Rightarrow> string \<Rightarrow> dict \<Rightarrow> string" where
  "chat_idempotency_key digest c tool args = ''idem:'' @ c @ '':chat:'' @ digest tool args"

definition record_chat_tool_success :: "(string \<Rightarrow> dict \<Rightarrow> string) \<Rightarrow> time \<Rightarrow> string \<Rightarrow> string \<Rightarrow> dict \<Rightarrow> string \<Rightarrow> resumes \<Rightarrow> resumes" where
  "record_chat_tool_success digest now c tool args result t =
     (if c = [] then t
      else register_plan_resume now (chat_idempotency_key digest c tool args)
        \<lparr>pr_kind = ''execute'', pr_from = 0, pr_prev = Some [(''result'', VStr result), (''status'', VStr ''success'')],
         pr_action = [], pr_task = [], pr_plan = []\<rparr> t)"

definition lookup_chat_tool_success :: "(string \<Rightarrow> dict \<Rightarrow> string) \<Rightarrow> string \<Rightarrow> string \<Rightarrow> dict \<Rightarrow> resumes \<Rightarrow> val option" where
  "lookup_chat_tool_success digest c tool args t =
     (if c = [] then None else success_result (peek_plan_resume (chat_idempotency_key digest c tool args) t))"

definition chat_checkpoint_key :: "string \<Rightarrow> string" where
  "chat_checkpoint_key c = ''chat_ckpt:'' @ c"

definition record_chat_checkpoint :: "time \<Rightarrow> string \<Rightarrow> dict \<Rightarrow> resumes \<Rightarrow> resumes res" where
  "record_chat_checkpoint now c payload t =
     (if c = [] then Inr t
      else rbind (py_int (py_or (get payload ''iteration'') (VInt 0))) (\<lambda>n. Inr
        (register_plan_resume now (chat_checkpoint_key c)
          \<lparr>pr_kind = ''execute'', pr_from = n, pr_prev = Some payload, pr_action = [], pr_task = [], pr_plan = []\<rparr> t)))"

definition load_chat_checkpoint :: "string \<Rightarrow> resumes \<Rightarrow> dict option" where
  "load_chat_checkpoint c t =
     (if c = [] then None
      else case peek_plan_resume (chat_checkpoint_key c) t of
             None \<Rightarrow> None | Some r \<Rightarrow> nonempty (or_empty (pr_prev r)))"

definition clear_chat_checkpoint :: "string \<Rightarrow> resumes \<Rightarrow> resumes" where
  "clear_chat_checkpoint c t = (if c = [] then t else snd (take_plan_resume (chat_checkpoint_key c) t))"

definition approval_correlation_id :: "kernel \<Rightarrow> string \<Rightarrow> string" where
  "approval_correlation_id k i =
     (if i = [] then []
      else case read_events k (all_events\<lparr>q_type := Some ''ApprovalRequested'', q_agg_id := Some i, q_limit := Some 5\<rparr>) of
             Inl e \<Rightarrow> []
           | Inr evs \<Rightarrow> (case filter (\<lambda>c. c \<noteq> []) (map (\<lambda>ev. case ev_corr ev of None \<Rightarrow> [] | Some c \<Rightarrow> c) evs) of
                          [] \<Rightarrow> [] | c # _ \<Rightarrow> c))"

definition clear_chat_checkpoint_for_approval :: "kernel \<Rightarrow> string \<Rightarrow> resumes \<Rightarrow> string \<times> resumes" where
  "clear_chat_checkpoint_for_approval k i t =
     (let c = approval_correlation_id k i in (c, if c = [] then t else clear_chat_checkpoint c t))"

section \<open>The table as a store of resumes\<close>

text \<open>What the callers rely on: a lookup sees the last write under its key and no other.\<close>

locale keyed_store =
  fixes look :: "string \<Rightarrow> 's \<Rightarrow> 'v option"
    and put :: "string \<Rightarrow> 'v \<Rightarrow> 's \<Rightarrow> 's"
    and rem :: "string \<Rightarrow> 's \<Rightarrow> 's"
    and norm :: "'v \<Rightarrow> 'v"
  assumes look_put: "i \<noteq> [] \<Longrightarrow> look j (put i v s) = (if j = i then Some (norm v) else look j s)"
    and look_rem: "look j (rem i s) = (if j = i then None else look j s)"
begin

lemma look_puts:
  assumes "distinct (map fst rows)" and "\<And>i v. (i, v) \<in> set rows \<Longrightarrow> i \<noteq> []"
  shows "look j (fold (\<lambda>(i, v). put i v) rows s) = (case map_of rows j of None \<Rightarrow> look j s | Some v \<Rightarrow> Some (norm v))"
  using assms
proof (induction rows arbitrary: s)
  case (Cons row rows)
  obtain i v where row: "row = (i, v)" by force
  have "map_of rows i = None" using Cons.prems(1) row by (auto simp: map_of_eq_None_iff)
  moreover have "look j (fold (\<lambda>(i, v). put i v) rows (put i v s)) =
      (case map_of rows j of None \<Rightarrow> look j (put i v s) | Some v \<Rightarrow> Some (norm v))"
    by (rule Cons.IH) (use Cons.prems row in auto)
  moreover have "i \<noteq> []" by (rule Cons.prems(2) [of i v]) (simp add: row)
  ultimately show ?case using row by (auto simp: look_put split: option.splits)
qed simp

lemma claimed_once:
  assumes "i \<noteq> []"
  shows "look i (put i v s) = Some (norm v)" "look i (rem i (put i v s)) = None"
    "j \<noteq> i \<Longrightarrow> look j (rem i (put i v s)) = look j s"
  using assms by (simp_all add: look_put look_rem)

end

text \<open>A family of synthetic keys over such a store.\<close>

locale keyed_family = keyed_store look put rem norm
  for look :: "string \<Rightarrow> 's \<Rightarrow> 'v option" and put :: "string \<Rightarrow> 'v \<Rightarrow> 's \<Rightarrow> 's" and rem :: "string \<Rightarrow> 's \<Rightarrow> 's"
    and norm :: "'v \<Rightarrow> 'v" +
  fixes key :: "'k \<Rightarrow> string"
  assumes key_eq: "key a = key b \<longleftrightarrow> a = b"
    and key_nonempty: "key a \<noteq> []"
begin

lemma look_key_put: "look (key b) (put (key a) v s) = (if b = a then Some (norm v) else look (key b) s)"
  by (simp add: look_put key_nonempty key_eq)

end

definition stored :: "plan_resume \<Rightarrow> plan_resume" where
  "stored r = r\<lparr>pr_kind := ''execute'', pr_prev := nonempty (or_empty (pr_prev r))\<rparr>"

lemma resume_of_row_of [simp]: "resume_of_row (resume_row_of i r now) = stored r"
  by (simp add: resume_of_row_def resume_row_of_def stored_def)

lemma stored_of_row [simp]: "stored (resume_of_row r) = resume_of_row r"
  by (auto simp: stored_def resume_of_row_def nonempty_def or_empty_def split: option.splits val.splits)

lemma sql_find_upsert: "sql_find key j (upsert key r t) = (if j = key r then Some r else sql_find key j t)"
proof (cases "sql_find key (key r) t")
  case None
  moreover have "sql_find key j [r] = (if j = key r then Some r else None)" by (simp add: sql_find_def)
  ultimately show ?thesis by (auto simp: upsert_def sql_find_append split: option.splits)
next
  case (Some x)
  have "sql_find key j (sql_update (\<lambda>x. key x = key r) (\<lambda>_. r) u) =
      map_option (\<lambda>x. if key x = key r then r else x) (sql_find key j u)" for u
    unfolding sql_find_def sql_update_def by (induction u) auto
  with Some show ?thesis by (cases "sql_find key j t") (auto simp: upsert_def dest: sql_find_key)
qed

lemma row_of_fields [simp]:
  "rr_id (resume_row_of i r now) = i" "rr_action (resume_row_of i r now) = pr_action r"
  "rr_kind (resume_row_of i r now) = pr_kind r"
  by (simp_all add: resume_row_of_def)

lemma find_upsert_resume [simp]:
  "sql_find rr_id j (upsert_resume now i r t) = (if j = i then Some (resume_row_of i r now) else sql_find rr_id j t)"
  by (simp add: upsert_resume_def sql_find_upsert)

lemma find_delete_resume [simp]: "sql_find rr_id j (delete_resume i t) = (if j = i then None else sql_find rr_id j t)"
  unfolding delete_resume_def by (rule sql_find_delete_key)

interpretation rs: keyed_store peek_plan_resume "register_plan_resume now" "\<lambda>i t. snd (take_plan_resume i t)" stored for now
  by unfold_locales (auto simp: peek_plan_resume_def register_plan_resume_def take_plan_resume_def)

text \<open>A decimal text has no colon, so a key splits at its last one.\<close>

lemma digits_no_colon: "CHR '':'' \<notin> set (show_int n)"
proof -
  have "CHR '':'' \<notin> set (show_nat m)" for m
  proof
    assume "CHR '':'' \<in> set (show_nat m)"
    with show_nat_digits [of m] have "is_digit (CHR '':'')" unfolding list_all_iff by blast
    then show False by (simp add: is_digit_def)
  qed
  then show ?thesis by (simp add: show_int_def)
qed

lemma last_colon:
  assumes "a @ c # x = b @ c # y" and "c \<notin> set x" and "c \<notin> set y"
  shows "a = b \<and> x = y"
proof -
  have "takeWhile (\<lambda>d. d \<noteq> c) (rev (a @ c # x)) = rev x" if "c \<notin> set x" for a x
    using that by (simp add: takeWhile_append takeWhile_tail)
  from this [OF assms(2), of a] this [OF assms(3), of b] assms(1) have "x = y" by simp
  with assms(1) show ?thesis by simp
qed

lemma idempotency_key_eq [simp]: "idempotency_key c n = idempotency_key c' n' \<longleftrightarrow> c = c' \<and> n = n'"
  using last_colon [of c "CHR '':''" "show_int n" c' "show_int n'"] digits_no_colon by (auto simp: idempotency_key_def)

lemma action_step_key_eq [simp]: "action_step_key c n = action_step_key c' n' \<longleftrightarrow> c = c' \<and> n = n'"
  using last_colon [of c "CHR '':''" "show_int n" c' "show_int n'"] digits_no_colon by (auto simp: action_step_key_def)

interpretation steps: keyed_family peek_plan_resume "register_plan_resume now" "\<lambda>i t. snd (take_plan_resume i t)" stored
    "\<lambda>(c, n). idempotency_key c n" for now
proof (unfold_locales, goal_cases)
  case (1 a b)
  then show ?case by (cases a; cases b) simp
next
  case (2 a)
  then show ?case by (cases a) (simp add: idempotency_key_def)
qed

interpretation action_steps: keyed_family peek_plan_resume "register_plan_resume now"
    "\<lambda>i t. snd (take_plan_resume i t)" stored "\<lambda>(c, n). action_step_key c n" for now
proof (unfold_locales, goal_cases)
  case (1 a b)
  then show ?case by (cases a; cases b) simp
next
  case (2 a)
  then show ?case by (cases a) (simp add: action_step_key_def)
qed

section \<open>Reachable tables\<close>

definition resumes_ok :: "resumes \<Rightarrow> bool" where
  "resumes_ok t \<longleftrightarrow> keyed rr_id t \<and> (\<forall>r \<in> set t. rr_id r \<noteq> [])"

lemma resumes_ok_filter: "resumes_ok t \<Longrightarrow> resumes_ok (filter P t)"
  by (auto simp: resumes_ok_def keyed_def distinct_map_filter)

lemma resumes_ok_delete: "resumes_ok t \<Longrightarrow> resumes_ok (sql_delete P t)" "resumes_ok t \<Longrightarrow> resumes_ok (delete_resume i t)"
  by (simp_all add: sql_delete_def delete_resume_def resumes_ok_filter)

lemma resumes_ok_upsert: "resumes_ok t \<Longrightarrow> i \<noteq> [] \<Longrightarrow> resumes_ok (upsert_resume now i r t)"
  by (auto simp: resumes_ok_def upsert_resume_def upsert_def keyed_def sql_find_None_iff sql_update_def comp_def
      if_distrib cong: if_cong)

lemma stash_key_nonempty [simp]: "rerun_stash_key w \<noteq> []" "[] \<noteq> rerun_stash_key w"
  by (auto simp: rerun_stash_key_def rerun_stash_prefix_def)

lemma fold_ok: "resumes_ok t \<Longrightarrow> (\<And>x t. resumes_ok t \<Longrightarrow> resumes_ok (f x t)) \<Longrightarrow> resumes_ok (fold f xs t)"
  by (induction xs arbitrary: t) auto

text \<open>The transactions of the module.\<close>

inductive resumes_step :: "resumes \<Rightarrow> resumes \<Rightarrow> bool" where
  registered: "resumes_step t (register_plan_resume now i r t)"
| taken: "resumes_step t (snd (take_plan_resume i t))"
| cleared: "resumes_step t (snd (clear_plan_resumes_for_work_item w t))"
| stashed: "take_plan_resumes_for_work_item now w t = Inr (rs, t') \<Longrightarrow> resumes_step t t'"
| put_back: "resumes_step t (restore_plan_resumes_for_work_item now rows t)"
| restored: "restore_rerun_plan_stash now w t = Inr (n, t') \<Longrightarrow> resumes_step t t'"
| discarded: "resumes_step t (discard_rerun_plan_stash w t)"
| swept: "resumes_step t (snd (take_stale_capability_intents t))"

inductive resumes_reach :: "resumes \<Rightarrow> bool" where
  empty: "resumes_reach []"
| step: "resumes_reach t \<Longrightarrow> resumes_step t t' \<Longrightarrow> resumes_reach t'"

lemma stash_ok:
  assumes "resumes_ok t" and "take_plan_resumes_for_work_item now w t = Inr (rs, t')"
  shows "resumes_ok t'"
proof -
  let ?t1 = "delete_resume (rerun_stash_key w) (sql_delete (live_resume w) t)"
  have ok: "resumes_ok ?t1" by (simp add: assms(1) resumes_ok_delete)
  have "rerun_stash_key w \<notin> rr_id ` set ?t1" by (auto simp: delete_resume_def sql_delete_def)
  then have "resumes_ok (?t1 @ [stash_row now w bs])" for bs
    using ok by (simp add: resumes_ok_def keyed_def stash_row_def)
  with ok assms show ?thesis
    by (auto simp: take_plan_resumes_for_work_item_def Let_def split: if_splits)
qed

lemma restore_blobs_ok: "foldM (restore_blob now key) (n, t) bs = Inr (m, t') \<Longrightarrow> resumes_ok t \<Longrightarrow> resumes_ok t'"
proof (induction bs arbitrary: n t)
  case (Cons b bs)
  from Cons.prems(1) obtain n1 t1 where s: "restore_blob now key (n, t) b = Inr (n1, t1)"
    "foldM (restore_blob now key) (n1, t1) bs = Inr (m, t')" by auto
  from s(1) Cons.prems(2) have "resumes_ok t1"
    by (auto simp: restore_blob_def Let_def resumes_ok_upsert split: if_splits)
  with Cons.IH s(2) show ?case .
qed simp

lemma resumes_step_ok: "resumes_step t t' \<Longrightarrow> resumes_ok t \<Longrightarrow> resumes_ok t'"
proof (induction rule: resumes_step.induct)
  case (restored now w t n t')
  then show ?case
    by (auto simp: restore_rerun_plan_stash_def Let_def resumes_ok_delete restore_blobs_ok split: if_splits option.splits)
next
  case (put_back t now rows)
  have "resumes_ok (case x of (i, r) \<Rightarrow> if i = [] then u else upsert_resume now i r u)" if "resumes_ok u" for x u
    using that by (cases x) (simp add: resumes_ok_upsert)
  then show ?case using put_back
    by (auto simp: restore_plan_resumes_for_work_item_def Let_def split_def intro!: fold_ok resumes_ok_delete resumes_ok_upsert)
qed (auto simp: register_plan_resume_def take_plan_resume_def clear_plan_resumes_for_work_item_def discard_rerun_plan_stash_def
    take_stale_capability_intents_def Let_def resumes_ok_delete resumes_ok_upsert stash_ok)

lemma resumes_reach_ok: "resumes_reach t \<Longrightarrow> resumes_ok t"
  by (induction rule: resumes_reach.induct) (simp add: resumes_ok_def, rule resumes_step_ok)

section \<open>The stash\<close>

lemma blob_roundtrip: "resume_from_blob (resume_blob r) = Inr (resume_of_row r) \<and> text_field (resume_blob r) ''approval_id'' = rr_id r"
  by (auto simp: resume_from_blob_def resume_blob_def text_field_def py_or_def resume_of_row_def Let_def nonempty_def
      split: option.splits)

lemma stash_blobs_of_row: "stash_blobs (rr_prev (stash_row now w bs)) = bs"
  by (induction bs) (simp_all add: stash_row_def stash_blobs_def)

lemma restore_blobs:
  assumes "\<forall>r \<in> set rows. rr_id r \<noteq> [] \<and> rr_id r \<noteq> key"
  shows "foldM (restore_blob now key) (n, t) (map resume_blob rows) =
    Inr (n + int (length rows), fold (\<lambda>(i, r). register_plan_resume now i r) (map (\<lambda>r. (rr_id r, resume_of_row r)) rows) t)"
  using assms
  by (induction rows arbitrary: n t) (simp_all add: restore_blob_def blob_roundtrip register_plan_resume_def)

lemma peek_delete: "peek_plan_resume i (delete_resume j t) = (if i = j then None else peek_plan_resume i t)"
  by (simp add: peek_plan_resume_def)

lemma map_of_rows:
  "keyed rr_id t \<Longrightarrow> map_of (map (\<lambda>r. (rr_id r, resume_of_row r)) (filter P t)) i =
     (case sql_find rr_id i t of None \<Rightarrow> None | Some r \<Rightarrow> if P r then Some (resume_of_row r) else None)"
proof (induction t)
  case (Cons x xs)
  then have "sql_find rr_id (rr_id x) xs = None" by (auto simp: keyed_def sql_find_None_iff)
  with Cons show ?case by (auto simp: sql_find_def keyed_def split: option.splits)
qed (simp add: sql_find_def)

lemma find_filter: "keyed rr_id t \<Longrightarrow> sql_find rr_id i (filter P t) =
     (case sql_find rr_id i t of None \<Rightarrow> None | Some r \<Rightarrow> if P r then Some r else None)"
proof (induction t)
  case (Cons x xs)
  then have "sql_find rr_id (rr_id x) xs = None" by (auto simp: keyed_def sql_find_None_iff)
  with Cons show ?case by (auto simp: sql_find_def keyed_def split: option.splits)
qed (simp add: sql_find_def)

lemma taken_state:
  assumes "w \<noteq> []" and "resumes_ok t"
  defines "rows \<equiv> filter (live_resume w) t"
  shows "\<exists>t1. take_plan_resumes_for_work_item now w t = Inr (map (\<lambda>r. (rr_id r, resume_of_row r)) rows, t1) \<and>
    filter (live_resume w) t1 = [] \<and>
    (\<forall>i. i \<noteq> rerun_stash_key w \<longrightarrow> sql_find rr_id i t1 = sql_find rr_id i (filter (\<lambda>r. \<not> live_resume w r) t)) \<and>
    sql_find rr_id (rerun_stash_key w) t1 = (if rows = [] then None else Some (stash_row now w (map resume_blob rows)))"
proof -
  let ?t1 = "delete_resume (rerun_stash_key w) (sql_delete (live_resume w) t)"
  let ?s = "stash_row now w (map resume_blob rows)"
  have tr: "traverse (\<lambda>b. rbind (resume_from_blob b) (\<lambda>r. Inr (text_field b ''approval_id'', r))) (map resume_blob rows) =
      Inr (map (\<lambda>r. (rr_id r, resume_of_row r)) rows)"
    by (induction rows) (simp_all add: blob_roundtrip)
  have s: "rr_id ?s = rerun_stash_key w" "\<not> live_resume w ?s"
    using assms(1) by (simp_all add: stash_row_def live_resume_def)
  have live: "filter (live_resume w) ?t1 = []" by (auto simp: delete_resume_def sql_delete_def filter_empty_conv)
  have single: "sql_find rr_id i [?s] = (if i = rerun_stash_key w then Some ?s else None)" for i
    using s(1) by (auto simp: sql_find_def)
  show ?thesis
  proof (cases "rows = []")
    case True
    with tr live assms(1) show ?thesis
      by (simp add: take_plan_resumes_for_work_item_def rows_def [symmetric] Let_def) (simp add: sql_delete_def)
  next
    case False
    with tr live s assms(1) show ?thesis
      by (simp add: take_plan_resumes_for_work_item_def rows_def [symmetric] Let_def sql_find_append single)
        (auto simp: sql_delete_def single split: option.splits)
  qed
qed

lemma key_families [simp]:
  "idempotency_key c n \<noteq> action_step_key a m" "action_step_key a m \<noteq> idempotency_key c n"
  "progress_key a \<noteq> idempotency_key c n" "idempotency_key c n \<noteq> progress_key a"
  "progress_key a \<noteq> action_step_key b m" "action_step_key b m \<noteq> progress_key a"
  "capability_intent_key i \<noteq> idempotency_key c n" "idempotency_key c n \<noteq> capability_intent_key i"
  "capability_intent_key i \<noteq> action_step_key b m" "action_step_key b m \<noteq> capability_intent_key i"
  "capability_intent_key i \<noteq> progress_key a" "progress_key a \<noteq> capability_intent_key i"
  by (simp_all add: idempotency_key_def action_step_key_def progress_key_def capability_intent_key_def
      capability_intent_prefix_def)

lemma keys_nonempty [simp]:
  "idempotency_key c n \<noteq> []" "action_step_key a m \<noteq> []" "progress_key a \<noteq> []" "capability_intent_key i \<noteq> []"
  by (simp_all add: idempotency_key_def action_step_key_def progress_key_def capability_intent_key_def
      capability_intent_prefix_def)

definition success_row :: "int \<Rightarrow> string \<Rightarrow> string \<Rightarrow> plan_resume" where
  "success_row n result a = \<lparr>pr_kind = ''execute'', pr_from = n + 1,
     pr_prev = Some [(''result'', VStr result), (''status'', VStr ''success'')], pr_action = a, pr_task = [], pr_plan = []\<rparr>"

lemma success_row_result: "success_result (Some (stored (success_row n result a))) = Some (VStr result)"
  by (simp add: success_row_def success_result_def stored_def nonempty_def or_empty_def is_text_def)

lemma peek_recorded:
  "peek_plan_resume j (record_step_success now c n result a t) =
    (if a \<noteq> [] \<and> j = action_step_key a n \<or> c \<noteq> [] \<and> j = idempotency_key c n then Some (stored (success_row n result a))
     else peek_plan_resume j t)"
  by (auto simp: record_step_success_def success_row_def Let_def rs.look_put)

lemma lookup_recorded:
  "c \<noteq> [] \<Longrightarrow> lookup_step_success c' n' (record_step_success now c n result a t) =
    (if c' = c \<and> n' = n then Some (VStr result) else lookup_step_success c' n' t)"
  by (auto simp: lookup_step_success_def peek_recorded success_row_result)

lemma lookup_recorded_action:
  "a \<noteq> [] \<Longrightarrow> lookup_action_step_success a' n' (record_step_success now c n result a t) =
    (if a' = a \<and> n' = n then Some (VStr result) else lookup_action_step_success a' n' t)"
  by (auto simp: lookup_action_step_success_def peek_recorded success_row_result)

section \<open>Properties\<close>

lemma stash_undone:
  assumes ok: "resumes_ok t" and "w \<noteq> []"
  shows "\<exists>rs t1 t2. take_plan_resumes_for_work_item now w t = Inr (rs, t1) \<and> \<not> list_ex (live_resume w) t1 \<and>
    restore_rerun_plan_stash later w t1 = Inr (int (length rs), t2) \<and>
    (\<forall>i. peek_plan_resume i t2 = (if i = rerun_stash_key w then None else peek_plan_resume i t))"
proof -
  from ok have kt: "keyed rr_id t" by (simp add: resumes_ok_def)
  let ?rows = "filter (live_resume w) t"
  let ?rs = "map (\<lambda>r. (rr_id r, resume_of_row r)) ?rows"
  obtain t1 where t1: "take_plan_resumes_for_work_item now w t = Inr (?rs, t1)" "filter (live_resume w) t1 = []"
    "\<And>i. i \<noteq> rerun_stash_key w \<Longrightarrow> sql_find rr_id i t1 = sql_find rr_id i (filter (\<lambda>r. \<not> live_resume w r) t)"
    "sql_find rr_id (rerun_stash_key w) t1 = (if ?rows = [] then None else Some (stash_row now w (map resume_blob ?rows)))"
    using taken_state [OF assms(2) ok] by blast
  let ?t2 = "fold (\<lambda>(i, r). register_plan_resume later i r) ?rs t1"
  have quiet: "\<not> list_ex (live_resume w) t1" using t1(2) by (simp add: list_ex_iff filter_empty_conv)
  have ids: "\<forall>r \<in> set ?rows. rr_id r \<noteq> [] \<and> rr_id r \<noteq> rerun_stash_key w"
    using ok by (auto simp: resumes_ok_def live_resume_def)
  have undo: "restore_rerun_plan_stash later w t1 = Inr (int (length ?rs), if ?rows = [] then t1 else delete_resume (rerun_stash_key w) ?t2)"
    using quiet assms(2) t1(4) restore_blobs [OF ids, of later 0 t1]
    by (auto simp: restore_rerun_plan_stash_def Let_def stash_blobs_of_row)
  have d: "distinct (map fst ?rs)" using kt by (auto simp: keyed_def comp_def distinct_map_filter)
  have "peek_plan_resume i ?t2 = peek_plan_resume i t" if i: "i \<noteq> rerun_stash_key w" for i
  proof -
    have "peek_plan_resume i ?t2 = (case map_of ?rs i of None \<Rightarrow> peek_plan_resume i t1 | Some r \<Rightarrow> Some (stored r))"
      by (rule rs.look_puts [OF d]) (use ids in auto)
    then show ?thesis
      using i ids t1(3) [OF i] unfolding map_of_rows [OF kt]
      by (auto simp: peek_plan_resume_def find_filter [OF kt] split: option.splits if_splits)
  qed
  moreover have "peek_plan_resume (rerun_stash_key w) t1 = None" if "?rows = []"
    using t1(4) that by (simp add: peek_plan_resume_def)
  ultimately have "peek_plan_resume i (if ?rows = [] then t1 else delete_resume (rerun_stash_key w) ?t2) =
      (if i = rerun_stash_key w then None else peek_plan_resume i t)" for i
    by (cases "?rows = []") (auto simp: peek_delete)
  with t1(1) quiet undo show ?thesis by blast
qed

text \<open>A rerun can be undone: taking the cursors of a work item and then restoring the stash brings
  every one of them back and leaves the rest of the table and no stash, whatever other cursors, step
  results and intents it holds and however long the process was down in between.\<close>

lemma rerun_stash_restores:
  assumes "resumes_reach t" and "w \<noteq> []"
  shows "\<exists>rs t1 t2. take_plan_resumes_for_work_item now w t = Inr (rs, t1) \<and> \<not> list_ex (live_resume w) t1 \<and>
    restore_rerun_plan_stash later w t1 = Inr (int (length rs), t2) \<and>
    (\<forall>i. peek_plan_resume i t2 = (if i = rerun_stash_key w then None else peek_plan_resume i t))"
  by (rule stash_undone [OF resumes_reach_ok [OF assms(1)] assms(2)])

text \<open>A waiting plan is resumed at most once: the first claim of an approval's resume gets what was
  registered, every later claim gets nothing, and no claim touches another entry of the table.\<close>

lemma resume_claimed_once:
  assumes "i \<noteq> []"
  shows "fst (take_plan_resume i (register_plan_resume now i r t)) = Some (stored r) \<and>
    (let t1 = snd (take_plan_resume i (register_plan_resume now i r t)) in
       fst (take_plan_resume i t1) = None \<and> (\<forall>j. j \<noteq> i \<longrightarrow> peek_plan_resume j t1 = peek_plan_resume j t))"
proof -
  have fst_take: "fst (take_plan_resume j u) = peek_plan_resume j u" for j u
    by (simp add: take_plan_resume_def peek_plan_resume_def)
  show ?thesis
    using rs.claimed_once [OF assms, where now = now and v = r and s = t] by (simp add: Let_def fst_take)
qed

text \<open>Step results are exact: after a step of a plan is recorded as successful, a lookup under its
  correlation id and index finds that result, and a lookup under any other pair finds what it found
  before; so a replay skips exactly the steps that ran.\<close>

lemma step_result_exact:
  assumes "c \<noteq> []"
  shows "lookup_step_success c' n' (record_step_success now c n result a t) =
    (if c' = c \<and> n' = n then Some (VStr result) else lookup_step_success c' n' t)"
  by (rule lookup_recorded [OF assms])

text \<open>The witnesses: a work item with a waiting plan, a progress row and a step result.\<close>

definition sample_resume :: plan_resume where
  "sample_resume = \<lparr>pr_kind = ''execute'', pr_from = 2, pr_prev = Some [(''step_1_output'', VStr ''ok'')],
     pr_action = ''w1'', pr_task = ''t'', pr_plan = ''[]''\<rparr>"

definition sample_resumes :: resumes where
  "sample_resumes = record_step_success 5 ''c1'' 1 ''ok'' ''w1''
     (save_plan_progress 4 ''w1'' 2 None (register_plan_resume 3 ''apr_1'' sample_resume []))"

lemma sample_resumes_reach: "resumes_reach sample_resumes"
proof -
  have "resumes_reach (register_plan_resume now i r t)" if "resumes_reach t" for now i r t
    using that by (rule resumes_reach.step) (rule registered)
  then show ?thesis
    unfolding sample_resumes_def record_step_success_def save_plan_progress_def Let_def by (simp add: resumes_reach.empty)
qed

end
