(* ===== verification/Governance.thy ===== *)
theory Governance
  imports Plan_Resume
begin

text \<open>
  Capability governance: the policy and its risk cache, the three gates of \<open>decide\<close>
  (\<open>core/runtime/capability_governance.py\<close>), approvals and \<open>invoke_capability\<close>
  (\<open>kernel/governance_ops.py\<close>), the taint marks (\<open>core/runtime/taint.py\<close>) and the identities of
  \<open>core/runtime/execution.py\<close>.

  \<^item> \<open>gov\<close> is the state they share. An operation is a \<open>gm\<close>: it changes the state and may raise, and
    what it did before it raised stays done, as every emission is its own transaction.
  \<^item> \<open>invoke_capability\<close> awaits the tool, so it is two segments: \<open>invoke_begin\<close> up to the call of the
    tool, \<open>invoke_end\<close> from its result; anything may run between them.
  \<^item> \<open>tools\<close> is what the module asks of the tool hub and of the Python library: which tools exist, which
    ask for confirmation, the pattern scan of the arguments, \<open>str()\<close> of a dict and of an exception.
\<close>

section \<open>State\<close>

record policy_file =
  pf_forbidden :: "string list"
  pf_needs_user :: "string list"
  pf_auto_allow :: "string list"
  pf_ingestion :: "string list"

record mark =
  mk_source :: string
  mk_reason :: string
  mk_ts :: time

record gov =
  g_kernel :: kernel
  g_resumes :: resumes
  g_policy :: policy_file
  g_auto :: "string set"
  g_user :: "string set"
  g_forb :: "string set"
  g_bound :: bool
  g_cache :: "((string \<times> bool) \<times> string) list"
  g_marks :: "(string \<times> mark) list"
  g_mono :: time
  g_ingest :: "string set"
  g_write :: "string set"
  g_scope :: "string option"
  g_uuid :: nat
  g_cancels :: "string set"

record tools =
  te_known :: "string \<Rightarrow> bool"
  te_confirm :: "string \<Rightarrow> bool"
  te_local_ops :: bool
  te_scan :: "dict \<Rightarrow> bool"
  te_repr :: "dict \<Rightarrow> string"
  te_err :: "err \<Rightarrow> string"

type_synonym 'a gm = "gov \<Rightarrow> gov \<times> 'a res"

definition gret :: "'a \<Rightarrow> 'a gm" where
  "gret x = (\<lambda>g. (g, Inr x))"

definition gbind :: "'a gm \<Rightarrow> ('a \<Rightarrow> 'b gm) \<Rightarrow> 'b gm" where
  "gbind m f = (\<lambda>g. case m g of (g', Inl e) \<Rightarrow> (g', Inl e) | (g', Inr x) \<Rightarrow> f x g')"

text \<open>\<open>try: m except Exception as exc: h(exc)\<close>.\<close>

definition gtry :: "'a gm \<Rightarrow> (err \<Rightarrow> 'a gm) \<Rightarrow> 'a gm" where
  "gtry m h = (\<lambda>g. case m g of (g', Inl e) \<Rightarrow> h e g' | (g', Inr x) \<Rightarrow> (g', Inr x))"

definition gmod :: "(gov \<Rightarrow> gov) \<Rightarrow> unit gm" where
  "gmod f = (\<lambda>g. (f g, Inr ()))"

definition gread :: "(gov \<Rightarrow> 'a) \<Rightarrow> 'a gm" where
  "gread f = (\<lambda>g. (g, Inr (f g)))"

text \<open>A uuid: never drawn before.\<close>

definition new_uuid :: "string gm" where
  "new_uuid = (\<lambda>g. (g\<lparr>g_uuid := Suc (g_uuid g)\<rparr>, Inr (show_nat (g_uuid g))))"

definition invalidate_risk_cache :: "gov \<Rightarrow> gov" where
  "invalidate_risk_cache g = g\<lparr>g_cache := []\<rparr>"

text \<open>The policy projectors drop the risk cache.\<close>

definition gemit :: "string \<Rightarrow> string \<Rightarrow> string \<Rightarrow> dict \<Rightarrow> string \<Rightarrow> string option \<Rightarrow> string option \<Rightarrow> event gm" where
  "gemit et agg aid p actor caused corr = (\<lambda>g.
     case emit_event (g_kernel g) et agg aid p actor caused corr of
       Inl e \<Rightarrow> (g, Inl e)
     | Inr (k', ev) \<Rightarrow>
         let g' = g\<lparr>g_kernel := k'\<rparr> in
         (if et = ''PolicyCreated'' \<or> et = ''PolicyUpdated'' then invalidate_risk_cache g' else g', Inr ev))"

section \<open>Identities\<close>

record principal =
  pl_id :: string
  pl_type :: string
  pl_actor :: string
  pl_allowed :: "string list"

definition principal_system :: principal where
  "principal_system = \<lparr>pl_id = ''system'', pl_type = ''system'', pl_actor = ''system'', pl_allowed = [''*'']\<rparr>"

definition principal_user :: "string \<Rightarrow> principal" where
  "principal_user u = \<lparr>pl_id = u, pl_type = ''user'', pl_actor = u, pl_allowed = [''*'']\<rparr>"

definition is_capable_of :: "principal \<Rightarrow> string \<Rightarrow> bool" where
  "is_capable_of p capability \<longleftrightarrow> ''*'' \<in> set (pl_allowed p) \<or> capability \<in> set (pl_allowed p)"

definition runtime_actors :: "string list" where
  "runtime_actors = [''system'', ''kernel'', ''scheduler'', ''executor'', ''background'']"

definition resolve :: "string \<Rightarrow> principal" where
  "resolve actor =
     (if starts_with ''agent:'' actor \<or> starts_with ''runtime:'' actor \<or> actor \<in> set runtime_actors
      then principal_system else principal_user actor)"

definition runtime_ownership_actors :: "string list" where
  "runtime_ownership_actors = [''scheduler'', ''executor'', ''background'']"

definition actor_requires_execution_ownership :: "string \<Rightarrow> bool" where
  "actor_requires_execution_ownership actor \<longleftrightarrow>
     starts_with ''agent:'' actor \<or> starts_with ''runtime:'' actor \<or> actor \<in> set runtime_ownership_actors"

section \<open>Taint\<close>

definition taint_ttl :: time where
  "taint_ttl = 300 * second_us"

definition expire_marks :: "gov \<Rightarrow> gov" where
  "expire_marks g = g\<lparr>g_marks := filter (\<lambda>(c, m). \<not> taint_ttl < g_mono g - mk_ts m) (g_marks g)\<rparr>"

definition mark_taint :: "string option \<Rightarrow> string \<Rightarrow> string \<Rightarrow> gov \<Rightarrow> gov" where
  "mark_taint c source reason g =
     (if \<not> given c then g
      else g\<lparr>g_marks := AList.update (the c)
        \<lparr>mk_source = source, mk_reason = (if reason = [] then source else reason), mk_ts = g_mono g\<rparr> (g_marks g)\<rparr>)"

definition is_tainted :: "string option \<Rightarrow> bool gm" where
  "is_tainted c = (\<lambda>g. if \<not> given c then (g, Inr False)
     else let g' = expire_marks g in (g', Inr (map_of (g_marks g') (the c) \<noteq> None)))"

definition clear_taint :: "string option \<Rightarrow> gov \<Rightarrow> gov" where
  "clear_taint c g = (if given c then g\<lparr>g_marks := AList.delete (the c) (g_marks g)\<rparr> else g)"

definition clear_all_taint :: "gov \<Rightarrow> gov" where
  "clear_all_taint g = g\<lparr>g_marks := []\<rparr>"

definition is_external_ingestion_tool :: "gov \<Rightarrow> string \<Rightarrow> bool" where
  "is_external_ingestion_tool g name \<longleftrightarrow> name \<in> set (pf_ingestion (g_policy g)) \<or> name \<in> g_ingest g"

definition register_external_ingestion_tool :: "string \<Rightarrow> gov \<Rightarrow> gov" where
  "register_external_ingestion_tool name g = g\<lparr>g_ingest := insert name (g_ingest g)\<rparr>"

definition register_external_write_tool :: "string \<Rightarrow> gov \<Rightarrow> gov" where
  "register_external_write_tool name g = g\<lparr>g_write := insert name (g_write g)\<rparr>"

definition reset_external_tools :: "gov \<Rightarrow> gov" where
  "reset_external_tools g = clear_all_taint (g\<lparr>g_ingest := {}, g_write := {}\<rparr>)"

definition is_write_class_tool :: "gov \<Rightarrow> string \<Rightarrow> bool" where
  "is_write_class_tool g name \<longleftrightarrow> name \<in> set (pf_needs_user (g_policy g)) \<or> name \<in> g_write g"

section \<open>Policy\<close>

definition upsert_policy :: "string \<Rightarrow> string \<Rightarrow> unit gm" where
  "upsert_policy capability risk = (\<lambda>g.
     let aid = ''policy_'' @ capability in
     case query_policy_events (g_kernel g) (Some capability) None (Some 1) of
       [] \<Rightarrow> gbind (gemit ''PolicyCreated'' ''policy'' aid
               [(''capability'', VStr capability), (''risk_level'', VStr risk)] ''kernel'' None None) (\<lambda>_. gret ()) g
     | r # _ \<Rightarrow>
         if po_status r = ''revoked''
         then gbind (gemit ''PolicyUpdated'' ''policy'' aid
                [(''capability'', VStr capability), (''status'', VStr ''active''), (''risk_level'', VStr risk)]
                ''kernel'' None None) (\<lambda>_. gret ()) g
         else if po_risk r \<noteq> VStr risk
         then gbind (gemit ''PolicyUpdated'' ''policy'' aid
                [(''capability'', VStr capability), (''risk_level'', VStr risk)] ''kernel'' None None) (\<lambda>_. gret ()) g
         else (g, Inr ()))"

fun geach :: "('a \<Rightarrow> unit gm) \<Rightarrow> 'a list \<Rightarrow> unit gm" where
  "geach f [] = gret ()"
| "geach f (x # xs) = gbind (f x) (\<lambda>_. geach f xs)"

text \<open>\<open>seed_from_json\<close>, with the file there.\<close>

definition seed_from_json :: "unit gm" where
  "seed_from_json =
     gbind (gmod (\<lambda>g. g\<lparr>g_bound := True\<rparr>)) (\<lambda>_.
     gbind (gread g_policy) (\<lambda>pf.
     gbind (geach (\<lambda>n. upsert_policy n ''forbidden'') (pf_forbidden pf)) (\<lambda>_.
     gbind (geach (\<lambda>n. upsert_policy n ''high'') (pf_needs_user pf)) (\<lambda>_.
       geach (\<lambda>n. upsert_policy n ''low'') (pf_auto_allow pf)))))"

definition risk_for_uncached :: "kernel option \<Rightarrow> string \<Rightarrow> bool \<Rightarrow> string" where
  "risk_for_uncached ko name mcp_high =
     (case ko of
        None \<Rightarrow> if mcp_high then ''high'' else ''low''
      | Some k \<Rightarrow>
          (case query_policy_events k (Some name) (Some ''active'') (Some 1) of
             [] \<Rightarrow> if mcp_high then ''high'' else ''low''
           | r # _ \<Rightarrow> if po_risk r = VStr ''forbidden'' then ''forbidden''
                      else if po_risk r = VStr ''high'' then ''high'' else ''low''))"

definition risk_for :: "string \<Rightarrow> bool \<Rightarrow> bool \<Rightarrow> string gm" where
  "risk_for name with_kernel mcp_high = (\<lambda>g.
     if name \<in> g_forb g then (g, Inr ''forbidden'')
     else if name \<in> g_user g then (g, Inr ''high'')
     else if name \<in> g_auto g then (g, Inr ''low'')
     else case map_of (g_cache g) (name, mcp_high) of
            Some r \<Rightarrow> (g, Inr r)
          | None \<Rightarrow>
              let r = risk_for_uncached (if with_kernel then Some (g_kernel g) else None) name mcp_high in
              (g\<lparr>g_cache := AList.update (name, mcp_high) r (g_cache g)\<rparr>, Inr r))"

definition is_forbidden :: "string \<Rightarrow> bool \<Rightarrow> bool gm" where
  "is_forbidden name with_kernel = gbind (risk_for name with_kernel False) (\<lambda>r. gret (r = ''forbidden''))"

definition register_external_tool :: "string \<Rightarrow> string \<Rightarrow> unit gm" where
  "register_external_tool name risk =
     gbind (gmod invalidate_risk_cache) (\<lambda>_.
     gbind (gread g_bound) (\<lambda>bound.
     gbind (if bound then upsert_policy name risk else gret ()) (\<lambda>_.
       gmod (\<lambda>g. g\<lparr>g_auto := (if risk = ''forbidden'' \<or> risk = ''high'' then g_auto g - {name} else insert name (g_auto g)),
                    g_user := (if risk = ''high'' then insert name (g_user g) else g_user g - {name}),
                    g_forb := (if risk = ''forbidden'' then insert name (g_forb g) else g_forb g - {name})\<rparr>))))"

text \<open>\<open>revoke_external_tools\<close>; the names in the order the code iterates them.\<close>

fun revoke_loop :: "string list \<Rightarrow> int \<Rightarrow> int gm" where
  "revoke_loop [] n = gret n"
| "revoke_loop (name # names) n = (\<lambda>g.
     if query_policy_events (g_kernel g) (Some name) (Some ''active'') (Some 1) = [] then revoke_loop names n g
     else gbind (gemit ''PolicyUpdated'' ''policy'' (''policy_'' @ name)
            [(''capability'', VStr name), (''status'', VStr ''revoked'')] ''kernel'' None None) (\<lambda>_.
          gbind (gmod (\<lambda>g. g\<lparr>g_auto := g_auto g - {name}, g_user := g_user g - {name}, g_forb := g_forb g - {name}\<rparr>))
            (\<lambda>_. revoke_loop names (n + 1))) g)"

definition revoke_external_tools :: "string list \<Rightarrow> int gm" where
  "revoke_external_tools names = (\<lambda>g.
     if \<not> g_bound g then (g, Inr 0)
     else gbind (revoke_loop names 0) (\<lambda>n. gbind (gmod (\<lambda>g. if n \<noteq> 0 then invalidate_risk_cache g else g)) (\<lambda>_. gret n)) g)"

text \<open>\<open>clear_external_tools\<close>; \<open>names\<close> is an enumeration of the registered names.\<close>

definition clear_external_tools :: "string list \<Rightarrow> bool \<Rightarrow> unit gm" where
  "clear_external_tools names persist =
     gbind (gmod invalidate_risk_cache) (\<lambda>_.
     gbind (gread g_bound) (\<lambda>bound.
     gbind (if persist \<and> bound \<and> names \<noteq> [] then revoke_external_tools names else gret 0) (\<lambda>_.
       gmod (\<lambda>g. g\<lparr>g_auto := {}, g_user := {}, g_forb := {}\<rparr>))))"

definition all_registered_tools :: "gov \<Rightarrow> bool \<Rightarrow> val set" where
  "all_registered_tools g with_kernel =
     VStr ` (g_auto g \<union> g_user g \<union> g_forb g) \<union>
     (if with_kernel then set (map po_capability (query_policy_events (g_kernel g) None (Some ''active'') (Some 500))) else {})"

definition reset_governance :: "gov \<Rightarrow> gov" where
  "reset_governance g = g\<lparr>g_auto := {}, g_user := {}, g_forb := {}, g_cache := [], g_bound := False\<rparr>"

text \<open>The listing of the tools for the model (\<open>mcp_hub.get_tool_defs_for_llm\<close>) asks without a kernel.\<close>

fun tool_defs_for_llm :: "string list \<Rightarrow> string list gm" where
  "tool_defs_for_llm [] = gret []"
| "tool_defs_for_llm (name # names) =
     gbind (is_forbidden name False) (\<lambda>f.
     gbind (tool_defs_for_llm names) (\<lambda>rest. gret (if f then rest else name # rest)))"

section \<open>Approvals\<close>

definition default_approval_ttl :: int where
  "default_approval_ttl = 86400"

datatype approval_answer = Approved string | Awaiting string

definition request_approval :: "string \<Rightarrow> string \<Rightarrow> dict \<Rightarrow> string \<Rightarrow> string option \<Rightarrow> int \<Rightarrow> approval_answer gm" where
  "request_approval action risk ctx actor corr ttl =
     gbind new_uuid (\<lambda>u.
     gbind (gread (\<lambda>g. k_now (g_kernel g))) (\<lambda>now.
     let aid = ''apr_'' @ u in
     gbind (gemit ''ApprovalRequested'' ''approval'' aid
       [(''action'', VStr action), (''risk'', VStr risk), (''ctx'', VObj ctx),
        (''expires_at'', VTime (now + ttl * second_us))] actor None corr) (\<lambda>_.
     if risk = ''low''
     then gbind (gemit ''ApprovalGranted'' ''approval'' aid
            [(''action'', VStr action), (''reason'', VStr ''auto_allow'')] ''kernel'' None corr) (\<lambda>_. gret (Approved aid))
     else gret (Awaiting aid))))"

definition grant_approval :: "string \<Rightarrow> string \<Rightarrow> string \<Rightarrow> string \<Rightarrow> string option \<Rightarrow> unit gm" where
  "grant_approval aid action actor reason corr =
     gbind (gemit ''ApprovalGranted'' ''approval'' aid [(''action'', VStr action), (''reason'', VStr reason)] actor None corr)
       (\<lambda>_. gret ())"

definition deny_approval :: "string \<Rightarrow> string \<Rightarrow> string \<Rightarrow> string \<Rightarrow> string option \<Rightarrow> unit gm" where
  "deny_approval aid action actor reason corr =
     gbind (gemit ''ApprovalDenied'' ''approval'' aid [(''action'', VStr action), (''reason'', VStr reason)] actor None corr)
       (\<lambda>_. gret ())"

definition stale_approval :: "time \<Rightarrow> approval_row \<Rightarrow> bool" where
  "stale_approval now r \<longleftrightarrow>
     ap_status r = ''pending'' \<and> ap_expires_at r \<noteq> VNull \<and> sql_key (ap_expires_at r) \<le> sql_key (VTime now)"

definition expire_approval :: "string \<times> val \<Rightarrow> unit gm" where
  "expire_approval = (\<lambda>(aid, action).
     gbind (gmod (\<lambda>g. g\<lparr>g_resumes := snd (take_plan_resume aid (g_resumes g))\<rparr>)) (\<lambda>_.
     gbind (gmod (\<lambda>g. g\<lparr>g_resumes := snd (clear_chat_checkpoint_for_approval (g_kernel g) aid (g_resumes g))\<rparr>)) (\<lambda>_.
     gbind (gemit ''ApprovalDenied'' ''approval'' aid [(''action'', action), (''reason'', VStr ''auto_expired'')]
       ''kernel'' None None) (\<lambda>_. gret ()))))"

definition expire_stale_approvals :: "int gm" where
  "expire_stale_approvals = (\<lambda>g.
     let expired = map (\<lambda>r. (ap_id r, py_or (ap_action r) (VStr [])))
                     (filter (stale_approval (k_now (g_kernel g))) (t_approvals (k_db (g_kernel g))))
     in gbind (geach expire_approval expired) (\<lambda>_. gret (int (length expired))) g)"

definition get_approval :: "gov \<Rightarrow> string \<Rightarrow> approval_row option" where
  "get_approval g aid = (case query_approvals (g_kernel g) (Some aid) None None of [] \<Rightarrow> None | r # _ \<Rightarrow> Some r)"

definition list_pending :: "gov \<Rightarrow> approval_row list" where
  "list_pending g = query_approvals (g_kernel g) None (Some ''pending'') None"

definition list_all_approvals :: "gov \<Rightarrow> int \<Rightarrow> approval_row list" where
  "list_all_approvals g mx = query_approvals (g_kernel g) None None (Some mx)"

section \<open>Authorization\<close>

text \<open>Equality of two values: numbers by value, dicts without regard to order.\<close>

definition as_number :: "val \<Rightarrow> rat option" where
  "as_number v = (case v of VInt n \<Rightarrow> Some (of_int n) | VNum r \<Rightarrow> Some r | VBool b \<Rightarrow> Some (if b then 1 else 0) | _ \<Rightarrow> None)"

primrec py_eq :: "val \<Rightarrow> val \<Rightarrow> bool" where
  "py_eq VNull = (\<lambda>w. w = VNull)"
| "py_eq (VBool b) = (\<lambda>w. as_number w = as_number (VBool b))"
| "py_eq (VInt n) = (\<lambda>w. as_number w = as_number (VInt n))"
| "py_eq (VNum r) = (\<lambda>w. as_number w = as_number (VNum r))"
| "py_eq (VStr s) = (\<lambda>w. w = VStr s)"
| "py_eq (VTime t) = (\<lambda>w. w = VTime t)"
| "py_eq (VList xs) = (\<lambda>w. case w of VList ys \<Rightarrow> list_all2 (\<lambda>f y. f y) (map py_eq xs) ys | _ \<Rightarrow> False)"
| "py_eq (VObj kvs) = (\<lambda>w. case w of
     VObj kvs' \<Rightarrow> length kvs = length kvs' \<and>
       list_all (\<lambda>(k, f). case map_of kvs' k of None \<Rightarrow> False | Some y \<Rightarrow> f y) (map (map_prod id py_eq) kvs)
   | _ \<Rightarrow> False)"

text \<open>\<open>_parse_approval_params\<close>: the recorded arguments, \<open>None\<close> where the text does not parse or is no dict.\<close>

definition parse_approval_params :: "approval_row \<Rightarrow> dict option" where
  "parse_approval_params r =
     (case py_or (ap_params r) (VObj []) of VObj d \<Rightarrow> Some d | _ \<Rightarrow> None)"

definition pre_approval_error :: "gov \<Rightarrow> string \<Rightarrow> string \<Rightarrow> dict \<Rightarrow> string option" where
  "pre_approval_error g aid name args =
     (case query_approvals (g_kernel g) (Some aid) None None of
        [] \<Rightarrow> Some (''Approval not found: '' @ aid)
      | r # _ \<Rightarrow>
          if ap_status r \<noteq> ''pending'' then Some (''Approval not pending: '' @ ap_status r)
          else if ap_action r \<noteq> VStr name then Some ''Approval action does not match capability''
          else case parse_approval_params r of
                 None \<Rightarrow> Some ''Approval record has invalid params''
               | Some d \<Rightarrow> if py_eq (VObj d) (VObj args) then None
                           else Some ''Approval params do not match capability args'')"

definition consume_pre_approved :: "string \<Rightarrow> string \<Rightarrow> dict \<Rightarrow> string \<Rightarrow> string option \<Rightarrow> string option gm" where
  "consume_pre_approved aid name args actor corr =
     gbind (gread (\<lambda>g. pre_approval_error g aid name args)) (\<lambda>e.
       case e of
         Some msg \<Rightarrow> gret (Some msg)
       | None \<Rightarrow> gbind (grant_approval aid name actor ''pre_approved'' corr) (\<lambda>_. gret None))"

definition is_sensitive_capability :: "tools \<Rightarrow> gov \<Rightarrow> string \<Rightarrow> dict \<Rightarrow> bool" where
  "is_sensitive_capability env g name args \<longleftrightarrow>
     te_local_ops env \<and> (name \<in> set (pf_needs_user (g_policy g)) \<or> args \<noteq> [] \<and> te_scan env args)"

definition elevated_risk :: "tools \<Rightarrow> gov \<Rightarrow> string \<Rightarrow> dict \<Rightarrow> string" where
  "elevated_risk env g name args = (if is_sensitive_capability env g name args then ''high'' else [])"

definition plan_defer_actors :: "string list" where
  "plan_defer_actors = [''executor'', ''background'']"

datatype decision = Allow string | Deny string | Defer string string

definition decide :: "tools \<Rightarrow> principal \<Rightarrow> string \<Rightarrow> dict \<Rightarrow> string option \<Rightarrow> bool \<Rightarrow> string option \<Rightarrow> string option
    \<Rightarrow> decision gm" where
  "decide env p capability args corr pre aid invoking =
     (let actor = (if given invoking then the invoking else pl_actor p) in
      gbind (risk_for capability True (te_confirm env capability)) (\<lambda>policy_risk.
      if policy_risk = ''forbidden'' then gret (Deny ''forbidden_by_policy'')
      else
      gbind (is_tainted corr) (\<lambda>tainted.
      gbind (gread (\<lambda>g. tainted \<and> is_write_class_tool g capability)) (\<lambda>tainted_write.
      if tainted_write \<and> pl_type p \<noteq> ''user'' then gret (Deny (''tainted_write_'' @ pl_type p @ ''_auto_denied''))
      else if pre then
        (if \<not> given aid then gret (Deny ''pre_approved_requires_approval_id'')
         else gbind (consume_pre_approved (the aid) capability args (pl_actor p) corr) (\<lambda>e.
           case e of Some msg \<Rightarrow> gret (Deny msg) | None \<Rightarrow> gret (Allow ''pre_approved'')))
      else
      gbind (gread (\<lambda>g. elevated_risk env g capability args)) (\<lambda>elevated.
      let risk0 = (if elevated \<noteq> [] then elevated else if policy_risk = ''high'' then ''high'' else ''low'');
          risk = (if tainted_write then ''high'' else risk0)
      in if risk = ''high'' \<and> pl_type p \<noteq> ''user'' \<and> actor \<notin> set plan_defer_actors
         then gret (Deny (''high_risk_'' @ pl_type p @ ''_auto_denied''))
         else gbind (request_approval capability risk [(''args'', VObj args)] actor corr default_approval_ttl) (\<lambda>a.
           case a of Approved i \<Rightarrow> gret (Allow ''approved'')
                   | Awaiting i \<Rightarrow> gret (Defer ''needs_user_confirmation'' i)))))))"

section \<open>Invoking a capability\<close>

definition summary_cap :: nat where
  "summary_cap = 200"

definition handler_execution_exists :: "kernel \<Rightarrow> string \<Rightarrow> bool" where
  "handler_execution_exists k e \<longleftrightarrow> sql_find he_id e (handler_rows k) \<noteq> None"

definition emit_capability_denied :: "string \<Rightarrow> string \<Rightarrow> string \<Rightarrow> string option \<Rightarrow> string option \<Rightarrow> dict \<Rightarrow> unit gm" where
  "emit_capability_denied name reason actor corr caused extra =
     gbind (gemit ''CapabilityDenied'' ''capability'' (''cap_'' @ name)
       ([(''name'', VStr name), (''reason'', VStr reason)] @ extra) actor caused corr) (\<lambda>_. gret ())"

record ready =
  rd_name :: string
  rd_args :: dict
  rd_actor :: string
  rd_caused :: "string option"
  rd_corr :: "string option"
  rd_intent :: "string option"

datatype invocation = Answered dict | Ready ready

definition refused :: "string \<Rightarrow> string \<Rightarrow> invocation" where
  "refused e outcome = Answered [(''status'', VStr ''error''), (''error'', VStr e), (''outcome'', VStr outcome)]"

definition capability_event_failed :: "string \<Rightarrow> string \<Rightarrow> string \<Rightarrow> val \<Rightarrow> string \<Rightarrow> string option \<Rightarrow> string option \<Rightarrow> unit gm" where
  "capability_event_failed name e outcome latency actor caused corr =
     gbind (gemit ''CapabilityFailed'' ''capability'' (''cap_'' @ name)
       [(''name'', VStr name), (''error'', VStr e), (''outcome'', VStr outcome), (''latency_ms'', latency)] actor caused corr)
       (\<lambda>_. gret ())"

text \<open>After the decision: the intent of a write-class tool is recorded before the tool is called.\<close>

definition announce :: "tools \<Rightarrow> string \<Rightarrow> dict \<Rightarrow> string \<Rightarrow> string option \<Rightarrow> string option \<Rightarrow> invocation gm" where
  "announce env name args actor corr caused =
     gbind (gread (\<lambda>g. is_write_class_tool g name)) (\<lambda>w.
       if w then gbind new_uuid (\<lambda>i.
              gbind (gmod (\<lambda>g. g\<lparr>g_resumes := record_capability_intent (g_kernel g) (g_scope g) i name
                  (take summary_cap (te_repr env args)) actor corr None None None (g_resumes g)\<rparr>)) (\<lambda>_.
              gret (Ready \<lparr>rd_name = name, rd_args = args, rd_actor = actor, rd_caused = caused, rd_corr = corr,
                rd_intent = Some i\<rparr>)))
       else gret (Ready \<lparr>rd_name = name, rd_args = args, rd_actor = actor, rd_caused = caused, rd_corr = corr,
                rd_intent = None\<rparr>))"

fun after_decision :: "tools \<Rightarrow> string \<Rightarrow> dict \<Rightarrow> string \<Rightarrow> string option \<Rightarrow> string option \<Rightarrow> decision \<Rightarrow> invocation gm" where
  "after_decision env name args actor corr cause (Deny reason) =
     gbind (emit_capability_denied name reason actor corr None []) (\<lambda>_. gret (refused reason ''authorization_failure''))"
| "after_decision env name args actor corr cause (Defer reason i) =
     gbind (emit_capability_denied name ''deferred'' actor corr cause
       [(''args_summary'', VStr (take summary_cap (te_repr env args))), (''deny_reason'', VStr reason), (''approval_id'', VStr i)])
       (\<lambda>_. gret (Answered [(''status'', VStr ''pending''), (''approval_id'', VStr i), (''outcome'', VStr ''approval_required'')]))"
| "after_decision env name args actor corr cause (Allow why) = announce env name args actor corr cause"

definition invoke_begin :: "tools \<Rightarrow> string \<Rightarrow> dict \<Rightarrow> string \<Rightarrow> string option \<Rightarrow> string option \<Rightarrow> bool \<Rightarrow> string option
    \<Rightarrow> principal option \<Rightarrow> string option \<Rightarrow> invocation gm" where
  "invoke_begin env name args actor corr caused pre aid who execution = (\<lambda>g.
     if \<not> te_known env name
     then gbind (capability_event_failed name (''Unknown capability: '' @ name) ''tool_not_found'' (VInt 0)
            (case who of None \<Rightarrow> actor | Some p \<Rightarrow> pl_actor p) caused corr)
            (\<lambda>_. gret (refused (''Unknown capability: '' @ name) ''tool_not_found'')) g
     else
     let p = (case who of None \<Rightarrow> resolve actor | Some p \<Rightarrow> p);
         owner = (if given execution then execution else if given (g_scope g) then g_scope g else None)
     in if actor_requires_execution_ownership actor \<and> owner = None
        then gbind (emit_capability_denied name ''missing_execution_id'' (pl_actor p) corr None [])
               (\<lambda>_. gret (refused ''missing_execution_id'' ''authorization_failure'')) g
        else if owner \<noteq> None \<and> \<not> handler_execution_exists (g_kernel g) (the owner)
        then gbind (emit_capability_denied name ''invalid_execution_id'' (pl_actor p) corr None [])
               (\<lambda>_. gret (refused ''invalid_execution_id'' ''authorization_failure'')) g
        else
          let cause = (if owner \<noteq> None then owner else caused) in
          gbind (decide env p name args corr pre aid (Some actor)) (after_decision env name args (pl_actor p) corr cause) g)"

text \<open>What the tool did: its text, or the text and the \<open>reason\<close> of its exception; \<open>ms\<close> is the time it took.\<close>

datatype tool_outcome = Returned string | Threw string "string option"

definition finish_intent :: "ready \<Rightarrow> gov \<Rightarrow> gov" where
  "finish_intent rd g = (case rd_intent rd of None \<Rightarrow> g
     | Some i \<Rightarrow> g\<lparr>g_resumes := clear_capability_intent i (g_resumes g)\<rparr>)"

definition invoke_failed :: "ready \<Rightarrow> rat \<Rightarrow> string \<Rightarrow> string option \<Rightarrow> dict gm" where
  "invoke_failed rd ms e reason =
     (let outcome = (if given reason then the reason else ''internal_error'') in
      gbind (capability_event_failed (rd_name rd) e outcome (VNum ms) (rd_actor rd) (rd_caused rd) (rd_corr rd)) (\<lambda>_.
      gbind (gmod (finish_intent rd)) (\<lambda>_.
        gret [(''status'', VStr ''error''), (''error'', VStr e), (''outcome'', VStr outcome)])))"

definition invoke_end :: "tools \<Rightarrow> ready \<Rightarrow> rat \<Rightarrow> tool_outcome \<Rightarrow> dict gm" where
  "invoke_end env rd ms outcome =
     (case outcome of
        Threw e reason \<Rightarrow> invoke_failed rd ms e reason
      | Returned text \<Rightarrow>
          gtry (gbind (gemit ''CapabilityInvoked'' ''capability'' (''cap_'' @ rd_name rd)
                  [(''name'', VStr (rd_name rd)), (''args_summary'', VStr (take summary_cap (te_repr env (rd_args rd)))),
                   (''result_summary'', VStr (take summary_cap text)), (''latency_ms'', VNum ms)]
                  (rd_actor rd) (rd_caused rd) (rd_corr rd)) (\<lambda>_.
                gbind (gmod (finish_intent rd)) (\<lambda>_.
                gbind (gmod (\<lambda>g. if given (rd_corr rd) \<and> is_external_ingestion_tool g (rd_name rd)
                                then mark_taint (rd_corr rd) ''external_ingestion'' (rd_name rd) g else g)) (\<lambda>_.
                  gret [(''status'', VStr ''success''), (''result'', VStr text), (''outcome'', VStr ''success'')]))))
            (\<lambda>e. invoke_failed rd ms (te_err env e) None))"

end
