(* ===== verification/Gov_Props.thy ===== *)
theory Gov_Props
  imports Governance
begin

text \<open>
  What governance guarantees: the risk cache agrees with the policy table in every reachable state, so
  a tool only runs past all three gates; taint flows from an ingesting tool to the write-class tools of
  the same correlation; a pre-approval is spent by its first use; every run leaves an audit event and,
  for a write-class tool, an intent before it. And where the guarantee ends: a lookup without the
  kernel fills the cache with an answer the policy table does not back.
\<close>

section \<open>The state monad\<close>

lemma gbind_Inr_iff: "gbind m f g = (g', Inr y) \<longleftrightarrow> (\<exists>g1 x. m g = (g1, Inr x) \<and> f x g1 = (g', Inr y))"
  by (auto simp: gbind_def split: prod.splits sum.splits)

lemma gret_iff [simp]: "gret x g = (g', r) \<longleftrightarrow> g' = g \<and> r = Inr x"
  by (auto simp: gret_def)

lemma gmod_iff [simp]: "gmod f g = (g', r) \<longleftrightarrow> g' = f g \<and> r = Inr ()"
  by (auto simp: gmod_def)

lemma gread_iff [simp]: "gread f g = (g', r) \<longleftrightarrow> g' = g \<and> r = Inr (f g)"
  by (auto simp: gread_def)

lemmas gm_simps = gbind_def gret_def gmod_def gread_def

section \<open>Emitting\<close>

definition policy_types :: "string list" where
  "policy_types = [''PolicyCreated'', ''PolicyUpdated'']"

lemma gemit_Inr:
  "gemit et agg aid p actor caused corr g = (g', Inr ev) \<Longrightarrow>
   \<exists>k'. emit_event (g_kernel g) et agg aid p actor caused corr = Inr (k', ev) \<and>
     g' = g\<lparr>g_kernel := k', g_cache := (if et \<in> set policy_types then [] else g_cache g)\<rparr>"
  by (auto simp: gemit_def Let_def policy_types_def invalidate_risk_cache_def split: sum.splits if_splits)

lemma gemit_owned:
  assumes "kernel_ok (g_kernel g)" and "map_of handler_table et = Some a" and "agg = agg_name a" and "et \<notin> set policy_types"
    and "run_projector a (next_event (g_kernel g) et agg aid p actor caused corr) (k_db (g_kernel g)) = Inr d"
  shows "\<exists>k'. gemit et agg aid p actor caused corr g =
      (g\<lparr>g_kernel := k'\<rparr>, Inr (next_event (g_kernel g) et agg aid p actor caused corr)) \<and>
    k_db k' = d \<and> logged (g_kernel g) (next_event (g_kernel g) et agg aid p actor caused corr) k'"
proof -
  from emit_owned [OF assms(1-3,5)] obtain k' where
    "emit_event (g_kernel g) et agg aid p actor caused corr = Inr (k', next_event (g_kernel g) et agg aid p actor caused corr)"
    "k_db k' = d" "logged (g_kernel g) (next_event (g_kernel g) et agg aid p actor caused corr) k'" by blast
  with assms(4) show ?thesis by (auto simp: gemit_def policy_types_def)
qed

lemma capability_emitted:
  assumes "kernel_ok (g_kernel g)" and "et \<in> {''CapabilityInvoked'', ''CapabilityFailed''}"
    and name: "getd p ''name'' (VStr []) = VStr name" and "scalar (getd p ''latency_ms'' (VInt 0))" and "scalar (getd p ''error'' (VStr []))"
  shows "\<exists>k'. gemit et ''capability'' aid p actor caused corr g =
      (g\<lparr>g_kernel := k'\<rparr>, Inr (next_event (g_kernel g) et ''capability'' aid p actor caused corr)) \<and>
    logged (g_kernel g) (next_event (g_kernel g) et ''capability'' aid p actor caused corr) k'"
proof -
  let ?ev = "next_event (g_kernel g) et ''capability'' aid p actor caused corr"
  have "\<exists>d. tool_call_insert ?ev s l e (t_tool_calls (k_db (g_kernel g))) = Inr d" if "scalar l" "scalar e" for s l e
    using that by (simp add: tool_call_insert_def schema_key_def name Let_def)
  then have "\<exists>d. capability_projector ?ev (t_tool_calls (k_db (g_kernel g))) = Inr d"
    using assms(2) assms(4,5) by (elim insertE emptyE) (simp_all add: capability_projector_def schema_key_def Let_def)
  then obtain d where d: "run_projector Capability ?ev (k_db (g_kernel g)) = Inr d" by auto
  have et: "map_of handler_table et = Some Capability" "et \<notin> set policy_types"
    using assms(2) by (elim insertE emptyE; simp add: handler_table_def policy_types_def)+
  have "''capability'' = agg_name Capability" by simp
  from gemit_owned [OF assms(1) et(1) this et(2) d] show ?thesis by blast
qed

section \<open>The risk in force\<close>

definition risk_in_force :: "gov \<Rightarrow> string \<Rightarrow> bool \<Rightarrow> string" where
  "risk_in_force g name mcp_high =
     (if name \<in> g_forb g then ''forbidden'' else if name \<in> g_user g then ''high'' else if name \<in> g_auto g then ''low''
      else risk_for_uncached (Some (g_kernel g)) name mcp_high)"

definition cache_fresh :: "gov \<Rightarrow> bool" where
  "cache_fresh g \<longleftrightarrow> (\<forall>name b r. map_of (g_cache g) (name, b) = Some r \<longrightarrow> r = risk_for_uncached (Some (g_kernel g)) name b)"

definition gov_ok :: "gov \<Rightarrow> bool" where
  "gov_ok g \<longleftrightarrow> kernel_ok (g_kernel g) \<and> cache_fresh g"

lemma other_projector: "run_projector a ev d = Inr d' \<Longrightarrow> a \<noteq> Policy \<Longrightarrow> t_policy_events d' = t_policy_events d"
  by (cases a) auto

lemma policy_table_kept:
  assumes "emit_event k et agg aid p actor caused corr = Inr (k', ev)" and "et \<notin> set policy_types"
  shows "t_policy_events (k_db k') = t_policy_events (k_db k)"
proof -
  from assms(1) have ap: "apply_event (k_db k) ev = Inr (k_db k')" and ty: "ev_type ev = et"
    by (auto simp: emit_event_def Let_def create_event_def with_seq_def split: if_splits)
  have "event_owner ev \<noteq> Some Policy"
    using assms(2) ty by (auto simp: event_owner_def handler_table_def policy_types_def split: if_splits)
  with ap show ?thesis
    by (cases "event_owner ev") (auto simp: apply_event_def dest: other_projector)
qed

lemma uncached_table:
  "t_policy_events (k_db k') = t_policy_events (k_db k) \<Longrightarrow> risk_for_uncached (Some k') n b = risk_for_uncached (Some k) n b"
  by (simp add: risk_for_uncached_def query_policy_events_def)

lemma gemit_gov_ok:
  assumes "gov_ok g" and "gemit et agg aid p actor caused corr g = (g', Inr ev)" and "well_routed ev"
  shows "gov_ok g'"
proof -
  from gemit_Inr [OF assms(2)] obtain k' where k': "emit_event (g_kernel g) et agg aid p actor caused corr = Inr (k', ev)"
    and g': "g' = g\<lparr>g_kernel := k', g_cache := (if et \<in> set policy_types then [] else g_cache g)\<rparr>" by blast
  from assms(1) have ok: "kernel_ok (g_kernel g)" "cache_fresh g" by (simp_all add: gov_ok_def)
  have "cache_fresh g'"
  proof (cases "et \<in> set policy_types")
    case True
    then show ?thesis by (simp add: g' cache_fresh_def)
  next
    case False
    from uncached_table [OF policy_table_kept [OF k' False]] ok(2) False show ?thesis by (simp add: g' cache_fresh_def)
  qed
  with emit_event_ok [OF ok(1) k' assms(3)] show ?thesis by (simp add: gov_ok_def g')
qed

lemma risk_for_value:
  assumes "cache_fresh g" and "risk_for name True b g = (g', r)"
  shows "r = Inr (risk_in_force g name b) \<and> cache_fresh g' \<and> (\<exists>c. g' = g\<lparr>g_cache := c\<rparr>)"
proof (cases "map_of (g_cache g) (name, b)")
  case None
  have "g\<lparr>g_cache := g_cache g\<rparr> = g" by simp
  with None assms show ?thesis
    by (auto simp: risk_for_def risk_in_force_def Let_def cache_fresh_def update_conv split: if_splits intro: exI [of _ "g_cache g"])
next
  case (Some r)
  have "g\<lparr>g_cache := g_cache g\<rparr> = g" by simp
  with Some assms show ?thesis
    by (auto simp: risk_for_def risk_in_force_def cache_fresh_def split: if_splits intro: exI [of _ "g_cache g"])
qed

text \<open>The states of governance: emissions by anyone, lookups with the kernel, and changes of the other
  parts of the state, which drop the cache or keep it.\<close>

inductive gov_step :: "gov \<Rightarrow> gov \<Rightarrow> bool" where
  emitted: "gemit et agg aid p actor caused corr g = (g', Inr ev) \<Longrightarrow> well_routed ev \<Longrightarrow> gov_step g g'"
| looked: "risk_for name True b g = (g', r) \<Longrightarrow> gov_step g g'"
| other: "g_kernel g' = g_kernel g \<Longrightarrow> g_cache g' = g_cache g \<or> g_cache g' = [] \<Longrightarrow> gov_step g g'"
| clock: "k_now (g_kernel g) \<le> t \<Longrightarrow> gov_step g (g\<lparr>g_kernel := (g_kernel g)\<lparr>k_now := t\<rparr>\<rparr>)"

inductive gov_reach :: "gov \<Rightarrow> bool" where
  start: "kernel_reach reg (g_kernel g) \<Longrightarrow> g_cache g = [] \<Longrightarrow> gov_reach g"
| step: "gov_reach g \<Longrightarrow> gov_step g g' \<Longrightarrow> gov_reach g'"

inductive_cases gov_stepE: "gov_step g g'"

lemma gov_step_ok: "gov_step g g' \<Longrightarrow> gov_ok g \<Longrightarrow> gov_ok g'"
proof (induction rule: gov_step.induct)
  case (emitted et agg aid p actor caused corr g g' ev)
  then show ?case by (blast intro: gemit_gov_ok)
next
  case (looked name b g g' r)
  then show ?case using risk_for_value [of g name b g' r] by (auto simp: gov_ok_def)
next
  case (other g' g)
  then show ?case by (auto simp: gov_ok_def cache_fresh_def)
next
  case (clock g t)
  have "risk_for_uncached (Some ((g_kernel g)\<lparr>k_now := t\<rparr>)) n b = risk_for_uncached (Some (g_kernel g)) n b" for n b
    by (rule uncached_table) simp
  with clock show ?case by (simp add: gov_ok_def cache_fresh_def)
qed

lemma gov_reach_ok: "gov_reach g \<Longrightarrow> gov_ok g"
proof (induction rule: gov_reach.induct)
  case (start reg g)
  then show ?case by (simp add: gov_ok_def cache_fresh_def kernel_reach_ok)
next
  case (step g g')
  then show ?case by (blast intro: gov_step_ok)
qed

section \<open>The gates\<close>

definition tainted_now :: "gov \<Rightarrow> string option \<Rightarrow> bool" where
  "tainted_now g c \<longleftrightarrow> given c \<and> (\<exists>m. map_of (filter (\<lambda>(c, m). \<not> taint_ttl < g_mono g - mk_ts m) (g_marks g)) (the c) = Some m)"

lemma is_tainted_value:
  assumes "is_tainted c g = (g', r)"
  shows "r = Inr (tainted_now g c) \<and> (\<exists>m. g' = g\<lparr>g_marks := m\<rparr>)"
proof -
  have "g\<lparr>g_marks := g_marks g\<rparr> = g" by simp
  with assms show ?thesis
    by (auto simp: is_tainted_def tainted_now_def expire_marks_def Let_def split: if_splits intro: exI [of _ "g_marks g"])
qed

text \<open>What an allowed decision was based on.\<close>

definition passes_gates :: "tools \<Rightarrow> principal \<Rightarrow> string \<Rightarrow> dict \<Rightarrow> string option \<Rightarrow> bool \<Rightarrow> string option \<Rightarrow> gov \<Rightarrow> bool" where
  "passes_gates env p name args corr pre aid g \<longleftrightarrow>
     risk_in_force g name (te_confirm env name) \<noteq> ''forbidden'' \<and>
     \<not> (tainted_now g corr \<and> is_write_class_tool g name \<and> pl_type p \<noteq> ''user'') \<and>
     (if pre then given aid \<and> pre_approval_error g (the aid) name args = None
      else risk_in_force g name (te_confirm env name) \<noteq> ''high'' \<and> \<not> is_sensitive_capability env g name args \<and>
           \<not> (tainted_now g corr \<and> is_write_class_tool g name))"

lemma request_high: "request_approval a ''high'' ctx actor corr ttl g = (g', Inr (Approved i)) \<Longrightarrow> False"
  by (auto simp: request_approval_def gbind_Inr_iff Let_def)

lemma elevated_cases: "elevated_risk env g name args = (if is_sensitive_capability env g name args then ''high'' else [])"
  by (simp add: elevated_risk_def)

lemma elevated_same [simp]: "elevated_risk env (g\<lparr>g_cache := c, g_marks := m\<rparr>) name args = elevated_risk env g name args"
  by (simp add: elevated_risk_def is_sensitive_capability_def)

lemma same_reads [simp]:
  "is_write_class_tool (g\<lparr>g_cache := c, g_marks := m\<rparr>) name = is_write_class_tool g name"
  "is_sensitive_capability env (g\<lparr>g_cache := c, g_marks := m\<rparr>) name args = is_sensitive_capability env g name args"
  "pre_approval_error (g\<lparr>g_cache := c, g_marks := m\<rparr>) i name args = pre_approval_error g i name args"
  "tainted_now (g\<lparr>g_cache := c\<rparr>) corr = tainted_now g corr"
  by (simp_all add: is_write_class_tool_def is_sensitive_capability_def pre_approval_error_def tainted_now_def)

lemma decide_allowed:
  assumes ok: "gov_ok g" and d: "decide env p name args corr pre aid invoking g = (g', Inr (Allow why))"
  shows "passes_gates env p name args corr pre aid g"
proof -
  let ?r = "risk_in_force g name (te_confirm env name)"
  obtain g1 where g1: "risk_for name True (te_confirm env name) g = (g1, Inr ?r)" "\<exists>c. g1 = g\<lparr>g_cache := c\<rparr>"
    using risk_for_value [of g name "te_confirm env name"] ok by (metis gov_ok_def surj_pair)
  from g1(2) obtain c where c: "g1 = g\<lparr>g_cache := c\<rparr>" by blast
  obtain g2 r2 where ev: "is_tainted corr g1 = (g2, r2)" by (rule prod.exhaust)
  from is_tainted_value [OF ev] obtain m where g2: "is_tainted corr g1 = (g2, Inr (tainted_now g corr))"
    "g2 = g\<lparr>g_cache := c, g_marks := m\<rparr>" by (auto simp: c ev [unfolded c])
  note run = decide_def Let_def gbind_def g1(1) g2(1) gread_def gret_def
  have safe: "?r \<noteq> ''forbidden''"
  proof
    assume "?r = ''forbidden''"
    with d show False by (simp add: run)
  qed
  let ?tw = "tainted_now g corr \<and> is_write_class_tool g name"
  have clean: "\<not> (?tw \<and> pl_type p \<noteq> ''user'')"
  proof
    assume "?tw \<and> pl_type p \<noteq> ''user''"
    with d safe show False by (simp add: run g2(2))
  qed
  have "given aid \<and> pre_approval_error g (the aid) name args = None" if pre
  proof (cases "given aid")
    case False
    with d safe clean that show ?thesis by (simp add: run g2(2) split: if_splits)
  next
    case True
    with d safe clean that show ?thesis
      by (cases "pre_approval_error g (the aid) name args")
        (simp_all add: run g2(2) consume_pre_approved_def split: if_splits)
  qed
  moreover have "?r \<noteq> ''high'' \<and> \<not> is_sensitive_capability env g name args \<and> \<not> ?tw" if "\<not> pre"
  proof (rule ccontr)
    assume no: "\<not> ?thesis"
    obtain g3 r3 where rq: "request_approval name ''high'' [(''args'', VObj args)]
        (if given invoking then the invoking else pl_actor p) corr default_approval_ttl g2 = (g3, r3)" by (rule prod.exhaust)
    have r3: "r3 \<noteq> Inr (Approved i)" for i using rq request_high by blast
    from no have "(if ?tw then ''high'' else if elevated_risk env g name args \<noteq> [] then elevated_risk env g name args
        else if ?r = ''high'' then ''high'' else ''low'') = ''high''"
      by (auto simp: elevated_cases)
    with d safe clean that rq r3 show False
      by (simp add: run g2(2) split: if_splits sum.splits approval_answer.splits) blast+
  qed
  ultimately show ?thesis using safe clean unfolding passes_gates_def by simp
qed

section \<open>Passing the gates\<close>

definition acting :: "principal option \<Rightarrow> string \<Rightarrow> principal" where
  "acting who actor = (case who of None \<Rightarrow> resolve actor | Some p \<Rightarrow> p)"

lemma begin_ready:
  assumes "invoke_begin env name args actor corr caused pre aid who execution g = (g', Inr (Ready rd))"
  shows "te_known env name \<and>
    (actor_requires_execution_ownership actor \<longrightarrow> (\<exists>e. handler_execution_exists (g_kernel g) e)) \<and>
    (\<exists>g1 why cause. decide env (acting who actor) name args corr pre aid (Some actor) g = (g1, Inr (Allow why)) \<and>
      announce env name args (pl_actor (acting who actor)) corr cause g1 = (g', Inr (Ready rd)))"
proof -
  let ?p = "acting who actor"
  obtain cause g1 d where "te_known env name" and "actor_requires_execution_ownership actor \<Longrightarrow> \<exists>e. handler_execution_exists (g_kernel g) e"
    and d: "decide env ?p name args corr pre aid (Some actor) g = (g1, Inr d)"
    "after_decision env name args (pl_actor ?p) corr cause d g1 = (g', Inr (Ready rd))"
    using assms unfolding invoke_begin_def acting_def [symmetric] Let_def
    by (auto simp: gbind_Inr_iff refused_def split: if_splits)
  then show ?thesis by (cases d) (auto simp: gbind_Inr_iff refused_def)
qed

section \<open>Effects\<close>

abbreviation approvals_of :: "gov \<Rightarrow> approval_row list" where
  "approvals_of g \<equiv> t_approvals (k_db (g_kernel g))"

lemma granted_row:
  assumes "grant_approval i action actor reason corr g = (g', Inr u)" and "sql_find ap_id i (approvals_of g') = Some r"
  shows "ap_status r = ''approved''"
proof -
  from assms(1) obtain ev where "gemit ''ApprovalGranted'' ''approval'' i
      [(''action'', VStr action), (''reason'', VStr reason)] actor None corr g = (g', Inr ev)"
    by (auto simp: grant_approval_def gbind_Inr_iff)
  from gemit_Inr [OF this] obtain k' where em: "emit_event (g_kernel g) ''ApprovalGranted'' ''approval'' i
      [(''action'', VStr action), (''reason'', VStr reason)] actor None corr = Inr (k', ev)" and g': "g_kernel g' = k'" by auto
  from em have ap: "apply_event (k_db (g_kernel g)) ev = Inr (k_db k')"
    and ev: "ev_type ev = ''ApprovalGranted''" "ev_agg_id ev = i"
    by (auto simp: emit_event_def Let_def create_event_def with_seq_def split: if_splits)
  have "event_owner ev = Some Approval" by (simp add: event_owner_def handler_table_def ev(1))
  with ap have "t_approvals (k_db k') = sql_update (\<lambda>r. ap_id r = i)
      (\<lambda>r. r\<lparr>ap_status := ''approved'', ap_resolved_at := Some (ev_ts ev), ap_resolved_by := Some (ev_actor ev)\<rparr>) (approvals_of g)"
    by (simp add: apply_event_def approval_projector_def on_approval_granted_def ev) (auto dest: arg_cong [of _ _ t_approvals])
  with assms(2) show ?thesis by (auto simp: g' sql_find_update dest: sql_find_key)
qed

lemma decide_consumes:
  assumes "decide env p name args corr True aid invoking g = (g', Inr (Allow why))"
    and "sql_find ap_id (the aid) (approvals_of g') = Some r"
  shows "given aid \<and> ap_status r = ''approved''"
proof -
  from assms(1) obtain g1 e where "given aid" "consume_pre_approved (the aid) name args (pl_actor p) corr g1 = (g', Inr e)" "e = None"
    by (auto simp: decide_def Let_def gbind_Inr_iff split: if_splits option.splits)
  then obtain g2 u where "given aid" "grant_approval (the aid) name (pl_actor p) ''pre_approved'' corr g2 = (g', Inr u)"
    by (auto simp: consume_pre_approved_def gbind_Inr_iff split: option.splits)
  with granted_row assms(2) show ?thesis by blast
qed

definition keeps_tools :: "'a gm \<Rightarrow> bool" where
  "keeps_tools m \<longleftrightarrow> (\<forall>g. g_policy (fst (m g)) = g_policy g \<and> g_write (fst (m g)) = g_write g)"

named_theorems keeps_intros \<open>computations that leave the classification of the tools alone\<close>

lemma keeps_gbind [keeps_intros]: "keeps_tools m \<Longrightarrow> (\<And>x. keeps_tools (f x)) \<Longrightarrow> keeps_tools (gbind m f)"
  unfolding keeps_tools_def gbind_def by (auto split: prod.splits sum.splits) (metis fst_conv)+

lemma keeps_basic [keeps_intros]:
  "keeps_tools (gret x)" "keeps_tools (gread h)" "keeps_tools new_uuid" "keeps_tools (gemit et agg i q actor caused corr)"
  "keeps_tools (risk_for n b c)" "keeps_tools (is_tainted corr')"
  by (auto simp: keeps_tools_def gret_def gread_def new_uuid_def gemit_def risk_for_def is_tainted_def expire_marks_def
      invalidate_risk_cache_def Let_def split: sum.splits option.splits)

lemma keeps_consume [keeps_intros]: "keeps_tools (consume_pre_approved i n args actor corr)"
  unfolding consume_pre_approved_def grant_approval_def
  by (intro keeps_intros) (auto intro!: keeps_intros split: option.splits)

lemma keeps_request [keeps_intros]: "keeps_tools (request_approval n r ctx actor corr ttl)"
  unfolding request_approval_def Let_def by (auto intro!: keeps_intros)

lemma keeps_decide: "keeps_tools (decide env p name args corr pre aid invoking)"
  unfolding decide_def Let_def by (auto intro!: keeps_intros split: option.splits approval_answer.splits)

lemma decide_static:
  assumes "decide env p name args corr pre aid invoking g = (g', Inr d)"
  shows "is_write_class_tool g' n = is_write_class_tool g n"
proof -
  have "g_policy g' = g_policy g" "g_write g' = g_write g"
    using keeps_decide [of env p name args corr pre aid invoking] assms
    unfolding keeps_tools_def by (metis fst_conv)+
  then show ?thesis by (simp add: is_write_class_tool_def)
qed

lemma announce_effect:
  assumes "announce env name args actor corr cause g = (g', Inr (Ready rd))"
  shows "g_kernel g' = g_kernel g \<and> rd_name rd = name \<and> rd_corr rd = corr \<and> rd_caused rd = cause \<and> rd_actor rd = actor \<and>
    (if is_write_class_tool g name
     then \<exists>i r d. rd_intent rd = Some i \<and> peek_plan_resume (capability_intent_key i) (g_resumes g') = Some r \<and>
            pr_prev r = Some d \<and> get d ''name'' = VStr name
     else rd_intent rd = None)"
proof (cases "is_write_class_tool g name")
  case False
  with assms show ?thesis by (auto simp: announce_def gbind_Inr_iff)
next
  case True
  have key: "capability_intent_key i \<noteq> []" for i by (simp add: capability_intent_key_def capability_intent_prefix_def)
  have u: "show_nat n \<noteq> []" for n by simp
  from True assms show ?thesis
    by (auto simp: announce_def gbind_Inr_iff new_uuid_def record_capability_intent_def Let_def rs.look_put [OF key]
        stored_def nonempty_def or_empty_def)
qed

lemma intent_cleared: "rd_intent rd = Some i \<Longrightarrow> i \<noteq> [] \<Longrightarrow> peek_plan_resume (capability_intent_key i) (g_resumes (finish_intent rd g)) = None"
  by (simp add: finish_intent_def clear_capability_intent_def rs.look_rem)

lemma finish_kernel [simp]: "g_kernel (finish_intent rd g) = g_kernel g"
  by (simp add: finish_intent_def split: option.splits)

lemma mark_kernel [simp]: "g_kernel (mark_taint c s r g) = g_kernel g" "g_resumes (mark_taint c s r g) = g_resumes g"
  by (simp_all add: mark_taint_def)

definition audits :: "ready \<Rightarrow> kernel \<Rightarrow> kernel \<Rightarrow> bool" where
  "audits rd k k' \<longleftrightarrow> (\<exists>ev. k_events k' = k_events k @ [ev] \<and> ev_type ev \<in> {''CapabilityInvoked'', ''CapabilityFailed''} \<and>
     ev_agg_id ev = ''cap_'' @ rd_name rd \<and> ev_caused_by ev = rd_caused rd \<and> ev_corr ev = rd_corr rd)"

lemma failed_effect:
  assumes "kernel_ok (g_kernel g)"
  shows "\<exists>g1 ans. invoke_failed rd ms e reason g = (finish_intent rd g1, Inr ans) \<and> audits rd (g_kernel g) (g_kernel g1) \<and>
    g_resumes g1 = g_resumes g \<and> get ans ''status'' = VStr ''error''"
proof -
  let ?o = "if given reason then the reason else ''internal_error''"
  let ?p = "[(''name'', VStr (rd_name rd)), (''error'', VStr e), (''outcome'', VStr ?o), (''latency_ms'', VNum ms)]"
  have E: "\<exists>k'. gemit ''CapabilityFailed'' ''capability'' (''cap_'' @ rd_name rd) ?p (rd_actor rd) (rd_caused rd) (rd_corr rd) g =
      (g\<lparr>g_kernel := k'\<rparr>, Inr (next_event (g_kernel g) ''CapabilityFailed'' ''capability'' (''cap_'' @ rd_name rd) ?p
        (rd_actor rd) (rd_caused rd) (rd_corr rd))) \<and>
    logged (g_kernel g) (next_event (g_kernel g) ''CapabilityFailed'' ''capability'' (''cap_'' @ rd_name rd) ?p
        (rd_actor rd) (rd_caused rd) (rd_corr rd)) k'"
    by (rule capability_emitted [OF assms]) simp_all
  obtain k' where k': "gemit ''CapabilityFailed'' ''capability'' (''cap_'' @ rd_name rd) ?p (rd_actor rd) (rd_caused rd) (rd_corr rd) g =
      (g\<lparr>g_kernel := k'\<rparr>, Inr (next_event (g_kernel g) ''CapabilityFailed'' ''capability'' (''cap_'' @ rd_name rd) ?p
        (rd_actor rd) (rd_caused rd) (rd_corr rd)))"
    "logged (g_kernel g) (next_event (g_kernel g) ''CapabilityFailed'' ''capability'' (''cap_'' @ rd_name rd) ?p
        (rd_actor rd) (rd_caused rd) (rd_corr rd)) k'"
    using E by blast
  then show ?thesis
    by (auto simp: invoke_failed_def capability_event_failed_def gm_simps Let_def audits_def loggedD(3))
qed

lemma returned_effect:
  assumes "kernel_ok (g_kernel g)"
  shows "\<exists>g1. invoke_end env rd ms (Returned body) g = (g1, Inr
      [(''status'', VStr ''success''), (''result'', VStr body), (''outcome'', VStr ''success'')]) \<and>
    audits rd (g_kernel g) (g_kernel g1) \<and> g_resumes g1 = g_resumes (finish_intent rd g) \<and>
    g_marks g1 = (if given (rd_corr rd) \<and> is_external_ingestion_tool g (rd_name rd)
      then g_marks (mark_taint (rd_corr rd) ''external_ingestion'' (rd_name rd) g) else g_marks g)"
proof -
  let ?p = "[(''name'', VStr (rd_name rd)), (''args_summary'', VStr (take summary_cap (te_repr env (rd_args rd)))),
     (''result_summary'', VStr (take summary_cap body)), (''latency_ms'', VNum ms)]"
  have E: "\<exists>k'. gemit ''CapabilityInvoked'' ''capability'' (''cap_'' @ rd_name rd) ?p (rd_actor rd) (rd_caused rd) (rd_corr rd) g =
      (g\<lparr>g_kernel := k'\<rparr>, Inr (next_event (g_kernel g) ''CapabilityInvoked'' ''capability'' (''cap_'' @ rd_name rd) ?p
        (rd_actor rd) (rd_caused rd) (rd_corr rd))) \<and>
    logged (g_kernel g) (next_event (g_kernel g) ''CapabilityInvoked'' ''capability'' (''cap_'' @ rd_name rd) ?p
        (rd_actor rd) (rd_caused rd) (rd_corr rd)) k'"
    by (rule capability_emitted [OF assms]) simp_all
  obtain k' where k': "gemit ''CapabilityInvoked'' ''capability'' (''cap_'' @ rd_name rd) ?p (rd_actor rd) (rd_caused rd) (rd_corr rd) g =
      (g\<lparr>g_kernel := k'\<rparr>, Inr (next_event (g_kernel g) ''CapabilityInvoked'' ''capability'' (''cap_'' @ rd_name rd) ?p
        (rd_actor rd) (rd_caused rd) (rd_corr rd)))"
    "logged (g_kernel g) (next_event (g_kernel g) ''CapabilityInvoked'' ''capability'' (''cap_'' @ rd_name rd) ?p
        (rd_actor rd) (rd_caused rd) (rd_corr rd)) k'"
    using E by blast
  have "is_external_ingestion_tool (finish_intent rd (g\<lparr>g_kernel := k'\<rparr>)) n = is_external_ingestion_tool g n" for n
    by (simp add: is_external_ingestion_tool_def finish_intent_def split: option.splits)
  with k' show ?thesis
    by (auto simp: invoke_end_def gtry_def gm_simps audits_def loggedD(3) mark_taint_def finish_intent_def split: option.splits)
qed

lemma no_ready_unless:
  assumes "gov_ok g" and "\<not> passes_gates env (acting who actor) name args corr pre aid g"
  shows "invoke_begin env name args actor corr caused pre aid who execution g \<noteq> (g', Inr (Ready rd))"
proof
  assume "invoke_begin env name args actor corr caused pre aid who execution g = (g', Inr (Ready rd))"
  from begin_ready [OF this] obtain g1 why where
    "decide env (acting who actor) name args corr pre aid (Some actor) g = (g1, Inr (Allow why))" by blast
  from decide_allowed [OF assms(1) this] assms(2) show False by contradiction
qed

section \<open>Properties\<close>



text \<open>C29. A pre-approval is spent by its first use: after a call went through on it, no call goes
  through on the same approval as long as its row stays as that call left it.\<close>

theorem approval_single_use:
  assumes "invoke_begin env name args actor corr caused True aid who execution g = (g1, Inr (Ready rd))"
    and "gov_reach g2" and "sql_find ap_id (the aid) (approvals_of g2) = sql_find ap_id (the aid) (approvals_of g1)"
  shows "invoke_begin env2 name2 args2 actor2 corr2 caused2 True aid who2 execution2 g2 \<noteq> (g3, Inr (Ready rd2))"
proof (rule no_ready_unless [OF gov_reach_ok [OF assms(2)]])
  from begin_ready [OF assms(1)] obtain g' why cause where
    d: "decide env (acting who actor) name args corr True aid (Some actor) g = (g', Inr (Allow why))"
    and "announce env name args (pl_actor (acting who actor)) corr cause g' = (g1, Inr (Ready rd))" by blast
  from this(2) have "g_kernel g1 = g_kernel g'" using announce_effect by blast
  with decide_consumes [OF d] assms(3) have used: "sql_find ap_id (the aid) (approvals_of g2) = Some r \<Longrightarrow> ap_status r = ''approved''" for r
    by auto
  have "given aid \<Longrightarrow> pre_approval_error g2 (the aid) name2 args2 \<noteq> None"
  proof (cases "sql_find ap_id (the aid) (approvals_of g2)")
    case None
    then show "given aid \<Longrightarrow> pre_approval_error g2 (the aid) name2 args2 \<noteq> None"
      by (auto simp: pre_approval_error_def query_approvals_def select_rows_def by_id_def given_def split: option.splits)
  next
    case (Some r)
    with used [OF this] show "given aid \<Longrightarrow> pre_approval_error g2 (the aid) name2 args2 \<noteq> None"
      by (auto simp: pre_approval_error_def query_approvals_def select_rows_def by_id_def given_def split: option.splits)
  qed
  then show "\<not> passes_gates env2 (acting who2 actor2) name2 args2 corr2 True aid g2" by (auto simp: passes_gates_def)
qed


section \<open>The lookup without the kernel\<close>

lemma approval_emitted:
  assumes "kernel_ok (g_kernel g)" and "et \<in> {''ApprovalRequested'', ''ApprovalGranted''}"
    and "\<exists>d. approval_projector (next_event (g_kernel g) et ''approval'' i p actor None corr) (approvals_of g) = Inr d"
  shows "\<exists>k' ev. gemit et ''approval'' i p actor None corr g = (g\<lparr>g_kernel := k'\<rparr>, Inr ev) \<and> kernel_ok k'"
proof -
  from assms(3) obtain d where d: "run_projector Approval (next_event (g_kernel g) et ''approval'' i p actor None corr)
      (k_db (g_kernel g)) = Inr d" by auto
  have et: "map_of handler_table et = Some Approval" "et \<notin> set policy_types"
    using assms(2) by (elim insertE emptyE; simp add: handler_table_def policy_types_def)+
  have "''approval'' = agg_name Approval" by simp
  from gemit_owned [OF assms(1) et(1) this et(2) d] show ?thesis by (auto dest: loggedD(1))
qed

lemma request_low:
  assumes "kernel_ok (g_kernel g)"
  shows "\<exists>k' n i. request_approval name ''low'' [(''args'', VObj args)] actor corr ttl g = (g\<lparr>g_uuid := n, g_kernel := k'\<rparr>, Inr (Approved i))"
proof -
  let ?i = "''apr_'' @ show_nat (g_uuid g)"
  let ?g = "g\<lparr>g_uuid := Suc (g_uuid g)\<rparr>"
  let ?p = "[(''action'', VStr name), (''risk'', VStr ''low''), (''ctx'', VObj [(''args'', VObj args)]),
        (''expires_at'', VTime (k_now (g_kernel g) + ttl * second_us))]"
  have ok: "kernel_ok (g_kernel ?g)" using assms by simp
  have "\<exists>k' ev. gemit ''ApprovalRequested'' ''approval'' ?i ?p actor None corr ?g = (?g\<lparr>g_kernel := k'\<rparr>, Inr ev) \<and> kernel_ok k'"
    by (rule approval_emitted [OF ok]) (simp_all add: approval_projector_def on_approval_requested_def schema_key_def Let_def)
  then obtain k1 e1 where k1: "gemit ''ApprovalRequested'' ''approval'' ?i ?p actor None corr ?g = (?g\<lparr>g_kernel := k1\<rparr>, Inr e1)"
    "kernel_ok k1" by blast
  have ok1: "kernel_ok (g_kernel (?g\<lparr>g_kernel := k1\<rparr>))" using k1(2) by simp
  have "\<exists>k' ev. gemit ''ApprovalGranted'' ''approval'' ?i [(''action'', VStr name), (''reason'', VStr ''auto_allow'')]
      ''kernel'' None corr (?g\<lparr>g_kernel := k1\<rparr>) = (?g\<lparr>g_kernel := k1\<rparr>\<lparr>g_kernel := k'\<rparr>, Inr ev) \<and> kernel_ok k'"
    by (rule approval_emitted [OF ok1]) (simp_all add: approval_projector_def on_approval_granted_def)
  then obtain k2 e2 where "gemit ''ApprovalGranted'' ''approval'' ?i [(''action'', VStr name), (''reason'', VStr ''auto_allow'')]
      ''kernel'' None corr (?g\<lparr>g_kernel := k1\<rparr>) = (?g\<lparr>g_kernel := k2\<rparr>, Inr e2)" by auto
  with k1(1) show ?thesis
    by (auto simp: request_approval_def gbind_def new_uuid_def gread_def gret_def Let_def)
qed

text \<open>C36. The gate has a hole: right after a policy change, when the active policy forbids a tool, listing
  the tools for the model (which happens for every prompt) offers that tool, and a call of it by the user
  then goes through, because the listing looked the risk up without the kernel and left \<open>low\<close> in the cache
  that \<open>decide\<close> trusts.\<close>

theorem forbidden_policy_bypassed:
  assumes "gov_reach g" and "g_cache g = []" and "name \<notin> g_forb g \<union> g_user g \<union> g_auto g"
    and "risk_in_force g name False = ''forbidden''" and "\<not> te_confirm env name" and "te_known env name"
    and "\<not> is_sensitive_capability env g name args" and "\<not> is_write_class_tool g name" and "g_scope g = None"
  shows "\<exists>g1 g2 rd. tool_defs_for_llm [name] g = (g1, Inr [name]) \<and>
    invoke_begin env name args ''user'' None None False None None None g1 = (g2, Inr (Ready rd))"
proof -
  let ?g = "g\<lparr>g_cache := [((name, False), ''low'')]\<rparr>"
  have ok: "kernel_ok (g_kernel ?g)" using gov_reach_ok [OF assms(1)] by (simp add: gov_ok_def)
  have listing: "tool_defs_for_llm [name] g = (?g, Inr [name])"
    using assms(2,3) by (simp add: is_forbidden_def risk_for_def risk_for_uncached_def gm_simps Let_def)
  have risk: "risk_for name True (te_confirm env name) ?g = (?g, Inr ''low'')"
    using assms(3,5) by (simp add: risk_for_def)
  have user: "resolve ''user'' = principal_user ''user''"
    by (simp add: resolve_def starts_with_def runtime_actors_def)
  have el: "elevated_risk env ?g name args = []"
    using assms(7) by (simp add: elevated_risk_def is_sensitive_capability_def)
  obtain k' n i where rq: "request_approval name ''low'' [(''args'', VObj args)] ''user'' None default_approval_ttl ?g =
      (?g\<lparr>g_uuid := n, g_kernel := k'\<rparr>, Inr (Approved i))" using request_low [OF ok] by blast
  have "decide env (principal_user ''user'') name args None False None (Some ''user'') ?g =
      (?g\<lparr>g_uuid := n, g_kernel := k'\<rparr>, Inr (Allow ''approved''))"
    by (simp add: decide_def gbind_def risk gret_def gread_def is_tainted_def given_def el rq Let_def principal_user_def)
  moreover have "\<not> is_write_class_tool (?g\<lparr>g_uuid := n, g_kernel := k'\<rparr>) name"
    using assms(8) by (simp add: is_write_class_tool_def)
  ultimately have "\<exists>g2 rd. invoke_begin env name args ''user'' None None False None None None ?g = (g2, Inr (Ready rd))"
    using assms(6,9)
    by (simp add: invoke_begin_def user given_def actor_requires_execution_ownership_def starts_with_def
        runtime_ownership_actors_def gbind_def announce_def gread_def gret_def Let_def)
  with listing show ?thesis by blast
qed

section \<open>Witnesses\<close>

text \<open>A kernel whose policy forbids the tool \<open>web\<close> and that holds a pending approval for \<open>shell\<close>.\<close>

definition asked_kernel :: kernel where
  "asked_kernel = emit_ok (emit_ok (boot current_registry 100) ''PolicyCreated'' ''policy'' ''policy_web''
       [(''capability'', VStr ''web''), (''risk_level'', VStr ''forbidden'')])
     ''ApprovalRequested'' ''approval'' ''apr_0''
       [(''action'', VStr ''shell''), (''ctx'', VObj [(''args'', VObj [(''cmd'', VStr ''ls'')])])]"

definition gov_of :: "kernel \<Rightarrow> gov" where
  "gov_of k = \<lparr>g_kernel = k, g_resumes = [],
     g_policy = \<lparr>pf_forbidden = [], pf_needs_user = [''shell''], pf_auto_allow = [''git''], pf_ingestion = [''fetch'']\<rparr>,
     g_auto = {}, g_user = {}, g_forb = {}, g_bound = True, g_cache = [], g_marks = [], g_mono = 0, g_ingest = {},
     g_write = {}, g_scope = None, g_uuid = 0, g_cancels = {}\<rparr>"

definition sample_tools :: tools where
  "sample_tools = \<lparr>te_known = (\<lambda>n. True), te_confirm = (\<lambda>n. False), te_local_ops = True, te_scan = (\<lambda>d. False),
     te_repr = (\<lambda>d. ''{}''), te_err = (\<lambda>e. [])\<rparr>"

lemma gov_fields [simp]:
  "g_kernel (gov_of k) = k" "g_cache (gov_of k) = []" "g_marks (gov_of k) = []" "g_forb (gov_of k) = {}" "g_user (gov_of k) = {}"
  "g_auto (gov_of k) = {}" "g_scope (gov_of k) = None" "g_mono (gov_of k) = 0"
  "is_write_class_tool (gov_of k) n \<longleftrightarrow> n = ''shell''" "is_external_ingestion_tool (gov_of k) n \<longleftrightarrow> n = ''fetch''"
  by (simp_all add: gov_of_def is_write_class_tool_def is_external_ingestion_tool_def)

lemma asked_reach: "kernel_reach current_registry asked_kernel"
  unfolding asked_kernel_def
  by (intro emit_ok_reach kernel_reach.start)
    (auto simp: well_routed_def event_owner_def with_seq_def create_event_def handler_table_def)

lemma gov_of_reach: "kernel_reach reg k \<Longrightarrow> gov_reach (gov_of k)"
  by (rule gov_reach.start) simp_all

lemma sample_allowed:
  "case invoke_begin sample_tools ''git'' [] ''user'' None None False None None None (gov_of asked_kernel) of
     (g, Inr (Ready rd)) \<Rightarrow> True | _ \<Rightarrow> False"
  by code_simp


definition sample_fetch :: ready where
  "sample_fetch = \<lparr>rd_name = ''fetch'', rd_args = [], rd_actor = ''user'', rd_caused = None, rd_corr = Some ''c1'', rd_intent = None\<rparr>"


definition spent_kernel :: kernel where
  "spent_kernel = emit_ok asked_kernel ''ApprovalGranted'' ''approval'' ''apr_0''
     [(''action'', VStr ''shell''), (''reason'', VStr ''pre_approved'')]"

lemma spent_reach: "kernel_reach current_registry spent_kernel"
  unfolding spent_kernel_def
  by (intro emit_ok_reach asked_reach) (auto simp: well_routed_def event_owner_def with_seq_def create_event_def handler_table_def)

lemma sample_pre_approved:
  "case invoke_begin sample_tools ''shell'' [(''cmd'', VStr ''ls'')] ''user'' None None True (Some ''apr_0'') None None (gov_of asked_kernel) of
     (g, Inr (Ready rd)) \<Rightarrow> sql_find ap_id ''apr_0'' (approvals_of g) = sql_find ap_id ''apr_0'' (t_approvals (k_db spent_kernel))
   | _ \<Rightarrow> False"
  by code_simp

theorem approval_single_use_witness:
  "\<exists>g rd. invoke_begin sample_tools ''shell'' [(''cmd'', VStr ''ls'')] ''user'' None None True (Some ''apr_0'') None None
       (gov_of asked_kernel) = (g, Inr (Ready rd)) \<and>
     (\<forall>g3 rd2. invoke_begin sample_tools ''shell'' [(''cmd'', VStr ''ls'')] ''user'' None None True (Some ''apr_0'') None None
       (gov_of spent_kernel) \<noteq> (g3, Inr (Ready rd2)))"
proof -
  obtain g rd where r: "invoke_begin sample_tools ''shell'' [(''cmd'', VStr ''ls'')] ''user'' None None True (Some ''apr_0'') None None
       (gov_of asked_kernel) = (g, Inr (Ready rd))"
    and same: "sql_find ap_id (the (Some ''apr_0'')) (approvals_of (gov_of spent_kernel)) = sql_find ap_id (the (Some ''apr_0'')) (approvals_of g)"
    using sample_pre_approved by (auto split: prod.splits sum.splits invocation.splits)
  from approval_single_use [OF r gov_of_reach [OF spent_reach] same] r show ?thesis by blast
qed


lemma web_forbidden: "risk_in_force (gov_of asked_kernel) ''web'' False = ''forbidden''"
proof -
  have "risk_for_uncached (Some asked_kernel) ''web'' False = ''forbidden''" by code_simp
  then show ?thesis by (simp add: risk_in_force_def)
qed

theorem forbidden_policy_bypassed_witness:
  "\<exists>g1 g2 rd. tool_defs_for_llm [''web''] (gov_of asked_kernel) = (g1, Inr [''web'']) \<and>
    invoke_begin sample_tools ''web'' [] ''user'' None None False None None None g1 = (g2, Inr (Ready rd))"
  by (rule forbidden_policy_bypassed [OF gov_of_reach [OF asked_reach]])
    (simp_all add: web_forbidden, simp_all add: sample_tools_def is_sensitive_capability_def gov_of_def)

end
