(* ===== verification/Plan_Runner.thy ===== *)
theory Plan_Runner
  imports Gov_Props
begin

text \<open>
  The step loop of a plan, \<open>core/runtime/handlers/plan_runner.py\<close>, over governance and the resume store.

  \<^item> \<open>kernel.invoke_capability\<close> is \<open>invoke_begin\<close>, then whatever happens while the tool runs (\<open>rn_world\<close>: any
    change of the state, the duration, the outcome), then \<open>invoke_end\<close>.
  \<^item> \<open>ru_cancel\<close> is \<open>cancel_check\<close>, which reads the state; without a \<open>cancel_check\<close> it is constantly false.
  \<^item> \<open>rn_dumps\<close> is \<open>json.dumps\<close>, \<open>loads\<close> is \<open>json.loads\<close>, \<open>None\<close> where it raises.
\<close>

section \<open>Outcomes\<close>

definition step_output_cap :: nat where
  "step_output_cap = 1000"

definition step_preview_limit :: nat where
  "step_preview_limit = 500"

text \<open>\<open>text[:n]\<close>; an instant's text is shorter than every limit used.\<close>

definition clip :: "nat \<Rightarrow> val \<Rightarrow> val" where
  "clip n v = (case v of VStr s \<Rightarrow> VStr (take n s) | _ \<Rightarrow> v)"

record step_result =
  sr_step :: nat
  sr_tool :: string
  sr_status :: string
  sr_result :: val
  sr_approval :: val

definition preview :: "step_result \<Rightarrow> dict" where
  "preview r =
     [(''step'', VInt (int (sr_step r))), (''tool'', VStr (sr_tool r)), (''status'', VStr (sr_status r)),
      (''result_preview'', clip step_preview_limit (sr_result r))] @
     (if truthy (sr_approval r) then [(''approval_id'', sr_approval r)] else [])"

record run_outcome =
  oc_results :: "step_result list"
  oc_stopped :: string
  oc_prev :: "dict option"
  oc_pending :: val
  oc_next :: "int option"

definition completed_steps :: "run_outcome \<Rightarrow> nat" where
  "completed_steps oc = length (filter (\<lambda>r. sr_status r = ''success'') (oc_results oc))"

definition ended :: "string \<Rightarrow> step_result list \<Rightarrow> dict option \<Rightarrow> run_outcome" where
  "ended why results prev = \<lparr>oc_results = results, oc_stopped = why, oc_prev = prev, oc_pending = VNull, oc_next = None\<rparr>"

section \<open>Reading a plan\<close>

definition as_steps :: "val \<Rightarrow> dict list res" where
  "as_steps plan =
     (case plan of
        VObj p \<Rightarrow> (case getd p ''steps'' (VList []) of
            VList xs \<Rightarrow> Inr (concat (map (\<lambda>v. case v of VObj d \<Rightarrow> [d] | _ \<Rightarrow> []) xs))
          | _ \<Rightarrow> Inl (ValueError ''plan.steps must be a list''))
      | _ \<Rightarrow> Inl (ValueError ''plan must be an object''))"

definition parse_plan_steps :: "(string \<Rightarrow> val option) \<Rightarrow> val \<Rightarrow> dict list res" where
  "parse_plan_steps loads plan =
     (case plan of
        VStr s \<Rightarrow> if strip s = [] then as_steps (VObj [])
                  else (case loads s of None \<Rightarrow> Inl (ValueError ''invalid plan JSON'') | Some v \<Rightarrow> as_steps v)
      | VTime t \<Rightarrow> Inl (ValueError ''invalid plan JSON'')
      | _ \<Rightarrow> as_steps plan)"

text \<open>\<open>dict(x)\<close> of a dict, or of a list of pairs with text keys.\<close>

fun pairs_of :: "val list \<Rightarrow> dict \<Rightarrow> dict res" where
  "pairs_of [] d = Inr d"
| "pairs_of (VList [VStr k, v] # xs) d = pairs_of xs (setd k v d)"
| "pairs_of (x # xs) d = Inl (ValueError ''dictionary update sequence'')"

definition dict_of :: "val \<Rightarrow> dict res" where
  "dict_of v = (case v of VObj d \<Rightarrow> Inr d | VList xs \<Rightarrow> pairs_of xs [] | _ \<Rightarrow> Inl TypeError)"

section \<open>Durable progress\<close>

definition step_output :: "nat \<Rightarrow> val \<Rightarrow> dict" where
  "step_output i raw = [(''step_'' @ show_nat i @ ''_output'', clip step_output_cap raw)]"

definition persist_progress :: "string \<Rightarrow> nat \<Rightarrow> dict option \<Rightarrow> gov \<Rightarrow> gov" where
  "persist_progress action i output g =
     (if action = [] then g
      else g\<lparr>g_resumes := save_plan_progress (k_now (g_kernel g)) action (int i + 1) output (g_resumes g)\<rparr>)"

definition cached_step_result :: "string \<Rightarrow> string \<Rightarrow> nat \<Rightarrow> resumes \<Rightarrow> val option" where
  "cached_step_result corr action i t =
     (case (if corr \<noteq> [] then lookup_step_success corr (int i) t else None) of
        Some v \<Rightarrow> Some v
      | None \<Rightarrow> if action \<noteq> [] then lookup_action_step_success action (int i) t else None)"

definition step_tool :: "dict \<Rightarrow> string" where
  "step_tool step = py_str (py_or (get step ''tool'') (VStr []))"

definition hydrate_prior_results :: "dict list \<Rightarrow> nat \<Rightarrow> string \<Rightarrow> string \<Rightarrow> resumes \<Rightarrow> step_result list" where
  "hydrate_prior_results steps start corr action t =
     concat (map (\<lambda>i. case cached_step_result corr action i t of
         None \<Rightarrow> []
       | Some v \<Rightarrow> [\<lparr>sr_step = i, sr_tool = step_tool (steps ! i), sr_status = ''success'', sr_result = v, sr_approval = VNull\<rparr>])
       [0 ..< min start (length steps)])"

section \<open>Running\<close>

record runner =
  rn_tools :: tools
  rn_world :: "ready \<Rightarrow> gov \<Rightarrow> gov \<times> rat \<times> tool_outcome"
  rn_dumps :: "dict \<Rightarrow> string"

definition invoke_capability :: "runner \<Rightarrow> string \<Rightarrow> dict \<Rightarrow> string \<Rightarrow> string option \<Rightarrow> string option \<Rightarrow> bool \<Rightarrow> string option
    \<Rightarrow> string option \<Rightarrow> dict gm" where
  "invoke_capability rn name args actor corr caused pre aid execution =
     gbind (invoke_begin (rn_tools rn) name args actor corr caused pre aid None execution) (\<lambda>inv.
       case inv of
         Answered d \<Rightarrow> gret d
       | Ready rd \<Rightarrow> (\<lambda>g. let (g', ms, outcome) = rn_world rn rd g in invoke_end (rn_tools rn) rd ms outcome g'))"

record run =
  ru_actor :: string
  ru_execution :: "string option"
  ru_corr :: "string option"
  ru_action :: string
  ru_factory :: "(run_outcome \<Rightarrow> plan_resume) option"
  ru_cancel :: "gov \<Rightarrow> bool"

definition run_corr :: "run \<Rightarrow> string" where
  "run_corr ru = (case ru_corr ru of None \<Rightarrow> [] | Some c \<Rightarrow> c)"

definition step_params :: "dict \<Rightarrow> dict option \<Rightarrow> dict res" where
  "step_params step output =
     rbind (dict_of (py_or (get step ''params'') (VObj []))) (\<lambda>params. Inr
       (if truthy (get step ''depends_on_output'') \<and> or_empty output \<noteq> []
        then setd ''_previous_output'' (VObj (or_empty output)) params else params))"

definition result_row :: "nat \<Rightarrow> string \<Rightarrow> string \<Rightarrow> val \<Rightarrow> step_result" where
  "result_row i tool status v = \<lparr>sr_step = i, sr_tool = tool, sr_status = status, sr_result = v, sr_approval = VNull\<rparr>"

text \<open>A successful step is recorded before the loop goes on.\<close>

definition record_success :: "run \<Rightarrow> nat \<Rightarrow> string \<Rightarrow> gov \<Rightarrow> gov" where
  "record_success ru i result g =
     persist_progress (ru_action ru) i (Some (step_output i (VStr result)))
       (g\<lparr>g_resumes := record_step_success (k_now (g_kernel g)) (run_corr ru) (int i) result (ru_action ru) (g_resumes g)\<rparr>)"

text \<open>The resume of a waiting plan is stored before the loop returns.\<close>

definition park :: "run \<Rightarrow> nat \<Rightarrow> run_outcome \<Rightarrow> gov \<Rightarrow> gov" where
  "park ru i oc g =
     persist_progress (ru_action ru) i (oc_prev oc)
       (case ru_factory ru of
          None \<Rightarrow> g
        | Some f \<Rightarrow> if truthy (oc_pending oc)
            then g\<lparr>g_resumes := register_plan_resume (k_now (g_kernel g)) (py_str (oc_pending oc)) (f oc) (g_resumes g)\<rparr>
            else g)"

text \<open>What the loop does with the answer of the tool; \<open>k\<close> is the rest of the loop.\<close>

definition after_tool :: "runner \<Rightarrow> run \<Rightarrow> nat \<Rightarrow> dict \<Rightarrow> step_result list \<Rightarrow> dict option \<Rightarrow> dict
    \<Rightarrow> (step_result list \<Rightarrow> dict option \<Rightarrow> run_outcome gm) \<Rightarrow> run_outcome gm" where
  "after_tool rn ru i step results output cap k =
     (let tool = strip (step_tool step) in
      if get cap ''status'' = VStr ''success'' then
        let r = py_str (getd cap ''result'' (VStr [])) in
        gbind (gmod (record_success ru i r)) (\<lambda>_.
          k (results @ [result_row i tool ''success'' (VStr r)]) (Some (step_output i (VStr r))))
      else if get cap ''status'' = VStr ''pending'' then
        let aid = get cap ''approval_id'';
            row = (result_row i tool ''pending'' (VStr (rn_dumps rn
              [(''status'', VStr ''pending_approval''), (''approval_id'', aid)])))\<lparr>sr_approval := aid\<rparr>;
            oc = \<lparr>oc_results = results @ [row], oc_stopped = ''pending'', oc_prev = output, oc_pending = aid,
                  oc_next = Some (int i + 1)\<rparr>
        in gbind (gmod (park ru i oc)) (\<lambda>_. gret oc)
      else
        let e = VStr (rn_dumps rn [(''error'', getd cap ''error'' (VStr ''unknown''))]);
            results' = results @ [result_row i tool ''failed'' e]
        in if truthy (get step ''continue_on_error'')
           then k results' (Some (step_output i e))
           else gret (ended ''failed'' results' output))"

fun run_loop :: "runner \<Rightarrow> run \<Rightarrow> nat \<Rightarrow> dict list \<Rightarrow> step_result list \<Rightarrow> dict option \<Rightarrow> run_outcome gm" where
  "run_loop rn ru i [] results output = gret (ended ''completed'' results output)"
| "run_loop rn ru i (step # steps) results output =
     gbind (gread (ru_cancel ru)) (\<lambda>stop.
      if stop then gret (ended ''cancelled'' results output)
      else
      let tool = strip (step_tool step) in
      if tool = []
      then gret (ended ''failed'' (results @
             [result_row i [] ''failed'' (VStr (rn_dumps rn [(''error'', VStr ''missing tool on plan step'')]))]) output)
      else gbind (gread (\<lambda>g. cached_step_result (run_corr ru) (ru_action ru) i (g_resumes g))) (\<lambda>cached.
      case cached of
        Some v \<Rightarrow>
          gbind (gmod (persist_progress (ru_action ru) i (Some (step_output i v)))) (\<lambda>_.
            run_loop rn ru (Suc i) steps (results @ [result_row i tool ''success'' v]) (Some (step_output i v)))
      | None \<Rightarrow>
          gbind (\<lambda>g. (g, step_params step output)) (\<lambda>params.
          gbind (invoke_capability rn tool params (ru_actor ru) (ru_corr ru) None False None (ru_execution ru)) (\<lambda>cap.
          gbind (gread (ru_cancel ru)) (\<lambda>stop.
          if stop then gret (ended ''cancelled'' results output)
          else after_tool rn ru i step results output cap (run_loop rn ru (Suc i) steps))))))"

definition run_plan_steps :: "runner \<Rightarrow> run \<Rightarrow> dict list \<Rightarrow> int \<Rightarrow> dict option \<Rightarrow> run_outcome gm" where
  "run_plan_steps rn ru steps resume_from prev =
     (if steps = [] then gret (ended ''empty'' [] None)
      else let start = nat resume_from in
        gbind (gread (\<lambda>g. hydrate_prior_results steps start (run_corr ru) (ru_action ru) (g_resumes g))) (\<lambda>results.
          if length steps \<le> start then gret (ended ''completed'' results prev)
          else run_loop rn ru start (drop start steps) results (nonempty (or_empty prev))))"

section \<open>What a call leaves alone\<close>

definition keeps :: "(gov \<Rightarrow> 'o) \<Rightarrow> 'a gm \<Rightarrow> bool" where
  "keeps obs m \<longleftrightarrow> (\<forall>g. obs (fst (m g)) = obs g)"

named_theorems obs_intros \<open>computations that leave an observation alone\<close>

lemma keepsI: "(\<And>g. obs (fst (m g)) = obs g) \<Longrightarrow> keeps obs m"
  by (simp add: keeps_def)

lemma keepsD: "keeps obs m \<Longrightarrow> obs (fst (m g)) = obs g"
  by (simp add: keeps_def)

lemma keepsE: "keeps obs m \<Longrightarrow> m g = (g', r) \<Longrightarrow> obs g' = obs g"
  by (metis fst_conv keeps_def)

lemma keeps_obs_gbind [obs_intros]: "keeps obs m \<Longrightarrow> (\<And>x. keeps obs (f x)) \<Longrightarrow> keeps obs (gbind m f)"
  unfolding keeps_def gbind_def by (auto split: prod.splits sum.splits) (metis fst_conv)+

lemma keeps_obs_gtry [obs_intros]: "keeps obs m \<Longrightarrow> (\<And>x. keeps obs (f x)) \<Longrightarrow> keeps obs (gtry m f)"
  unfolding keeps_def gtry_def by (auto split: prod.splits sum.splits) (metis fst_conv)+

lemma keeps_obs_gmod [obs_intros]: "(\<And>g. obs (f g) = obs g) \<Longrightarrow> keeps obs (gmod f)"
  by (simp add: keeps_def gmod_def)

lemma keeps_obs_basic [obs_intros]: "keeps obs (gret x)" "keeps obs (gread h)"
  by (auto simp: keeps_def gret_def gread_def)

text \<open>What a capability call writes: events of these types, the risk cache, the taint marks, the uuid
  counter and the intent of the tool. An observer sees none of it.\<close>

definition governance_events :: "string list" where
  "governance_events = [''ApprovalRequested'', ''ApprovalGranted'', ''CapabilityDenied'', ''CapabilityFailed'', ''CapabilityInvoked'']"

locale observer =
  fixes obs :: "gov \<Rightarrow> 'o"
  assumes sees_no_event: "et \<in> set governance_events \<Longrightarrow> emit_event (g_kernel g) et agg aid p actor caused corr = Inr (k', ev) \<Longrightarrow>
      obs (g\<lparr>g_kernel := k'\<rparr>) = obs g"
    and sees_no_field: "obs (g\<lparr>g_cache := c\<rparr>) = obs g" "obs (g\<lparr>g_marks := m\<rparr>) = obs g" "obs (g\<lparr>g_uuid := n\<rparr>) = obs g"
    and sees_no_intent: "obs (g\<lparr>g_resumes := record_capability_intent k cur i name sm actor corr ex ca re (g_resumes g)\<rparr>) = obs g"
      "obs (g\<lparr>g_resumes := clear_capability_intent i (g_resumes g)\<rparr>) = obs g"
begin

lemma emit_keeps: "et \<in> set governance_events \<Longrightarrow> keeps obs (gemit et agg i q actor caused corr)"
  by (auto intro!: keepsI simp: gemit_def governance_events_def Let_def split: sum.splits) (metis governance_events_def list.set_intros sees_no_event)+

lemma emits [obs_intros]:
  "keeps obs (gemit ''ApprovalRequested'' agg i q actor caused corr)" "keeps obs (gemit ''ApprovalGranted'' agg i q actor caused corr)"
  "keeps obs (gemit ''CapabilityDenied'' agg i q actor caused corr)" "keeps obs (gemit ''CapabilityFailed'' agg i q actor caused corr)"
  "keeps obs (gemit ''CapabilityInvoked'' agg i q actor caused corr)"
  by (rule emit_keeps; simp add: governance_events_def)+

lemma basic [obs_intros]: "keeps obs new_uuid" "keeps obs (risk_for n b c)" "keeps obs (is_tainted corr')"
  by (auto simp: keeps_def new_uuid_def risk_for_def is_tainted_def expire_marks_def sees_no_field Let_def split: option.splits)

lemma decide_keeps: "keeps obs (decide env p name args corr pre aid who)"
  unfolding decide_def consume_pre_approved_def grant_approval_def request_approval_def Let_def
  by (auto intro!: obs_intros split: option.splits approval_answer.splits)

lemma after_decision_keeps: "keeps obs (after_decision env name args x corr cause d)"
  by (cases d) (auto simp: announce_def emit_capability_denied_def sees_no_intent intro!: obs_intros)

lemma begin_keeps: "keeps obs (invoke_begin env name args actor corr caused pre aid who execution)"
proof -
  have b: "obs (fst (gbind (decide env p name args corr pre aid iv) (after_decision env name args x corr cause) g)) = obs g" for p iv x cause g
    by (rule keepsD [OF keeps_obs_gbind [OF decide_keeps after_decision_keeps]])
  have n: "obs (fst (gbind (emit_capability_denied n r ac c' ca ex) (\<lambda>_. gret y) g)) = obs g"
    "obs (fst (gbind (capability_event_failed n r oc la ac ca c') (\<lambda>_. gret y) g)) = obs g" for n r ac c' ca ex oc la y g
    by (auto simp: emit_capability_denied_def capability_event_failed_def intro!: keepsD obs_intros)
  show ?thesis
    unfolding keeps_def invoke_begin_def Let_def by (simp add: b n)
qed

lemma finish_keeps: "obs (finish_intent rd g) = obs g"
  by (cases "rd_intent rd") (simp_all add: finish_intent_def sees_no_intent)

lemma end_keeps: "keeps obs (invoke_end env rd ms outcome)"
proof -
  have f: "keeps obs (invoke_failed rd ms e reason)" for e reason
    unfolding invoke_failed_def capability_event_failed_def Let_def by (auto simp: finish_keeps intro!: obs_intros)
  show ?thesis
    unfolding invoke_end_def by (cases outcome) (auto intro!: obs_intros f simp: finish_keeps mark_taint_def sees_no_field)
qed

text \<open>A call, when the world leaves the observation alone while the tool runs.\<close>

lemma invoke_keeps:
  assumes "\<And>rd g. obs (fst (rn_world rn rd g)) = obs g"
  shows "keeps obs (invoke_capability rn name args actor corr caused pre aid execution)"
proof -
  have e: "obs (fst (invoke_end env rd ms oc h)) = obs h" for env rd ms oc h by (rule keepsD [OF end_keeps])
  have "keeps obs (\<lambda>g. let (g', ms, outcome) = rn_world rn rd g in invoke_end (rn_tools rn) rd ms outcome g')" for rd
    using assms by (intro keepsI) (simp add: split_def e Let_def)
  then show ?thesis
    unfolding invoke_capability_def by (auto intro!: obs_intros begin_keeps split: invocation.splits)
qed

end

section \<open>Step results survive the calls\<close>

text \<open>The step results of a run, as the loop reads them.\<close>

abbreviation cached :: "run \<Rightarrow> nat \<Rightarrow> gov \<Rightarrow> val option" where
  "cached ru i g \<equiv> cached_step_result (run_corr ru) (ru_action ru) i (g_resumes g)"

definition step_results :: "gov \<Rightarrow> string \<Rightarrow> string \<Rightarrow> nat \<Rightarrow> val option" where
  "step_results g = (\<lambda>c a i. cached_step_result c a i (g_resumes g))"

lemma peek_cached:
  assumes "\<And>c n. peek_plan_resume (idempotency_key c n) t' = peek_plan_resume (idempotency_key c n) t"
    and "\<And>c n. peek_plan_resume (action_step_key c n) t' = peek_plan_resume (action_step_key c n) t"
  shows "cached_step_result c a i t' = cached_step_result c a i t"
  by (simp add: cached_step_result_def lookup_step_success_def lookup_action_step_success_def assms cong: option.case_cong)

lemma progress_cached [simp]: "cached_step_result c a i (g_resumes (persist_progress act j o' g)) = cached_step_result c a i (g_resumes g)"
  by (auto simp: persist_progress_def save_plan_progress_def rs.look_put intro!: peek_cached)

interpretation step_obs: observer step_results
  by unfold_locales
    (auto simp: step_results_def fun_eq_iff record_capability_intent_def clear_capability_intent_def Let_def rs.look_put rs.look_rem
      intro!: peek_cached)

text \<open>The world leaves the step results alone while a tool runs.\<close>

definition world_keeps :: "runner \<Rightarrow> bool" where
  "world_keeps rn \<longleftrightarrow> (\<forall>rd g. step_results (fst (rn_world rn rd g)) = step_results g)"

lemma invoke_cached:
  assumes "world_keeps rn" and "invoke_capability rn name args actor corr caused pre aid execution g = (g', r)"
  shows "cached ru i g' = cached ru i g"
proof -
  have "keeps step_results (invoke_capability rn name args actor corr caused pre aid execution)"
    by (rule step_obs.invoke_keeps) (use assms(1) in \<open>simp add: world_keeps_def\<close>)
  from keepsE [OF this assms(2)] show ?thesis by (simp add: step_results_def fun_eq_iff)
qed

section \<open>What a run leaves behind\<close>

text \<open>A step that is through: its row in the results and its durable result.\<close>

definition step_through :: "run \<Rightarrow> nat \<Rightarrow> dict \<Rightarrow> step_result \<Rightarrow> gov \<Rightarrow> bool" where
  "step_through ru i step row g \<longleftrightarrow> strip (step_tool step) \<noteq> [] \<and>
     row = result_row i (strip (step_tool step)) ''success'' (sr_result row) \<and> cached ru i g = Some (sr_result row)"

definition steps_through :: "run \<Rightarrow> nat \<Rightarrow> dict list \<Rightarrow> step_result list \<Rightarrow> gov \<Rightarrow> bool" where
  "steps_through ru i steps rows g \<longleftrightarrow> length rows = length steps \<and> (\<forall>j < length steps. step_through ru (i + j) (steps ! j) (rows ! j) g)"

lemma steps_through_Nil [simp]: "steps_through ru i [] rows g \<longleftrightarrow> rows = []"
  by (auto simp: steps_through_def)

lemma steps_through_Cons:
  "step_through ru i step row g \<Longrightarrow> steps_through ru (Suc i) steps rows g \<Longrightarrow> steps_through ru i (step # steps) (row # rows) g"
  by (auto simp: steps_through_def nth_Cons split: nat.splits)

lemma steps_through_ConsD:
  "steps_through ru i (step # steps) rows g \<Longrightarrow>
   \<exists>row rest. rows = row # rest \<and> step_through ru i step row g \<and> steps_through ru (Suc i) steps rest g"
  by (cases rows) (auto simp: steps_through_def nth_Cons split: nat.splits)

lemma recorded_cached:
  assumes "run_corr ru \<noteq> [] \<or> ru_action ru \<noteq> []"
  shows "cached ru k (record_success ru i r g) = (if k = i then Some (VStr r) else cached ru k g)"
  using assms unfolding record_success_def progress_cached
  by (cases "run_corr ru = []"; cases "ru_action ru = []")
    (simp_all add: cached_step_result_def lookup_recorded lookup_recorded_action cong: option.case_cong)

lemma loop_extends:
  "run_loop rn ru i steps results prev g = (g', Inr oc) \<Longrightarrow>
   \<exists>rows. oc_results oc = results @ rows \<and> (\<forall>r \<in> set rows. i \<le> sr_step r)"
proof (induction steps arbitrary: i results prev g)
  case Nil
  then show ?case by (simp add: ended_def)
next
  case (Cons step steps)
  have more: "\<exists>rows. oc_results oc = results @ rows \<and> (\<forall>r \<in> set rows. i \<le> sr_step r)"
    if "run_loop rn ru (Suc i) steps (results @ [row]) prev' h = (g', Inr oc)" and "sr_step row = i" for row prev' h
  proof -
    from Cons.IH [OF that(1)] obtain rows where "oc_results oc = (results @ [row]) @ rows" "\<forall>r \<in> set rows. Suc i \<le> sr_step r" by blast
    with that(2) show ?thesis by (intro exI [of _ "row # rows"]) auto
  qed
  from Cons.prems show ?case
    by (auto simp: Let_def gbind_Inr_iff ended_def after_tool_def result_row_def split: if_splits option.splits intro: more)
qed

lemma loop_completed:
  assumes "world_keeps rn" and keys: "run_corr ru \<noteq> [] \<or> ru_action ru \<noteq> []"
  shows "run_loop rn ru i steps results prev g = (g', Inr oc) \<Longrightarrow> oc_stopped oc = ''completed'' \<Longrightarrow>
    \<forall>r \<in> set (oc_results oc). sr_status r = ''success'' \<Longrightarrow>
    \<exists>rows. oc_results oc = results @ rows \<and> steps_through ru i steps rows g' \<and> (\<forall>k < i. cached ru k g' = cached ru k g)"
proof (induction steps arbitrary: i results prev g)
  case Nil
  then show ?case by (simp add: ended_def)
next
  case (Cons step steps)
  let ?tool = "strip (step_tool step)"
  have rest: "\<exists>rows. oc_results oc = results @ rows \<and> steps_through ru i (step # steps) rows g' \<and> (\<forall>k < i. cached ru k g' = cached ru k g)"
    if run: "run_loop rn ru (Suc i) steps (results @ [result_row i ?tool ''success'' v]) prev' h = (g', Inr oc)"
      and h: "cached ru i h = Some v" "\<And>k. k < i \<Longrightarrow> cached ru k h = cached ru k g" and t: "?tool \<noteq> []" for v prev' h
  proof -
    from Cons.IH [OF run Cons.prems(2,3)] obtain rows where rows: "oc_results oc = (results @ [result_row i ?tool ''success'' v]) @ rows"
      "steps_through ru (Suc i) steps rows g'" "\<forall>k < Suc i. cached ru k g' = cached ru k h" by blast
    have "step_through ru i step (result_row i ?tool ''success'' v) g'"
      using t rows(3) h(1) by (simp add: step_through_def result_row_def)
    from steps_through_Cons [OF this rows(2)] rows(1,3) h(2) show ?thesis by simp
  qed
  have stop: False if "run_loop rn ru (Suc i) steps (results @ [result_row i t ''failed'' v]) prev' h = (g', Inr oc)" for t v prev' h
    using loop_extends [OF that] Cons.prems(3) by (auto simp: result_row_def)
  show ?case
  proof (cases "cached ru i g")
    case (Some v)
    with Cons.prems(1,2) show ?thesis
      by (auto simp: Let_def gbind_Inr_iff ended_def split: if_splits intro!: rest)
  next
    case None
    have tool: "?tool \<noteq> []" using Cons.prems(1,2) by (auto simp: ended_def gbind_Inr_iff Let_def split: if_splits)
    with Cons.prems(1,2) None obtain params h cap where
      inv: "invoke_capability rn ?tool params (ru_actor ru) (ru_corr ru) None False None (ru_execution ru) g = (h, Inr cap)"
      and after: "(if ru_cancel ru h then gret (ended ''cancelled'' results prev)
         else after_tool rn ru i step results prev cap (run_loop rn ru (Suc i) steps)) h = (g', Inr oc)"
      by (auto simp: gbind_Inr_iff Let_def ended_def after_tool_def split: if_splits)
    note kept = invoke_cached [OF assms(1) inv]
    from after Cons.prems(2) show ?thesis
      by (auto simp: after_tool_def gbind_Inr_iff ended_def Let_def recorded_cached [OF keys] kept tool dest: stop
          split: if_splits intro!: rest)
  qed
qed

lemma loop_replays:
  shows "steps_through ru i steps rows g \<Longrightarrow> \<forall>t. \<not> ru_cancel ru (g\<lparr>g_resumes := t\<rparr>) \<Longrightarrow>
    \<exists>g' prev'. run_loop rn ru i steps results prev g = (g', Inr (ended ''completed'' (results @ rows) prev')) \<and>
      g_kernel g' = g_kernel g"
proof (induction steps arbitrary: i rows results prev g)
  case Nil
  then show ?case by (auto simp: gret_def)
next
  case (Cons step steps)
  from steps_through_ConsD [OF Cons.prems(1)] obtain row rest where
    row: "rows = row # rest" "step_through ru i step row g" "steps_through ru (Suc i) steps rest g" by blast
  let ?h = "persist_progress (ru_action ru) i (Some (step_output i (sr_result row))) g"
  from row(3) have h: "steps_through ru (Suc i) steps rest ?h" by (simp add: steps_through_def step_through_def)
  from Cons.prems(2) have nc: "\<forall>t. \<not> ru_cancel ru (?h\<lparr>g_resumes := t\<rparr>)" by (simp add: persist_progress_def)
  have now: "\<not> ru_cancel ru g" using spec [OF Cons.prems(2), of "g_resumes g"] by simp
  from Cons.IH [OF h nc, of "results @ [row]" "Some (step_output i (sr_result row))"] obtain g' prev' where
    g': "run_loop rn ru (Suc i) steps (results @ [row]) (Some (step_output i (sr_result row))) ?h =
      (g', Inr (ended ''completed'' (results @ row # rest) prev'))" "g_kernel g' = g_kernel ?h" by auto
  have "result_row i (strip (step_tool step)) ''success'' (sr_result row) = row" "strip (step_tool step) \<noteq> []"
    "cached ru i g = Some (sr_result row)" using row(2) by (simp_all add: step_through_def)
  with now g' show ?case by (auto simp: row(1) gbind_def gread_def gmod_def persist_progress_def Let_def)
qed

lemma hydrate_cong:
  assumes "\<And>k. k < start \<Longrightarrow> cached_step_result c a k t' = cached_step_result c a k t"
  shows "hydrate_prior_results steps start c a t' = hydrate_prior_results steps start c a t"
  unfolding hydrate_prior_results_def by (intro arg_cong [of _ _ concat] map_cong refl) (simp add: assms)

text \<open>Every value a computation returns.\<close>

definition yields :: "'a gm \<Rightarrow> ('a \<Rightarrow> bool) \<Rightarrow> bool" where
  "yields m P \<longleftrightarrow> (\<forall>g g' x. m g = (g', Inr x) \<longrightarrow> P x)"

lemma yields_gret: "P x \<Longrightarrow> yields (gret x) P"
  by (simp add: yields_def)

lemma yields_gbind: "yields m Q \<Longrightarrow> (\<And>x. Q x \<Longrightarrow> yields (f x) P) \<Longrightarrow> yields (gbind m f) P"
  unfolding yields_def gbind_Inr_iff by blast

lemma yields_any: "(\<And>x. yields (f x) P) \<Longrightarrow> yields (gbind m f) P"
  by (rule yields_gbind [of m "\<lambda>x. True"]) (simp_all add: yields_def)

definition approval_id :: "string \<Rightarrow> bool" where
  "approval_id i \<longleftrightarrow> (\<exists>u. i = ''apr_'' @ u)"

lemma request_yields: "yields (request_approval n r ctx ac c t) (\<lambda>a. \<forall>i. a = Awaiting i \<longrightarrow> approval_id i)"
  unfolding request_approval_def Let_def by (auto simp: approval_id_def intro!: yields_any yields_gret)

lemma decide_yields: "yields (decide env p name args corr pre aid invoking) (\<lambda>d. \<forall>r i. d = Defer r i \<longrightarrow> approval_id i)"
  unfolding decide_def Let_def
  by (auto intro!: yields_any yields_gret yields_gbind [OF request_yields] split: option.splits approval_answer.splits)

definition pending_id :: "invocation \<Rightarrow> bool" where
  "pending_id v \<longleftrightarrow> (\<forall>d. v = Answered d \<longrightarrow> get d ''status'' = VStr ''pending'' \<longrightarrow> (\<exists>i. approval_id i \<and> get d ''approval_id'' = VStr i))"

lemma after_decision_yields:
  "\<forall>r i. d = Defer r i \<longrightarrow> approval_id i \<Longrightarrow> yields (after_decision env name args x corr cause d) pending_id"
  by (cases d)
    (auto simp: announce_def pending_id_def refused_def getd_def intro!: yields_any yields_gret)

lemma begin_yields: "yields (invoke_begin env name args actor corr caused pre aid who execution) pending_id"
proof -
  have r: "gbind m (\<lambda>_. gret (refused e t)) g = (g', Inr x) \<Longrightarrow> pending_id x" for m :: "unit gm" and e t g g' x
    by (auto simp: pending_id_def refused_def getd_def gbind_Inr_iff)
  have "yields (gbind (decide env p name args corr pre aid inv') (after_decision env name args y corr cause)) pending_id" for p inv' y cause
    by (rule yields_gbind [OF decide_yields after_decision_yields])
  then have d: "gbind (decide env p name args corr pre aid inv') (after_decision env name args y corr cause) g = (g', Inr x) \<Longrightarrow>
      pending_id x" for p inv' y cause g g' x
    unfolding yields_def by blast
  show ?thesis
    unfolding yields_def invoke_begin_def Let_def by (intro allI impI, simp only: split: if_split_asm) (erule r d)+
qed

lemma begin_pending:
  assumes "invoke_begin env name args actor corr caused pre aid who execution g = (g', Inr (Answered d))"
    and "get d ''status'' = VStr ''pending''"
  shows "\<exists>u. get d ''approval_id'' = VStr (''apr_'' @ u)"
  using begin_yields assms unfolding yields_def pending_id_def approval_id_def by metis

lemma end_not_pending:
  assumes "invoke_end env rd ms outcome g = (g', Inr d)"
  shows "get d ''status'' \<noteq> VStr ''pending''"
proof -
  have f: "get d ''status'' \<noteq> VStr ''pending''" if "invoke_failed rd ms e r h = (h', Inr d)" for e r h h'
    using that by (auto simp: invoke_failed_def Let_def gbind_Inr_iff getd_def)
  show ?thesis
  proof (cases outcome)
    case (Returned t)
    with assms f show ?thesis
      by (auto simp: invoke_end_def gtry_def gbind_Inr_iff getd_def split: prod.splits sum.splits)
  next
    case (Threw e r)
    with assms f show ?thesis by (simp add: invoke_end_def)
  qed
qed

lemma invoke_pending:
  assumes "invoke_capability rn name args actor corr caused pre aid execution g = (g', Inr d)"
    and "get d ''status'' = VStr ''pending''"
  shows "\<exists>u. get d ''approval_id'' = VStr (''apr_'' @ u)"
proof -
  from assms(1) obtain g1 r where b: "invoke_begin (rn_tools rn) name args actor corr caused pre aid None execution g = (g1, Inr r)"
    and r: "(case r of Answered d \<Rightarrow> gret d
       | Ready rd \<Rightarrow> (\<lambda>g. let (g', ms, outcome) = rn_world rn rd g in invoke_end (rn_tools rn) rd ms outcome g')) g1 = (g', Inr d)"
    unfolding invoke_capability_def gbind_Inr_iff by blast
  show ?thesis
  proof (cases r)
    case (Answered d')
    with r b begin_pending assms(2) show ?thesis by auto
  next
    case (Ready rd)
    with r assms(2) end_not_pending show ?thesis by (auto simp: split_def Let_def)
  qed
qed

text \<open>A plan that waits: the resume is on the table when the loop returns.\<close>

definition parked_at :: "nat \<Rightarrow> (run_outcome \<Rightarrow> plan_resume) option \<Rightarrow> run_outcome \<Rightarrow> gov \<Rightarrow> bool" where
  "parked_at i factory oc g \<longleftrightarrow>
     oc_next oc = Some (int i + 1) \<and> (\<exists>rows row u. oc_results oc = rows @ [row] \<and> sr_step row = i \<and> sr_status row = ''pending'' \<and>
       oc_pending oc = VStr (''apr_'' @ u) \<and>
       (\<forall>f. factory = Some f \<longrightarrow> peek_plan_resume (''apr_'' @ u) (g_resumes g) = Some (stored (f oc))))"

lemma park_registers:
  assumes "oc_pending oc = VStr (''apr_'' @ u)" and "ru_factory ru = Some f"
  shows "peek_plan_resume (''apr_'' @ u) (g_resumes (park ru i oc g)) = Some (stored (f oc))"
  using assms by (simp add: park_def persist_progress_def save_plan_progress_def rs.look_put progress_key_def)

lemma park_progress:
  assumes "ru_action ru \<noteq> []"
  shows "\<exists>r. load_plan_progress (ru_action ru) (g_resumes (park ru i oc g)) = Some r \<and> pr_from r = int i + 1"
  using assms by (simp add: park_def persist_progress_def save_plan_progress_def load_plan_progress_def rs.look_put stored_def)

lemma park_cached:
  assumes "oc_pending oc = VStr (''apr_'' @ u)"
  shows "cached ru' k (park ru i oc g) = cached ru' k g"
proof -
  have "idempotency_key c n \<noteq> ''apr_'' @ u" "action_step_key c n \<noteq> ''apr_'' @ u" for c n
    by (simp_all add: idempotency_key_def action_step_key_def)
  with assms show ?thesis
    by (auto simp: park_def rs.look_put split: option.splits intro!: peek_cached)
qed

text \<open>What the state holds of the step that waits: no result, and progress that is past it.\<close>

definition waits_at :: "runner \<Rightarrow> run \<Rightarrow> nat \<Rightarrow> gov \<Rightarrow> bool" where
  "waits_at rn ru j g \<longleftrightarrow> (world_keeps rn \<longrightarrow> cached ru j g = None) \<and>
     (ru_action ru \<noteq> [] \<longrightarrow> (\<exists>r. load_plan_progress (ru_action ru) (g_resumes g) = Some r \<and> pr_from r = int j + 1))"

lemma loop_pending:
  "run_loop rn ru i steps results prev g = (g', Inr oc) \<Longrightarrow> oc_stopped oc = ''pending'' \<Longrightarrow>
   \<exists>j \<ge> i. j < i + length steps \<and> parked_at j (ru_factory ru) oc g' \<and> waits_at rn ru j g'"
proof (induction steps arbitrary: i results prev g)
  case Nil
  then show ?case by (simp add: ended_def)
next
  case (Cons step steps)
  have more: "\<exists>j \<ge> i. j < i + length (step # steps) \<and> parked_at j (ru_factory ru) oc g' \<and> waits_at rn ru j g'"
    if "run_loop rn ru (Suc i) steps results' prev' h = (g', Inr oc)" for results' prev' h
  proof -
    from Cons.IH [OF that Cons.prems(2)] obtain j where "j \<ge> Suc i" "j < Suc i + length steps" "parked_at j (ru_factory ru) oc g'"
      "waits_at rn ru j g'" by blast
    then show ?thesis by (intro exI [of _ j]) simp
  qed
  let ?tool = "strip (step_tool step)"
  have tool: "?tool \<noteq> []" using Cons.prems by (auto simp: ended_def gbind_Inr_iff Let_def split: if_splits)
  show ?case
  proof (cases "cached ru i g")
    case (Some v)
    with Cons.prems tool have "\<exists>results' prev' h. run_loop rn ru (Suc i) steps results' prev' h = (g', Inr oc)"
      by (auto simp: Let_def gbind_Inr_iff ended_def split: if_splits)
    with more show ?thesis by blast
  next
    case None
    with Cons.prems tool obtain params h cap where
      inv: "invoke_capability rn ?tool params (ru_actor ru) (ru_corr ru) None False None (ru_execution ru) g = (h, Inr cap)"
      and after: "after_tool rn ru i step results prev cap (run_loop rn ru (Suc i) steps) h = (g', Inr oc)"
      by (auto simp: gbind_Inr_iff Let_def ended_def split: if_splits)
    show ?thesis
    proof (cases "get cap ''status'' = VStr ''pending''")
      case True
      with invoke_pending [OF inv] obtain u where u: "get cap ''approval_id'' = VStr (''apr_'' @ u)" by blast
      from after True u have oc: "g' = park ru i oc h" "oc_next oc = Some (int i + 1)" "oc_pending oc = VStr (''apr_'' @ u)"
        "\<exists>rows row. oc_results oc = rows @ [row] \<and> sr_step row = i \<and> sr_status row = ''pending''"
        by (auto simp: after_tool_def gbind_Inr_iff Let_def result_row_def)
      then have "parked_at i (ru_factory ru) oc g'"
        using park_registers [OF oc(3)] unfolding parked_at_def by blast
      moreover have "waits_at rn ru i g'"
        using None invoke_cached [OF _ inv] park_progress park_cached [OF oc(3)] unfolding waits_at_def oc(1) by auto
      ultimately show ?thesis by auto
    next
      case False
      with after Cons.prems(2) have "\<exists>results' prev' h. run_loop rn ru (Suc i) steps results' prev' h = (g', Inr oc)"
        by (auto simp: after_tool_def gbind_Inr_iff Let_def ended_def split: if_splits)
      with more show ?thesis by blast
    qed
  qed
qed

lemma run_pending:
  assumes "run_plan_steps rn ru steps start prev g = (g', Inr oc)" and "oc_stopped oc = ''pending''"
  shows "\<exists>j \<ge> nat start. j < length steps \<and> parked_at j (ru_factory ru) oc g' \<and> waits_at rn ru j g'"
proof -
  have ne: "steps \<noteq> []" "\<not> length steps \<le> nat start"
    using assms by (auto simp: run_plan_steps_def ended_def gbind_Inr_iff split: if_splits)
  with assms(1) obtain rs out where "run_loop rn ru (nat start) (drop (nat start) steps) rs out g = (g', Inr oc)"
    by (auto simp: run_plan_steps_def gbind_Inr_iff Let_def)
  from loop_pending [OF this assms(2)] ne(2) show ?thesis by auto
qed

text \<open>A run that starts behind a step without a result has no row for it.\<close>

lemma run_skips:
  assumes "run_plan_steps rn ru steps start prev g = (g', Inr oc)" and "cached ru j g = None" and "j < nat start"
  shows "j \<notin> sr_step ` set (oc_results oc)"
proof -
  let ?hyd = "hydrate_prior_results steps (nat start) (run_corr ru) (ru_action ru) (g_resumes g)"
  have h: "j \<notin> sr_step ` set ?hyd"
    using assms(2) by (auto simp: hydrate_prior_results_def split: option.splits)
  from assms(1) consider "oc = ended ''empty'' [] None" | "oc = ended ''completed'' ?hyd prev"
    | "run_loop rn ru (nat start) (drop (nat start) steps) ?hyd (nonempty (or_empty prev)) g = (g', Inr oc)"
    by (auto simp: run_plan_steps_def gbind_Inr_iff Let_def split: if_splits)
  then show ?thesis
  proof cases
    case 3
    from loop_extends [OF this] h assms(3) show ?thesis by fastforce
  qed (use h in \<open>simp_all add: ended_def\<close>)
qed

section \<open>Properties\<close>


text \<open>C12. No approval is lost: when a run stops at a step that needs the user, the last result is that
  step with its approval id, the outcome continues after it, and the resume that the caller's factory
  makes of the outcome is already stored under that id when the run returns, so that an answer of the
  user that arrives at once finds it.\<close>

theorem pending_plan_registered:
  assumes "run_plan_steps rn ru steps start prev g = (g', Inr oc)" and "oc_stopped oc = ''pending''"
  shows "\<exists>j \<ge> nat start. j < length steps \<and> parked_at j (ru_factory ru) oc g'"
  using run_pending [OF assms] by blast

text \<open>C38. And where the run is fragile: when a run parks at a step, its durable progress is already past
  that step although it has no result; so a second run of the same request, which reads that progress
  because its event names no \<open>resume_from\<close> (a retry of the handler, a restart before the row of the
  execution is closed, a new execute after the approval was denied), starts behind the step and its
  results have no row for it: the step that waited for the user is never run.\<close>

theorem parked_step_skipped:
  assumes "run_plan_steps rn ru steps start prev g = (g1, Inr oc)" and "oc_stopped oc = ''pending''" and "world_keeps rn"
    and "ru_action ru \<noteq> []" and "load_plan_progress (ru_action ru) (g_resumes g1) = Some progress"
    and "run_plan_steps rn' ru steps (pr_from progress) prev' g1 = (g2, Inr oc2)"
  shows "\<exists>j < length steps. parked_at j (ru_factory ru) oc g1 \<and> j \<notin> sr_step ` set (oc_results oc2)"
proof -
  from run_pending [OF assms(1,2)] obtain j where j: "j < length steps" "parked_at j (ru_factory ru) oc g1" "waits_at rn ru j g1" by blast
  with assms(3-5) have c: "cached ru j g1 = None" "j < nat (pr_from progress)" by (auto simp: waits_at_def)
  from run_skips [OF assms(6) c] j(1,2) show ?thesis by blast
qed

section \<open>Witnesses\<close>

definition sample_runner :: runner where
  "sample_runner = \<lparr>rn_tools = sample_tools, rn_world = (\<lambda>rd g. (g, 1, Returned ''ok'')), rn_dumps = (\<lambda>d. ''{}'')\<rparr>"

definition sample_run :: run where
  "sample_run = \<lparr>ru_actor = ''user'', ru_execution = None, ru_corr = Some ''c1'', ru_action = ''w1'',
     ru_factory = Some (\<lambda>oc. \<lparr>pr_kind = ''execute'', pr_from = (case oc_next oc of None \<Rightarrow> 0 | Some n \<Rightarrow> n),
       pr_prev = oc_prev oc, pr_action = ''w1'', pr_task = [], pr_plan = []\<rparr>),
     ru_cancel = (\<lambda>g. False)\<rparr>"

definition tool_step :: "string \<Rightarrow> dict" where
  "tool_step name = [(''tool'', VStr name), (''params'', VObj [(''cmd'', VStr ''ls'')])]"

lemma sample_completes:
  "case run_plan_steps sample_runner sample_run [tool_step ''git''] 0 None (gov_of asked_kernel) of
     (g, Inr oc) \<Rightarrow> oc_stopped oc = ''completed'' \<and> list_all (\<lambda>r. sr_status r = ''success'') (oc_results oc) | _ \<Rightarrow> False"
  by code_simp

lemma sample_parks:
  "case run_plan_steps sample_runner sample_run [tool_step ''git'', tool_step ''shell''] 0 None (gov_of asked_kernel) of
     (g, Inr oc) \<Rightarrow> oc_stopped oc = ''pending'' | _ \<Rightarrow> False"
  by code_simp


theorem pending_plan_registered_witness:
  "\<exists>g' oc. run_plan_steps sample_runner sample_run [tool_step ''git'', tool_step ''shell''] 0 None (gov_of asked_kernel) = (g', Inr oc) \<and>
    (\<exists>j < Suc (Suc 0). parked_at j (ru_factory sample_run) oc g')"
proof -
  obtain g' oc where r: "run_plan_steps sample_runner sample_run [tool_step ''git'', tool_step ''shell''] 0 None (gov_of asked_kernel) = (g', Inr oc)"
    "oc_stopped oc = ''pending''"
    using sample_parks by (auto split: prod.splits sum.splits)
  from pending_plan_registered [OF r] r(1) show ?thesis by auto
qed

lemma sample_skips:
  "case run_plan_steps sample_runner sample_run [tool_step ''git'', tool_step ''shell''] 0 None (gov_of asked_kernel) of
     (g, Inr oc) \<Rightarrow> (case load_plan_progress ''w1'' (g_resumes g) of None \<Rightarrow> False
       | Some r \<Rightarrow> (case run_plan_steps sample_runner sample_run [tool_step ''git'', tool_step ''shell''] (pr_from r) None g of
            (g2, Inr oc2) \<Rightarrow> oc_stopped oc2 = ''completed'' | _ \<Rightarrow> False))
   | _ \<Rightarrow> False"
  by code_simp

theorem parked_step_skipped_witness:
  "\<exists>g1 oc g2 oc2. \<exists>r :: plan_resume. run_plan_steps sample_runner sample_run [tool_step ''git'', tool_step ''shell''] 0 None (gov_of asked_kernel) = (g1, Inr oc) \<and>
    run_plan_steps sample_runner sample_run [tool_step ''git'', tool_step ''shell''] (pr_from r) None g1 = (g2, Inr oc2) \<and>
    oc_stopped oc2 = ''completed'' \<and> (\<exists>j < Suc (Suc 0). parked_at j (ru_factory sample_run) oc g1 \<and> j \<notin> sr_step ` set (oc_results oc2))"
proof -
  obtain g1 oc where p: "run_plan_steps sample_runner sample_run [tool_step ''git'', tool_step ''shell''] 0 None (gov_of asked_kernel) = (g1, Inr oc)"
    "oc_stopped oc = ''pending''"
    using sample_parks by (auto split: prod.splits sum.splits)
  then obtain r where r: "load_plan_progress ''w1'' (g_resumes g1) = Some r"
    "case run_plan_steps sample_runner sample_run [tool_step ''git'', tool_step ''shell''] (pr_from r) None g1 of
      (g2, Inr oc2) \<Rightarrow> oc_stopped oc2 = ''completed'' | _ \<Rightarrow> False"
    using sample_skips by (auto split: option.splits)
  obtain g2 x where x: "run_plan_steps sample_runner sample_run [tool_step ''git'', tool_step ''shell''] (pr_from r) None g1 = (g2, x)"
    by (rule prod.exhaust)
  with r(2) obtain oc2 where oc2: "x = Inr oc2" "oc_stopped oc2 = ''completed''" by (auto split: sum.splits)
  have "world_keeps sample_runner" by (simp add: world_keeps_def sample_runner_def)
  moreover have "ru_action sample_run = ''w1''" by (simp add: sample_run_def)
  ultimately have "\<exists>j < length [tool_step ''git'', tool_step ''shell'']. parked_at j (ru_factory sample_run) oc g1 \<and> j \<notin> sr_step ` set (oc_results oc2)"
    using parked_step_skipped [OF p _ _ _ x [unfolded oc2]] r(1) by simp
  then have "\<exists>j < Suc (Suc 0). parked_at j (ru_factory sample_run) oc g1 \<and> j \<notin> sr_step ` set (oc_results oc2)" by simp
  with p(1) x [unfolded oc2(1)] oc2(2) show ?thesis by blast
qed

end
