(* ===== verification/Notifications.thy ===== *)
theory Notifications
  imports Gov_Props
begin

text \<open>
  Notifications, \<open>core/runtime/notification_bridge.py\<close>: the deduplicated creation of a row, and the bounded
  queues that carry the stream of a chat turn to its client. \<open>sha16\<close> is the first half of the SHA-256 hex
  digest. The broadcast to the connected clients has no state and is left out.
\<close>

section \<open>Creating\<close>

definition all_notifications :: notification_filter where
  "all_notifications = \<lparr>nf_type = None, nf_title = None, nf_unread = False, nf_on_day = None, nf_related = None,
     nf_kind = None, nf_dedup = None\<rparr>"

definition find_notification :: "kernel \<Rightarrow> string \<Rightarrow> string option \<Rightarrow> string option \<Rightarrow> notification_row option" where
  "find_notification k typ title dedup =
     (case query_notifications k None
        (all_notifications\<lparr>nf_type := Some typ, nf_dedup := dedup, nf_title := (if dedup = None then title else None)\<rparr>)
        None (Some 1) of [] \<Rightarrow> None | r # _ \<Rightarrow> Some r)"

definition deterministic_notification_id :: "(string \<Rightarrow> string) \<Rightarrow> string \<Rightarrow> string \<Rightarrow> string" where
  "deterministic_notification_id sha16 typ dedup = ''notif_'' @ sha16 (typ @ '':'' @ dedup)"

record notice =
  no_type :: string
  no_title :: string
  no_content :: string
  no_related :: "string option"
  no_related_type :: "string option"
  no_dedup :: "string option"
  no_actor :: string

definition val_opt :: "string option \<Rightarrow> val" where
  "val_opt s = (case s of None \<Rightarrow> VNull | Some x \<Rightarrow> VStr x)"

definition create_notification :: "(string \<Rightarrow> string) \<Rightarrow> notice \<Rightarrow> string gm" where
  "create_notification sha16 n = (\<lambda>g.
     case find_notification (g_kernel g) (no_type n) (Some (no_title n)) (no_dedup n) of
       Some r \<Rightarrow>
         if given (no_related n) \<and> \<not> truthy (n_related_id r)
         then gbind (gemit ''NotificationUpdated'' ''notification'' (n_id r)
                [(''content'', n_content r), (''related_id'', val_opt (no_related n)),
                 (''related_type'', val_opt (no_related_type n))] (no_actor n) None None) (\<lambda>_. gret (n_id r)) g
         else (g, Inr (n_id r))
     | None \<Rightarrow>
         gbind (if given (no_dedup n) then gret (deterministic_notification_id sha16 (no_type n) (the (no_dedup n)))
                else new_uuid) (\<lambda>nid.
         gbind (gread (\<lambda>g. k_now (g_kernel g))) (\<lambda>now.
         gbind (gemit ''NotificationCreated'' ''notification'' nid
           [(''type'', VStr (no_type n)), (''title'', VStr (no_title n)), (''content'', VStr (no_content n)),
            (''related_id'', val_opt (no_related n)), (''related_type'', val_opt (no_related_type n)),
            (''notification_type'', VStr (no_type n)), (''dedup_key'', val_opt (no_dedup n)), (''created_at'', VTime now)]
           (no_actor n) None None) (\<lambda>_. gret nid))) g)"

section \<open>The queues of the streams\<close>

definition sse_queue_max :: nat where
  "sse_queue_max = 256"

definition terminal_payload :: "dict \<Rightarrow> bool" where
  "terminal_payload p \<longleftrightarrow> get p ''type'' = VStr ''done'' \<or> get p ''type'' = VStr ''error''"

definition text_delta :: "dict \<Rightarrow> bool" where
  "text_delta p \<longleftrightarrow> get p ''type'' = VStr ''text_delta''"

text \<open>\<open>_enqueue\<close>: a full queue gives up its text deltas for a terminal payload and the put is tried again.\<close>

function sse_enqueue :: "dict \<Rightarrow> dict list \<Rightarrow> dict list" where
  "sse_enqueue p q =
     (if length q < sse_queue_max then q @ [p]
      else if terminal_payload p \<and> list_ex text_delta q then sse_enqueue p (filter (\<lambda>x. \<not> text_delta x) q)
      else q)"
  by auto

termination
proof (relation "measure (\<lambda>(p, q). length q)", simp)
  fix p q
  assume "terminal_payload p \<and> list_ex text_delta q"
  then obtain x where "x \<in> set q" "text_delta x" by (auto simp: list_ex_iff)
  then have "length (filter (\<lambda>x. \<not> text_delta x) q) < length q" using length_filter_less [of _ "\<lambda>x. True" x q] by auto
  then show "((p, filter (\<lambda>x. \<not> text_delta x) q), p, q) \<in> measure (\<lambda>(p, q). length q)" by simp
qed

declare sse_enqueue.simps [simp del]

lemma sse_enqueue_room [simp]: "length q < sse_queue_max \<Longrightarrow> sse_enqueue p q = q @ [p]"
  by (subst sse_enqueue.simps) simp

definition sse_put :: "dict \<Rightarrow> dict list \<Rightarrow> dict list" where
  "sse_put p q = (if \<not> terminal_payload p \<and> sse_queue_max - 1 \<le> length q then q else sse_enqueue p q)"

type_synonym sse_registry = "(string \<times> dict list) list"

definition sse_register :: "string \<Rightarrow> sse_registry \<Rightarrow> sse_registry" where
  "sse_register c reg = AList.update c [] reg"

definition sse_unregister :: "string \<Rightarrow> sse_registry \<Rightarrow> sse_registry" where
  "sse_unregister c reg = AList.delete c reg"

definition sse_push :: "string \<Rightarrow> dict \<Rightarrow> sse_registry \<Rightarrow> sse_registry" where
  "sse_push c p reg = (case map_of reg c of None \<Rightarrow> reg | Some q \<Rightarrow> AList.update c (sse_put p q) reg)"

text \<open>The consumer takes the oldest payload.\<close>

definition sse_get :: "string \<Rightarrow> sse_registry \<Rightarrow> sse_registry" where
  "sse_get c reg = (case map_of reg c of Some (p # q) \<Rightarrow> AList.update c q reg | _ \<Rightarrow> reg)"

inductive sse_step :: "sse_registry \<Rightarrow> sse_registry \<Rightarrow> bool" where
  "sse_step reg (sse_register c reg)"
| "sse_step reg (sse_unregister c reg)"
| "sse_step reg (sse_push c p reg)"
| "sse_step reg (sse_get c reg)"

inductive sse_reach :: "sse_registry \<Rightarrow> bool" where
  "sse_reach []"
| "sse_reach reg \<Longrightarrow> sse_step reg reg' \<Longrightarrow> sse_reach reg'"

section \<open>Bounds\<close>

text \<open>A slot is always left for the terminal payload.\<close>

definition queue_ok :: "dict list \<Rightarrow> bool" where
  "queue_ok q \<longleftrightarrow> length q \<le> sse_queue_max \<and> length (filter (\<lambda>p. \<not> terminal_payload p) q) < sse_queue_max"

lemma queue_ok_Nil [simp]: "queue_ok []"
  by (simp add: queue_ok_def sse_queue_max_def)

lemma queue_ok_filter: "queue_ok q \<Longrightarrow> queue_ok (filter P q)"
proof -
  assume q: "queue_ok q"
  have "length (filter (\<lambda>p. \<not> terminal_payload p) (filter P q)) \<le> length (filter (\<lambda>p. \<not> terminal_payload p) q)"
    by (induction q) auto
  with q le_trans [OF length_filter_le [of P q]] show ?thesis unfolding queue_ok_def by simp
qed

lemma sse_enqueue_ok: "queue_ok q \<Longrightarrow> terminal_payload p \<Longrightarrow> queue_ok (sse_enqueue p q)"
proof (induction p q rule: sse_enqueue.induct)
  case (1 p q)
  then show ?case
    by (subst sse_enqueue.simps) (auto simp: queue_ok_filter, auto simp: queue_ok_def)
qed

lemma put_ok: "queue_ok q \<Longrightarrow> queue_ok (sse_put p q)"
proof (cases "terminal_payload p")
  case True
  then show "queue_ok q \<Longrightarrow> ?thesis" by (simp add: sse_put_def sse_enqueue_ok)
next
  case False
  assume q: "queue_ok q"
  with False show ?thesis
    by (auto simp: sse_put_def queue_ok_def sse_queue_max_def intro: le_less_trans [OF length_filter_le])
qed

lemma sse_step_ok:
  assumes "sse_step reg reg'" and ok: "\<And>c q. map_of reg c = Some q \<Longrightarrow> queue_ok q" and "map_of reg' c = Some q"
  shows "queue_ok q"
  using assms(1,3) ok
proof (induction rule: sse_step.induct)
  case (1 reg c')
  then show ?case by (auto simp: sse_register_def update_conv split: if_splits)
next
  case (2 reg c')
  then show ?case by (auto simp: sse_unregister_def delete_conv' split: if_splits)
next
  case (3 reg c' p)
  then show ?case by (auto simp: sse_push_def update_conv split: if_splits option.splits intro: put_ok)
next
  case (4 reg c')
  have "queue_ok (p # q') \<Longrightarrow> queue_ok q'" for p q' by (auto simp: queue_ok_def split: if_splits)
  with 4 show ?case by (auto simp: sse_get_def update_conv split: if_splits option.splits list.splits)
qed

lemma sse_reach_ok: "sse_reach reg \<Longrightarrow> map_of reg c = Some q \<Longrightarrow> queue_ok q"
proof (induction arbitrary: c q rule: sse_reach.induct)
  case (2 reg reg')
  from sse_step_ok [OF 2(2)] 2(3,4) show ?case by blast
qed simp

section \<open>Properties\<close>

text \<open>A stream never loses its end: in every reachable registry no queue holds more than 256 payloads,
  and pushing the first terminal payload of a stream appends it to the queue of its correlation id, behind
  everything that waits there and without dropping any of it, however far the client has fallen behind.\<close>

lemma terminal_event_delivered:
  assumes "sse_reach reg" and "map_of reg c = Some q" and "terminal_payload p" and "\<not> list_ex terminal_payload q"
  shows "length q < sse_queue_max \<and> map_of (sse_push c p reg) = (map_of reg)(c \<mapsto> q @ [p])"
proof -
  have "queue_ok q" by (rule sse_reach_ok [OF assms(1,2)])
  moreover have "filter (\<lambda>p. \<not> terminal_payload p) q = q" using assms(4) by (auto simp: list_ex_iff filter_id_conv)
  ultimately have "length q < sse_queue_max" by (simp add: queue_ok_def)
  with assms(2,3) show ?thesis by (simp add: sse_push_def sse_put_def update_conv')
qed

definition end_payload :: dict where
  "end_payload = [(''type'', VStr ''done'')]"

end
