(* ===== verification/Work_Items.thy ===== *)
theory Work_Items
  imports Emissions
begin

text \<open>
  The work item service, \<open>core/runtime/work_item_engine.py\<close>: the status machine, creation, updates,
  dependencies, the tree of a goal and deletion. \<open>json.loads\<close> of a dependency text is the parameter
  \<open>loads\<close>, \<open>None\<close> where it raises; \<open>i\<close> is the uuid of a new item.

  The recursion of \<open>_get_subtree\<close> follows the parent links of the table and nothing bounds it, so it
  runs on fuel: \<open>None\<close> is a call that has not returned.
\<close>

section \<open>The status machine\<close>

datatype item_status = Pending | Running | Blocked | Waiting_Approval | Completed | Failed | Cancelled

fun status_text :: "item_status \<Rightarrow> string" where
  "status_text Pending = ''pending''"
| "status_text Running = ''running''"
| "status_text Blocked = ''blocked''"
| "status_text Waiting_Approval = ''waiting_approval''"
| "status_text Completed = ''completed''"
| "status_text Failed = ''failed''"
| "status_text Cancelled = ''cancelled''"

definition all_statuses :: "item_status list" where
  "all_statuses = [Pending, Running, Blocked, Waiting_Approval, Completed, Failed, Cancelled]"

text \<open>\<open>WorkItemStatus(text)\<close> raises on any other text.\<close>

definition status_of_text :: "val \<Rightarrow> item_status res" where
  "status_of_text v =
     (case v of
        VStr s \<Rightarrow> (case List.find (\<lambda>st. status_text st = s) all_statuses of
                    None \<Rightarrow> Inl (ValueError ''not a valid WorkItemStatus'') | Some st \<Rightarrow> Inr st)
      | _ \<Rightarrow> Inl (ValueError ''not a valid WorkItemStatus''))"

fun work_transitions :: "item_status \<Rightarrow> item_status list" where
  "work_transitions Pending = [Running, Completed, Cancelled]"
| "work_transitions Running = [Blocked, Waiting_Approval, Completed, Failed]"
| "work_transitions Blocked = [Pending, Running, Cancelled]"
| "work_transitions Waiting_Approval = [Running, Cancelled]"
| "work_transitions Completed = [Pending]"
| "work_transitions Failed = [Pending]"
| "work_transitions Cancelled = []"

definition validate_transition :: "item_status \<Rightarrow> item_status \<Rightarrow> unit res" where
  "validate_transition s s' =
     (if s' \<in> set (work_transitions s) then Inr () else Inl (ValueError ''Illegal state transition''))"

definition is_terminal :: "item_status \<Rightarrow> bool" where
  "is_terminal s \<longleftrightarrow> s = Completed \<or> s = Cancelled"

definition is_active :: "item_status \<Rightarrow> bool" where
  "is_active s \<longleftrightarrow> s \<in> {Pending, Running, Blocked, Waiting_Approval}"

definition goal_statuses :: "string list" where
  "goal_statuses = [''active'', ''completed'', ''paused'']"

definition work_item_statuses :: "string list" where
  "work_item_statuses = map status_text all_statuses"

section \<open>Reading\<close>

definition get_work_item :: "kernel \<Rightarrow> string \<Rightarrow> work_row option" where
  "get_work_item k i =
     (case query_work_items k (all_work\<lparr>wf_id := Some i, wf_limit := Some 1\<rparr>) of [] \<Rightarrow> None | r # _ \<Rightarrow> Some r)"

definition get_sub_work_items :: "kernel \<Rightarrow> string \<Rightarrow> work_row list" where
  "get_sub_work_items k parent =
     query_work_items k (all_work\<lparr>wf_parent := Some parent, wf_order := Some ''priority_desc''\<rparr>)"

definition list_work_items :: "kernel \<Rightarrow> string option \<Rightarrow> string option \<Rightarrow> int \<Rightarrow> string option \<Rightarrow> work_row list" where
  "list_work_items k status work_type mx parent =
     query_work_items k (all_work\<lparr>wf_limit := Some mx,
       wf_status := (if given status then status else None),
       wf_order := Some (if given status then ''priority_desc'' else ''created_at_desc''),
       wf_type := (if given work_type then work_type else None),
       wf_parent := (if given parent then parent else None)\<rparr>)"

text \<open>\<open>are_dependencies_met\<close>; the parse raises, or gives a list of ids.\<close>

definition are_dependencies_met :: "(val \<Rightarrow> string list option) \<Rightarrow> kernel \<Rightarrow> string \<Rightarrow> bool res" where
  "are_dependencies_met loads k i =
     (case get_work_item k i of
        None \<Rightarrow> Inr True
      | Some r \<Rightarrow>
          if \<not> truthy (w_deps r) then Inr True
          else (case loads (w_deps r) of
                  None \<Rightarrow> Inl (ValueError ''Expecting value'')
                | Some ids \<Rightarrow> Inr (list_all (\<lambda>d. case get_work_item k d of
                      None \<Rightarrow> False | Some x \<Rightarrow> w_status x = VStr ''completed'') ids)))"

section \<open>Writing\<close>

definition create_payload :: "string \<Rightarrow> string \<Rightarrow> string \<Rightarrow> string option \<Rightarrow> int \<Rightarrow> val \<Rightarrow> val \<Rightarrow> dict \<Rightarrow> string \<Rightarrow> dict" where
  "create_payload title description work_type parent priority deps plan goal_fields status =
     [(''title'', VStr title), (''description'', VStr description), (''work_type'', VStr work_type),
      (''parent_work_id'', opt_str parent), (''priority'', VInt priority), (''dependencies_json'', deps),
      (''executable_plan'', plan), (''status'', VStr status)] @
     filter (\<lambda>(key, v). key \<in> {''progress'', ''importance'', ''urgency'', ''deadline'', ''last_activity_at''} \<and> v \<noteq> VNull)
       goal_fields"

definition create_work_item :: "kernel \<Rightarrow> string \<Rightarrow> string \<Rightarrow> string \<Rightarrow> string \<Rightarrow> string option \<Rightarrow> int \<Rightarrow> val \<Rightarrow> val \<Rightarrow> dict
    \<Rightarrow> string \<Rightarrow> (kernel \<times> work_row) res" where
  "create_work_item k i title description work_type parent priority deps plan goal_fields status =
     rbind (emit_event k ''WorkItemCreated'' ''work_item'' i
        (create_payload title description work_type parent priority deps plan goal_fields status) ''user'' None None)
       (\<lambda>(k', ev). case get_work_item k' i of
          None \<Rightarrow> Inl (RuntimeError ''WorkItem not found after creation'') | Some r \<Rightarrow> Inr (k', r))"

definition updatable_fields :: "string list" where
  "updatable_fields = [''title'', ''description'', ''status'', ''priority'', ''progress'', ''importance'', ''urgency'',
     ''deadline'', ''last_activity_at'', ''parent_work_id'']"

text \<open>The keyword arguments of \<open>update_work_item_fields\<close> as a dict; \<open>None\<close> is not given.\<close>

definition update_work_item_fields :: "kernel \<Rightarrow> string \<Rightarrow> dict \<Rightarrow> (kernel \<times> work_row option) res" where
  "update_work_item_fields k i args =
     (case get_work_item k i of
        None \<Rightarrow> Inr (k, None)
      | Some r \<Rightarrow>
          let status = get args ''status'';
              allowed = (if w_work_type r = VStr ''goal'' then goal_statuses else work_item_statuses);
              payload = filter (\<lambda>(key, v). key \<in> set updatable_fields \<and> v \<noteq> VNull) args
          in if status \<noteq> VNull \<and> status \<notin> VStr ` set allowed then Inl (ValueError ''Invalid status'')
             else if payload = [] then Inr (k, Some r)
             else rbind (emit_event k ''WorkItemUpdated'' ''work_item'' i payload ''user'' None None)
                    (\<lambda>(k', ev). Inr (k', get_work_item k' i)))"

definition update_work_item_status :: "kernel \<Rightarrow> string \<Rightarrow> string \<Rightarrow> string option \<Rightarrow> (kernel \<times> work_row option) res" where
  "update_work_item_status k i new_status reason =
     (case get_work_item k i of
        None \<Rightarrow> Inr (k, None)
      | Some r \<Rightarrow>
          rbind (status_of_text (w_status r)) (\<lambda>from_status.
          rbind (status_of_text (VStr new_status)) (\<lambda>to_status.
          rbind (validate_transition from_status to_status) (\<lambda>_.
          rbind (emit_event k ''WorkItemStatusChanged'' ''work_item'' i
              ([(''status'', VStr new_status)] @
               (if given reason then [(''reason'', VStr (the reason))] else [])) ''user'' None None)
            (\<lambda>(k', ev). Inr (k', get_work_item k' i))))))"

definition bump_parent_activity :: "kernel \<Rightarrow> string \<Rightarrow> kernel res" where
  "bump_parent_activity k parent =
     (case get_work_item k parent of
        None \<Rightarrow> Inr k
      | Some r \<Rightarrow> rbind (emit_event k ''WorkItemUpdated'' ''work_item'' parent
          [(''last_activity_at'', VTime (k_now k))] ''user'' None None) (\<lambda>(k', ev). Inr k'))"

section \<open>The tree\<close>

datatype work_tree = Node (node_row: work_row) (node_subs: "work_tree list")

fun opt_map :: "('a \<Rightarrow> 'b option) \<Rightarrow> 'a list \<Rightarrow> 'b list option" where
  "opt_map f [] = Some []"
| "opt_map f (x # xs) = (case f x of None \<Rightarrow> None | Some y \<Rightarrow> (case opt_map f xs of None \<Rightarrow> None | Some ys \<Rightarrow> Some (y # ys)))"

fun get_subtree :: "nat \<Rightarrow> kernel \<Rightarrow> string \<Rightarrow> work_tree list option" where
  "get_subtree 0 k i = None"
| "get_subtree (Suc n) k i =
     opt_map (\<lambda>r. case get_subtree n k (w_id r) of None \<Rightarrow> None | Some ts \<Rightarrow> Some (Node r ts)) (get_sub_work_items k i)"

definition get_work_item_tree :: "nat \<Rightarrow> kernel \<Rightarrow> string \<Rightarrow> work_tree list option" where
  "get_work_item_tree n k goal_id = get_subtree n k goal_id"

fun flatten_tree :: "work_tree \<Rightarrow> string list" where
  "flatten_tree (Node r ts) = concat (map flatten_tree ts) @ [w_id r]"

definition flatten_trees :: "work_tree list \<Rightarrow> string list" where
  "flatten_trees ts = concat (map flatten_tree ts)"

definition delete_one :: "kernel \<Rightarrow> string \<Rightarrow> kernel res" where
  "delete_one k i = rbind (emit_event k ''WorkItemDeleted'' ''work_item'' i [] ''user'' None None) (\<lambda>(k', ev). Inr k')"

definition delete_work_item :: "nat \<Rightarrow> kernel \<Rightarrow> string \<Rightarrow> bool \<Rightarrow> kernel res option" where
  "delete_work_item n k i cascade =
     (if cascade
      then (case get_subtree n k i of
              None \<Rightarrow> None
            | Some ts \<Rightarrow> Some (foldM delete_one k (flatten_trees ts @ [i])))
      else Some (delete_one k i))"

section \<open>Lemmas\<close>

abbreviation work_rows :: "kernel \<Rightarrow> work_row list" where
  "work_rows k \<equiv> t_work_items (k_db k)"

lemma get_work_item_find: "i \<noteq> [] \<Longrightarrow> get_work_item k i = sql_find w_id i (work_rows k)"
  by (auto simp: get_work_item_def query_work_items_def given_def by_id_def Let_def split: option.splits)

lemma status_text_inj: "status_text s = status_text s' \<Longrightarrow> s = s'"
  by (cases s; cases s'; simp)

lemma status_of_text_iff: "status_of_text v = Inr s \<longleftrightarrow> v = VStr (status_text s)"
proof
  assume "status_of_text v = Inr s"
  then show "v = VStr (status_text s)"
    by (auto simp: status_of_text_def find_Some_iff split: val.splits option.splits)
next
  assume "v = VStr (status_text s)"
  then show "status_of_text v = Inr s" by (cases s) (simp_all add: status_of_text_def all_statuses_def)
qed

lemma status_of_text_Inl: "status_of_text v = Inl e \<Longrightarrow> v \<noteq> VStr (status_text s)"
  using status_of_text_iff [of v s] by auto

text \<open>Recalculating a goal touches its progress and its time stamps only.\<close>

definition same_item :: "work_row \<Rightarrow> work_row \<Rightarrow> bool" where
  "same_item r r' \<longleftrightarrow> w_id r' = w_id r \<and> w_status r' = w_status r \<and> w_parent r' = w_parent r \<and>
     w_work_type r' = w_work_type r \<and> w_title r' = w_title r"

definition refreshed :: "work_row list \<Rightarrow> work_row list \<Rightarrow> bool" where
  "refreshed t t' \<longleftrightarrow> list_all2 same_item t t'"

lemma same_item_refl [simp]: "same_item r r"
  by (simp add: same_item_def)

lemma refreshed_refl [simp]: "refreshed t t"
  by (simp add: refreshed_def list_all2_refl)

lemma refreshed_update: "(\<And>r. P r \<Longrightarrow> same_item r (f r)) \<Longrightarrow> refreshed t (sql_update P f t)"
  by (induction t) (auto simp: refreshed_def sql_update_def)

lemma recalc_refreshed: "refreshed t (recalculate_parent_goal_progress c ts h t)"
  unfolding recalculate_parent_goal_progress_def Let_def
  by (auto split: option.splits val.splits intro!: refreshed_update simp: same_item_def)

lemma refreshed_find:
  "refreshed t t' \<Longrightarrow> rel_option same_item (sql_find w_id i t) (sql_find w_id i t')"
  unfolding refreshed_def
  by (induction rule: list_all2_induct) (auto simp: sql_find_def same_item_def)

lemma refreshed_ids: "refreshed t t' \<Longrightarrow> map w_id t' = map w_id t"
  unfolding refreshed_def by (induction rule: list_all2_induct) (auto simp: same_item_def)

lemma refreshed_trans: "refreshed t u \<Longrightarrow> refreshed u v \<Longrightarrow> refreshed t v"
  unfolding refreshed_def by (rule list_all2_trans) (auto simp: same_item_def)

lemma refreshed_filter: "refreshed t u \<Longrightarrow> refreshed (filter (\<lambda>r. w_id r \<in> A) t) (filter (\<lambda>r. w_id r \<in> A) u)"
  unfolding refreshed_def by (induction rule: list_all2_induct) (auto simp: same_item_def)

lemma refreshed_mem: "refreshed t u \<Longrightarrow> r \<in> set u \<Longrightarrow> \<exists>x \<in> set t. same_item x r"
  unfolding refreshed_def by (metis list_all2_conv_all_nth in_set_conv_nth)

section \<open>Changing the status\<close>

definition legal_change :: "val \<Rightarrow> string \<Rightarrow> bool" where
  "legal_change v new \<longleftrightarrow> (\<exists>s s'. v = VStr (status_text s) \<and> new = status_text s' \<and> s' \<in> set (work_transitions s))"

lemma status_payload_get:
  "getd ([(''status'', VStr new)] @ (if given reason then [(''reason'', VStr (the reason))] else [])) ''status'' x = VStr new"
  by simp

lemma status_text_nonempty: "status_text s \<noteq> []"
  by (cases s) simp_all

lemma status_changed_effect:
  assumes "getd (ev_payload ev) ''status'' VNull = VStr new" and "new \<noteq> []" and "ev_type ev = ''WorkItemStatusChanged''"
  shows "\<exists>t' f. work_item_projector ev t = Inr t' \<and> refreshed (sql_update (\<lambda>r. w_id r = ev_agg_id ev) f t) t' \<and>
    (\<forall>r. w_id (f r) = w_id r \<and> w_status (f r) = VStr new \<and> w_parent (f r) = w_parent r \<and>
       w_work_type (f r) = w_work_type r \<and> w_title (f r) = w_title r)"
  using assms
  by (auto simp: work_item_projector_def on_work_item_status_changed_def Let_def intro!: exI recalc_refreshed)

lemma update_status_changes:
  assumes ok: "kernel_ok k" and r: "get_work_item k i = Some r" and i: "i \<noteq> []" and l: "legal_change (w_status r) new"
  shows "\<exists>k' r'. update_work_item_status k i new reason = Inr (k', Some r') \<and> kernel_ok k' \<and> w_id r' = i \<and>
    w_status r' = VStr new \<and> (\<forall>j. j \<noteq> i \<longrightarrow> rel_option same_item (sql_find w_id j (work_rows k)) (sql_find w_id j (work_rows k'))) \<and>
    get_work_item k' i = Some r' \<and>
    (\<exists>p. getd p ''status'' VNull = VStr new \<and> work_item_projector
      (next_event k ''WorkItemStatusChanged'' ''work_item'' i p ''user'' None None) (work_rows k) = Inr (work_rows k'))"
proof -
  let ?p = "[(''status'', VStr new)] @ (if given reason then [(''reason'', VStr (the reason))] else [])"
  let ?ev = "next_event k ''WorkItemStatusChanged'' ''work_item'' i ?p ''user'' None None"
  from l obtain s s' where s: "w_status r = VStr (status_text s)" "new = status_text s'" "s' \<in> set (work_transitions s)"
    by (auto simp: legal_change_def)
  have checks: "status_of_text (w_status r) = Inr s" "status_of_text (VStr new) = Inr s'" "validate_transition s s' = Inr ()"
    using s by (simp_all add: status_of_text_iff validate_transition_def)
  obtain t' f where t': "work_item_projector ?ev (work_rows k) = Inr t'"
      "refreshed (sql_update (\<lambda>r. w_id r = i) f (work_rows k)) t'"
    and f: "\<And>r. w_id (f r) = w_id r" "\<And>r. w_status (f r) = VStr new"
    using status_changed_effect [of ?ev new "work_rows k"] s(2) status_text_nonempty [of s']
    by (auto simp: schema_key_def)
  obtain k' where em: "emit_event k ''WorkItemStatusChanged'' ''work_item'' i ?p ''user'' None None = Inr (k', ?ev)"
    and k': "k_db k' = (k_db k)\<lparr>t_work_items := t'\<rparr>" "kernel_ok k'"
    using emit_owned [OF ok, of "''WorkItemStatusChanged''" WorkItem "''work_item''" i ?p "''user''" None None] t'(1)
    by (auto simp: handler_table_def logged_def)
  have find: "sql_find w_id j (sql_update (\<lambda>r. w_id r = i) f (work_rows k)) =
      map_option (\<lambda>r. if w_id r = i then f r else r) (sql_find w_id j (work_rows k))" for j
    by (rule sql_find_update) (simp add: f)
  have rel: "rel_option same_item (map_option (\<lambda>r. if w_id r = i then f r else r) (sql_find w_id j (work_rows k)))
      (sql_find w_id j (work_rows k'))" for j
    using refreshed_find [OF t'(2), of j] k'(1) by (simp add: find)
  from rel [of i] r i obtain r' where r': "sql_find w_id i (work_rows k') = Some r'" "w_status r' = VStr new" "w_id r' = i"
    by (auto simp: get_work_item_find option_rel_Some1 same_item_def f dest: sql_find_key)
  have "rel_option same_item (sql_find w_id j (work_rows k)) (sql_find w_id j (work_rows k'))" if "j \<noteq> i" for j
    using rel [of j] that by (cases "sql_find w_id j (work_rows k)") (auto dest: sql_find_key)
  moreover from t'(1) k'(1) have "work_item_projector ?ev (work_rows k) = Inr (work_rows k')" by simp
  moreover have "update_work_item_status k i new reason = Inr (k', Some r')"
    using r r' checks em i by (simp add: update_work_item_status_def get_work_item_find)
  moreover have "getd ?p ''status'' VNull = VStr new" by simp
  ultimately show ?thesis using r' k'(2) i unfolding get_work_item_find [OF i] by blast
qed

lemma update_status_refused:
  assumes "get_work_item k i = Some r" and "\<not> legal_change (w_status r) new"
  shows "\<exists>e. update_work_item_status k i new reason = Inl (ValueError e)"
proof (cases "status_of_text (w_status r)")
  case (Inl e)
  with assms(1) show ?thesis
    by (auto simp: update_work_item_status_def status_of_text_def split: val.splits option.splits)
next
  case (Inr s)
  show ?thesis
  proof (cases "status_of_text (VStr new)")
    case (Inl e)
    with assms(1) Inr show ?thesis
      by (auto simp: update_work_item_status_def status_of_text_def split: val.splits option.splits)
  next
    case (Inr s')
    with \<open>status_of_text (w_status r) = Inr s\<close> assms have "s' \<notin> set (work_transitions s)"
      by (auto simp: legal_change_def status_of_text_iff)
    with assms(1) Inr \<open>status_of_text (w_status r) = Inr s\<close> show ?thesis
      by (simp add: update_work_item_status_def validate_transition_def)
  qed
qed

section \<open>The tree below an item\<close>

definition kids :: "kernel \<Rightarrow> string \<Rightarrow> work_row list" where
  "kids k i = filter (\<lambda>r. w_parent r = VStr i) (work_rows k)"

text \<open>The default limit of the listing is 50.\<close>

definition small_families :: "kernel \<Rightarrow> bool" where
  "small_families k \<longleftrightarrow> (\<forall>r \<in> set (work_rows k). length (kids k (w_id r)) \<le> 50)"

definition ranked :: "(string \<Rightarrow> nat) \<Rightarrow> kernel \<Rightarrow> bool" where
  "ranked h k \<longleftrightarrow> (\<forall>r \<in> set (work_rows k). \<forall>p. w_parent r = VStr p \<longrightarrow> h (w_id r) < h p)"

inductive below :: "kernel \<Rightarrow> string \<Rightarrow> string \<Rightarrow> bool" for k where
  self: "below k i i"
| child: "r \<in> set (work_rows k) \<Longrightarrow> w_parent r = VStr i \<Longrightarrow> below k (w_id r) j \<Longrightarrow> below k i j"

lemma sub_items_listing:
  "get_sub_work_items k i = take 50 (order_by [Desc w_priority, Asc w_created_at] (kids k i))"
proof -
  have "work_where (k_now k) (all_work\<lparr>wf_parent := Some i, wf_order := Some ''priority_desc''\<rparr>) = (\<lambda>r. w_parent r = VStr i)"
    by (rule ext) (auto simp: work_where_def all_work_def eq_text_def)
  then show ?thesis
    by (simp add: get_sub_work_items_def query_work_items_def all_work_def given_def select_rows_def work_order_def
        safe_order_def work_orders_def safe_limit_def take_opt_def max_limit_def kids_def Let_def)
qed

lemma sub_items_in: "r \<in> set (get_sub_work_items k i) \<Longrightarrow> r \<in> set (work_rows k) \<and> w_parent r = VStr i"
  by (auto simp: sub_items_listing kids_def dest!: in_set_takeD)

lemma sub_items_all: "length (kids k i) \<le> 50 \<Longrightarrow> set (get_sub_work_items k i) = set (kids k i)"
  by (simp add: sub_items_listing)

lemma opt_map_SomeD: "opt_map f xs = Some ys \<Longrightarrow> list_all2 (\<lambda>x y. f x = Some y) xs ys"
  by (induction xs arbitrary: ys) (auto split: option.splits)

lemma opt_map_total: "(\<And>x. x \<in> set xs \<Longrightarrow> \<exists>y. f x = Some y) \<Longrightarrow> \<exists>ys. opt_map f xs = Some ys"
proof (induction xs)
  case (Cons x xs)
  then obtain y where "f x = Some y" by auto
  moreover from Cons obtain ys where "opt_map f xs = Some ys" by auto
  ultimately show ?case by simp
qed simp

lemma set_flatten_tree [simp]: "set (flatten_tree t) = insert (w_id (node_row t)) (set (flatten_trees (node_subs t)))"
  by (cases t) (simp add: flatten_trees_def)

lemma subtree_returns: "ranked h k \<Longrightarrow> h i < n \<Longrightarrow> \<exists>ts. get_subtree n k i = Some ts"
proof (induction n arbitrary: i)
  case (Suc n)
  have "\<exists>t. (case get_subtree n k (w_id r) of None \<Rightarrow> None | Some ts \<Rightarrow> Some (Node r ts)) = Some t"
    if "r \<in> set (get_sub_work_items k i)" for r
  proof -
    from sub_items_in [OF that] Suc.prems have "h (w_id r) < n" by (auto simp: ranked_def less_Suc_eq_le)
    with Suc.IH Suc.prems(1) show ?thesis by fastforce
  qed
  then show ?case by (simp add: opt_map_total)
qed simp

lemma list_all2_UN: "list_all2 (\<lambda>x y. G y = F x) xs ys \<Longrightarrow> (\<Union>y \<in> set ys. G y) = (\<Union>x \<in> set xs. F x)"
  by (induction rule: list_all2_induct) auto

lemma subtree_ids:
  assumes "get_subtree n k i = Some ts" and "small_families k" and "length (kids k i) \<le> 50"
  shows "insert i (set (flatten_trees ts)) = {j. below k i j}"
  using assms(1,3)
proof (induction n arbitrary: i ts)
  case (Suc n)
  let ?cs = "get_sub_work_items k i"
  have kid: "r \<in> set ?cs \<longleftrightarrow> r \<in> set (work_rows k) \<and> w_parent r = VStr i" for r
    using sub_items_all [OF Suc.prems(2)] by (auto simp: kids_def)
  have L: "list_all2 (\<lambda>r t. get_subtree n k (w_id r) = Some (node_subs t) \<and> node_row t = r) ?cs ts"
    by (rule list_all2_mono [OF opt_map_SomeD [OF Suc.prems(1) [unfolded get_subtree.simps]]])
      (simp split: option.splits, fastforce)
  have C: "insert (w_id r) (set (flatten_trees us)) = {j. below k (w_id r) j}"
    if "r \<in> set ?cs" "get_subtree n k (w_id r) = Some us" for r us
  proof (rule Suc.IH [OF that(2)])
    show "length (kids k (w_id r)) \<le> 50" using assms(2) that(1) unfolding kid small_families_def by blast
  qed
  have "set (flatten_trees ts) = (\<Union>t \<in> set ts. set (flatten_tree t))" by (simp add: flatten_trees_def del: set_flatten_tree)
  also have "\<dots> = (\<Union>r \<in> set ?cs. {j. below k (w_id r) j})"
  proof (rule list_all2_UN)
    show "list_all2 (\<lambda>r t. set (flatten_tree t) = {j. below k (w_id r) j}) ?cs ts"
    proof (rule list.rel_mono_strong [OF L])
      fix r t
      assume "r \<in> set ?cs" and "get_subtree n k (w_id r) = Some (node_subs t) \<and> node_row t = r"
      with C [of r "node_subs t"] show "set (flatten_tree t) = {j. below k (w_id r) j}" by simp
    qed
  qed
  also have "insert i \<dots> = {j. below k i j}"
  proof (intro set_eqI iffI)
    fix j
    assume "j \<in> insert i (\<Union>r \<in> set ?cs. {j. below k (w_id r) j})"
    then show "j \<in> {j. below k i j}" using kid by (auto intro: below.intros)
  next
    fix j
    assume "j \<in> {j. below k i j}"
    then have "below k i j" by simp
    then show "j \<in> insert i (\<Union>r \<in> set ?cs. {j. below k (w_id r) j})"
      by (cases rule: below.cases) (use kid in auto)
  qed
  finally show ?case .
qed simp

section \<open>Deleting\<close>

lemma delete_one_effect:
  assumes ok: "kernel_ok k"
  shows "\<exists>k'. delete_one k i = Inr k' \<and> kernel_ok k' \<and> refreshed (filter (\<lambda>r. w_id r \<in> - {i}) (work_rows k)) (work_rows k')"
proof -
  let ?ev = "next_event k ''WorkItemDeleted'' ''work_item'' i [] ''user'' None None"
  obtain t' where t': "work_item_projector ?ev (work_rows k) = Inr t'"
      "refreshed (filter (\<lambda>r. w_id r \<in> - {i}) (work_rows k)) t'"
    by (auto simp: work_item_projector_def on_work_item_deleted_def Let_def sql_delete_def recalc_refreshed)
  obtain k' where "emit_event k ''WorkItemDeleted'' ''work_item'' i [] ''user'' None None = Inr (k', ?ev)"
    and "k_db k' = (k_db k)\<lparr>t_work_items := t'\<rparr>" "kernel_ok k'"
    using emit_owned [OF ok, of "''WorkItemDeleted''" WorkItem "''work_item''" i "[]" "''user''" None None] t'(1)
    by (auto simp: handler_table_def logged_def)
  with t'(2) show ?thesis by (auto simp: delete_one_def)
qed

lemma delete_all_effect:
  "kernel_ok k \<Longrightarrow> \<exists>k'. foldM delete_one k ids = Inr k' \<and> kernel_ok k' \<and>
     refreshed (filter (\<lambda>r. w_id r \<in> - set ids) (work_rows k)) (work_rows k')"
proof (induction ids arbitrary: k)
  case (Cons i ids)
  from delete_one_effect [OF Cons.prems, of i] obtain k1 where k1: "delete_one k i = Inr k1" "kernel_ok k1"
    "refreshed (filter (\<lambda>r. w_id r \<in> - {i}) (work_rows k)) (work_rows k1)" by blast
  from Cons.IH [OF k1(2)] obtain k' where k': "foldM delete_one k1 ids = Inr k'" "kernel_ok k'"
    "refreshed (filter (\<lambda>r. w_id r \<in> - set ids) (work_rows k1)) (work_rows k')" by blast
  have "refreshed (filter (\<lambda>r. w_id r \<in> - set (i # ids)) (work_rows k)) (filter (\<lambda>r. w_id r \<in> - set ids) (work_rows k1))"
    using refreshed_filter [OF k1(3), of "- set ids"] by (simp add: conj_commute)
  with k1(1) k' show ?case by (auto intro: refreshed_trans)
qed auto

lemma cascade_effect:
  assumes "kernel_ok k" and "ranked h k" and "small_families k" and "length (kids k i) \<le> 50" and "h i < n"
  shows "\<exists>k'. delete_work_item n k i True = Some (Inr k') \<and> kernel_ok k' \<and>
    refreshed (filter (\<lambda>r. w_id r \<in> - {j. below k i j}) (work_rows k)) (work_rows k')"
proof -
  from subtree_returns [of h k i n] assms obtain ts where ts: "get_subtree n k i = Some ts" by blast
  have "set (flatten_trees ts @ [i]) = {j. below k i j}"
    using subtree_ids [OF ts assms(3,4)] by auto
  with delete_all_effect [OF assms(1), of "flatten_trees ts @ [i]"] ts show ?thesis
    by (simp only: delete_work_item_def if_True option.case) auto
qed

lemma opt_map_None: "x \<in> set xs \<Longrightarrow> f x = None \<Longrightarrow> opt_map f xs = None"
  by (induction xs) (auto split: option.splits)

lemma loop_never_returns:
  assumes "r \<in> set (work_rows k)" and "w_id r = i" and "w_parent r = VStr i" and "length (kids k i) \<le> 50"
  shows "get_subtree n k i = None"
proof (induction n)
  case (Suc n)
  have "r \<in> set (get_sub_work_items k i)" using assms sub_items_all by (auto simp: kids_def)
  then show ?case using Suc.IH assms(2) by (auto intro!: opt_map_None)
qed simp

section \<open>The progress of a goal\<close>

lemma refreshed_progress: "refreshed t u \<Longrightarrow> progress_of (children_of g u) = progress_of (children_of g t)"
proof -
  assume "refreshed t u"
  then have "list_all2 same_item (children_of g t) (children_of g u)"
    unfolding refreshed_def children_of_def by (induction rule: list_all2_induct) (auto simp: same_item_def)
  then have "length (children_of g u) = length (children_of g t) \<and>
      count_completed (children_of g u) = count_completed (children_of g t)"
    unfolding count_completed_def by (induction rule: list_all2_induct) (auto simp: same_item_def)
  then show ?thesis by (metis progress_of_def length_0_conv)
qed

lemma goal_after_recalc:
  assumes "sql_find w_id i t = Some r" and "w_parent r = VStr g" and "g \<noteq> []"
    and "sql_find w_id g t = Some gr" and "w_work_type gr = VStr ''goal''"
  shows "\<exists>gr'. sql_find w_id g (recalculate_parent_goal_progress i ts None t) = Some gr' \<and>
    w_progress gr' = VNum (progress_of (children_of g (recalculate_parent_goal_progress i ts None t)))"
proof -
  let ?f = "\<lambda>r. r\<lparr>w_progress := VNum (progress_of (children_of g t)), w_last_activity := VTime ts, w_updated_at := ts\<rparr>"
  have "recalculate_parent_goal_progress i ts None t = sql_update (\<lambda>r. w_id r = g) ?f t"
    using assms by (simp add: recalculate_parent_goal_progress_def)
  moreover have "sql_find w_id g (sql_update (\<lambda>r. w_id r = g) ?f t) = Some (?f gr)"
    by (simp add: sql_find_update assms(4) sql_find_key [OF assms(4)])
  moreover have "w_progress (?f gr) = VNum (progress_of (children_of g (recalculate_parent_goal_progress i ts None t)))"
    unfolding refreshed_progress [OF recalc_refreshed] by simp
  ultimately show ?thesis by metis
qed

lemma below_trans: "below k i j \<Longrightarrow> r \<in> set (work_rows k) \<Longrightarrow> w_parent r = VStr j \<Longrightarrow> below k i (w_id r)"
  by (induction rule: below.induct) (auto intro: below.intros)

lemma reparent_count:
  "keyed w_id t \<Longrightarrow> length (filter (\<lambda>r. w_parent r = VStr i) (sql_update (\<lambda>r. w_id r = i)
     (\<lambda>r. r\<lparr>w_parent := VStr i, w_updated_at := ts\<rparr>) t)) \<le> Suc (length (filter (\<lambda>r. w_parent r = VStr i) t))"
proof (induction t)
  case (Cons x xs)
  show ?case
  proof (cases "w_id x = i")
    case True
    with Cons.prems have "w_id y \<noteq> i" if "y \<in> set xs" for y using that by (auto simp: keyed_def rev_image_eqI)
    then have "sql_update (\<lambda>r. w_id r = i) (\<lambda>r. r\<lparr>w_parent := VStr i, w_updated_at := ts\<rparr>) xs = xs"
      by (simp add: sql_update_def map_idI)
    with True show ?thesis by (simp add: sql_update_def)
  next
    case False
    with Cons show ?thesis by (simp add: sql_update_def keyed_def)
  qed
qed simp

lemma reparent_effect:
  assumes ok: "kernel_ok k" and r: "get_work_item k i = Some r" and i: "i \<noteq> []"
  shows "\<exists>k' r'. update_work_item_fields k i [(''parent_work_id'', VStr i)] = Inr (k', Some r') \<and>
    work_rows k' = sql_update (\<lambda>r. w_id r = i) (\<lambda>r. r\<lparr>w_parent := VStr i, w_updated_at := k_now k\<rparr>) (work_rows k)"
proof -
  let ?p = "[(''parent_work_id'', VStr i)]"
  let ?ev = "next_event k ''WorkItemUpdated'' ''work_item'' i ?p ''user'' None None"
  let ?t = "sql_update (\<lambda>r. w_id r = i) (\<lambda>r. r\<lparr>w_parent := VStr i, w_updated_at := k_now k\<rparr>) (work_rows k)"
  have "work_item_projector ?ev (work_rows k) = Inr ?t"
    by (simp add: work_item_projector_def on_work_item_updated_def schema_key_def present_def work_cols_def
        sql_update_checked_def null_given_def set_present_def Let_def)
  then obtain k' where k': "emit_event k ''WorkItemUpdated'' ''work_item'' i ?p ''user'' None None = Inr (k', ?ev)"
    "k_db k' = (k_db k)\<lparr>t_work_items := ?t\<rparr>"
    using emit_owned [OF ok, of "''WorkItemUpdated''" WorkItem "''work_item''" i ?p "''user''" None None]
    by (auto simp: handler_table_def logged_def)
  have "\<exists>r'. get_work_item k' i = Some r'"
    using r by (auto simp: get_work_item_find [OF i] k'(2) sql_find_update)
  with k' r show ?thesis by (auto simp: update_work_item_fields_def updatable_fields_def)
qed

section \<open>Properties\<close>

text \<open>The status machine decides: a status change succeeds exactly when the machine allows it, then
  the item has the new status and every other item keeps its status, parent, type and title; otherwise
  it is a ValueError and nothing is written.\<close>

lemma status_change_legal:
  assumes "kernel_reach reg k" and "i \<noteq> []" and "get_work_item k i = Some r"
  shows "if legal_change (w_status r) new
    then \<exists>k' r'. update_work_item_status k i new reason = Inr (k', Some r') \<and> w_id r' = i \<and> w_status r' = VStr new \<and>
      (\<forall>j. j \<noteq> i \<longrightarrow> rel_option same_item (sql_find w_id j (work_rows k)) (sql_find w_id j (work_rows k')))
    else \<exists>e. update_work_item_status k i new reason = Inl (ValueError e)"
  using update_status_changes [OF kernel_reach_ok [OF assms(1)] assms(3,2)] update_status_refused [OF assms(3)]
  by (simp only: split: if_splits) blast

text \<open>Completing or reopening a child updates its goal: after a status change the progress of the
  parent goal is the fraction of its children that are completed.\<close>

lemma goal_progress_exact:
  assumes "kernel_reach reg k" and "i \<noteq> []" and "get_work_item k i = Some r" and "legal_change (w_status r) new"
    and "w_parent r = VStr g" and "g \<noteq> []" and "g \<noteq> i"
    and "get_work_item k g = Some gr" and "w_work_type gr = VStr ''goal''"
  shows "\<exists>k' r' gr'. update_work_item_status k i new reason = Inr (k', Some r') \<and> get_work_item k' g = Some gr' \<and>
    w_progress gr' = VNum (progress_of (children_of g (work_rows k')))"
proof -
  obtain k' r' p where k': "update_work_item_status k i new reason = Inr (k', Some r')"
      "getd p ''status'' VNull = VStr new"
      "work_item_projector (next_event k ''WorkItemStatusChanged'' ''work_item'' i p ''user'' None None) (work_rows k) =
        Inr (work_rows k')"
    using update_status_changes [OF kernel_reach_ok [OF assms(1)] assms(3,2,4)] by blast
  let ?f = "\<lambda>r. if VStr new = VStr ''completed''
                  then r\<lparr>w_status := VStr new, w_updated_at := k_now k, w_completed_at := VTime (k_now k), w_progress := VNum 1\<rparr>
                  else r\<lparr>w_status := text_aff (VStr new), w_updated_at := k_now k\<rparr>"
  let ?t = "sql_update (\<lambda>r. w_id r = i) ?f (work_rows k)"
  have "new \<noteq> []" using assms(4) status_text_nonempty by (auto simp: legal_change_def)
  with k'(2,3) have rows: "work_rows k' = recalculate_parent_goal_progress i (k_now k) None ?t"
    by (simp add: work_item_projector_def on_work_item_status_changed_def schema_key_def Let_def cong: if_cong)
  have find: "sql_find w_id j ?t = map_option (\<lambda>r. if w_id r = i then ?f r else r) (sql_find w_id j (work_rows k))" for j
    by (rule sql_find_update) simp
  have S: "sql_find w_id i ?t = Some (?f r)" "w_parent (?f r) = VStr g" "sql_find w_id g ?t = Some gr"
    using assms(2,3,5-8) find [of i] find [of g] by (auto simp: get_work_item_find dest: sql_find_key)
  have "\<exists>gr'. get_work_item k' g = Some gr' \<and> w_progress gr' = VNum (progress_of (children_of g (work_rows k')))"
    unfolding get_work_item_find [OF assms(6)] rows by (rule goal_after_recalc [OF S(1,2) assms(6) S(3) assms(9)])
  with k'(1) show ?thesis by blast
qed


text \<open>C40. The parent of an item is not checked: an existing item can be made its own parent, and from
  then on its cascading delete does not return, whatever the fuel (the Python call runs into the
  recursion limit).\<close>

theorem own_parent_never_deleted:
  assumes "kernel_reach reg k" and "i \<noteq> []" and "get_work_item k i = Some r" and "length (kids k i) < 50"
  shows "\<exists>k' r'. update_work_item_fields k i [(''parent_work_id'', VStr i)] = Inr (k', Some r') \<and>
    (\<forall>n. delete_work_item n k' i True = None)"
proof -
  let ?f = "\<lambda>r. r\<lparr>w_parent := VStr i, w_updated_at := k_now k\<rparr>"
  obtain k' r' where k': "update_work_item_fields k i [(''parent_work_id'', VStr i)] = Inr (k', Some r')"
    "work_rows k' = sql_update (\<lambda>r. w_id r = i) ?f (work_rows k)"
    using reparent_effect [OF kernel_reach_ok [OF assms(1)] assms(3,2)] by blast
  have r: "r \<in> set (work_rows k)" "w_id r = i"
    using assms(2,3) by (auto simp: get_work_item_find dest: sql_find_key sql_find_in)
  have mem: "?f r \<in> set (work_rows k')" using r by (force simp: k'(2) set_sql_update)
  have "keyed w_id (work_rows k)"
    using keyed_tables(7) [OF kernel_reach_ok [OF assms(1)]] by simp
  then have "length (kids k' i) \<le> Suc (length (kids k i))"
    unfolding kids_def k'(2) by (rule reparent_count)
  with assms(4) have "length (kids k' i) \<le> 50" by simp
  from loop_never_returns [OF mem _ _ this] r k'(1) show ?thesis by (auto simp: delete_work_item_def)
qed

text \<open>The witnesses: the sample kernel holds the goal \<open>g1\<close> with its completed child \<open>t1\<close>.\<close>

definition sample_child :: work_row where
  "sample_child = the (get_work_item sample_kernel ''t1'')"

definition sample_goal :: work_row where
  "sample_goal = the (get_work_item sample_kernel ''g1'')"

lemma sample_items:
  "get_work_item sample_kernel ''t1'' = Some sample_child \<and> get_work_item sample_kernel ''g1'' = Some sample_goal \<and>
   w_status sample_child = VStr ''completed'' \<and> w_parent sample_child = VStr ''g1'' \<and>
   w_work_type sample_goal = VStr ''goal'' \<and> w_parent sample_goal = VNull \<and>
   map w_id (work_rows sample_kernel) = [''g1'', ''t1''] \<and> work_rows sample_kernel = [sample_goal, sample_child]"
  by code_simp

lemma sample_legal: "legal_change (VStr ''completed'') ''pending''"
  unfolding legal_change_def by (rule exI [of _ Completed], rule exI [of _ Pending]) (simp add: sample_items)

lemma sample_status: "w_status sample_child = VStr ''completed''"
  using sample_items by simp

lemma sample_ids: "w_id sample_goal = ''g1'' \<and> w_id sample_child = ''t1''"
  using sample_items by auto

definition sample_rank :: "string \<Rightarrow> nat" where
  "sample_rank i = (if i = ''g1'' then 1 else 0)"

lemma sample_ranked: "ranked sample_rank sample_kernel \<and> small_families sample_kernel \<and> length (kids sample_kernel i) \<le> 2"
  using sample_items sample_ids
  by (auto simp: ranked_def sample_rank_def small_families_def kids_def)


theorem own_parent_never_deleted_witness:
  "\<exists>k' r'. update_work_item_fields sample_kernel ''t1'' [(''parent_work_id'', VStr ''t1'')] = Inr (k', Some r') \<and>
    (\<forall>n. delete_work_item n k' ''t1'' True = None)"
  by (rule own_parent_never_deleted [OF sample_reach, of "''t1''" sample_child])
    (use sample_ranked [of "''t1''"] in \<open>auto simp: sample_items\<close>)

end
