(* ===== verification/Execute_Handler.thy ===== *)
theory Execute_Handler
  imports Plan_Runner Notifications Work_Items
begin

text \<open>
  The handler of \<open>ExecuteRequested\<close>, \<open>core/runtime/handlers/execute_handlers.py\<close>, with the context it emits
  through (\<open>execution.py\<close>), the cancel flags, and \<open>notify_goal_action_completed\<close> of \<open>read_ports/work.py\<close>.

  \<^item> The handler runs between awaits of the scheduler; the only awaits of its own are the tools, which the
    plan runner models, and the compiler of a brief.
  \<^item> \<open>xe_compile\<close> is the bound \<open>work_delivery_compiler\<close>, \<open>None\<close> where none is bound; \<open>xe_message\<close> is
    \<open>str(exc).strip() or type(exc).__name__\<close>; \<open>xe_notice\<close> gives the title and text of the notification, from
    whether all steps are done, the row of the goal, the title of the action and the two counts.
\<close>

section \<open>Context\<close>

record ctx =
  cx_actor :: string
  cx_corr :: string
  cx_execution :: string

definition ctx_emit :: "ctx \<Rightarrow> string \<Rightarrow> string \<Rightarrow> string \<Rightarrow> dict \<Rightarrow> string option \<Rightarrow> event gm" where
  "ctx_emit cx et agg aid p caused = gemit et agg aid p (cx_actor cx) caused (if cx_corr cx = [] then None else Some (cx_corr cx))"

definition flag_cancel :: "string \<Rightarrow> gov \<Rightarrow> gov" where
  "flag_cancel e g = (if e = [] then g else g\<lparr>g_cancels := insert e (g_cancels g)\<rparr>)"

definition cancel_flagged :: "string \<Rightarrow> gov \<Rightarrow> bool" where
  "cancel_flagged e g \<longleftrightarrow> e \<noteq> [] \<and> e \<in> g_cancels g"

definition unflag_cancel :: "string \<Rightarrow> gov \<Rightarrow> gov" where
  "unflag_cancel e g = g\<lparr>g_cancels := g_cancels g - {e}\<rparr>"

text \<open>The outcome of a computation as a value: \<open>try ... except Exception\<close>.\<close>

definition gattempt :: "'a gm \<Rightarrow> (err + 'a) gm" where
  "gattempt m = (\<lambda>g. case m g of (g', r) \<Rightarrow> (g', Inr r))"

definition lift_kernel :: "(kernel \<Rightarrow> kernel res) \<Rightarrow> unit gm" where
  "lift_kernel f = (\<lambda>g. case f (g_kernel g) of Inl e \<Rightarrow> (g, Inl e) | Inr k \<Rightarrow> (g\<lparr>g_kernel := k\<rparr>, Inr ()))"

section \<open>Environment\<close>

record exec_env =
  xe_runner :: runner
  xe_loads :: "string \<Rightarrow> val option"
  xe_message :: "err \<Rightarrow> string"
  xe_compile :: "(string \<Rightarrow> run_outcome \<Rightarrow> dict gm) option"
  xe_notice :: "bool \<Rightarrow> work_row option \<Rightarrow> string \<Rightarrow> nat \<Rightarrow> nat \<Rightarrow> string \<times> string"
  xe_sha :: "string \<Rightarrow> string"

definition exec_status_of :: "string \<Rightarrow> string" where
  "exec_status_of reason =
     (if reason = ''completed'' then ''success'' else if reason = ''pending'' then ''waiting_approval''
      else if reason = ''failed'' then ''error'' else if reason = ''cancelled'' then ''cancelled'' else reason)"

definition work_status_of :: "string \<Rightarrow> string option" where
  "work_status_of status =
     (if status = ''success'' then Some ''completed'' else if status = ''waiting_approval'' then Some ''waiting_approval''
      else if status = ''error'' then Some ''failed'' else if status = ''cancelled'' then Some ''cancelled'' else None)"

section \<open>Emissions\<close>

definition exec_key :: "string \<Rightarrow> string" where
  "exec_key action = ''exec_'' @ action"

definition emit_execute_completed :: "ctx \<Rightarrow> string \<Rightarrow> string \<Rightarrow> string \<Rightarrow> dict \<Rightarrow> unit gm" where
  "emit_execute_completed cx ev action status extra =
     gbind (ctx_emit cx ''ExecuteCompleted'' ''action'' (exec_key action)
       ([(''action_id'', VStr action), (''status'', VStr status)] @ extra) (Some ev)) (\<lambda>_. gret ())"

definition sync_work_item_status :: "ctx \<Rightarrow> string \<Rightarrow> string \<Rightarrow> string \<Rightarrow> unit gm" where
  "sync_work_item_status cx ev action status =
     gbind (ctx_emit cx ''WorkItemStatusChanged'' ''work_item'' action [(''status'', VStr status)] (Some ev)) (\<lambda>_. gret ())"

definition emit_work_item_progress :: "ctx \<Rightarrow> string \<Rightarrow> string \<Rightarrow> rat \<Rightarrow> unit gm" where
  "emit_work_item_progress cx ev action progress =
     gbind (ctx_emit cx ''WorkItemUpdated'' ''work_item'' action [(''progress'', VNum progress)] (Some ev)) (\<lambda>_. gret ())"

definition progress_ratio :: "nat \<Rightarrow> nat \<Rightarrow> rat" where
  "progress_ratio n steps = 1/10 + 8/10 * of_nat n / of_nat (max steps 1)"

definition step_failure_reason :: "(string \<Rightarrow> val option) \<Rightarrow> step_result list \<Rightarrow> string option" where
  "step_failure_reason loads results =
     (case filter (\<lambda>r. sr_status r = ''failed'') (rev results) of
        [] \<Rightarrow> None
      | r # _ \<Rightarrow>
          let t = (case sr_result r of VStr s \<Rightarrow> strip s | _ \<Rightarrow> []);
              or_none = (\<lambda>s. if s = [] then None else Some s)
          in if t = [] then None
             else case loads t of
               None \<Rightarrow> Some t
             | Some (VObj d) \<Rightarrow> (case get d ''error'' of
                   VStr s \<Rightarrow> or_none (strip s) | VNull \<Rightarrow> None | v \<Rightarrow> or_none (strip (py_str v)))
             | Some v \<Rightarrow> Some t)"

section \<open>Plans\<close>

definition plan_object :: "(string \<Rightarrow> val option) \<Rightarrow> val \<Rightarrow> dict" where
  "plan_object loads raw =
     (case raw of
        VObj d \<Rightarrow> d
      | VStr s \<Rightarrow> if strip s = [] then [] else (case loads s of Some (VObj d) \<Rightarrow> d | _ \<Rightarrow> [])
      | _ \<Rightarrow> [])"

definition is_project_brief_plan :: "(string \<Rightarrow> val option) \<Rightarrow> val \<Rightarrow> bool" where
  "is_project_brief_plan loads raw =
     (let plan = plan_object loads raw in
      get plan ''kind'' = VStr ''project_brief'' \<or>
      (case get plan ''contract'' of VObj c \<Rightarrow> get c ''output_kind'' = VStr ''project_brief'' | _ \<Rightarrow> False))"

definition plan_of :: "work_row \<Rightarrow> val" where
  "plan_of row = py_or (w_plan row) (VStr ''{}'')"

section \<open>One attempt\<close>

record job =
  jb_event :: string
  jb_payload :: dict
  jb_id :: string
  jb_row :: work_row
  jb_steps :: "dict list"
  jb_background :: bool
  jb_brief :: bool

definition job_cancelled :: "job \<Rightarrow> gov \<Rightarrow> bool" where
  "job_cancelled jb g \<longleftrightarrow> cancel_flagged (exec_key (jb_id jb)) g \<or>
     jb_background jb \<and> (case get_work_item (g_kernel g) (jb_id jb) of None \<Rightarrow> False | Some r \<Rightarrow> w_status r = VStr ''cancelled'')"

text \<open>Only background items and briefs are polled while they run.\<close>

definition polled :: "job \<Rightarrow> bool" where
  "polled jb \<longleftrightarrow> jb_background jb \<or> jb_brief jb"

definition job_actor :: "job \<Rightarrow> string" where
  "job_actor jb = (if jb_background jb then ''background'' else ''executor'')"

text \<open>Where the run starts: the event's \<open>resume_from\<close>, else the durable progress, else the beginning.\<close>

definition resume_point :: "dict \<Rightarrow> string \<Rightarrow> resumes \<Rightarrow> (int \<times> dict option) res" where
  "resume_point payload action t =
     (let prev = (case get payload ''previous_output'' of VObj d \<Rightarrow> Some d | _ \<Rightarrow> None) in
      if get payload ''resume_from'' \<noteq> VNull
      then rbind (py_int (py_or (get payload ''resume_from'') (VInt 0))) (\<lambda>n. Inr (n, prev))
      else case load_plan_progress action t of
             None \<Rightarrow> Inr (0, prev)
           | Some r \<Rightarrow> Inr (pr_from r, if prev = None then pr_prev r else prev))"

definition resume_factory :: "string \<Rightarrow> run_outcome \<Rightarrow> plan_resume" where
  "resume_factory action oc =
     \<lparr>pr_kind = ''execute'', pr_from = (case oc_next oc of None \<Rightarrow> 0 | Some n \<Rightarrow> n), pr_prev = oc_prev oc,
      pr_action = action, pr_task = [], pr_plan = []\<rparr>"

definition job_run :: "ctx \<Rightarrow> job \<Rightarrow> run" where
  "job_run cx jb =
     \<lparr>ru_actor = job_actor jb, ru_execution = Some (cx_execution cx), ru_corr = Some (cx_corr cx), ru_action = jb_id jb,
      ru_factory = Some (resume_factory (jb_id jb)),
      ru_cancel = (\<lambda>g. polled jb \<and> job_cancelled jb g)\<rparr>"

definition run_work_plan :: "exec_env \<Rightarrow> ctx \<Rightarrow> job \<Rightarrow> run_outcome gm" where
  "run_work_plan env cx jb =
     gbind (\<lambda>g. (g, resume_point (jb_payload jb) (jb_id jb) (g_resumes g))) (\<lambda>(start, prev).
       run_plan_steps (xe_runner env) (job_run cx jb) (jb_steps jb) start prev)"

section \<open>Endings\<close>

definition previews :: "run_outcome \<Rightarrow> val" where
  "previews oc = VList (map (VObj \<circ> preview) (oc_results oc))"

definition counts :: "job \<Rightarrow> nat \<Rightarrow> val \<Rightarrow> dict" where
  "counts jb n results =
     [(''total_steps'', VInt (int (length (jb_steps jb)))), (''completed_steps'', VInt (int n)), (''results'', results)]"

definition finalize_cancelled :: "ctx \<Rightarrow> job \<Rightarrow> nat \<Rightarrow> val \<Rightarrow> int option \<Rightarrow> bool \<Rightarrow> unit gm" where
  "finalize_cancelled cx jb n results from show_progress =
     gbind (sync_work_item_status cx (jb_event jb) (jb_id jb) ''cancelled'') (\<lambda>_.
     gbind (gmod (unflag_cancel (exec_key (jb_id jb)))) (\<lambda>_.
     gbind (if show_progress then emit_work_item_progress cx (jb_event jb) (jb_id jb) (progress_ratio n (length (jb_steps jb)))
            else gret ()) (\<lambda>_.
     emit_execute_completed cx (jb_event jb) (jb_id jb) ''cancelled''
       (counts jb n results @ (case from of None \<Rightarrow> [] | Some i \<Rightarrow> [(''resume_from'', VInt i)])))))"

text \<open>A brief keeps the status that the cancel wrote.\<close>

definition brief_cancelled :: "ctx \<Rightarrow> job \<Rightarrow> nat \<Rightarrow> val \<Rightarrow> int option \<Rightarrow> unit gm" where
  "brief_cancelled cx jb n results from =
     gbind (gmod (unflag_cancel (exec_key (jb_id jb)))) (\<lambda>_.
     emit_execute_completed cx (jb_event jb) (jb_id jb) ''cancelled''
       (counts jb n results @ (case from of None \<Rightarrow> [] | Some i \<Rightarrow> [(''resume_from'', VInt i)])))"

definition after_exception :: "exec_env \<Rightarrow> ctx \<Rightarrow> job \<Rightarrow> err \<Rightarrow> unit gm" where
  "after_exception env cx jb e =
     gbind (gread (\<lambda>g. polled jb \<and> job_cancelled jb g)) (\<lambda>stop.
     if stop then
       (if jb_brief jb \<and> \<not> jb_background jb then brief_cancelled cx jb 0 (VList []) None
        else finalize_cancelled cx jb 0 (VList []) None False)
     else
       gbind (sync_work_item_status cx (jb_event jb) (jb_id jb) ''failed'') (\<lambda>_.
       emit_execute_completed cx (jb_event jb) (jb_id jb) ''error'' [(''error'', VStr (xe_message env e))]))"

definition notify_goal_action_completed :: "exec_env \<Rightarrow> string \<Rightarrow> string \<Rightarrow> string \<Rightarrow> unit gm" where
  "notify_goal_action_completed env goal action title =
     gtry
       (\<lambda>g. let items = query_work_items (g_kernel g) (all_work\<lparr>wf_parent := Some goal, wf_limit := Some 500\<rparr>);
                ok = (\<lambda>r. w_id r = action \<or> w_status r = VStr ''completed'')
            in if items = [] then (g, Inr ())
               else let all_done = list_all ok items;
                        goal_row = (case query_work_items (g_kernel g)
                            (all_work\<lparr>wf_type := Some ''goal'', wf_id := Some goal, wf_limit := Some 1\<rparr>) of [] \<Rightarrow> None | r # _ \<Rightarrow> Some r);
                        (t, c) = xe_notice env all_done goal_row title (length (filter ok items)) (length items)
                    in gbind (create_notification (xe_sha env)
                         \<lparr>no_type = (if all_done then ''goal_complete'' else ''goal_progress''), no_title = t, no_content = c,
                          no_related = None, no_related_type = None, no_dedup = None, no_actor = ''system''\<rparr>) (\<lambda>_. gret ()) g)
       (\<lambda>_. gret ())"

definition goal_bookkeeping :: "exec_env \<Rightarrow> job \<Rightarrow> unit gm" where
  "goal_bookkeeping env jb =
     (case w_parent (jb_row jb) of
        VStr parent \<Rightarrow>
          if parent = [] then gret ()
          else gbind (lift_kernel (\<lambda>k. bump_parent_activity k parent)) (\<lambda>_.
               notify_goal_action_completed env parent (jb_id jb) (py_str (py_or (w_title (jb_row jb)) (VStr []))))
      | _ \<Rightarrow> gret ())"

text \<open>A completed brief is compiled; the result is the status, the work status, the outcome and the error.\<close>

definition compile_stage :: "exec_env \<Rightarrow> job \<Rightarrow> run_outcome \<Rightarrow> (string \<times> string option \<times> run_outcome \<times> string) gm" where
  "compile_stage env jb oc =
     (let status = exec_status_of (oc_stopped oc); wi = work_status_of status in
      if jb_brief jb \<and> oc_stopped oc = ''completed''
      then case xe_compile env of
             None \<Rightarrow> gret (''error'', Some ''failed'', ended ''failed'' (oc_results oc) (oc_prev oc), ''project brief compiler not bound'')
           | Some f \<Rightarrow> gbind (f (jb_id jb) oc) (\<lambda>compiled.
               if truthy (get compiled ''ok'') then gret (status, wi, oc, [])
               else gret (''error'', Some ''failed'', oc, py_str (py_or (get compiled ''error'') (VStr ''brief compile failed''))))
      else gret (status, wi, oc, []))"

definition completed_extra :: "exec_env \<Rightarrow> run_outcome \<Rightarrow> string \<Rightarrow> string \<Rightarrow> dict" where
  "completed_extra env oc status compile_error =
     (if oc_stopped oc = ''pending''
      then [(''approval_id'', oc_pending oc), (''next_resume_from'', (case oc_next oc of None \<Rightarrow> VNull | Some n \<Rightarrow> VInt n))] else []) @
     (if compile_error \<noteq> [] then [(''error'', VStr compile_error)]
      else if status = ''error'' then (case step_failure_reason (xe_loads env) (oc_results oc) of None \<Rightarrow> [] | Some e \<Rightarrow> [(''error'', VStr e)])
      else [])"

definition finish_outcome :: "exec_env \<Rightarrow> ctx \<Rightarrow> job \<Rightarrow> int \<Rightarrow> run_outcome \<Rightarrow> unit gm" where
  "finish_outcome env cx jb from oc0 =
     gbind (compile_stage env jb oc0) (\<lambda>(status, wi, oc, compile_error).
     gbind (gread (\<lambda>g. jb_brief jb \<and> \<not> jb_background jb \<and> job_cancelled jb g)) (\<lambda>stop.
     if stop then brief_cancelled cx jb (completed_steps oc) (previews oc) (Some from)
     else
       gbind (if jb_background jb \<and> wi \<in> {Some ''waiting_approval'', Some ''failed'', Some ''completed''}
              then emit_work_item_progress cx (jb_event jb) (jb_id jb)
                (if wi = Some ''completed'' then 1 else progress_ratio (completed_steps oc) (max (length (jb_steps jb)) 1))
              else gret ()) (\<lambda>_.
       gbind (case wi of None \<Rightarrow> gret ()
              | Some s \<Rightarrow> if s = ''cancelled'' then gret ()
                  else gbind (sync_work_item_status cx (jb_event jb) (jb_id jb) s) (\<lambda>_.
                       if s = ''completed'' then goal_bookkeeping env jb else gret ())) (\<lambda>_.
       emit_execute_completed cx (jb_event jb) (jb_id jb) status
         ([(''total_steps'', VInt (int (length (jb_steps jb)))), (''completed_steps'', VInt (int (completed_steps oc))),
           (''resume_from'', VInt from), (''results'', previews oc)] @ completed_extra env oc status compile_error)))))"

definition after_outcome :: "exec_env \<Rightarrow> ctx \<Rightarrow> job \<Rightarrow> run_outcome \<Rightarrow> unit gm" where
  "after_outcome env cx jb oc =
     gbind (\<lambda>g. (g, case oc_next oc of Some n \<Rightarrow> Inr n
       | None \<Rightarrow> (case load_plan_progress (jb_id jb) (g_resumes g) of Some r \<Rightarrow> Inr (pr_from r)
           | None \<Rightarrow> py_int (py_or (get (jb_payload jb) ''resume_from'') (VInt 0))))) (\<lambda>from.
     gbind (gread (\<lambda>g. oc_stopped oc = ''cancelled'' \<or> polled jb \<and> job_cancelled jb g)) (\<lambda>stop.
     if stop then
       (if jb_brief jb \<and> \<not> jb_background jb then brief_cancelled cx jb (completed_steps oc) (previews oc) (Some from)
        else finalize_cancelled cx jb (completed_steps oc) (previews oc) (Some from) (jb_background jb))
     else finish_outcome env cx jb from oc))"

section \<open>The handler\<close>

definition run_job :: "exec_env \<Rightarrow> ctx \<Rightarrow> job \<Rightarrow> unit gm" where
  "run_job env cx jb =
     (if jb_steps jb = [] \<and> \<not> jb_brief jb
      then gbind (sync_work_item_status cx (jb_event jb) (jb_id jb) ''failed'') (\<lambda>_.
           emit_execute_completed cx (jb_event jb) (jb_id jb) ''error'' ((''error'', VStr ''empty plan'') # counts jb 0 (VList [])))
      else gbind (gattempt (if jb_steps jb \<noteq> [] then run_work_plan env cx jb else gret (ended ''completed'' [] None))) (\<lambda>r.
           case r of Inl e \<Rightarrow> after_exception env cx jb e | Inr oc \<Rightarrow> after_outcome env cx jb oc))"

definition on_execute_requested :: "exec_env \<Rightarrow> ctx \<Rightarrow> event \<Rightarrow> unit gm" where
  "on_execute_requested env cx ev =
     (let action = py_str (getd (ev_payload ev) ''action_id'' (VStr [])) in
      if action = []
      then emit_execute_completed cx (ev_id ev) action ''error'' [(''error'', VStr ''missing action_id'')]
      else gbind (gread (\<lambda>g. get_work_item (g_kernel g) action)) (\<lambda>found.
        case found of
          None \<Rightarrow> emit_execute_completed cx (ev_id ev) action ''error'' [(''error'', VStr ''action not found'')]
        | Some row \<Rightarrow>
            let parsed = parse_plan_steps (xe_loads env) (plan_of row);
                jb = \<lparr>jb_event = ev_id ev, jb_payload = ev_payload ev, jb_id = action, jb_row = row,
                  jb_steps = (case parsed of Inl e \<Rightarrow> [] | Inr steps \<Rightarrow> steps),
                  jb_background = (w_work_type row = VStr ''background''),
                  jb_brief = is_project_brief_plan (xe_loads env) (w_plan row)\<rparr>
            in gbind (gread (job_cancelled jb)) (\<lambda>stop.
               if stop then brief_cancelled cx jb 0 (VList []) None
               else
               gbind (if w_status row = VStr ''running'' then gret ()
                      else gbind (sync_work_item_status cx (ev_id ev) action ''running'') (\<lambda>_.
                           if jb_background jb then emit_work_item_progress cx (ev_id ev) action (1/10) else gret ())) (\<lambda>_.
               case parsed of
                 Inl e \<Rightarrow> gbind (sync_work_item_status cx (ev_id ev) action ''failed'') (\<lambda>_.
                   emit_execute_completed cx (ev_id ev) action ''error'' [(''error'', VStr (te_err (rn_tools (xe_runner env)) e))])
               | Inr steps \<Rightarrow> run_job env cx jb))))"

section \<open>What a run of a plan leaves alone\<close>

text \<open>An observer of the log and the tables: it does not look at the resume table either.\<close>

locale log_observer = observer obs for obs :: "gov \<Rightarrow> 'o" +
  assumes sees_no_resume: "obs (g\<lparr>g_resumes := t\<rparr>) = obs g"
begin

lemma persist_keeps: "obs (persist_progress action i output g) = obs g"
  by (simp add: persist_progress_def sees_no_resume)

lemma record_keeps: "obs (record_success ru i r g) = obs g"
  by (simp add: record_success_def persist_keeps sees_no_resume)

lemma park_keeps: "obs (park ru i oc g) = obs g"
  by (simp add: park_def persist_keeps sees_no_resume split: option.splits)

lemma loop_keeps:
  assumes "\<And>rd g. obs (fst (rn_world rn rd g)) = obs g"
  shows "keeps obs (run_loop rn ru i steps results prev)"
proof (induction steps arbitrary: i results prev)
  case Nil
  then show ?case by (simp add: keeps_obs_basic)
next
  case (Cons step steps)
  have params: "keeps obs (\<lambda>g. (g, step_params step prev))" by (simp add: keeps_def)
  show ?case
    by (auto simp: Let_def after_tool_def persist_keeps record_keeps park_keeps split: option.splits
        intro!: obs_intros params invoke_keeps assms Cons.IH)
qed

lemma run_keeps:
  assumes "\<And>rd g. obs (fst (rn_world rn rd g)) = obs g"
  shows "keeps obs (run_plan_steps rn ru steps start prev)"
  unfolding run_plan_steps_def Let_def by (auto intro!: obs_intros loop_keeps assms)

end

section \<open>Answers\<close>

text \<open>How often a request is answered in the log.\<close>

definition answers :: "string \<Rightarrow> gov \<Rightarrow> nat" where
  "answers e g = length (filter (\<lambda>r. lr_type r = ''ExecuteCompleted'' \<and> lr_caused_by r = Some e) (k_log (g_kernel g)))"

lemma answers_emit:
  assumes "emit_event k et agg aid p actor caused corr = Inr (k', ev)"
  shows "answers e (g\<lparr>g_kernel := k'\<rparr>) = answers e (g\<lparr>g_kernel := k\<rparr>) + (if et = ''ExecuteCompleted'' \<and> caused = Some e then 1 else 0)"
  using assms by (auto simp: answers_def emit_event_def Let_def row_of_event_def create_event_def split: if_splits)

lemma answers_gemit:
  assumes "gemit et agg aid p actor caused corr g = (g', r)"
  shows "answers e g' = answers e g + (if et = ''ExecuteCompleted'' \<and> caused = Some e \<and> (\<exists>ev. r = Inr ev) then 1 else 0)"
proof (cases r)
  case (Inl x)
  with assms have "g' = g" by (auto simp: gemit_def Let_def split: sum.splits)
  with Inl show ?thesis by simp
next
  case (Inr ev)
  with gemit_Inr assms obtain k' where k': "emit_event (g_kernel g) et agg aid p actor caused corr = Inr (k', ev)"
    "g' = g\<lparr>g_kernel := k', g_cache := (if et \<in> set policy_types then [] else g_cache g)\<rparr>" by blast
  from answers_emit [OF k'(1), of e g] k'(2) Inr show ?thesis by (simp add: answers_def)
qed

interpretation ans: log_observer "answers e" for e
proof
  fix et agg aid p actor caused corr k' ev and g :: gov
  assume "et \<in> set governance_events" "emit_event (g_kernel g) et agg aid p actor caused corr = Inr (k', ev)"
  with answers_emit [of "g_kernel g" et agg aid p actor caused corr k' ev e g] show "answers e (g\<lparr>g_kernel := k'\<rparr>) = answers e g"
    by (auto simp: governance_events_def)
qed (simp_all add: answers_def)

lemma quiet_gemit [obs_intros]:
  assumes "et \<noteq> ''ExecuteCompleted''"
  shows "keeps (answers e) (gemit et agg aid p actor caused corr)"
proof (rule keepsI)
  fix g
  obtain g' r where g': "gemit et agg aid p actor caused corr g = (g', r)" by (rule prod.exhaust)
  from answers_gemit [OF this, of e] assms show "answers e (fst (gemit et agg aid p actor caused corr g)) = answers e g" by (simp add: g')
qed

lemma quiet_status [obs_intros]: "keeps (answers e) (sync_work_item_status cx ev action status)"
  unfolding sync_work_item_status_def ctx_emit_def by (intro obs_intros) simp

lemma quiet_progress [obs_intros]: "keeps (answers e) (emit_work_item_progress cx ev action pr)"
  unfolding emit_work_item_progress_def ctx_emit_def by (intro obs_intros) simp

lemma quiet_notification [obs_intros]: "keeps (answers e) (create_notification sha n)"
proof (rule keepsI)
  fix g
  note k = keepsD [where obs = "answers e"]
  show "answers e (fst (create_notification sha n g)) = answers e g"
  proof (cases "find_notification (g_kernel g) (no_type n) (Some (no_title n)) (no_dedup n)")
    case None
    then show ?thesis unfolding create_notification_def by (auto intro!: k obs_intros ans.basic)
  next
    case (Some r)
    then show ?thesis unfolding create_notification_def by (auto intro!: k obs_intros)
  qed
qed

lemma quiet_bump [obs_intros]: "keeps (answers e) (lift_kernel (\<lambda>k. bump_parent_activity k parent))"
proof (rule keepsI)
  fix g
  show "answers e (fst (lift_kernel (\<lambda>k. bump_parent_activity k parent) g)) = answers e g"
  proof (cases "bump_parent_activity (g_kernel g) parent")
    case (Inl x)
    then show ?thesis by (simp add: lift_kernel_def)
  next
    case (Inr k')
    then have "k' = g_kernel g \<or> (\<exists>ev p. emit_event (g_kernel g) ''WorkItemUpdated'' ''work_item'' parent p ''user'' None None = Inr (k', ev))"
      by (auto simp: bump_parent_activity_def rbind_Inr_iff split: option.splits)
    then show ?thesis using answers_emit [of "g_kernel g" "''WorkItemUpdated''" _ _ _ _ _ _ k' _ e g] Inr
      by (auto simp: lift_kernel_def)
  qed
qed

lemma quiet_unflag [obs_intros]: "keeps (answers e) (gmod (unflag_cancel x))"
  by (rule keeps_obs_gmod) (simp add: answers_def unflag_cancel_def)

lemma quiet_attempt [obs_intros]: "keeps obs m \<Longrightarrow> keeps obs (gattempt m)"
  by (auto simp: keeps_def gattempt_def split: prod.splits) (metis fst_conv)+

lemma quiet_value [obs_intros]: "keeps obs (\<lambda>g. (g, f g))"
  by (simp add: keeps_def)

lemma quiet_goal [obs_intros]: "keeps (answers e) (goal_bookkeeping env jb)"
proof -
  note k = keepsD [where obs = "answers e"]
  have n: "keeps (answers e) (notify_goal_action_completed env goal action title)" for goal action title
    unfolding notify_goal_action_completed_def
    by (intro obs_intros keepsI) (auto simp: Let_def split: prod.splits intro!: k obs_intros)
  show ?thesis unfolding goal_bookkeeping_def by (auto intro!: obs_intros n split: val.splits)
qed

section \<open>Properties\<close>

text \<open>The callbacks of an environment do not answer the request themselves.\<close>

definition env_quiet :: "exec_env \<Rightarrow> string \<Rightarrow> bool" where
  "env_quiet env e \<longleftrightarrow> (\<forall>rd g. answers e (fst (rn_world (xe_runner env) rd g)) = answers e g) \<and>
     (\<forall>f a oc. xe_compile env = Some f \<longrightarrow> keeps (answers e) (f a oc))"

text \<open>A computation that answers once when it returns and not at all when it raises.\<close>

definition answers_once :: "string \<Rightarrow> 'a gm \<Rightarrow> bool" where
  "answers_once e m \<longleftrightarrow> (\<forall>g g' r. m g = (g', r) \<longrightarrow> answers e g' = answers e g + (case r of Inl x \<Rightarrow> 0 | Inr y \<Rightarrow> 1))"

lemma once_after [obs_intros]: "keeps (answers e) m \<Longrightarrow> (\<And>x. answers_once e (f x)) \<Longrightarrow> answers_once e (gbind m f)"
  unfolding keeps_def answers_once_def gbind_def by (auto split: prod.splits sum.splits) (metis fst_conv)+

lemma once_completed [obs_intros]: "answers_once e (emit_execute_completed cx e action status extra)"
  unfolding answers_once_def emit_execute_completed_def ctx_emit_def gbind_def
  by (auto simp: gret_def answers_gemit split: prod.splits sum.splits)

lemma once_finalize [obs_intros]: "jb_event jb = e \<Longrightarrow> answers_once e (finalize_cancelled cx jb n results start show_progress)"
  unfolding finalize_cancelled_def by (auto intro!: obs_intros)

lemma once_brief [obs_intros]: "jb_event jb = e \<Longrightarrow> answers_once e (brief_cancelled cx jb n results start)"
  unfolding brief_cancelled_def by (auto intro!: obs_intros)

lemma once_exception [obs_intros]: "jb_event jb = e \<Longrightarrow> answers_once e (after_exception env cx jb x)"
  unfolding after_exception_def by (auto intro!: obs_intros)

lemma once_outcome [obs_intros]:
  assumes "jb_event jb = e" and "env_quiet env e"
  shows "answers_once e (after_outcome env cx jb oc)"
proof -
  have c: "keeps (answers (jb_event jb)) (compile_stage env jb oc)"
    unfolding compile_stage_def Let_def using assms
    by (auto simp: env_quiet_def split: option.splits intro!: obs_intros)
  show ?thesis
    unfolding after_outcome_def finish_outcome_def using assms(1)
    by (auto intro!: obs_intros c split: option.splits prod.splits)
qed

lemma once_job [obs_intros]:
  assumes "jb_event jb = e" and "env_quiet env e"
  shows "answers_once e (run_job env cx jb)"
proof -
  have r: "keeps (answers (jb_event jb)) (run_work_plan env cx jb)"
    unfolding run_work_plan_def using assms
    by (auto simp: env_quiet_def split: prod.splits intro!: obs_intros ans.run_keeps)
  show ?thesis
    unfolding run_job_def using assms by (auto intro!: obs_intros r split: sum.splits)
qed

text \<open>C14. Every request to execute is answered exactly once: when the handler returns, the log holds
  exactly one more \<open>ExecuteCompleted\<close> caused by the request than before, on every path (missing or unknown
  item, malformed or empty plan, completed, failed, parked, cancelled before, during or after the run,
  exception in a step); when it raises, so that the scheduler retries it, it holds none.\<close>

theorem request_answered_once:
  assumes "env_quiet env (ev_id ev)" and "on_execute_requested env cx ev g = (g', r)"
  shows "answers (ev_id ev) g' = answers (ev_id ev) g + (case r of Inl x \<Rightarrow> 0 | Inr y \<Rightarrow> 1)"
proof -
  have "answers_once (ev_id ev) (on_execute_requested env cx ev)"
    unfolding on_execute_requested_def Let_def using assms(1)
    by (auto intro!: obs_intros split: option.splits sum.splits)
  with assms(2) show ?thesis unfolding answers_once_def by blast
qed

section \<open>Witnesses\<close>

text \<open>An item whose plan is one step, and the row of the execution that owns the run.\<close>

definition execute_item :: exec_item where
  "execute_item = \<lparr>it_id = ''wi_0'', it_event_seq = 9, it_event_id = ''e9'', it_event_type = ''ExecuteRequested'',
     it_handler = ''on_execute_requested'', it_instance = ''personal'', it_status = ''pending'', it_retries = 0,
     it_policy = policy_for_event 300 False ''ExecuteRequested'', it_corr = ''c1'', it_created_at = At 100,
     it_started_at = NoTime, it_completed_at = NoTime, it_error = [], it_dead = False, it_event = None\<rparr>"

definition execute_kernel :: kernel where
  "execute_kernel =
     (case emit_execution_requested (emit_ok asked_kernel ''WorkItemCreated'' ''work_item'' ''w1''
        [(''title'', VStr ''t''), (''work_type'', VStr ''action''), (''status'', VStr ''running''), (''executable_plan'', VStr ''p'')])
        execute_item ''kernel'' of Inl e \<Rightarrow> asked_kernel | Inr (k, ev) \<Rightarrow> k)"

definition sample_env :: exec_env where
  "sample_env = \<lparr>xe_runner = sample_runner,
     xe_loads = (\<lambda>s. if s = ''p'' then Some (VObj [(''steps'', VList [VObj (tool_step ''git'')])]) else None),
     xe_message = (\<lambda>e. ''e''), xe_compile = None, xe_notice = (\<lambda>all_done row title n m. ([], [])), xe_sha = id\<rparr>"

definition sample_ctx :: ctx where
  "sample_ctx = \<lparr>cx_actor = ''executor'', cx_corr = ''c1'', cx_execution = ''wi_0''\<rparr>"

definition execute_event :: event where
  "execute_event = create_event current_registry ''e9'' 100 ''ExecuteRequested'' ''action'' ''exec_w1''
     (Some [(''action_id'', VStr ''w1'')]) ''user'' None None"

lemma sample_executes:
  "case on_execute_requested sample_env sample_ctx execute_event (gov_of execute_kernel) of
     (g, Inr u) \<Rightarrow> (case get_work_item (g_kernel g) ''w1'' of None \<Rightarrow> False | Some r \<Rightarrow> w_status r = VStr ''completed'') | _ \<Rightarrow> False"
  by code_simp

theorem request_answered_once_witness:
  "\<exists>g'. on_execute_requested sample_env sample_ctx execute_event (gov_of execute_kernel) = (g', Inr ()) \<and>
     answers (ev_id execute_event) g' = answers (ev_id execute_event) (gov_of execute_kernel) + 1"
proof -
  obtain g' where r: "on_execute_requested sample_env sample_ctx execute_event (gov_of execute_kernel) = (g', Inr ())"
    using sample_executes by (auto split: prod.splits sum.splits)
  have "env_quiet sample_env (ev_id execute_event)" by (simp add: env_quiet_def sample_env_def sample_runner_def)
  from request_answered_once [OF this r] r show ?thesis by simp
qed

end
