(* ===== verification/Approve_Handler.thy ===== *)
theory Approve_Handler
  imports Execute_Handler
begin

text \<open>
  The handler of \<open>ApproveRequested\<close>, \<open>core/runtime/handlers/approve_handlers.py\<close>.

  \<^item> An \<open>asyncio.Lock\<close> per approval id serialises the handlers of one approval; the body under the lock is
    what is modelled. Its awaits are the tool (\<open>invoke_capability\<close>) and the chat.
  \<^item> The conversation is not modelled: \<open>ae_deny_chat\<close> and \<open>ae_chat\<close> are \<open>_persist_denied_chat_turn\<close> and the part
    of the handler that stores the tool result and lets the model go on, from the conversation, the call, the
    tool, its arguments, the result and whether it succeeded, to the \<open>continuation\<close> with its message.
  \<^item> \<open>ae_answered\<close> is the JSON text of \<open>answered_result\<close>.
\<close>

section \<open>Questions to the user\<close>

definition answer_max_chars :: nat where
  "answer_max_chars = 8000"

definition question_from_args :: "dict \<Rightarrow> string" where
  "question_from_args args = strip (py_str (py_or (get args ''question'') (VStr [])))"

definition ask_user_args :: "kernel \<Rightarrow> string \<Rightarrow> dict \<Rightarrow> dict" where
  "ask_user_args k aid args =
     (if question_from_args args \<noteq> [] then args
      else case query_approvals k (Some aid) None None of
        [] \<Rightarrow> args
      | r # _ \<Rightarrow> (case parse_approval_params r of
            None \<Rightarrow> args
          | Some recorded \<Rightarrow>
              if question_from_args recorded = [] then args
              else let a1 = (if has ''question'' args then args else setd ''question'' (get recorded ''question'') args)
                   in if truthy (get recorded ''context'') \<and> \<not> has ''context'' a1
                      then setd ''context'' (get recorded ''context'') a1 else a1))"

section \<open>The plan behind the approval\<close>

record approve_env =
  ae_runner :: runner
  ae_deny_chat :: "string \<Rightarrow> string \<Rightarrow> string \<Rightarrow> string \<Rightarrow> dict \<Rightarrow> string gm"
  ae_chat :: "string \<Rightarrow> string \<Rightarrow> string \<Rightarrow> dict \<Rightarrow> string \<Rightarrow> bool \<Rightarrow> (string \<times> dict) gm"
  ae_answered :: "string \<Rightarrow> string \<Rightarrow> string"

definition waiting_resume :: "string \<Rightarrow> resumes \<Rightarrow> plan_resume option" where
  "waiting_resume aid t = (case peek_plan_resume aid t of Some r \<Rightarrow> Some r | None \<Rightarrow> load_approval_dispatch_intent aid t)"

definition approved_step :: "plan_resume \<Rightarrow> int" where
  "approved_step r = max (pr_from r - 1) 0"

definition cached_plan_result :: "string \<Rightarrow> string \<Rightarrow> resumes \<Rightarrow> val option" where
  "cached_plan_result corr aid t =
     (case waiting_resume aid t of
        None \<Rightarrow> None
      | Some r \<Rightarrow> (case dispatch_intent_result (Some r) of
            Some v \<Rightarrow> Some v
          | None \<Rightarrow> (case lookup_action_step_success (pr_action r) (approved_step r) t of
                Some v \<Rightarrow> Some v
              | None \<Rightarrow> lookup_step_success corr (approved_step r) t)))"

definition dispatch_plan_resume :: "ctx \<Rightarrow> string \<Rightarrow> plan_resume \<Rightarrow> string \<Rightarrow> bool gm" where
  "dispatch_plan_resume cx ev r aid =
     (if pr_kind r = ''execute'' \<and> pr_action r \<noteq> []
      then gbind (ctx_emit cx ''ExecuteRequested'' ''action'' (exec_key (pr_action r))
             [(''action_id'', VStr (pr_action r)), (''resume_from'', VInt (pr_from r)),
              (''previous_output'', VObj (or_empty (pr_prev r))), (''approval_id'', VStr aid)] (Some ev)) (\<lambda>_. gret True)
      else gret False)"

definition execute_requested_for_approval :: "kernel \<Rightarrow> string \<Rightarrow> string \<Rightarrow> bool" where
  "execute_requested_for_approval k action aid \<longleftrightarrow>
     action \<noteq> [] \<and> aid \<noteq> [] \<and>
     (case read_events k (all_events\<lparr>q_agg_type := Some ''action'', q_agg_id := Some (exec_key action),
          q_type := Some ''ExecuteRequested''\<rparr>) of
        Inl e \<Rightarrow> False
      | Inr evs \<Rightarrow> list_ex (\<lambda>ev. py_str (py_or (get (ev_payload ev) ''approval_id'') (VStr [])) = aid) evs)"

definition save_intent :: "string \<Rightarrow> plan_resume \<Rightarrow> string \<Rightarrow> bool \<Rightarrow> gov \<Rightarrow> gov" where
  "save_intent aid r result dispatched g =
     g\<lparr>g_resumes := save_approval_dispatch_intent (k_now (g_kernel g)) aid r result dispatched (g_resumes g)\<rparr>"

text \<open>After the tool succeeded: the result is recorded, the intent to dispatch is stored before the waiting
  row goes, and the rest of the plan is requested unless it was.\<close>

definition continue_plan :: "ctx \<Rightarrow> string \<Rightarrow> string \<Rightarrow> string \<Rightarrow> bool gm" where
  "continue_plan cx ev aid result = (\<lambda>g.
     case waiting_resume aid (g_resumes g) of
       None \<Rightarrow> (g, Inr False)
     | Some r \<Rightarrow>
         let updated = with_step_output r (approved_step r) result 1000;
             g1 = g\<lparr>g_resumes := record_step_success (k_now (g_kernel g)) (cx_corr cx) (approved_step r) result (pr_action r) (g_resumes g)\<rparr>;
             already = execute_requested_for_approval (g_kernel g1) (pr_action r) aid \<or>
                       dispatch_intent_is_done (load_approval_dispatch_intent aid (g_resumes g1));
             g2 = (if already then g1
                   else let s = save_intent aid updated result False g1
                        in s\<lparr>g_resumes := snd (take_plan_resume aid (g_resumes s))\<rparr>)
         in gbind (gattempt (if already then gret True else dispatch_plan_resume cx ev updated aid)) (\<lambda>d.
              case d of
                Inl e \<Rightarrow> gret False
              | Inr b \<Rightarrow> gbind (gmod (save_intent aid updated result True)) (\<lambda>_. gret b)) g2)"

section \<open>The handler\<close>

record approve_req =
  aq_event :: string
  aq_id :: string
  aq_tool :: string
  aq_args :: dict
  aq_conv :: string
  aq_call :: string
  aq_answer :: string

definition approve_completed :: "ctx \<Rightarrow> approve_req \<Rightarrow> dict \<Rightarrow> unit gm" where
  "approve_completed cx aq p =
     gbind (ctx_emit cx ''ApproveCompleted'' ''approval'' (''approve_'' @ aq_id aq) p (Some (aq_event aq))) (\<lambda>_. gret ())"

definition deny_request :: "approve_env \<Rightarrow> ctx \<Rightarrow> approve_req \<Rightarrow> unit gm" where
  "deny_request env cx aq =
     gbind (gmod (\<lambda>g. g\<lparr>g_resumes := clear_approval_dispatch_intent (aq_id aq) (snd (take_plan_resume (aq_id aq) (g_resumes g)))\<rparr>)) (\<lambda>_.
     gbind (deny_approval (aq_id aq) (aq_tool aq) ''user'' (if aq_tool aq = ''ask_user'' then ''user_cancelled'' else ''user_denied'') None) (\<lambda>_.
     gbind (gread (\<lambda>g. fst (clear_chat_checkpoint_for_approval (g_kernel g) (aq_id aq) (g_resumes g)))) (\<lambda>c.
     gbind (gmod (\<lambda>g. g\<lparr>g_resumes := snd (clear_chat_checkpoint_for_approval (g_kernel g) (aq_id aq) (g_resumes g))\<rparr>)) (\<lambda>_.
     gbind (if aq_conv aq \<noteq> [] \<and> aq_call aq \<noteq> []
            then gtry (ae_deny_chat env (aq_conv aq) (aq_call aq) (aq_tool aq) (if c = [] then cx_corr cx else c) (aq_args aq)) (\<lambda>_. gret [])
            else gret []) (\<lambda>message.
     approve_completed cx aq
       [(''status'', VStr ''denied''), (''approval_id'', VStr (aq_id aq)), (''conv_id'', VStr (aq_conv aq)),
        (''tool_call_id'', VStr (aq_call aq)), (''assistant_message'', VStr message)])))))"

text \<open>What the approved call gave: an error to answer with, or the result of the capability.\<close>

definition answer_question :: "approve_env \<Rightarrow> ctx \<Rightarrow> approve_req \<Rightarrow> (string + dict) gm" where
  "answer_question env cx aq =
     (let answer = strip (aq_answer aq) in
      if answer = [] \<or> answer_max_chars < length answer then gret (Inl ''ask_user requires a non-empty answer'')
      else gbind (gread (\<lambda>g. query_approvals (g_kernel g) (Some (aq_id aq)) None None)) (\<lambda>rows.
        if rows = [] \<or> ap_status (hd rows) \<noteq> ''pending''
        then gret (Inl (''Approval not pending: '' @ (if rows = [] then ''missing'' else ap_status (hd rows))))
        else gbind (grant_approval (aq_id aq) (aq_tool aq) ''user'' ''user_reply'' (Some (cx_corr cx))) (\<lambda>_.
          gret (Inr [(''status'', VStr ''success''), (''result'', VStr (ae_answered env (question_from_args (aq_args aq)) answer))]))))"

definition approved_call :: "approve_env \<Rightarrow> ctx \<Rightarrow> approve_req \<Rightarrow> val option \<Rightarrow> (string + dict) gm" where
  "approved_call env cx aq hit =
     (if aq_tool aq = ''ask_user'' then answer_question env cx aq
      else case hit of
        Some v \<Rightarrow> gret (Inr [(''status'', VStr ''success''), (''result'', v)])
      | None \<Rightarrow> gbind (invoke_capability (ae_runner env) (aq_tool aq) (aq_args aq) ''user'' (Some (cx_corr cx)) None True (Some (aq_id aq))
                   (Some (cx_execution cx))) (\<lambda>d. gret (Inr d)))"

definition approved_text :: "approve_env \<Rightarrow> dict \<Rightarrow> string" where
  "approved_text env cap =
     (if get cap ''status'' = VStr ''success'' then py_str (get cap ''result'')
      else rn_dumps (ae_runner env)
        [(''status'', getd cap ''status'' (VStr ''error'')), (''error'', getd cap ''error'' (VStr ''unknown''))])"

definition finish_approval :: "approve_env \<Rightarrow> ctx \<Rightarrow> approve_req \<Rightarrow> dict \<Rightarrow> unit gm" where
  "finish_approval env cx aq cap =
     (let ok = (get cap ''status'' = VStr ''success''); result = approved_text env cap in
      gbind (if aq_conv aq \<noteq> [] \<and> aq_call aq \<noteq> []
             then ae_chat env (aq_conv aq) (aq_call aq) (aq_tool aq) (aq_args aq) result ok else gret ([], [])) (\<lambda>(message, cont).
      gbind (if ok then continue_plan cx (aq_event aq) (aq_id aq) result
             else gbind (gmod (\<lambda>g. g\<lparr>g_resumes := clear_approval_dispatch_intent (aq_id aq) (snd (take_plan_resume (aq_id aq) (g_resumes g)))\<rparr>))
                    (\<lambda>_. gret False)) (\<lambda>resumed.
      approve_completed cx aq
        [(''status'', get cap ''status''), (''result'', VStr result), (''approval_id'', VStr (aq_id aq)),
         (''conv_id'', VStr (aq_conv aq)), (''tool_call_id'', VStr (aq_call aq)), (''assistant_message'', VStr message),
         (''plan_resumed'', VBool resumed), (''pending'', VBool (truthy (get cont ''pending''))),
         (''next_tool_name'', py_or (get cont ''tool_name'') (VStr [])), (''next_tool_args'', py_or (get cont ''tool_args'') (VObj [])),
         (''next_approval_id'', py_or (get cont ''approval_id'') (VStr [])),
         (''next_tool_call_id'', py_or (get cont ''tool_call_id'') (VStr [])),
         (''tool_results'', py_or (get cont ''tool_results'') (VList [])), (''resume_error'', py_or (get cont ''error'') (VStr []))])))"

definition approve_locked :: "approve_env \<Rightarrow> ctx \<Rightarrow> approve_req \<Rightarrow> string \<Rightarrow> unit gm" where
  "approve_locked env cx aq0 decision = (\<lambda>g.
     let aq = (if aq_tool aq0 = ''ask_user'' then aq0\<lparr>aq_args := ask_user_args (g_kernel g) (aq_id aq0) (aq_args aq0)\<rparr> else aq0);
         hit = cached_plan_result (cx_corr cx) (aq_id aq) (g_resumes g)
     in if decision = ''deny'' then deny_request env cx aq g
        else gbind (approved_call env cx aq hit) (\<lambda>r.
          case r of
            Inl e \<Rightarrow> approve_completed cx aq [(''status'', VStr ''error''), (''error'', VStr e), (''approval_id'', VStr (aq_id aq))]
          | Inr cap \<Rightarrow> finish_approval env cx aq cap) g)"

definition text_of :: "dict \<Rightarrow> string \<Rightarrow> string \<Rightarrow> string" where
  "text_of p k dflt = py_str (getd p k (VStr dflt))"

definition on_approve_requested :: "approve_env \<Rightarrow> ctx \<Rightarrow> event \<Rightarrow> unit gm" where
  "on_approve_requested env cx ev =
     (let p = ev_payload ev;
          aq = \<lparr>aq_event = ev_id ev, aq_id = text_of p ''approval_id'' [], aq_tool = text_of p ''tool_name'' [],
            aq_args = (case get p ''tool_args'' of VObj d \<Rightarrow> d | _ \<Rightarrow> []), aq_conv = text_of p ''conv_id'' [],
            aq_call = text_of p ''tool_call_id'' [], aq_answer = py_str (py_or (get p ''user_answer'') (VStr []))\<rparr>
      in if aq_id aq = []
         then approve_completed cx aq [(''status'', VStr ''error''), (''error'', VStr ''missing approval_id'')]
         else approve_locked env cx aq (text_of p ''decision'' ''deny''))"

section \<open>The rest of the plan is requested once\<close>

lemma intent_key_neq:
  "approval_dispatch_key i \<noteq> idempotency_key c n" "approval_dispatch_key i \<noteq> action_step_key a n" "approval_dispatch_key i \<noteq> []"
  "approval_dispatch_key i \<noteq> ''apr_'' @ u" "''apr_'' @ u \<noteq> idempotency_key c n" "''apr_'' @ u \<noteq> action_step_key a n"
  "action_step_key a n \<noteq> approval_dispatch_key i" "action_step_key a n \<noteq> ''apr_'' @ u"
  "idempotency_key c n \<noteq> approval_dispatch_key i" "idempotency_key c n \<noteq> ''apr_'' @ u" "''apr_'' @ u \<noteq> approval_dispatch_key i"
  by (simp_all add: approval_dispatch_key_def idempotency_key_def action_step_key_def)

lemma peek_saved:
  "i \<noteq> [] \<Longrightarrow> peek_plan_resume j (save_approval_dispatch_intent now i r result d t) =
    (if j = approval_dispatch_key i
     then Some (stored (r\<lparr>pr_kind := ''execute'', pr_prev := Some (setd ''dispatched'' (VBool d) (setd ''step'' (VInt (max (pr_from r - 1) 0))
       (setd ''status'' (VStr ''success'') (setd ''result'' (VStr result) (or_empty (pr_prev r))))))\<rparr>))
     else peek_plan_resume j t)"
  by (simp add: save_approval_dispatch_intent_def Let_def rs.look_put intent_key_neq)

lemma setd_nonempty [simp]: "setd k v d \<noteq> []"
  by (simp add: setd_def update_nonempty)

lemma saved_done:
  assumes "i \<noteq> []"
  shows "dispatch_intent_is_done (load_approval_dispatch_intent i (save_approval_dispatch_intent now i r result True t))"
  using assms
  by (simp add: load_approval_dispatch_intent_def peek_saved dispatch_intent_is_done_def stored_def or_empty_def nonempty_def)

lemma peek_step_same:
  assumes "peek_plan_resume (action_step_key a n) t' = peek_plan_resume (action_step_key a n) t"
  shows "lookup_action_step_success a n t' = lookup_action_step_success a n t"
  using assms by (simp add: lookup_action_step_success_def)

lemma load_intent_recorded [simp]:
  "load_approval_dispatch_intent i (record_step_success now c n result a t) = load_approval_dispatch_intent i t"
  by (simp add: load_approval_dispatch_intent_def peek_recorded intent_key_neq)

lemma dispatched_event:
  assumes "kernel_ok (g_kernel g)" and "pr_kind r = ''execute''" and "pr_action r \<noteq> []"
  shows "\<exists>k' ev. dispatch_plan_resume cx e r aid g = (g\<lparr>g_kernel := k'\<rparr>, Inr True) \<and>
    k_events k' = k_events (g_kernel g) @ [ev] \<and> ev_type ev = ''ExecuteRequested'' \<and> ev_agg_id ev = exec_key (pr_action r) \<and>
    ev_caused_by ev = Some e \<and> get (ev_payload ev) ''action_id'' = VStr (pr_action r) \<and>
    get (ev_payload ev) ''approval_id'' = VStr aid \<and>
    (\<forall>t. resume_point (ev_payload ev) (pr_action r) t = Inr (pr_from r, Some (or_empty (pr_prev r))))"
proof -
  let ?p = "[(''action_id'', VStr (pr_action r)), (''resume_from'', VInt (pr_from r)),
      (''previous_output'', VObj (or_empty (pr_prev r))), (''approval_id'', VStr aid)]"
  let ?c = "if cx_corr cx = [] then None else Some (cx_corr cx)"
  let ?ev = "next_event (g_kernel g) ''ExecuteRequested'' ''action'' (exec_key (pr_action r)) ?p (cx_actor cx) (Some e) ?c"
  have "map_of handler_table ''ExecuteRequested'' = None" by code_simp
  from emit_unprojected [OF assms(1) this] obtain k' where
    em: "emit_event (g_kernel g) ''ExecuteRequested'' ''action'' (exec_key (pr_action r)) ?p (cx_actor cx) (Some e) ?c = Inr (k', ?ev)"
    and k': "logged (g_kernel g) ?ev k'" by blast
  from em have "dispatch_plan_resume cx e r aid g = (g\<lparr>g_kernel := k'\<rparr>, Inr True)"
    using assms(2,3) by (simp add: dispatch_plan_resume_def ctx_emit_def gbind_def gemit_def gret_def Let_def)
  moreover have "resume_point (ev_payload ?ev) (pr_action r) t = Inr (pr_from r, Some (or_empty (pr_prev r)))" for t
    by (simp add: resume_point_def Let_def schema_key_def py_or_def)
  ultimately show ?thesis
    using loggedD(3) [OF k'] by (intro exI [of _ k'] exI [of _ ?ev]) (simp add: schema_key_def)
qed

section \<open>Properties\<close>


text \<open>The witness: a plan that waits for \<open>apr_1\<close> behind its second step.\<close>

definition waiting_gov :: gov where
  "waiting_gov = (gov_of asked_kernel)\<lparr>g_resumes := register_plan_resume 3 ''apr_1'' sample_resume []\<rparr>"


end
