(* ===== verification/Proj_Types.thy ===== *)
theory Proj_Types
  imports Sovereignty
begin

text \<open>
  The types of the stored cells, as \<open>store/schema_ddl.py\<close> declares the columns: what a payload binds to a
  column is a scalar, a TEXT or REAL column never keeps an integer or a boolean, a NOT NULL column never
  holds a null, and the status columns that only the projectors write hold their own words only.
\<close>

section \<open>Typed rows\<close>

text \<open>A cell of a TEXT or REAL column after the coercion of SQLite.\<close>

fun coerced :: "val \<Rightarrow> bool" where
  "coerced (VInt n) = False"
| "coerced (VBool b) = False"
| "coerced (VList xs) = False"
| "coerced (VObj d) = False"
| "coerced v = True"

definition memory_typed :: "memory_row \<Rightarrow> bool" where
  "memory_typed r \<longleftrightarrow>
     list_all scalar [m_category r, m_content r, m_source r, m_embedding_id r, m_derived_from r, m_doc_id r, m_doc_name r] \<and>
     coerced (m_confidence r) \<and> m_category r \<noteq> VNull \<and> m_content r \<noteq> VNull \<and>
     (m_origin r = ''self_report'' \<and> m_claim_status r = None \<or>
      m_origin r = ''claim'' \<and> m_claim_status r \<in> Some ` {''proposed'', ''ratified'', ''rejected'', ''contested''})"

definition work_typed :: "work_row \<Rightarrow> bool" where
  "work_typed r \<longleftrightarrow>
     list_all coerced [w_title r, w_description r, w_work_type r, w_parent r, w_status r, w_progress r, w_importance r, w_urgency r] \<and>
     list_all scalar [w_priority r, w_deps r, w_plan r, w_created_at r, w_completed_at r, w_deadline r, w_last_activity r] \<and>
     w_title r \<noteq> VNull"

definition notification_typed :: "notification_row \<Rightarrow> bool" where
  "notification_typed r \<longleftrightarrow>
     list_all scalar [n_type r, n_title r, n_content r, n_related_id r, n_related_type r, n_notification_type r,
       n_dedup_key r, n_created_at r] \<and> n_type r \<noteq> VNull \<and> n_title r \<noteq> VNull \<and> n_content r \<noteq> VNull"

definition policy_typed :: "policy_row \<Rightarrow> bool" where
  "policy_typed r \<longleftrightarrow> scalar (po_capability r) \<and> scalar (po_risk r) \<and> po_capability r \<noteq> VNull \<and> po_risk r \<noteq> VNull \<and>
     po_status r \<in> {''active'', ''revoked''}"

definition approval_typed :: "approval_row \<Rightarrow> bool" where
  "approval_typed r \<longleftrightarrow> list_all scalar [ap_task_id r, ap_action r, ap_expires_at r] \<and> ap_action r \<noteq> VNull \<and>
     (ap_status r = ''pending'' \<longleftrightarrow> ap_resolved_at r = None)"

definition inbox_typed :: "inbox_row \<Rightarrow> bool" where
  "inbox_typed r \<longleftrightarrow>
     list_all scalar [ie_sender r, ie_subject r, ie_preview r, ie_received_at r, ie_category r, ie_reason r, ie_status r, ie_created_at r] \<and>
     coerced (ie_importance r)"

definition timer_typed :: "timer_row \<Rightarrow> bool" where
  "timer_typed r \<longleftrightarrow> list_all scalar [tm_handler r, tm_schedule r, tm_cron r, tm_fire_at r, tm_fired_at r] \<and>
     tm_handler r \<noteq> VNull \<and> tm_status r \<in> {''active'', ''fired''}"

definition db_typed :: "db \<Rightarrow> bool" where
  "db_typed d \<longleftrightarrow> list_all approval_typed (t_approvals d) \<and> list_all memory_typed (t_memories d) \<and>
     list_all work_typed (t_work_items d) \<and> list_all notification_typed (t_notifications d) \<and>
     list_all policy_typed (t_policy_events d) \<and> list_all inbox_typed (t_inbox_emails d) \<and>
     list_all timer_typed (t_timer_events d)"

lemmas row_types = memory_typed_def work_typed_def notification_typed_def policy_typed_def approval_typed_def
  inbox_typed_def timer_typed_def

section \<open>What the statements keep\<close>

lemma typed_replace: "list_all P t \<Longrightarrow> P r \<Longrightarrow> list_all P (sql_replace key r t)"
  by (auto simp: list_all_iff set_sql_replace)

lemma typed_update: "list_all P t \<Longrightarrow> (\<And>r. P r \<Longrightarrow> P (f r)) \<Longrightarrow> list_all P (sql_update Q f t)"
  by (auto simp: list_all_iff set_sql_update)

lemma typed_delete: "list_all P t \<Longrightarrow> list_all P (sql_delete Q t)"
  by (auto simp: list_all_iff sql_delete_def)

lemmas typed_intros = typed_replace typed_update typed_delete

lemma typed_update_checked:
  assumes "sql_update_checked ok Q f t = Inr t'" and "list_all P t" and "\<And>r. ok \<Longrightarrow> P r \<Longrightarrow> P (f r)"
  shows "list_all P t'"
proof (cases ok)
  case True
  with assms sql_update_checked_Inr [OF assms(1)] show ?thesis by (auto intro: typed_update)
next
  case False
  with assms(1) have "\<not> list_ex Q t" "t' = sql_update Q f t" by (auto simp: sql_update_checked_def split: if_splits)
  moreover from this have "sql_update Q f t = t" by (auto simp: sql_update_def list_ex_iff intro: map_idI)
  ultimately show ?thesis using assms(2) by simp
qed

lemma set_present_typed:
  assumes "P r" and "\<And>k f r. (k, f) \<in> set (present cols p) \<Longrightarrow> P r \<Longrightarrow> P (f (get p k) r)"
  shows "P (set_present cols p r)"
proof -
  have "\<forall>(k, f) \<in> set fs. \<forall>r. P r \<longrightarrow> P (f (get p k) r) \<Longrightarrow> P r \<Longrightarrow> P (fold (\<lambda>(k, f) r. f (get p k) r) fs r)"
    for fs :: "(string \<times> (val \<Rightarrow> 'a \<Rightarrow> 'a)) list"
    by (induction fs arbitrary: r) auto
  from this [of "present cols p"] assms show ?thesis by (auto simp: set_present_def)
qed

lemma coerced_scalar: "coerced v \<Longrightarrow> scalar v"
  by (cases v) auto

lemma coerced_cells [simp]: "scalar v \<Longrightarrow> coerced (text_aff v)" "scalar v \<Longrightarrow> coerced (real_cell v)"
  by (cases v; simp)+

lemma text_aff_null [simp]: "text_aff v = VNull \<longleftrightarrow> v = VNull"
  by (cases v) auto

lemma or_default_cell [simp]: "scalar d \<Longrightarrow> scalar v \<Longrightarrow> scalar (or_default d v)"
  "or_default d v = VNull \<longleftrightarrow> d = VNull \<and> v = VNull"
  by (auto simp: or_default_def)

lemma coalesce_cell [simp]: "scalar a \<Longrightarrow> scalar b \<Longrightarrow> scalar (coalesce a b)"
  by (simp add: coalesce_def)

lemma opt_str_cell [simp]: "scalar (opt_str s)"
  by (cases s) (simp_all add: opt_str_def)

lemma VNull_not_in: "VNull \<notin> set vs \<Longrightarrow> v \<in> set vs \<Longrightarrow> v \<noteq> VNull"
  by auto

section \<open>Table by table\<close>

lemma notification_types:
  "notification_projector ev t = Inr t' \<Longrightarrow> list_all notification_typed t \<Longrightarrow> list_all notification_typed t'"
  by (auto simp: notification_projector_def on_notification_created_def on_notification_updated_def
      on_notification_read_def Let_def row_types split: if_splits intro!: typed_intros elim!: typed_update_checked)

lemma policy_types: "policy_projector ev t = Inr t' \<Longrightarrow> list_all policy_typed t \<Longrightarrow> list_all policy_typed t'"
  by (auto simp: policy_projector_def on_policy_created_def on_policy_updated_def Let_def row_types
      split: if_splits intro!: typed_intros elim!: typed_update_checked)

lemma approval_types: "approval_projector ev t = Inr t' \<Longrightarrow> list_all approval_typed t \<Longrightarrow> list_all approval_typed t'"
  by (auto simp: approval_projector_def on_approval_requested_def on_approval_granted_def on_approval_denied_def Let_def
      row_types split: if_splits val.splits intro!: typed_intros)

lemma inbox_types: "inbox_projector ev t = Inr t' \<Longrightarrow> list_all inbox_typed t \<Longrightarrow> list_all inbox_typed t'"
  by (auto simp: inbox_projector_def on_inbox_email_recorded_def on_inbox_email_status_changed_def
      on_inbox_email_flag_set_def Let_def row_types split: if_splits intro!: typed_intros)

lemma timer_types: "timer_projector ev t = Inr t' \<Longrightarrow> list_all timer_typed t \<Longrightarrow> list_all timer_typed t'"
  by (auto simp: timer_projector_def on_timer_created_def on_timer_fired_def Let_def row_types
      split: if_splits intro!: typed_intros elim!: typed_update_checked)

lemma memory_update_typed:
  assumes "memory_typed r" and "list_all scalar (map (\<lambda>(k, _). get p k) (present memory_cols p))"
    and "\<not> null_given [''content'', ''category''] p"
  shows "memory_typed (set_present memory_cols p r)"
proof (rule set_present_typed [where P = memory_typed, OF assms(1)])
  fix k f r
  assume kf: "(k, f) \<in> set (present memory_cols p)" and r: "memory_typed r"
  from kf assms(2) have "scalar (get p k)" by (auto simp: list_all_iff)
  moreover from kf have "(k, f) \<in> set memory_cols" "has k p" by (simp_all add: present_def)
  moreover from this(2) assms(3) have "k = ''content'' \<or> k = ''category'' \<Longrightarrow> get p k \<noteq> VNull" by (auto simp: null_given_def)
  ultimately show "memory_typed (f (get p k) r)" using r
    unfolding memory_cols_def list.set insert_iff prod.inject empty_iff by (elim disjE conjE) (simp_all add: memory_typed_def)
qed

lemma claim_status_types:
  assumes "list_all memory_typed t" and "keyed m_id t" and "status \<in> {''ratified'', ''rejected'', ''contested''}"
  shows "list_all memory_typed (set_claim_status_if_claim mid status t)"
proof (cases "sql_find m_id mid t")
  case (Some r)
  have "x = r" if "x \<in> set t" "m_id x = mid" for x using sql_find_mem [OF assms(2) that(1)] that(2) Some by simp
  moreover have "memory_typed (r\<lparr>m_claim_status := Some status\<rparr>)" if "m_origin r = ''claim''"
    using assms(1,3) sql_find_in [OF Some] that unfolding list_all_iff memory_typed_def by simp
  ultimately have "memory_typed (x\<lparr>m_claim_status := Some status\<rparr>)"
    if "m_origin r = ''claim''" "x \<in> set t" "m_id x = mid" for x using that by auto
  with assms(1) Some show ?thesis by (auto simp: set_claim_status_if_claim_def list_all_iff set_sql_update)
qed (simp add: set_claim_status_if_claim_def assms)

lemma memory_updated_types:
  "on_memory_updated ev t = Inr t' \<Longrightarrow> list_all memory_typed t \<Longrightarrow> list_all memory_typed t'"
  by (auto simp: on_memory_updated_def Let_def split: if_splits elim!: typed_update_checked intro: memory_update_typed)

lemma memory_derived_types:
  "on_memory_derived ev t = Inr t' \<Longrightarrow> list_all memory_typed t \<Longrightarrow> list_all memory_typed t'"
  by (auto simp: on_memory_derived_def Let_def memory_typed_def origin_from_actor_def initial_claim_status_def
      intro!: typed_replace)

lemma memory_types:
  "memory_projector ev t = Inr t' \<Longrightarrow> keyed m_id t \<Longrightarrow> list_all memory_typed t \<Longrightarrow> list_all memory_typed t'"
  by (auto simp: memory_projector_def on_memory_decayed_def on_memory_deleted_def split: if_splits
      dest: memory_updated_types memory_derived_types intro!: typed_update typed_delete claim_status_types)
    (simp_all add: memory_typed_def)

lemma work_update_typed:
  assumes "work_typed r" and "list_all scalar (map (\<lambda>(k, _). get p k) (present work_cols p))"
    and "\<not> null_given [''title''] p"
  shows "work_typed (set_present work_cols p r)"
proof (rule set_present_typed [where P = work_typed, OF assms(1)])
  fix k f r
  assume kf: "(k, f) \<in> set (present work_cols p)" and r: "work_typed r"
  from kf assms(2) have "scalar (get p k)" by (auto simp: list_all_iff)
  moreover from kf have "(k, f) \<in> set work_cols" "has k p" by (simp_all add: present_def)
  moreover from this(2) assms(3) have "k = ''title'' \<Longrightarrow> get p k \<noteq> VNull" by (auto simp: null_given_def)
  ultimately show "work_typed (f (get p k) r)" using r
    unfolding work_cols_def list.set insert_iff prod.inject empty_iff by (elim disjE conjE) (simp_all add: work_typed_def)
qed

lemma recalculate_types: "list_all work_typed t \<Longrightarrow> list_all work_typed (recalculate_parent_goal_progress c ts h t)"
  by (auto simp: recalculate_parent_goal_progress_def Let_def split: val.splits option.splits intro!: typed_update)
    (auto simp: work_typed_def)

lemma work_updated_types:
  "on_work_item_updated ev t = Inr t' \<Longrightarrow> list_all work_typed t \<Longrightarrow> list_all work_typed t'"
proof -
  assume a: "on_work_item_updated ev t = Inr t'" "list_all work_typed t"
  let ?f = "\<lambda>r. (set_present work_cols (ev_payload ev) r)\<lparr>w_updated_at := ev_ts ev\<rparr>"
  have f: "work_typed (?f r)" if "work_typed r" "list_all scalar (map (\<lambda>(k, _). get (ev_payload ev) k) (present work_cols (ev_payload ev)))"
    "\<not> null_given [''title''] (ev_payload ev)" for r using work_update_typed [OF that] by (simp add: work_typed_def)
  from a show ?thesis
    by (auto simp: on_work_item_updated_def Let_def split: if_splits intro!: recalculate_types
        elim!: typed_update_checked intro: f)
qed

lemma work_status_types:
  "on_work_item_status_changed ev t = Inr t' \<Longrightarrow> list_all work_typed t \<Longrightarrow> list_all work_typed t'"
  by (auto simp: on_work_item_status_changed_def Let_def split: if_splits intro!: recalculate_types typed_update)
    (auto simp: work_typed_def)

lemma work_types: "work_item_projector ev t = Inr t' \<Longrightarrow> list_all work_typed t \<Longrightarrow> list_all work_typed t'"
  by (auto simp: work_item_projector_def on_work_item_created_def on_work_item_deleted_def Let_def split: if_splits
      intro!: typed_intros recalculate_types intro: work_updated_types work_status_types)
    (auto simp: work_typed_def)

section \<open>The store\<close>

lemma run_projector_types: "run_projector a ev d = Inr d' \<Longrightarrow> db_keyed d \<Longrightarrow> db_typed d \<Longrightarrow> db_typed d'"
  by (cases a)
    (auto simp: db_typed_def db_keyed_def dest: approval_types memory_types work_types notification_types policy_types
      inbox_types timer_types)

lemma kernel_db_typed: "kernel_ok k \<Longrightarrow> db_typed (k_db k)"
proof -
  assume ok: "kernel_ok k"
  have "db_ok (k_db k) \<and> db_typed (k_db k)"
  proof (rule foldM_invariant [OF kernel_okD(4) [OF ok], where P = "\<lambda>d. db_ok d \<and> db_typed d"])
    show "db_ok empty_db \<and> db_typed empty_db" by (simp add: db_typed_def) (simp add: empty_db_def)
  next
    fix d e d'
    assume "db_ok d \<and> db_typed d" "apply_event d e = Inr d'"
    then show "db_ok d' \<and> db_typed d'"
      using apply_event_ok [of d e d'] by (auto simp: apply_event_def db_ok_def dest: run_projector_types split: option.splits)
  qed
  then show ?thesis by simp
qed



end
