(* ===== verification/Timers.thy ===== *)
theory Timers
  imports Proj_Types Notifications
begin

text \<open>
  Timers: the next fire time of a cron expression and the timer scan of \<open>core/runtime/runtime_loop.py\<close>, the
  seeding of the schedules of \<open>core/runtime/cron_registry.py\<close>.

  \<^item> A local time is the number of microseconds since 0001-01-01 00:00 on the wall clock of the zone, which
    is how Python's aware datetimes of one zone add and compare. \<open>zone\<close> converts: \<open>z_local\<close> is
    \<open>astimezone(tz)\<close>, \<open>z_utc\<close> is \<open>astimezone(UTC)\<close>. Years beyond 9999, where Python overflows, are not excluded.
  \<^item> An exception without a constructor of its own (\<open>IndexError\<close>, \<open>ZeroDivisionError\<close>) is a \<open>RuntimeError\<close>.
\<close>

section \<open>The calendar\<close>

definition leap :: "int \<Rightarrow> bool" where
  "leap y \<longleftrightarrow> y mod 4 = 0 \<and> (y mod 100 \<noteq> 0 \<or> y mod 400 = 0)"

definition year_days :: "int \<Rightarrow> int" where
  "year_days y = (if leap y then 366 else 365)"

definition leap_days :: "int \<Rightarrow> int" where
  "leap_days y = y div 4 - y div 100 + y div 400"

definition days_to_year :: "int \<Rightarrow> int" where
  "days_to_year y = 365 * (y - 1) + leap_days (y - 1)"

definition month_days :: "int \<Rightarrow> nat \<Rightarrow> int" where
  "month_days y m = (if m = 2 then (if leap y then 29 else 28) else if m \<in> {4, 6, 9, 11} then 30 else 31)"

fun days_to_month :: "int \<Rightarrow> nat \<Rightarrow> int" where
  "days_to_month y 0 = 0"
| "days_to_month y (Suc m) = days_to_month y m + (if m = 0 then 0 else month_days y m)"

text \<open>\<open>toordinal\<close>, from 0.\<close>

definition ordinal :: "int \<Rightarrow> nat \<Rightarrow> int \<Rightarrow> int" where
  "ordinal y m d = days_to_year y + days_to_month y m + d - 1"

lemma div_step: "(0::int) < k \<Longrightarrow> y div k = (y - 1) div k + (if y mod k = 0 then 1 else 0)"
proof -
  assume k: "0 < k"
  show ?thesis
  proof (cases "y mod k = 0")
    case True
    then have "y = k * (y div k)" by (simp add: minus_mod_eq_mult_div [symmetric])
    then have "(y - 1) div k = (k * (y div k) + (-1)) div k" by simp
    also have "\<dots> = y div k + (-1) div k" using div_mult_self4 [of k "y div k" "-1"] k by simp
    also have "(-1) div k = -1" using k by (simp add: div_eq_minus1)
    finally show ?thesis using True by simp
  next
    case False
    have r: "0 \<le> y mod k - 1" "y mod k - 1 < k" using False k pos_mod_sign [of k y] pos_mod_bound [of k y] by linarith+
    have "y - 1 = k * (y div k) + (y mod k - 1)" by simp
    then have "(y - 1) div k = (k * (y div k) + (y mod k - 1)) div k" by (rule arg_cong)
    also have "\<dots> = y div k + (y mod k - 1) div k" using div_mult_self4 [of k "y div k" "y mod k - 1"] k by simp
    also have "(y mod k - 1) div k = 0" using r by simp
    finally show ?thesis using False by simp
  qed
qed

lemma leap_days_step: "leap_days y = leap_days (y - 1) + (if leap y then 1 else 0)"
proof -
  have sum: "a = a' + (if p then 1 else 0) \<Longrightarrow> b = b' + (if q then 1 else 0) \<Longrightarrow> c = c' + (if r then 1 else 0) \<Longrightarrow>
      (r \<Longrightarrow> q) \<Longrightarrow> (q \<Longrightarrow> p) \<Longrightarrow> a - b + c = a' - b' + c' + (if p \<and> (\<not> q \<or> r) then 1 else 0)"
    for a a' b b' c c' :: int and p q r by (auto split: if_splits)
  have "y mod 400 = 0 \<Longrightarrow> y mod 100 = 0" "y mod 100 = 0 \<Longrightarrow> y mod 4 = 0" by presburger+
  from sum [OF div_step div_step div_step this] show ?thesis
    unfolding leap_days_def leap_def by simp
qed

lemma days_to_next_year: "days_to_year (y + 1) = days_to_year y + year_days y"
  using leap_days_step [of y] by (simp add: days_to_year_def year_days_def)

lemma month_days_pos: "0 < month_days y m"
  by (simp add: month_days_def)

lemma days_to_month_1 [simp]: "days_to_month y (Suc 0) = 0"
  by (simp add: days_to_month.simps)

lemma days_to_month_Suc: "0 < m \<Longrightarrow> days_to_month y (Suc m) = days_to_month y m + month_days y m"
  by (simp add: days_to_month.simps)

lemma days_to_month_13: "days_to_month y 13 = year_days y"
  by (simp add: numeral_eq_Suc days_to_month.simps month_days_def year_days_def)

declare days_to_month.simps(2) [simp del]

function year_from :: "int \<Rightarrow> int \<Rightarrow> int" where
  "year_from n y = (if n < days_to_year (y + 1) then y else year_from n (y + 1))"
  by auto

termination
proof (relation "measure (\<lambda>(n, y). nat (n + 1 - days_to_year y))", simp)
  fix n y :: int
  assume "\<not> n < days_to_year (y + 1)"
  moreover have "days_to_year y < days_to_year (y + 1)" by (simp add: days_to_next_year year_days_def)
  ultimately show "((n, y + 1), n, y) \<in> measure (\<lambda>(n, y). nat (n + 1 - days_to_year y))" by simp
qed

declare year_from.simps [simp del]

fun month_from :: "int \<Rightarrow> int \<Rightarrow> nat \<Rightarrow> nat \<Rightarrow> nat" where
  "month_from r y m 0 = m"
| "month_from r y m (Suc k) = (if r < days_to_month y (Suc m) then m else month_from r y (Suc m) k)"

definition year_of :: "int \<Rightarrow> int" where
  "year_of n = year_from n (n div 366 + 1)"

definition month_of :: "int \<Rightarrow> nat" where
  "month_of n = month_from (n - days_to_year (year_of n)) (year_of n) 1 11"

lemma year_from_spec: "days_to_year y \<le> n \<Longrightarrow> days_to_year (year_from n y) \<le> n \<and> n < days_to_year (year_from n y + 1)"
proof (induction n y rule: year_from.induct)
  case (1 n y)
  then show ?case by (subst (1 2) year_from.simps) auto
qed

lemma year_of_spec:
  assumes "0 \<le> n"
  shows "days_to_year (year_of n) \<le> n \<and> n < days_to_year (year_of n + 1)"
proof -
  define q where "q = n div 366"
  have q: "0 \<le> q" "366 * q \<le> n" using assms by (simp_all add: q_def)
  have "q div 4 \<le> q" "q div 400 \<le> q div 100" using zdiv_mono2 [of q 1 4] zdiv_mono2 [of q 100 400] q(1) by simp_all
  then have "leap_days q \<le> q" unfolding leap_days_def by simp
  with q have "days_to_year (q + 1) \<le> n" by (simp add: days_to_year_def)
  then show ?thesis unfolding year_of_def q_def by (rule year_from_spec)
qed

lemma month_from_spec:
  "days_to_month y m \<le> r \<Longrightarrow> r < days_to_month y (m + k + 1) \<Longrightarrow>
   m \<le> month_from r y m k \<and> month_from r y m k \<le> m + k \<and> days_to_month y (month_from r y m k) \<le> r \<and>
   r < days_to_month y (Suc (month_from r y m k))"
proof (induction k arbitrary: m)
  case (Suc k)
  show ?case
  proof (cases "r < days_to_month y (Suc m)")
    case False
    then have "Suc m \<le> month_from r y (Suc m) k \<and> month_from r y (Suc m) k \<le> Suc m + k \<and>
        days_to_month y (month_from r y (Suc m) k) \<le> r \<and> r < days_to_month y (Suc (month_from r y (Suc m) k))"
      using Suc.IH [of "Suc m"] Suc.prems by simp
    with False show ?thesis by auto
  qed (use Suc.prems in auto)
qed simp

text \<open>The month a day lies in.\<close>

lemma month_of_spec:
  assumes "0 \<le> n"
  shows "1 \<le> month_of n \<and> month_of n \<le> 12 \<and> ordinal (year_of n) (month_of n) 1 \<le> n \<and>
   n < ordinal (year_of n) (month_of n) 1 + month_days (year_of n) (month_of n)"
proof -
  let ?r = "n - days_to_year (year_of n)"
  have "days_to_month (year_of n) 1 \<le> ?r" "?r < days_to_month (year_of n) (1 + 11 + 1)"
    using year_of_spec [OF assms] by (simp_all add: days_to_next_year days_to_month_13)
  from month_from_spec [OF this] have m: "1 \<le> month_of n" "month_of n \<le> 12"
    "days_to_month (year_of n) (month_of n) \<le> ?r" "?r < days_to_month (year_of n) (Suc (month_of n))"
    by (simp_all add: month_of_def)
  then show ?thesis by (simp add: ordinal_def days_to_month_Suc)
qed

lemma next_month_first:
  assumes "1 \<le> m" and "m \<le> 12"
  shows "(if m = 12 then ordinal (y + 1) 1 1 else ordinal y (m + 1) 1) = ordinal y m 1 + month_days y m"
proof (cases "m = 12")
  case True
  have "days_to_month y 13 = days_to_month y 12 + month_days y 12" using days_to_month_Suc [of 12 y] by simp
  with True show ?thesis by (simp add: ordinal_def days_to_next_year days_to_month_13)
qed (use assms in \<open>simp add: ordinal_def days_to_month_Suc\<close>)

section \<open>The next slot of a cron expression\<close>

record zone =
  z_local :: "time \<Rightarrow> int"
  z_utc :: "int \<Rightarrow> time"

definition minute_us :: int where "minute_us = 60000000"
definition hour_us :: int where "hour_us = 3600000000"
definition day_us :: int where "day_us = 86400000000"

fun split_on :: "char \<Rightarrow> string \<Rightarrow> string list" where
  "split_on c [] = [[]]"
| "split_on c (x # xs) =
     (if x = c then [] # split_on c xs
      else (case split_on c xs of [] \<Rightarrow> [[x]] | w # ws \<Rightarrow> (x # w) # ws))"

definition cron_part :: "string \<Rightarrow> (string \<times> string) res" where
  "cron_part p = (case split_on (CHR ''='') p of
       k # v # _ \<Rightarrow> Inr (strip k, strip v)
     | _ \<Rightarrow> Inl (RuntimeError ''IndexError''))"

text \<open>A dict comprehension: a later part of the same name wins.\<close>

definition cron_parts :: "string \<Rightarrow> (string \<times> string) list res" where
  "cron_parts expr = rbind (traverse cron_part (split_on (CHR '','') expr)) (\<lambda>ps. Inr (rev ps))"

definition int_text :: "string \<Rightarrow> int res" where
  "int_text s = py_int (VStr (strip s))"

definition int_part :: "(string \<times> string) list \<Rightarrow> string \<Rightarrow> int res" where
  "int_part ps k = int_text (case map_of ps k of None \<Rightarrow> ''0'' | Some v \<Rightarrow> v)"

text \<open>\<open>replace\<close> of the minute, of hour and minute, and of the day, seconds and below cleared by the first two.\<close>

definition replace_minute :: "int \<Rightarrow> int \<Rightarrow> int res" where
  "replace_minute w m =
     (if 0 \<le> m \<and> m < 60 then Inr (w - w mod hour_us + m * minute_us) else Inl (ValueError ''minute''))"

definition replace_time :: "int \<Rightarrow> int \<Rightarrow> int \<Rightarrow> int res" where
  "replace_time w h m =
     (if 0 \<le> h \<and> h < 24 \<and> 0 \<le> m \<and> m < 60 then Inr (w - w mod day_us + h * hour_us + m * minute_us)
      else Inl (ValueError ''hour''))"

definition replace_date :: "int \<Rightarrow> int \<Rightarrow> nat \<Rightarrow> int \<Rightarrow> int res" where
  "replace_date w y m d =
     (if 1 \<le> d \<and> d \<le> month_days y m then Inr (ordinal y m d * day_us + w mod day_us) else Inl (ValueError ''day''))"

definition clamp_day :: "int \<Rightarrow> nat \<Rightarrow> int \<Rightarrow> int" where
  "clamp_day y m wanted = min wanted (month_days y m)"

definition step_slot :: "int \<Rightarrow> int \<Rightarrow> int res" where
  "step_slot n now =
     (if n = 0 then Inl (RuntimeError ''ZeroDivisionError'')
      else let next_minute = (now div minute_us mod 60) div n * n + n in
        if 60 \<le> next_minute then Inr (now - now mod hour_us + hour_us + (next_minute - 60) * minute_us)
        else rbind (replace_minute now next_minute) (\<lambda>r. Inr (if r \<le> now then r + n * minute_us else r)))"

definition month_slot :: "int \<Rightarrow> int \<Rightarrow> int \<Rightarrow> int res" where
  "month_slot wanted now target =
     (let y = year_of (target div day_us); m = month_of (target div day_us) in
      rbind (replace_date target y m (clamp_day y m wanted)) (\<lambda>t.
        if t \<le> now then
          (let y' = (if m = 12 then y + 1 else y); m' = (if m = 12 then 1 else m + 1)
           in replace_date t y' m' (clamp_day y' m' wanted))
        else Inr t))"

definition dow_names :: "(string \<times> int) list" where
  "dow_names = [(''mon'', 0), (''tue'', 1), (''wed'', 2), (''thu'', 3), (''fri'', 4), (''sat'', 5), (''sun'', 6),
     (''monday'', 0), (''tuesday'', 1), (''wednesday'', 2), (''thursday'', 3), (''friday'', 4), (''saturday'', 5), (''sunday'', 6)]"

definition dow_of :: "string \<Rightarrow> int" where
  "dow_of s = (case int_text s of Inr n \<Rightarrow> n
     | Inl _ \<Rightarrow> (case map_of dow_names s of None \<Rightarrow> 0 | Some n \<Rightarrow> n))"

definition week_slot :: "int \<Rightarrow> int \<Rightarrow> int \<Rightarrow> int" where
  "week_slot dow now target =
     (let t = target + (dow - target div day_us mod 7) mod 7 * day_us in if t \<le> now then t + 7 * day_us else t)"

definition step_part :: "(string \<times> string) list \<Rightarrow> string option" where
  "step_part ps = (case map_of ps ''minute'' of
       Some v \<Rightarrow> if starts_with ''*/'' v then Some (drop 2 v) else None
     | None \<Rightarrow> None)"

definition next_slot :: "(string \<times> string) list \<Rightarrow> int \<Rightarrow> int res" where
  "next_slot ps now =
     (case step_part ps of
        Some v \<Rightarrow> rbind (int_text v) (\<lambda>n. step_slot n now)
      | None \<Rightarrow>
          rbind (int_part ps ''hour'') (\<lambda>h. rbind (int_part ps ''minute'') (\<lambda>m.
          rbind (replace_time now h m) (\<lambda>target.
            (case map_of ps ''day'' of
               Some d \<Rightarrow> rbind (int_text d) (\<lambda>wanted. month_slot wanted now target)
             | None \<Rightarrow>
                 (case map_of ps ''day_of_week'' of
                    Some d \<Rightarrow> Inr (week_slot (dow_of (map ascii_lower d)) now target)
                  | None \<Rightarrow> Inr (if target \<le> now then target + day_us else target)))))))"

definition next_cron_fire :: "zone \<Rightarrow> string \<Rightarrow> time \<Rightarrow> time res" where
  "next_cron_fire z expr now =
     rbind (cron_parts expr) (\<lambda>ps. rbind (next_slot ps (z_local z now)) (\<lambda>w. Inr (z_utc z w)))"

section \<open>A slot lies within one period\<close>

definition positive_step :: "(string \<times> string) list \<Rightarrow> bool" where
  "positive_step ps \<longleftrightarrow> (case step_part ps of None \<Rightarrow> True | Some v \<Rightarrow> (case int_text v of Inl _ \<Rightarrow> False | Inr n \<Rightarrow> 0 < n))"

definition cron_period :: "(string \<times> string) list \<Rightarrow> int" where
  "cron_period ps = (case step_part ps of
       Some v \<Rightarrow> (case int_text v of Inl _ \<Rightarrow> 0 | Inr n \<Rightarrow> n * minute_us)
     | None \<Rightarrow> if map_of ps ''day'' \<noteq> None then 31 * day_us
               else if map_of ps ''day_of_week'' \<noteq> None then 7 * day_us else day_us)"

text \<open>The time of day an expression names, for the expressions other than \<open>minute=*/n\<close>.\<close>

definition time_of_day :: "(string \<times> string) list \<Rightarrow> int res" where
  "time_of_day ps = rbind (int_part ps ''hour'') (\<lambda>h. rbind (int_part ps ''minute'') (\<lambda>m. Inr (h * hour_us + m * minute_us)))"

lemma units: "hour_us = minute_us * 60" "day_us = hour_us * 24" "0 < minute_us" "0 < hour_us" "0 < day_us"
  by (simp_all add: minute_us_def hour_us_def day_us_def)

lemma step_slot_next:
  assumes "0 < n" and "step_slot n now = Inr r"
  shows "now < r \<and> r \<le> now + n * minute_us"
proof -
  define m where "m = now div minute_us mod 60"
  define q where "q = m div n * n + n"
  define h where "h = now - now mod hour_us"
  define s where "s = now mod minute_us"
  have now: "now = h + minute_us * m + s" unfolding h_def m_def s_def units(1) by (subst zmod_zmult2_eq) simp_all
  have s: "0 \<le> s" "s < minute_us" using units(3) by (simp_all add: s_def)
  have "q = m + (n - m mod n)" by (simp add: q_def minus_mod_eq_div_mult [symmetric])
  moreover have "0 \<le> m mod n" "m mod n < n" using assms(1) by simp_all
  ultimately have q: "m + 1 \<le> q" "q \<le> m + n" by linarith+
  have step: "minute_us * (m + 1) \<le> minute_us * q" "minute_us * q \<le> minute_us * (m + n)"
    using q units(3) by (simp_all add: mult_left_mono)
  then have le: "now < h + q * minute_us" "h + q * minute_us \<le> now + n * minute_us"
    using s unfolding now by (simp_all add: algebra_simps)
  have "r = h + q * minute_us"
  proof (cases "60 \<le> q")
    case True
    with assms have "r = h + hour_us + (q - 60) * minute_us" by (simp add: step_slot_def Let_def m_def q_def h_def)
    then show ?thesis by (simp add: units(1) algebra_simps)
  next
    case False
    with assms have "r = (if h + q * minute_us \<le> now then h + q * minute_us + n * minute_us else h + q * minute_us)"
      by (auto simp: step_slot_def Let_def m_def q_def h_def replace_minute_def split: if_splits)
    with le show ?thesis by simp
  qed
  with le show ?thesis by simp
qed

lemma replace_time_day:
  assumes "replace_time now h m = Inr t"
  shows "t div day_us = now div day_us" "t mod day_us = h * hour_us + m * minute_us" "t - t mod day_us = now - now mod day_us"
proof -
  let ?x = "h * hour_us + m * minute_us"
  from assms have t: "t = day_us * (now div day_us) + ?x" and hm: "0 \<le> h" "h < 24" "0 \<le> m" "m < 60"
    by (auto simp: replace_time_def minus_mod_eq_mult_div split: if_splits)
  have "0 \<le> ?x" "?x < day_us" using hm by (simp_all add: hour_us_def minute_us_def day_us_def)
  then show d: "t div day_us = now div day_us" and "t mod day_us = ?x" unfolding t
    using div_mult_self4 [of day_us "now div day_us" ?x] units(5) by simp_all
  from d show "t - t mod day_us = now - now mod day_us" by (simp add: minus_mod_eq_mult_div)
qed

lemma within_day: "now - now mod day_us \<le> now" "now < now - now mod day_us + day_us"
  using units(5) pos_mod_bound [of day_us now] by simp_all

lemma replace_dateD:
  assumes "replace_date w y m d = Inr t"
  shows "t = ordinal y m d * day_us + w mod day_us" "1 \<le> d" "d \<le> month_days y m" "t mod day_us = w mod day_us"
  using assms units(5) by (auto simp: replace_date_def split: if_splits)

lemma ordinal_day: "ordinal y m d = ordinal y m 1 + d - 1"
  by (simp add: ordinal_def)

lemma month_days_le: "month_days y m \<le> 31" "28 \<le> month_days y m"
  by (simp_all add: month_days_def)

lemma day_mono: "a \<le> b \<Longrightarrow> a * day_us \<le> b * day_us" for a b :: int
  using units(5) by (simp add: mult_right_mono)

lemma month_slot_next:
  assumes "0 \<le> now" and "month_slot wanted now target = Inr r" and td: "target div day_us = now div day_us"
  shows "now < r \<and> r \<le> now + 31 * day_us \<and> r mod day_us = target mod day_us"
proof -
  let ?D = "now div day_us" and ?x = "target mod day_us"
  define y where "y = year_of ?D"
  define m where "m = month_of ?D"
  define f where "f = ordinal y m 1"
  have "0 \<le> ?D" using assms(1) units(5) by (simp add: pos_imp_zdiv_nonneg_iff)
  from month_of_spec [OF this] have m: "1 \<le> m" "m \<le> 12" and D: "f \<le> ?D" "?D < f + month_days y m"
    by (simp_all add: m_def y_def f_def)
  have now: "?D * day_us \<le> now" "now < (?D + 1) * day_us"
    using within_day [of now] by (simp_all add: minus_mod_eq_mult_div algebra_simps)
  have x: "0 \<le> ?x" "?x < day_us" using units(5) by simp_all
  define y' where "y' = (if m = 12 then y + 1 else y)"
  define m' where "m' = (if m = 12 then 1 else m + 1)"
  have f': "ordinal y' m' 1 = f + month_days y m" using next_month_first [OF m, of y] by (cases "m = 12") (simp_all add: y'_def m'_def f_def)
  have slot: "month_slot wanted now target = rbind (replace_date target y m (clamp_day y m wanted))
      (\<lambda>t. if t \<le> now then replace_date t y' m' (clamp_day y' m' wanted) else Inr t)"
    unfolding month_slot_def td y'_def m'_def y_def m_def Let_def by (rule refl)
  obtain t where t: "replace_date target y m (clamp_day y m wanted) = Inr t"
    and r: "(if t \<le> now then replace_date t y' m' (clamp_day y' m' wanted) else Inr t) = Inr r"
    using assms(2) unfolding slot by auto
  note t1 = replace_dateD [OF t]
  have tv: "t = (f + clamp_day y m wanted - 1) * day_us + ?x" by (simp add: t1(1) ordinal_day [of y m "clamp_day y m wanted"] f_def)
  show ?thesis
  proof (cases "t \<le> now")
    case False
    have "f + clamp_day y m wanted - 1 \<le> ?D + 30" using D t1(3) month_days_le(1) [of y m] by linarith
    from day_mono [OF this] have "t \<le> now + 31 * day_us" using now(1) x(2) by (simp add: tv algebra_simps)
    with False r t1(4) show ?thesis by simp
  next
    case True
    with r have r2: "replace_date t y' m' (clamp_day y' m' wanted) = Inr r" by simp
    note r3 = replace_dateD [OF r2]
    have rv: "r = (f + month_days y m + clamp_day y' m' wanted - 1) * day_us + ?x"
      by (simp add: r3(1) t1(4) ordinal_day [of y' m' "clamp_day y' m' wanted"] f')
    have "?D + 1 \<le> f + month_days y m + clamp_day y' m' wanted - 1" using D r3(2) by linarith
    from day_mono [OF this] have "now < r" using now(2) x(1) by (simp add: rv)
    moreover have "month_days y m + clamp_day y' m' wanted \<le> clamp_day y m wanted + 31"
      using month_days_le [of y m] month_days_le [of y' m'] by (simp add: clamp_day_def)
    then have "f + month_days y m + clamp_day y' m' wanted - 1 \<le> (f + clamp_day y m wanted - 1) + 31" by linarith
    from day_mono [OF this] have "r \<le> t + 31 * day_us" by (simp add: rv tv algebra_simps)
    ultimately show ?thesis using True r3(4) t1(4) by simp
  qed
qed

lemma day_shift: "(w + k * day_us) mod day_us = w mod day_us"
  by simp

lemma week_slot_next:
  assumes "target - target mod day_us = now - now mod day_us"
  shows "now < week_slot dow now target \<and> week_slot dow now target \<le> now + 7 * day_us \<and>
    week_slot dow now target mod day_us = target mod day_us"
proof -
  define k where "k = (dow - target div day_us mod 7) mod 7"
  have k: "0 \<le> k" "k \<le> 6" by (simp_all add: k_def)
  have t: "target < now + day_us" "now < target + day_us"
    using assms within_day [of now] within_day [of target] by linarith+
  have "k * day_us \<le> 6 * day_us" "0 \<le> k * day_us" using k units(5) by (simp_all add: mult_right_mono)
  with t have "target + k * day_us \<le> now + 7 * day_us" "now < target + k * day_us + 7 * day_us" by linarith+
  with t show ?thesis unfolding week_slot_def Let_def k_def [symmetric] by (simp add: day_shift)
qed

lemma next_slot_next:
  assumes now: "0 \<le> now" and pos: "positive_step ps" and r: "next_slot ps now = Inr r"
  shows "now < r \<and> r \<le> now + cron_period ps \<and> (step_part ps = None \<longrightarrow> time_of_day ps = Inr (r mod day_us))"
proof (cases "step_part ps")
  case (Some v)
  with pos r obtain n where "int_text v = Inr n" "0 < n" "step_slot n now = Inr r"
    by (auto simp: positive_step_def next_slot_def split: sum.splits)
  with step_slot_next [of n now r] Some show ?thesis by (simp add: cron_period_def)
next
  case None
  with r obtain h m t where t: "replace_time now h m = Inr t" and
    hm: "int_part ps ''hour'' = Inr h" "int_part ps ''minute'' = Inr m" and
    r': "(case map_of ps ''day'' of Some d \<Rightarrow> rbind (int_text d) (\<lambda>wanted. month_slot wanted now t)
       | None \<Rightarrow> (case map_of ps ''day_of_week'' of Some d \<Rightarrow> Inr (week_slot (dow_of (map ascii_lower d)) now t)
         | None \<Rightarrow> Inr (if t \<le> now then t + day_us else t))) = Inr r"
    by (auto simp: next_slot_def)
  note t' = replace_time_day [OF t]
  have tod: "time_of_day ps = Inr (t mod day_us)" using hm t'(2) by (simp add: time_of_day_def)
  have day: "t < now + day_us" "now < t + day_us" using t'(3) within_day [of now] within_day [of t] by linarith+
  show ?thesis
  proof (cases "map_of ps ''day''")
    case (Some d)
    with r' month_slot_next [OF now _ t'(1)] None tod show ?thesis by (auto simp: cron_period_def)
  next
    case no_day: None
    show ?thesis
    proof (cases "map_of ps ''day_of_week''")
      case (Some d)
      with r' no_day None tod week_slot_next [OF t'(3)] show ?thesis by (auto simp: cron_period_def)
    qed (use r' no_day None day tod in \<open>auto simp: cron_period_def split: if_splits\<close>)
  qed
qed


definition utc_zone :: zone where
  "utc_zone = \<lparr>z_local = (\<lambda>t. t), z_utc = (\<lambda>w. w)\<rparr>"


section \<open>The timer scan\<close>

text \<open>An expression cell that is no text has no \<open>=\<close> after SQLite's coercion (or no \<open>split\<close>).\<close>

definition row_fire :: "zone \<Rightarrow> timer_row \<Rightarrow> time \<Rightarrow> time res" where
  "row_fire z r now = (case tm_cron r of VStr s \<Rightarrow> next_cron_fire z s now | _ \<Rightarrow> Inl (RuntimeError ''IndexError''))"

definition fired_payload :: "timer_row \<Rightarrow> time \<Rightarrow> dict" where
  "fired_payload r now = [(''handler_name'', tm_handler r), (''fired_at'', VTime now), (''cron_expr'', tm_cron r), (''payload'', tm_payload r)]"

definition rearm_payload :: "timer_row \<Rightarrow> time \<Rightarrow> dict" where
  "rearm_payload r fire = [(''handler_name'', tm_handler r), (''schedule_type'', VStr ''cron''), (''cron_expr'', tm_cron r),
     (''fire_at'', VTime fire), (''payload'', tm_payload r)]"

text \<open>One row: a failed emission is logged and the scan goes on, an error of the expression ends the scan.\<close>

definition fire_row :: "zone \<Rightarrow> time \<Rightarrow> kernel \<Rightarrow> timer_row \<Rightarrow> kernel \<times> unit res" where
  "fire_row z now k r =
     (if \<not> truthy (tm_handler r) then (k, Inr ())
      else (case emit_event k ''TimerFired'' ''timer'' (tm_id r) (fired_payload r now) ''runtime_loop'' None None of
          Inl _ \<Rightarrow> (k, Inr ())
        | Inr (k1, _) \<Rightarrow>
            if tm_schedule r = VStr ''cron'' \<and> truthy (tm_cron r)
            then (case row_fire z r now of
                Inl e \<Rightarrow> (k1, Inl e)
              | Inr fire \<Rightarrow>
                  (case emit_event k1 ''TimerCreated'' ''timer'' (tm_id r) (rearm_payload r fire) ''runtime_loop'' None None of
                     Inl _ \<Rightarrow> (k1, Inr ()) | Inr (k2, _) \<Rightarrow> (k2, Inr ())))
            else (k1, Inr ())))"

fun fire_rows :: "zone \<Rightarrow> time \<Rightarrow> kernel \<Rightarrow> timer_row list \<Rightarrow> kernel \<times> unit res" where
  "fire_rows z now k [] = (k, Inr ())"
| "fire_rows z now k (r # rs) = (case fire_row z now k r of (k1, Inl e) \<Rightarrow> (k1, Inl e) | (k1, Inr _) \<Rightarrow> fire_rows z now k1 rs)"

definition query_due_timers :: "kernel \<Rightarrow> time \<Rightarrow> int \<Rightarrow> timer_row list" where
  "query_due_timers k now mx = query_timer_events k None (Some ''active'') (Some now) (Some mx)"

definition check_timers :: "zone \<Rightarrow> time \<Rightarrow> kernel \<Rightarrow> kernel" where
  "check_timers z now k = fst (fire_rows z now k (query_due_timers k now 50))"

section \<open>Seeding the schedules\<close>

text \<open>\<open>SCHEDULES\<close>: the name of an entry is its handler, its type \<open>cron\<close>.\<close>

definition schedules :: "(string \<times> string) list" where
  "schedules = [(''morning_brief'', ''hour=8,minute=0''), (''deadline_alert'', ''hour=9,minute=0''),
     (''memory_decay'', ''hour=3,minute=0''), (''world_model_snapshot'', ''day_of_week=sun,hour=6,minute=0''),
     (''projection_snapshots'', ''hour=4,minute=0''), (''inbox_poll'', ''minute=*/15''),
     (''inbox_digest'', ''hour=8,minute=30''), (''url_monitor'', ''minute=*/30''), (''telegram_poll'', ''minute=*/1'')]"

definition query_timer :: "kernel \<Rightarrow> string \<Rightarrow> timer_row option" where
  "query_timer k i = (case query_timer_events k (Some i) None None (Some 1) of [] \<Rightarrow> None | r # _ \<Rightarrow> Some r)"

definition timer_active :: "kernel \<Rightarrow> string \<Rightarrow> bool" where
  "timer_active k i \<longleftrightarrow> (case query_timer k i of None \<Rightarrow> False | Some r \<Rightarrow> tm_status r = ''active'')"

definition seed_payload :: "string \<Rightarrow> string \<Rightarrow> time \<Rightarrow> dict" where
  "seed_payload name expr fire = [(''handler_name'', VStr name), (''schedule_type'', VStr ''cron''), (''cron_expr'', VStr expr),
     (''fire_at'', VTime fire)]"

fun seed_timers :: "zone \<Rightarrow> kernel \<Rightarrow> (string \<times> string) list \<Rightarrow> kernel res" where
  "seed_timers z k [] = Inr k"
| "seed_timers z k ((name, expr) # rest) =
     (if timer_active k name then seed_timers z k rest
      else rbind (next_cron_fire z expr (k_now k)) (\<lambda>fire.
        rbind (emit_event k ''TimerCreated'' ''timer'' name (seed_payload name expr fire) ''system'' None None)
          (\<lambda>(k1, ev). seed_timers z k1 rest)))"

definition init_timers :: "zone \<Rightarrow> kernel \<Rightarrow> kernel res" where
  "init_timers z k = seed_timers z k schedules"

section \<open>What the timer events do\<close>

abbreviation timer_rows :: "kernel \<Rightarrow> timer_row list" where
  "timer_rows k \<equiv> t_timer_events (k_db k)"

lemma timer_fired_emitted:
  assumes "kernel_ok k"
  shows "\<exists>k'. emit_event k ''TimerFired'' ''timer'' i (fired_payload r now) actor None None =
      Inr (k', next_event k ''TimerFired'' ''timer'' i (fired_payload r now) actor None None) \<and>
    logged k (next_event k ''TimerFired'' ''timer'' i (fired_payload r now) actor None None) k' \<and>
    timer_rows k' = sql_update (\<lambda>r. tm_id r = i) (\<lambda>r. r\<lparr>tm_status := ''fired'', tm_fired_at := VTime now\<rparr>) (timer_rows k)"
proof -
  let ?ev = "next_event k ''TimerFired'' ''timer'' i (fired_payload r now) actor None None"
  let ?t = "sql_update (\<lambda>r. tm_id r = i) (\<lambda>r. r\<lparr>tm_status := ''fired'', tm_fired_at := VTime now\<rparr>) (timer_rows k)"
  have "timer_projector ?ev (timer_rows k) = Inr ?t"
    by (simp add: timer_projector_def on_timer_fired_def fired_payload_def schema_key_def Let_def sql_update_checked_def)
  then have "run_projector Timer ?ev (k_db k) = Inr ((k_db k)\<lparr>t_timer_events := ?t\<rparr>)" by simp
  from emit_owned [OF assms _ _ this] show ?thesis by (auto simp: handler_table_def)
qed

lemma timer_created_emitted:
  assumes "kernel_ok k" and "getd p ''handler_name'' (VStr []) = h" "getd p ''cron_expr'' (VStr []) = c"
    "getd p ''schedule_type'' (VStr ''cron'') = VStr ''cron''" "getd p ''fire_at'' (VStr []) = VTime fire"
    "\<not> has ''delay_seconds'' p" and "scalar h" "h \<noteq> VNull" "scalar c"
  shows "\<exists>k' x. emit_event k ''TimerCreated'' ''timer'' i p actor None None =
      Inr (k', next_event k ''TimerCreated'' ''timer'' i p actor None None) \<and>
    logged k (next_event k ''TimerCreated'' ''timer'' i p actor None None) k' \<and>
    timer_rows k' = sql_replace tm_id x (timer_rows k) \<and> tm_id x = i \<and> tm_status x = ''active'' \<and> tm_fire_at x = VTime fire \<and>
    tm_handler x = h"
proof -
  let ?ev = "next_event k ''TimerCreated'' ''timer'' i p actor None None"
  have d: "getd p ''delay_seconds'' (VInt 0) = VInt 0" using assms(6) by (auto simp: has_def getd_def)
  have "\<exists>x. timer_projector ?ev (timer_rows k) = Inr (sql_replace tm_id x (timer_rows k)) \<and> tm_id x = i \<and>
      tm_status x = ''active'' \<and> tm_fire_at x = VTime fire \<and> tm_handler x = h"
    using assms(2-9) by (simp add: timer_projector_def on_timer_created_def schema_key_def Let_def d or_default_def)
      (intro conjI impI; rule exI, rule conjI, rule refl, simp)
  then obtain x where x: "timer_projector ?ev (timer_rows k) = Inr (sql_replace tm_id x (timer_rows k))"
    "tm_id x = i" "tm_status x = ''active''" "tm_fire_at x = VTime fire" "tm_handler x = h" by blast
  then have "run_projector Timer ?ev (k_db k) = Inr ((k_db k)\<lparr>t_timer_events := sql_replace tm_id x (timer_rows k)\<rparr>)" by simp
  from emit_owned [OF assms(1) _ _ this] x show ?thesis by (auto simp: handler_table_def)
qed

section \<open>A scan fires every due timer once\<close>

text \<open>A later local time is a later instant: every zone of a fixed offset, and all others outside the repeated hour
  of a clock change.\<close>

definition forward_zone :: "zone \<Rightarrow> bool" where
  "forward_zone z \<longleftrightarrow> (\<forall>t w. z_local z t < w \<longrightarrow> t < z_utc z w)"

definition timer_due :: "kernel \<Rightarrow> time \<Rightarrow> string \<Rightarrow> bool" where
  "timer_due k now i \<longleftrightarrow> (case sql_find tm_id i (timer_rows k) of None \<Rightarrow> False | Some r \<Rightarrow> timer_where (Some ''active'') (Some now) r)"

text \<open>A row that is no cron row, or whose expression has a next slot and a positive step.\<close>

definition cron_row_ok :: "zone \<Rightarrow> time \<Rightarrow> timer_row \<Rightarrow> bool" where
  "cron_row_ok z now r \<longleftrightarrow> tm_schedule r \<noteq> VStr ''cron'' \<or> \<not> truthy (tm_cron r) \<or>
     \<not> isl (row_fire z r now) \<and>
     (case tm_cron r of VStr s \<Rightarrow> (case cron_parts s of Inr ps \<Rightarrow> positive_step ps | Inl _ \<Rightarrow> False) | _ \<Rightarrow> False)"

definition fires :: "event list \<Rightarrow> string list" where
  "fires evs = map ev_agg_id (filter (\<lambda>e. ev_type e = ''TimerFired'') evs)"

definition scanned :: "kernel \<Rightarrow> kernel \<Rightarrow> time \<Rightarrow> string list \<Rightarrow> bool" where
  "scanned k k' now ids \<longleftrightarrow> kernel_ok k' \<and> (\<exists>evs. k_events k' = k_events k @ evs \<and> fires evs = ids) \<and>
     (\<forall>i. i \<notin> set ids \<longrightarrow> timer_due k' now i = timer_due k now i) \<and> (\<forall>i \<in> set ids. \<not> timer_due k' now i)"

lemma scanned_refl: "kernel_ok k \<Longrightarrow> scanned k k now []"
  by (simp add: scanned_def fires_def)

lemma scanned_trans:
  "scanned k k1 now xs \<Longrightarrow> scanned k1 k2 now ys \<Longrightarrow> scanned k k2 now (xs @ ys)"
  by (fastforce simp: scanned_def fires_def)

lemma find_fired:
  "sql_find tm_id j (sql_update (\<lambda>r. tm_id r = i) (\<lambda>r. r\<lparr>tm_status := s, tm_fired_at := x\<rparr>) t) =
     map_option (\<lambda>r. if tm_id r = i then r\<lparr>tm_status := s, tm_fired_at := x\<rparr> else r) (sql_find tm_id j t)"
  by (rule sql_find_update) simp

lemma fire_row_scanned:
  assumes ok: "kernel_ok k" and typed: "timer_typed r" and zone: "forward_zone z" "0 \<le> z_local z now" and cron: "cron_row_ok z now r"
    and h: "truthy (tm_handler r)"
  shows "\<exists>k'. fire_row z now k r = (k', Inr ()) \<and> scanned k k' now [tm_id r]"
proof -
  from timer_fired_emitted [OF ok, of "tm_id r" r now "''runtime_loop''"] obtain k1 e1 where
    e1: "emit_event k ''TimerFired'' ''timer'' (tm_id r) (fired_payload r now) ''runtime_loop'' None None = Inr (k1, e1)"
    "logged k e1 k1" "ev_type e1 = ''TimerFired''" "ev_agg_id e1 = tm_id r" and
    t1: "timer_rows k1 = sql_update (\<lambda>x. tm_id x = tm_id r) (\<lambda>r. r\<lparr>tm_status := ''fired'', tm_fired_at := VTime now\<rparr>) (timer_rows k)"
    by auto
  have due1: "timer_due k1 now i \<longleftrightarrow> i \<noteq> tm_id r \<and> timer_due k now i" for i
    by (auto simp: timer_due_def t1 find_fired timer_where_def opt_eq_def split: option.splits dest: sql_find_key)
  have one: "scanned k k1 now [tm_id r]"
    using e1(2-4) due1 by (auto simp: scanned_def fires_def logged_def)
  show ?thesis
  proof (cases "tm_schedule r = VStr ''cron'' \<and> truthy (tm_cron r)")
    case False
    with h e1(1) have "fire_row z now k r = (k1, Inr ())" by (auto simp: fire_row_def)
    with one show ?thesis by blast
  next
    case True
    with cron obtain s ps where s: "tm_cron r = VStr s" "cron_parts s = Inr ps" "positive_step ps"
      by (auto simp: cron_row_ok_def split: val.splits sum.splits)
    from True cron obtain fire where fire: "next_cron_fire z s now = Inr fire"
      by (cases "row_fire z r now") (auto simp: cron_row_ok_def row_fire_def s(1))
    from fire s(2) obtain w where w: "next_slot ps (z_local z now) = Inr w" "fire = z_utc z w" by (auto simp: next_cron_fire_def)
    from next_slot_next [OF zone(2) s(3) w(1)] zone(1) w(2) have later: "now < fire" by (auto simp: forward_zone_def)
    have sc: "scalar (tm_handler r)" "tm_handler r \<noteq> VNull" using typed by (simp_all add: timer_typed_def)
    from timer_created_emitted [of k1 "rearm_payload r fire" "tm_handler r" "tm_cron r" fire "tm_id r" "''runtime_loop''"] sc e1(2)
    obtain k2 e2 x where e2: "emit_event k1 ''TimerCreated'' ''timer'' (tm_id r) (rearm_payload r fire) ''runtime_loop'' None None = Inr (k2, e2)"
      "logged k1 e2 k2" "ev_type e2 = ''TimerCreated''"
      and t2: "timer_rows k2 = sql_replace tm_id x (timer_rows k1)" "tm_id x = tm_id r" "tm_fire_at x = VTime fire"
      by (auto simp: rearm_payload_def s(1) logged_def)
    have due2: "timer_due k2 now i \<longleftrightarrow> i \<noteq> tm_id r \<and> timer_due k1 now i" for i
      using later by (simp add: timer_due_def t2 sql_find_replace timer_where_def)
    from True h e1(1) e2(1) fire have "fire_row z now k r = (k2, Inr ())" by (simp add: fire_row_def row_fire_def s(1))
    moreover have "scanned k k2 now [tm_id r]"
      using one e2(2,3) due1 due2 by (auto simp: scanned_def fires_def logged_def)
    ultimately show ?thesis by simp
  qed
qed

lemma fire_rows_scanned:
  assumes "kernel_ok k" and zone: "forward_zone z" "0 \<le> z_local z now"
    and "\<And>r. r \<in> set rs \<Longrightarrow> timer_typed r \<and> cron_row_ok z now r"
  shows "\<exists>k'. fire_rows z now k rs = (k', Inr ()) \<and> scanned k k' now (map tm_id (filter (\<lambda>r. truthy (tm_handler r)) rs))"
  using assms(1,4)
proof (induction rs arbitrary: k)
  case Nil
  then show ?case by (simp add: scanned_refl)
next
  case (Cons r rs)
  show ?case
  proof (cases "truthy (tm_handler r)")
    case True
    from fire_row_scanned [OF Cons.prems(1) _ zone _ True] Cons.prems(2) [of r] obtain k1 where
      k1: "fire_row z now k r = (k1, Inr ())" "scanned k k1 now [tm_id r]" by auto
    then have "kernel_ok k1" by (simp add: scanned_def)
    from Cons.IH [OF this] Cons.prems(2) obtain k2 where
      k2: "fire_rows z now k1 rs = (k2, Inr ())" "scanned k1 k2 now (map tm_id (filter (\<lambda>r. truthy (tm_handler r)) rs))" by auto
    from scanned_trans [OF k1(2) k2(2)] k1(1) k2(1) True show ?thesis by simp
  next
    case False
    then have "fire_row z now k r = (k, Inr ())" by (simp add: fire_row_def)
    with False Cons.IH [OF Cons.prems(1)] Cons.prems(2) show ?thesis by simp
  qed
qed

text \<open>The timers that a scan takes up: the due rows that name a handler.\<close>

definition due_ids :: "kernel \<Rightarrow> time \<Rightarrow> string list" where
  "due_ids k now = map tm_id (filter (\<lambda>r. truthy (tm_handler r)) (query_due_timers k now 50))"

lemma due_row: "r \<in> set (query_due_timers k now mx) \<Longrightarrow> r \<in> set (timer_rows k)"
  using timers.listed_rows_match [of r k None "(Some ''active'', Some now)" "()" "Some mx"] by (simp add: query_due_timers_def)


definition cron_timer :: "string \<Rightarrow> dict" where
  "cron_timer expr = [(''handler_name'', VStr ''inbox_poll''), (''schedule_type'', VStr ''cron''), (''cron_expr'', VStr expr),
     (''fire_at'', VTime 0)]"

text \<open>A kernel with one cron timer, due since the epoch.\<close>

definition timer_kernel :: "string \<Rightarrow> kernel" where
  "timer_kernel expr = (case emit_event (boot current_registry 5) ''TimerCreated'' ''timer'' ''inbox_poll'' (cron_timer expr) ''system'' None None of
     Inl _ \<Rightarrow> boot current_registry 5 | Inr (k, _) \<Rightarrow> k)"

lemma timer_kernel_reach:
  "kernel_reach current_registry (timer_kernel expr) \<and> (\<exists>x. timer_rows (timer_kernel expr) = [x] \<and> tm_id x = ''inbox_poll'' \<and>
     tm_handler x = VStr ''inbox_poll'' \<and> tm_schedule x = VStr ''cron'' \<and> tm_cron x = VStr expr \<and> tm_fire_at x = VTime 0 \<and>
     tm_status x = ''active'')"
proof -
  let ?k = "boot current_registry 5"
  let ?e = "next_event ?k ''TimerCreated'' ''timer'' ''inbox_poll'' (cron_timer expr) ''system'' None None"
  have "\<exists>x. timer_projector ?e [] = Inr [x] \<and> tm_id x = ''inbox_poll'' \<and> tm_handler x = VStr ''inbox_poll'' \<and>
     tm_schedule x = VStr ''cron'' \<and> tm_cron x = VStr expr \<and> tm_fire_at x = VTime 0 \<and> tm_status x = ''active''"
    by (simp add: timer_projector_def on_timer_created_def schema_key_def Let_def cron_timer_def or_default_def sql_replace_def)
  then obtain x where x: "timer_projector ?e [] = Inr [x]" "tm_id x = ''inbox_poll''" "tm_handler x = VStr ''inbox_poll''"
     "tm_schedule x = VStr ''cron''" "tm_cron x = VStr expr" "tm_fire_at x = VTime 0" "tm_status x = ''active''" by blast
  then have "run_projector Timer ?e (k_db ?k) = Inr ((k_db ?k)\<lparr>t_timer_events := [x]\<rparr>)" by (simp add: boot_def empty_db_def)
  from emit_owned [OF kernel_ok_boot _ _ this] obtain k' where
    em: "emit_event ?k ''TimerCreated'' ''timer'' ''inbox_poll'' (cron_timer expr) ''system'' None None = Inr (k', ?e)"
    and rows: "timer_rows k' = [x]" by (auto simp: handler_table_def)
  have "event_owner ?e = Some Timer" by (simp add: event_owner_def handler_table_def)
  then have "well_routed ?e" by (simp add: well_routed_def)
  with kernel_reach.step [OF kernel_reach.start kernel_step.emit [OF em]] em rows x show ?thesis by (simp add: timer_kernel_def)
qed

lemma due_single:
  assumes "timer_rows k = [x]" and "tm_status x = ''active''" and "tm_fire_at x = VTime t" and "t \<le> now"
  shows "query_due_timers k now 50 = [x]"
  using assms by (simp add: query_due_timers_def query_timer_events_def select_rows_def given_def timer_where_def opt_eq_def
      safe_limit_def max_limit_def take_opt_def order_by.simps)


text \<open>C35. A due cron row whose expression does not parse ends the scan: the row has fired and is never armed again, and
  the due rows behind it do not fire in this scan.\<close>

theorem malformed_cron_loses_timer:
  assumes "kernel_reach reg k" and due: "query_due_timers k now 50 = r # rs" and "truthy (tm_handler r)"
    and "tm_schedule r = VStr ''cron''" and "truthy (tm_cron r)" and "row_fire z r now = Inl e"
  shows "\<exists>ev. k_events (check_timers z now k) = k_events k @ [ev] \<and> ev_type ev = ''TimerFired'' \<and> ev_agg_id ev = tm_id r \<and>
    map_option tm_status (sql_find tm_id (tm_id r) (timer_rows (check_timers z now k))) = Some ''fired'' \<and>
    (\<forall>i. i \<noteq> tm_id r \<longrightarrow> timer_due (check_timers z now k) now i = timer_due k now i)"
proof -
  have ok: "kernel_ok k" by (rule kernel_reach_ok [OF assms(1)])
  from timer_fired_emitted [OF ok, of "tm_id r" r now "''runtime_loop''"] obtain k1 e1 where
    e1: "emit_event k ''TimerFired'' ''timer'' (tm_id r) (fired_payload r now) ''runtime_loop'' None None = Inr (k1, e1)"
    "logged k e1 k1" "ev_type e1 = ''TimerFired''" "ev_agg_id e1 = tm_id r" and
    t1: "timer_rows k1 = sql_update (\<lambda>x. tm_id x = tm_id r) (\<lambda>r. r\<lparr>tm_status := ''fired'', tm_fired_at := VTime now\<rparr>) (timer_rows k)"
    by auto
  have "timer_due k1 now i \<longleftrightarrow> i \<noteq> tm_id r \<and> timer_due k now i" for i
    by (auto simp: timer_due_def t1 find_fired timer_where_def opt_eq_def split: option.splits dest: sql_find_key)
  moreover have "check_timers z now k = k1" using assms(3-6) e1(1) by (simp add: check_timers_def due fire_row_def)
  moreover have "sql_find tm_id (tm_id r) (timer_rows k) = Some r"
    using due_row [of r k now 50] due kernel_db_ok [OF ok] by (intro sql_find_mem) (auto simp: db_ok_def db_keyed_def)
  ultimately show ?thesis using e1 by (auto simp: logged_def t1 find_fired)
qed

theorem malformed_cron_loses_timer_witness:
  "\<exists>ev. k_events (check_timers utc_zone 10 (timer_kernel ''daily'')) = k_events (timer_kernel ''daily'') @ [ev] \<and>
    ev_type ev = ''TimerFired'' \<and>
    map_option tm_status (sql_find tm_id ''inbox_poll'' (timer_rows (check_timers utc_zone 10 (timer_kernel ''daily'')))) = Some ''fired''"
proof -
  let ?k = "timer_kernel ''daily''"
  from timer_kernel_reach [of "''daily''"] obtain x where k: "kernel_reach current_registry ?k" and
    x: "timer_rows ?k = [x]" "tm_id x = ''inbox_poll''" "tm_handler x = VStr ''inbox_poll''" "tm_schedule x = VStr ''cron''"
      "tm_cron x = VStr ''daily''" "tm_fire_at x = VTime 0" "tm_status x = ''active''" by auto
  have "row_fire utc_zone x 10 = Inl (RuntimeError ''IndexError'')" unfolding row_fire_def x(5) by code_simp
  from malformed_cron_loses_timer [OF k due_single [OF x(1,7,6)] _ x(4) _ this] x(2,3,5) show ?thesis by auto
qed

section \<open>The schedules are always armed\<close>

lemma query_timer_find: "i \<noteq> [] \<Longrightarrow> query_timer k i = sql_find tm_id i (timer_rows k)"
  by (simp add: query_timer_def query_timer_events_def select_rows_def given_def by_id_def split: option.splits)

lemma timer_active_iff:
  "i \<noteq> [] \<Longrightarrow> timer_active k i \<longleftrightarrow> (\<exists>r. sql_find tm_id i (timer_rows k) = Some r \<and> tm_status r = ''active'')"
  by (auto simp: timer_active_def query_timer_find split: option.splits)

lemma not_isl: "\<not> isl x \<longleftrightarrow> (\<exists>y. x = Inr y)"
  by (cases x) auto

lemma seed_timers_effect:
  assumes "kernel_ok k" and "distinct (map fst xs)" and "\<And>n expr. (n, expr) \<in> set xs \<Longrightarrow> n \<noteq> [] \<and> (\<forall>now. \<not> isl (next_cron_fire z expr now))"
  shows "\<exists>k' evs. seed_timers z k xs = Inr k' \<and> kernel_ok k' \<and> k_events k' = k_events k @ evs \<and>
    map ev_agg_id evs = filter (\<lambda>n. \<not> timer_active k n) (map fst xs) \<and>
    (\<forall>n. n \<noteq> [] \<longrightarrow> (timer_active k' n \<longleftrightarrow> n \<in> set (map fst xs) \<or> timer_active k n))"
  using assms
proof (induction xs arbitrary: k)
  case (Cons x xs)
  obtain n expr where x: "x = (n, expr)" by (cases x)
  with Cons.prems(3) have n: "n \<noteq> []" and total_fire: "\<not> isl (next_cron_fire z expr (k_now k))" by auto
  have rest: "distinct (map fst xs)"
    "\<And>n expr. (n, expr) \<in> set xs \<Longrightarrow> n \<noteq> [] \<and> (\<forall>now. \<not> isl (next_cron_fire z expr now))"
    using Cons.prems(2) Cons.prems(3) [OF list.set_intros(2)] by simp_all
  show ?case
  proof (cases "timer_active k n")
    case True
    from Cons.IH [OF Cons.prems(1) rest] obtain k' evs where k': "seed_timers z k xs = Inr k'" "kernel_ok k'"
      "k_events k' = k_events k @ evs" "map ev_agg_id evs = filter (\<lambda>n. \<not> timer_active k n) (map fst xs)"
      "\<forall>m. m \<noteq> [] \<longrightarrow> (timer_active k' m \<longleftrightarrow> m \<in> set (map fst xs) \<or> timer_active k m)" by auto
    with True x show ?thesis by (intro exI [of _ k'] exI [of _ evs]) auto
  next
    case False
    from total_fire obtain fire where fire: "next_cron_fire z expr (k_now k) = Inr fire" by (cases "next_cron_fire z expr (k_now k)") auto
    from timer_created_emitted [OF Cons.prems(1), of "seed_payload n expr fire" "VStr n" "VStr expr" fire n "''system''"]
    obtain k1 e1 y where e1: "emit_event k ''TimerCreated'' ''timer'' n (seed_payload n expr fire) ''system'' None None = Inr (k1, e1)"
      "logged k e1 k1" "ev_agg_id e1 = n" and y: "timer_rows k1 = sql_replace tm_id y (timer_rows k)" "tm_id y = n" "tm_status y = ''active''"
      by (auto simp: seed_payload_def)
    have act: "timer_active k1 m \<longleftrightarrow> m = n \<or> timer_active k m" if "m \<noteq> []" for m
      using that y by (auto simp: timer_active_iff sql_find_replace)
    have ok1: "kernel_ok k1" "k_events k1 = k_events k @ [e1]" using e1(2) by (simp_all add: logged_def)
    from Cons.IH [OF ok1(1) rest] obtain k' evs where k': "seed_timers z k1 xs = Inr k'" "kernel_ok k'"
      "k_events k' = k_events k1 @ evs" "map ev_agg_id evs = filter (\<lambda>n. \<not> timer_active k1 n) (map fst xs)"
      "\<forall>m. m \<noteq> [] \<longrightarrow> (timer_active k' m \<longleftrightarrow> m \<in> set (map fst xs) \<or> timer_active k1 m)" by auto
    have "filter (\<lambda>n. \<not> timer_active k1 n) (map fst xs) = filter (\<lambda>n. \<not> timer_active k n) (map fst xs)"
    proof (rule filter_cong [OF refl])
      fix m
      assume "m \<in> set (map fst xs)"
      then have "m \<noteq> n" "m \<noteq> []" using Cons.prems(2) rest(2) x by auto
      then show "(\<not> timer_active k1 m) = (\<not> timer_active k m)" using act by simp
    qed
    with k' act ok1 e1 fire False x n show ?thesis by (intro exI [of _ k'] exI [of _ "e1 # evs"]) auto
  qed
qed simp

lemma step_slot_total: "0 < n \<Longrightarrow> \<not> isl (step_slot n now)"
proof -
  assume n: "0 < n"
  then have "0 \<le> (now div minute_us mod 60) div n * n + n" by (simp add: pos_imp_zdiv_nonneg_iff)
  with n show ?thesis by (auto simp: step_slot_def Let_def replace_minute_def)
qed

definition fires_always :: "(string \<times> string) list \<Rightarrow> bool" where
  "fires_always ps \<longleftrightarrow> (case step_part ps of
       Some v \<Rightarrow> (case int_text v of Inl _ \<Rightarrow> False | Inr n \<Rightarrow> 0 < n)
     | None \<Rightarrow> \<not> isl (rbind (int_part ps ''hour'') (\<lambda>h. rbind (int_part ps ''minute'') (replace_time 0 h))) \<and> map_of ps ''day'' = None)"

lemma fires_always:
  assumes "cron_parts expr = Inr ps" and "fires_always ps"
  shows "\<not> isl (next_cron_fire z expr now)"
proof (cases "step_part ps")
  case (Some v)
  with assms(2) obtain n where n: "int_text v = Inr n" "0 < n" by (auto simp: fires_always_def split: sum.splits)
  then obtain w where "step_slot n (z_local z now) = Inr w" using step_slot_total [of n "z_local z now"] by (cases "step_slot n (z_local z now)") auto
  with assms(1) Some n show ?thesis by (simp add: next_cron_fire_def next_slot_def)
next
  case None
  with assms(2) obtain h m t where hm: "int_part ps ''hour'' = Inr h" "int_part ps ''minute'' = Inr m" "replace_time 0 h m = Inr t"
    "map_of ps ''day'' = None"
    by (auto simp: fires_always_def not_isl)
  then obtain t' where "replace_time (z_local z now) h m = Inr t'" by (auto simp: replace_time_def split: if_splits)
  with assms(1) None hm show ?thesis by (simp add: next_cron_fire_def next_slot_def split: option.splits)
qed

lemma schedules_fire: "list_all (\<lambda>(n, expr). n \<noteq> [] \<and> (case cron_parts expr of Inl _ \<Rightarrow> False | Inr ps \<Rightarrow> fires_always ps)) schedules"
  by code_simp

text \<open>After start-up every schedule of the program has an active timer, whatever the timers were before; start-up
  creates exactly those that had none.\<close>

lemma schedules_armed:
  assumes "kernel_reach reg k"
  shows "\<exists>k' evs. init_timers z k = Inr k' \<and> k_events k' = k_events k @ evs \<and>
    map ev_agg_id evs = filter (\<lambda>n. \<not> timer_active k n) (map fst schedules) \<and>
    list_all (timer_active k') (map fst schedules)"
proof -
  have "n \<noteq> [] \<and> (\<forall>now. \<not> isl (next_cron_fire z expr now))" if "(n, expr) \<in> set schedules" for n expr
  proof -
    from schedules_fire that have "n \<noteq> []" "case cron_parts expr of Inl _ \<Rightarrow> False | Inr ps \<Rightarrow> fires_always ps"
      unfolding list_all_iff by auto
    then show ?thesis using fires_always [of expr _ z] by (cases "cron_parts expr") auto
  qed
  moreover have "distinct (map fst schedules)" by code_simp
  ultimately obtain k' evs where k': "init_timers z k = Inr k'" "k_events k' = k_events k @ evs"
    "map ev_agg_id evs = filter (\<lambda>n. \<not> timer_active k n) (map fst schedules)"
    "\<forall>n. n \<noteq> [] \<longrightarrow> (timer_active k' n \<longleftrightarrow> n \<in> set (map fst schedules) \<or> timer_active k n)"
    using seed_timers_effect [OF kernel_reach_ok [OF assms], of schedules z] unfolding init_timers_def by blast
  moreover have "n \<noteq> []" if "n \<in> set (map fst schedules)" for n using schedules_fire that by (auto simp: list_all_iff)
  ultimately show ?thesis by (auto simp: list_all_iff)
qed

end
