(* ===== verification/Work_Ports.thy ===== *)
theory Work_Ports
  imports Execute_Handler
begin

text \<open>
  The commands of \<open>core/runtime/read_ports/work.py\<close> that start and stop the execution of a work item, and the
  test of \<open>runtime_loop.py\<close> they rest on. Reading the log is \<open>gask\<close>, a query that may raise. The parsing of a plan
  is the parameter \<open>loads\<close>; \<open>cancel_exec\<close> is the scheduler's \<open>cancel_executions_for\<close> (theory Scheduler), whose
  errors the code swallows.
\<close>

section \<open>Queries\<close>

definition gask :: "(gov \<Rightarrow> 'a res) \<Rightarrow> 'a gm" where
  "gask f = (\<lambda>g. (g, f g))"

lemma gbind_ask: "f g = Inr x \<Longrightarrow> gbind (gask f) h g = h x g"
  by (simp add: gbind_def gask_def)

definition query_work_item :: "string \<Rightarrow> work_row option gm" where
  "query_work_item i = gread (\<lambda>g. get_work_item (g_kernel g) i)"

definition raise :: "err \<Rightarrow> 'a gm" where
  "raise e = (\<lambda>g. (g, Inl e))"

definition executions_of :: "kernel \<Rightarrow> string \<Rightarrow> exec_item list res" where
  "executions_of k event_id = rbind (read_scheduled_executions k None None) (\<lambda>items. Inr (filter (\<lambda>it. it_event_id it = event_id) items))"

definition latest_execute_handler_failed :: "kernel \<Rightarrow> string \<Rightarrow> bool res" where
  "latest_execute_handler_failed k i =
     rbind (current_execute_requested k i) (\<lambda>cur.
       case cur of
         None \<Rightarrow> Inr False
       | Some e \<Rightarrow> rbind (executions_of k (ev_id e)) (\<lambda>rows.
           Inr (rows \<noteq> [] \<and> list_all (\<lambda>it. it_status it \<in> set terminal_handler_statuses) rows \<and>
                list_ex (\<lambda>it. it_status it = ''failed'') rows)))"

section \<open>Starting\<close>

definition row_status :: "work_row \<Rightarrow> val" where
  "row_status r = py_or (w_status r) (VStr ''pending'')"

text \<open>The checks of the plan.\<close>

definition check_plan :: "(string \<Rightarrow> val option) \<Rightarrow> val \<Rightarrow> unit res" where
  "check_plan loads raw =
     (case raw of
        VStr s \<Rightarrow>
          if strip s = [] then Inl (ValueError ''Work item has no executable_plan'')
          else (case loads s of
              None \<Rightarrow> Inl (ValueError ''invalid executable_plan JSON'')
            | Some (VObj plan) \<Rightarrow>
                (case get plan ''steps'' of
                   VList steps \<Rightarrow>
                     if list_ex (\<lambda>v. case v of VObj d \<Rightarrow> True | _ \<Rightarrow> False) steps then Inr ()
                     else Inl (ValueError ''executable_plan has no steps'')
                 | _ \<Rightarrow> Inl (ValueError ''executable_plan must be an object with a steps list''))
            | Some _ \<Rightarrow> Inl (ValueError ''executable_plan must be an object with a steps list''))
      | _ \<Rightarrow> Inl (ValueError ''Work item has no executable_plan''))"

definition blocked_status :: "kernel \<Rightarrow> work_row \<Rightarrow> string \<Rightarrow> unit res" where
  "blocked_status k r i =
     (if row_status r = VStr ''completed'' \<or> row_status r = VStr ''cancelled'' then Inl (ValueError ''Work item already terminal'')
      else rbind (if row_status r = VStr ''running'' then latest_execute_handler_failed k i else Inr False) (\<lambda>handler_failed.
        if (row_status r = VStr ''running'' \<or> row_status r = VStr ''waiting_approval'') \<and> \<not> handler_failed
        then Inl (ValueError ''wait for completion or resolve approval'') else Inr ()))"

definition execute_refused :: "(string \<Rightarrow> val option) \<Rightarrow> kernel \<Rightarrow> string \<Rightarrow> unit res" where
  "execute_refused loads k i =
     (case get_work_item k i of
        None \<Rightarrow> Inl (KeyError i)
      | Some r \<Rightarrow>
          if w_work_type r = VStr ''goal'' then Inl (ValueError ''Goals cannot be executed'')
          else rbind (check_plan loads (w_plan r)) (\<lambda>_. blocked_status k r i))"

definition emit_status :: "string \<Rightarrow> dict \<Rightarrow> string \<Rightarrow> unit gm" where
  "emit_status i p actor = gbind (gemit ''WorkItemStatusChanged'' ''work_item'' i p actor None None) (\<lambda>_. gret ())"

definition emit_execute_requested :: "string \<Rightarrow> unit gm" where
  "emit_execute_requested i =
     gbind (gemit ''ExecuteRequested'' ''action'' (exec_key i) [(''action_id'', VStr i)] ''user'' None None) (\<lambda>_. gret ())"

definition discard_stash :: "string \<Rightarrow> unit gm" where
  "discard_stash i = gmod (\<lambda>g. g\<lparr>g_resumes := discard_rerun_plan_stash i (g_resumes g)\<rparr>)"

definition updated_item :: "string \<Rightarrow> work_row gm" where
  "updated_item i = gbind (query_work_item i) (\<lambda>r. case r of
     None \<Rightarrow> raise (RuntimeError ''Work item missing after execute request'') | Some x \<Rightarrow> gret x)"

definition request_work_item_execute :: "(string \<Rightarrow> val option) \<Rightarrow> string \<Rightarrow> work_row gm" where
  "request_work_item_execute loads i =
     gbind (gask (\<lambda>g. execute_refused loads (g_kernel g) i)) (\<lambda>_.
     gbind (gmod (unflag_cancel (exec_key i))) (\<lambda>_.
     gbind (emit_status i [(''status'', VStr ''running'')] ''user'') (\<lambda>_.
     gbind (emit_execute_requested i) (\<lambda>_.
     gbind (discard_stash i) (\<lambda>_. updated_item i)))))"

definition ensure_work_item_execute_requested :: "string \<Rightarrow> work_row gm" where
  "ensure_work_item_execute_requested i =
     gbind (query_work_item i) (\<lambda>row. case row of
       None \<Rightarrow> raise (KeyError i)
     | Some r \<Rightarrow>
         if row_status r \<noteq> VStr ''running'' then raise (ValueError ''Work item must be running'')
         else gbind (emit_execute_requested i) (\<lambda>_. gbind (discard_stash i) (\<lambda>_. updated_item i)))"

section \<open>Stopping\<close>

definition stop_work_item_execution :: "(string \<Rightarrow> gov \<Rightarrow> gov) \<Rightarrow> string \<Rightarrow> unit gm" where
  "stop_work_item_execution cancel_exec i = gbind (gmod (flag_cancel (exec_key i))) (\<lambda>_. gmod (cancel_exec i))"

definition query_background_work_item :: "string \<Rightarrow> work_row option gm" where
  "query_background_work_item i = gbind (query_work_item i) (\<lambda>row. case row of
     None \<Rightarrow> gret None | Some r \<Rightarrow> gret (if w_work_type r \<noteq> VStr ''background'' then None else Some r))"

definition terminal_background_statuses :: "string list" where
  "terminal_background_statuses = [''completed'', ''failed'', ''cancelled'']"

definition cancel_background_work_item :: "(string \<Rightarrow> gov \<Rightarrow> gov) \<Rightarrow> string \<Rightarrow> work_row gm" where
  "cancel_background_work_item cancel_exec i =
     gbind (query_background_work_item i) (\<lambda>row. case row of
       None \<Rightarrow> raise (KeyError i)
     | Some r \<Rightarrow>
         if w_status r \<in> VStr ` set terminal_background_statuses then raise (ValueError ''Task already terminal'')
         else
           gbind (stop_work_item_execution cancel_exec i) (\<lambda>_.
           gbind (gmod (\<lambda>g. g\<lparr>g_resumes := snd (clear_plan_resumes_for_work_item i (g_resumes g))\<rparr>)) (\<lambda>_.
           gbind (emit_status i [(''status'', VStr ''cancelled'')] ''user'') (\<lambda>_.
           gbind (query_background_work_item i) (\<lambda>row'. case row' of
             None \<Rightarrow> raise (RuntimeError ''Task missing after cancel'') | Some x \<Rightarrow> gret x)))))"

section \<open>Reading the log of a work item\<close>

text \<open>The events a query by aggregate returns, newest first.\<close>

lemma read_events_desc:
  assumes ok: "kernel_ok k" and q: "q_order q = ''desc''" "q_offset q = None" "q_limit q = None \<or> q_limit q = Some (int n)" "int n \<le> max_limit"
    and match: "\<And>r. r \<in> set (k_log k) \<Longrightarrow> row_matches q r \<longleftrightarrow> P (row_event r)"
  shows "read_events k q = Inr ((if q_limit q = None then id else take n) (rev (filter P (k_events k))))"
proof -
  have rows: "filter (row_matches q) (k_log k) = filter (P \<circ> row_event) (k_log k)"
    by (rule filter_cong) (simp_all add: match)
  have f: "fetch_event_log_rows q (k_log k) = Inr ((if q_limit q = None then id else take n) (rev (filter (P \<circ> row_event) (k_log k))))"
    using q unfolding fetch_event_log_rows_def rows
    by (auto simp: sort_increasing increasing_filter kernel_okD(1) [OF ok] safe_limit_def safe_offset_def safe_order_def take_opt_def Let_def)
  have "traverse (from_row (k_reg k)) rs = Inr (map row_event rs)" if "set rs \<subseteq> set (k_log k)" for rs
    by (rule traverse_total) (use kernel_okD(2) [OF ok] that in \<open>auto intro: from_row_ok\<close>)
  moreover have "set ((if q_limit q = None then id else take n) (rev (filter (P \<circ> row_event) (k_log k)))) \<subseteq> set (k_log k)"
    by (auto dest: in_set_takeD)
  ultimately show ?thesis
    unfolding read_events_def f by (simp add: k_events_def filter_map rev_map take_map)
qed

definition status_event :: "string \<Rightarrow> event \<Rightarrow> bool" where
  "status_event i e \<longleftrightarrow> ev_agg_type e = ''work_item'' \<and> ev_agg_id e = i \<and>
     ev_type e \<in> {''WorkItemCreated'', ''WorkItemStatusChanged'', ''WorkItemUpdated''}"

definition request_event :: "string \<Rightarrow> event \<Rightarrow> bool" where
  "request_event i e \<longleftrightarrow> ev_agg_type e = ''action'' \<and> ev_agg_id e = exec_key i \<and> ev_type e = ''ExecuteRequested''"

lemma row_event_agg_id [simp]: "ev_agg_id (row_event r) = lr_agg_id r"
  by (simp add: row_event_def)

lemma status_events_log:
  assumes "kernel_ok k"
  shows "status_events k i = Inr (rev (filter (status_event i) (k_events k)))"
  unfolding status_events_def
  by (subst read_events_desc [OF assms, where n = 0 and P = "status_event i"])
     (use kernel_okD(2) [OF assms] in \<open>auto simp: all_events_def row_matches_def opt_eq_def status_event_def max_limit_def\<close>)

lemma execute_requests_log:
  assumes "kernel_ok k"
  shows "execute_requests k i = Inr (take 1 (rev (filter (request_event i) (k_events k))))"
  unfolding execute_requests_def
  by (subst read_events_desc [OF assms, where n = 1 and P = "request_event i"])
     (use kernel_okD(2) [OF assms] in \<open>auto simp: all_events_def row_matches_def opt_eq_def request_event_def max_limit_def
        exec_key_def exec_aggregate_def\<close>)

text \<open>The current attempt, as a function of the log.\<close>

definition attempt_of :: "event list \<Rightarrow> string \<Rightarrow> event option" where
  "attempt_of evs i =
     (let running = List.find (\<lambda>e. get (ev_payload e) ''status'' = VStr ''running'') (rev (filter (status_event i) evs));
          running_seq = (case running of None \<Rightarrow> 0 | Some e \<Rightarrow> seq_of e)
      in case rev (filter (request_event i) evs) of
           [] \<Rightarrow> None
         | newest # _ \<Rightarrow>
             if running_seq < seq_of newest then Some newest
             else (case running of
                     Some r \<Rightarrow> if ev_caused_by r = Some (ev_id newest) then Some newest else None
                   | None \<Rightarrow> None))"

lemma current_attempt_log: "kernel_ok k \<Longrightarrow> current_execute_requested k i = Inr (attempt_of (k_events k) i)"
  by (simp add: current_execute_requested_def status_events_log execute_requests_log attempt_of_def Let_def split: list.splits)

lemma attempt_of_other:
  "\<not> status_event i e \<Longrightarrow> \<not> request_event i e \<Longrightarrow> attempt_of (evs @ [e]) i = attempt_of evs i"
  by (simp add: attempt_of_def)

lemma attempt_of_request:
  assumes "request_event i e" and "\<And>x. x \<in> set evs \<Longrightarrow> seq_of x < seq_of e" and "0 < seq_of e"
  shows "attempt_of (evs @ [e]) i = Some e"
proof -
  have "\<not> status_event i e" using assms(1) by (simp add: request_event_def status_event_def)
  moreover have "seq_of x < seq_of e" if "List.find Q (rev (filter (status_event i) evs)) = Some x" for Q x
    using that assms(2) by (auto simp: find_Some_iff) (metis filter_is_subset nth_mem rev_rev_ident set_rev subsetD length_rev)
  ultimately show ?thesis using assms(1,3) by (auto simp: attempt_of_def Let_def split: option.splits)
qed

lemma seq_next_event [simp]: "seq_of (next_event k et agg aid p actor caused corr) = k_seq k + 1"
  by (simp add: next_event_def with_seq_def seq_of_def)

lemma logged_seq: "kernel_ok k \<Longrightarrow> e \<in> set (k_events k) \<Longrightarrow> seq_of e \<le> k_seq k"
  by (auto simp: k_events_def intro: seq_le)

lemma seq_nonneg: "kernel_ok k \<Longrightarrow> 0 \<le> k_seq k"
  by (simp add: kernel_ok_def fold_max_ge)

section \<open>The effect of the emissions\<close>

text \<open>A status change of item \<open>i\<close>: one event, the new status, everything else about the items as before.\<close>

definition status_logged :: "kernel \<Rightarrow> string \<Rightarrow> dict \<Rightarrow> string \<Rightarrow> kernel \<Rightarrow> bool" where
  "status_logged k i p actor k' \<longleftrightarrow>
     logged k (next_event k ''WorkItemStatusChanged'' ''work_item'' i p actor None None) k' \<and>
     (\<forall>j. rel_option (\<lambda>r r'. w_id r' = w_id r \<and> w_work_type r' = w_work_type r \<and> w_plan r' = w_plan r \<and> w_parent r' = w_parent r \<and>
         w_status r' = (if j = i then get p ''status'' else w_status r))
       (sql_find w_id j (work_rows k)) (sql_find w_id j (work_rows k')))"

definition same_work :: "work_row \<Rightarrow> work_row \<Rightarrow> bool" where
  "same_work r r' \<longleftrightarrow> w_id r' = w_id r \<and> w_work_type r' = w_work_type r \<and> w_plan r' = w_plan r \<and> w_parent r' = w_parent r \<and>
     w_status r' = w_status r"

lemma recalc_same_work: "rel_option same_work (sql_find w_id j t) (sql_find w_id j (recalculate_parent_goal_progress c ts h t))"
proof -
  have upd: "rel_option same_work (sql_find w_id j t) (sql_find w_id j (sql_update P (\<lambda>r. r\<lparr>w_progress := a, w_last_activity := b, w_updated_at := ts\<rparr>) t))"
    for P a b by (subst sql_find_update) (simp_all add: option.rel_map same_work_def option.rel_refl)
  have refl: "rel_option same_work x x" for x by (rule option.rel_refl) (simp add: same_work_def)
  show ?thesis unfolding recalculate_parent_goal_progress_def Let_def
    by (auto split: option.splits val.splits intro: upd refl)
qed

lemma status_emitted:
  assumes ok: "kernel_ok (g_kernel g)" and p: "get p ''status'' = VStr s" "s \<noteq> []"
  shows "\<exists>k'. emit_status i p actor g = (g\<lparr>g_kernel := k'\<rparr>, Inr ()) \<and> status_logged (g_kernel g) i p actor k'"
proof -
  let ?ev = "next_event (g_kernel g) ''WorkItemStatusChanged'' ''work_item'' i p actor None None"
  define f where "f = (\<lambda>r :: work_row. if s = ''completed'' then r\<lparr>w_status := VStr s, w_updated_at := k_now (g_kernel g),
      w_completed_at := VTime (k_now (g_kernel g)), w_progress := VNum 1\<rparr> else r\<lparr>w_status := VStr s, w_updated_at := k_now (g_kernel g)\<rparr>)"
  define t where "t = sql_update (\<lambda>r. w_id r = i) f (work_rows (g_kernel g))"
  let ?t = "recalculate_parent_goal_progress i (k_now (g_kernel g)) None t"
  have g: "get (ev_payload ?ev) ''status'' = VStr s" using p by (simp add: schema_key_def)
  have "work_item_projector ?ev (work_rows (g_kernel g)) = Inr ?t"
    using p by (simp add: work_item_projector_def on_work_item_status_changed_def schema_key_def Let_def t_def f_def cong: if_cong)
  then have "run_projector WorkItem ?ev (k_db (g_kernel g)) = Inr ((k_db (g_kernel g))\<lparr>t_work_items := ?t\<rparr>)" by simp
  from emit_owned [OF ok _ _ this] obtain k' where em: "emit_event (g_kernel g) ''WorkItemStatusChanged'' ''work_item'' i p actor None None = Inr (k', ?ev)"
    and k': "work_rows k' = ?t" "logged (g_kernel g) ?ev k'" by (auto simp: handler_table_def)
  have "rel_option (\<lambda>r r'. w_id r' = w_id r \<and> w_work_type r' = w_work_type r \<and> w_plan r' = w_plan r \<and> w_parent r' = w_parent r \<and>
      w_status r' = (if j = i then VStr s else w_status r)) (sql_find w_id j (work_rows (g_kernel g))) (sql_find w_id j (work_rows k'))" for j
  proof -
    have "sql_find w_id j t = map_option (\<lambda>r. if w_id r = i then f r else r) (sql_find w_id j (work_rows (g_kernel g)))"
      unfolding t_def by (rule sql_find_update) (simp add: f_def)
    then have x: "rel_option same_work (map_option (\<lambda>r. if w_id r = i then f r else r) (sql_find w_id j (work_rows (g_kernel g))))
        (sql_find w_id j (work_rows k'))"
      using recalc_same_work [of j t] k'(1) by simp
    show ?thesis
      by (cases "sql_find w_id j (work_rows (g_kernel g))"; cases "sql_find w_id j (work_rows k')")
        (use x in \<open>auto simp: same_work_def f_def dest!: sql_find_key\<close>)
  qed
  with k'(2) have "status_logged (g_kernel g) i p actor k'" unfolding status_logged_def p(1) by blast
  with em show ?thesis by (intro exI [of _ k']) (simp add: emit_status_def gbind_def gemit_def gret_def Let_def)
qed

lemma request_emitted:
  assumes ok: "kernel_ok (g_kernel g)"
  shows "\<exists>k' ev. emit_execute_requested i g = (g\<lparr>g_kernel := k'\<rparr>, Inr ()) \<and> logged (g_kernel g) ev k' \<and> k_db k' = k_db (g_kernel g) \<and>
    request_event i ev \<and> seq_of ev = k_seq (g_kernel g) + 1 \<and> get (ev_payload ev) ''action_id'' = VStr i \<and> ev_caused_by ev = None"
proof -
  have "map_of handler_table ''ExecuteRequested'' = None" by code_simp
  from emit_unprojected [OF ok this, of "''action''" "exec_key i" "[(''action_id'', VStr i)]" "''user''" None None] show ?thesis
    by (auto simp: emit_execute_requested_def gbind_def gemit_def gret_def Let_def request_event_def schema_key_def
        intro!: exI [of _ "next_event (g_kernel g) ''ExecuteRequested'' ''action'' (exec_key i) [(''action_id'', VStr i)] ''user'' None None"])
qed

lemma status_loggedD:
  assumes "status_logged k i p actor k'"
  shows "kernel_ok k'" and "k_events k' = k_events k @ [next_event k ''WorkItemStatusChanged'' ''work_item'' i p actor None None]"
    and "k_seq k' = k_seq k + 1" and "k_now k' = k_now k"
    and "j \<noteq> [] \<Longrightarrow> get_work_item k j = Some r \<Longrightarrow> \<exists>r'. get_work_item k' j = Some r' \<and> w_work_type r' = w_work_type r \<and>
      w_plan r' = w_plan r \<and> w_parent r' = w_parent r \<and> w_status r' = (if j = i then get p ''status'' else w_status r)"
proof -
  show "kernel_ok k'" and "k_events k' = k_events k @ [next_event k ''WorkItemStatusChanged'' ''work_item'' i p actor None None]"
    and "k_seq k' = k_seq k + 1" and "k_now k' = k_now k"
    using assms by (auto simp: status_logged_def logged_def)
  assume j: "j \<noteq> []" and r: "get_work_item k j = Some r"
  from assms have "rel_option (\<lambda>r r'. w_id r' = w_id r \<and> w_work_type r' = w_work_type r \<and> w_plan r' = w_plan r \<and> w_parent r' = w_parent r \<and>
         w_status r' = (if j = i then get p ''status'' else w_status r))
       (sql_find w_id j (work_rows k)) (sql_find w_id j (work_rows k'))" unfolding status_logged_def by blast
  with r j show "\<exists>r'. get_work_item k' j = Some r' \<and> w_work_type r' = w_work_type r \<and>
      w_plan r' = w_plan r \<and> w_parent r' = w_parent r \<and> w_status r' = (if j = i then get p ''status'' else w_status r)"
    by (auto simp: get_work_item_find option_rel_Some1)
qed

section \<open>Properties\<close>

lemma no_stash_left: "i \<noteq> [] \<Longrightarrow> peek_plan_resume (rerun_stash_key i) (discard_rerun_plan_stash i t) = None"
  by (simp add: discard_rerun_plan_stash_def delete_resume_def peek_plan_resume_def sql_find_delete_key)

text \<open>Every execution of the current attempt has ended, one of them with a failure.\<close>

definition all_ended :: "kernel \<Rightarrow> string \<Rightarrow> bool" where
  "all_ended k i \<longleftrightarrow> (\<exists>e its. current_execute_requested k i = Inr (Some e) \<and> executions_of k (ev_id e) = Inr its \<and>
     (\<forall>it \<in> set its. it_status it = ''completed'' \<or> it_status it = ''failed'') \<and> (\<exists>it \<in> set its. it_status it = ''failed''))"

lemma failed_all_ended: "latest_execute_handler_failed k i = Inr True \<Longrightarrow> all_ended k i"
  unfolding all_ended_def
  by (fastforce simp: latest_execute_handler_failed_def list_all_iff list_ex_iff terminal_handler_statuses_def split: option.splits)

definition running_payload :: dict where
  "running_payload = [(''status'', VStr ''running'')]"

text \<open>A granted command: one status change and, behind it, the request of the new attempt.\<close>

lemma execute_granted:
  assumes ok: "kernel_ok (g_kernel g)" and i: "i \<noteq> []" and granted: "execute_refused loads (g_kernel g) i = Inr u"
  shows "\<exists>k' r e. request_work_item_execute loads i g =
      ((unflag_cancel (exec_key i) g)\<lparr>g_kernel := k', g_resumes := discard_rerun_plan_stash i (g_resumes g)\<rparr>, Inr r) \<and>
    kernel_ok k' \<and> get_work_item k' i = Some r \<and> w_status r = VStr ''running'' \<and> request_event i e \<and>
    k_events k' = k_events (g_kernel g) @ [next_event (g_kernel g) ''WorkItemStatusChanged'' ''work_item'' i running_payload ''user'' None None, e] \<and>
    current_execute_requested k' i = Inr (Some e)"
proof -
  from granted obtain r0 where r0: "get_work_item (g_kernel g) i = Some r0" by (auto simp: execute_refused_def split: option.splits)
  let ?g0 = "unflag_cancel (exec_key i) g"
  have ok0: "kernel_ok (g_kernel ?g0)" using ok by (simp add: unflag_cancel_def)
  from status_emitted [OF ok0, of running_payload "''running''" i "''user''"] obtain k1 where
    k1: "emit_status i running_payload ''user'' ?g0 = (?g0\<lparr>g_kernel := k1\<rparr>, Inr ())" "status_logged (g_kernel g) i running_payload ''user'' k1"
    by (auto simp: unflag_cancel_def running_payload_def)
  note s1 = status_loggedD [OF k1(2)]
  from s1(5) [OF i r0] obtain r1 where r1: "get_work_item k1 i = Some r1" "w_status r1 = VStr ''running''" by (auto simp: running_payload_def)
  let ?g1 = "?g0\<lparr>g_kernel := k1\<rparr>"
  from request_emitted [of ?g1 i] s1(1) obtain k2 e2 where
    k2: "emit_execute_requested i ?g1 = (?g1\<lparr>g_kernel := k2\<rparr>, Inr ())" "logged k1 e2 k2" "k_db k2 = k_db k1" "request_event i e2"
      "seq_of e2 = k_seq k1 + 1" by auto
  let ?e1 = "next_event (g_kernel g) ''WorkItemStatusChanged'' ''work_item'' i running_payload ''user'' None None"
  have evs: "k_events k2 = (k_events (g_kernel g) @ [?e1]) @ [e2]" using s1(2) loggedD(3) [OF k2(2)] by simp
  have r2: "get_work_item k2 i = Some r1" using r1(1) k2(3) by (simp add: get_work_item_find [OF i])
  have "request_work_item_execute loads i g = (?g1\<lparr>g_kernel := k2, g_resumes := discard_rerun_plan_stash i (g_resumes g)\<rparr>, Inr r1)"
    using granted k1(1) k2(1) r2
    by (simp add: request_work_item_execute_def gbind_def gask_def gmod_def discard_stash_def updated_item_def query_work_item_def
        gread_def gret_def unflag_cancel_def running_payload_def)
  moreover have "attempt_of (k_events k2) i = Some e2"
    unfolding evs
  proof (rule attempt_of_request [OF k2(4)])
    show "0 < seq_of e2" using seq_nonneg [OF s1(1)] k2(5) by simp
    show "seq_of x < seq_of e2" if "x \<in> set (k_events (g_kernel g) @ [?e1])" for x
      using logged_seq [OF s1(1), of x] that s1(2) k2(5) by simp
  qed
  then have "current_execute_requested k2 i = Inr (Some e2)" using current_attempt_log [OF loggedD(1) [OF k2(2)]] by simp
  ultimately show ?thesis using evs k2(4) r1(2) r2 loggedD(1) [OF k2(2)]
    by (intro exI [of _ k2] exI [of _ r1] exI [of _ e2]) simp
qed

text \<open>C15. An execute command is refused without any effect, or it starts one new attempt: it logs the status running and
  behind it one request, which is the current attempt of the item from then on; the item runs, its cancel flag
  and the stash of an abandoned rerun are gone. A running item is accepted only when every execution of
  its current attempt has ended and one of them failed.\<close>

theorem execute_command_starts_one_attempt:
  assumes "gov_reach g" and i: "i \<noteq> []"
  shows "case execute_refused loads (g_kernel g) i of
      Inl e \<Rightarrow> request_work_item_execute loads i g = (g, Inl e)
    | Inr u \<Rightarrow> \<exists>g' r e1 e2. request_work_item_execute loads i g = (g', Inr r) \<and> k_events (g_kernel g') = k_events (g_kernel g) @ [e1, e2] \<and>
        status_event i e1 \<and> get (ev_payload e1) ''status'' = VStr ''running'' \<and> request_event i e2 \<and>
        current_execute_requested (g_kernel g') i = Inr (Some e2) \<and>
        get_work_item (g_kernel g') i = Some r \<and> w_status r = VStr ''running'' \<and> \<not> cancel_flagged (exec_key i) g' \<and>
        peek_plan_resume (rerun_stash_key i) (g_resumes g') = None \<and>
        (\<forall>r0. get_work_item (g_kernel g) i = Some r0 \<and> w_status r0 = VStr ''running'' \<longrightarrow> all_ended (g_kernel g) i)"
proof (cases "execute_refused loads (g_kernel g) i")
  case (Inl e)
  then show ?thesis by (simp add: request_work_item_execute_def gbind_def gask_def)
next
  case (Inr u)
  have ok: "kernel_ok (g_kernel g)" using gov_reach_ok [OF assms(1)] by (simp add: gov_ok_def)
  have "all_ended (g_kernel g) i" if "get_work_item (g_kernel g) i = Some r" "w_status r = VStr ''running''" for r
    using Inr that by (auto simp: execute_refused_def blocked_status_def row_status_def py_or_def split: if_splits
        intro!: failed_all_ended)
  moreover have "status_event i (next_event k ''WorkItemStatusChanged'' ''work_item'' i running_payload ''user'' None None)"
    "get (ev_payload (next_event k ''WorkItemStatusChanged'' ''work_item'' i running_payload ''user'' None None)) ''status'' = VStr ''running''" for k
    by (simp_all add: status_event_def schema_key_def running_payload_def)
  ultimately show ?thesis using Inr execute_granted [OF ok i Inr] no_stash_left [OF i]
    by (auto simp: cancel_flagged_def unflag_cancel_def)
qed

definition todo_kernel :: kernel where
  "todo_kernel = emit_ok asked_kernel ''WorkItemCreated'' ''work_item'' ''w1''
     [(''title'', VStr ''t''), (''work_type'', VStr ''action''), (''executable_plan'', VStr ''p'')]"

lemma todo_reach: "kernel_reach current_registry todo_kernel"
  unfolding todo_kernel_def
  by (intro emit_ok_reach asked_reach) (auto simp: well_routed_def event_owner_def with_seq_def create_event_def handler_table_def)

theorem execute_command_starts_one_attempt_witness:
  "\<exists>g' r e1 e2. request_work_item_execute (xe_loads sample_env) ''w1'' (gov_of todo_kernel) = (g', Inr r) \<and>
     k_events (g_kernel g') = k_events todo_kernel @ [e1, e2] \<and> request_event ''w1'' e2 \<and> w_status r = VStr ''running''"
proof -
  have "execute_refused (xe_loads sample_env) (g_kernel (gov_of todo_kernel)) ''w1'' = Inr ()" unfolding gov_fields by code_simp
  with execute_command_starts_one_attempt [OF gov_of_reach [OF todo_reach], of "''w1''" "xe_loads sample_env"] show ?thesis
    by auto
qed

end
