(* ===== verification/Recovery.thy ===== *)
theory Recovery
  imports Work_Ports
begin

text \<open>
  Start-up recovery of \<open>core/runtime/runtime_loop.py\<close> and the rework window of \<open>core/runtime/read_ports/__init__.py\<close>:
  running items whose dispatch a restart interrupted, reruns and reworks that were opened and never
  dispatched, tool calls that were announced and never audited; and the dispatch of background items.
  A row whose handling raises is logged and skipped (\<open>gattempt\<close>); what it had emitted stays.
\<close>

section \<open>Running items\<close>

definition execute_completed_to_work :: "(string \<times> string) list" where
  "execute_completed_to_work = [(''success'', ''completed''), (''error'', ''failed''), (''waiting_approval'', ''waiting_approval''),
     (''cancelled'', ''cancelled''), (''empty'', ''failed'')]"

definition execute_completions :: "kernel \<Rightarrow> string \<Rightarrow> event list res" where
  "execute_completions k i =
     read_events k (all_events\<lparr>q_type := Some ''ExecuteCompleted'', q_agg_type := Some ''action'',
       q_agg_id := Some (exec_aggregate i), q_order := ''desc'', q_limit := Some 20\<rparr>)"

definition outcome_status :: "event list \<Rightarrow> string \<Rightarrow> string option" where
  "outcome_status completions event_id =
     (case List.find (\<lambda>e. ev_caused_by e = Some event_id) completions of
        None \<Rightarrow> None
      | Some e \<Rightarrow> map_of execute_completed_to_work (py_str (py_or (get (ev_payload e) ''status'') (VStr []))))"

definition sync_completed_execute_status :: "string \<Rightarrow> string \<Rightarrow> bool gm" where
  "sync_completed_execute_status i event_id =
     (if event_id = [] then gret False
      else gbind (gask (\<lambda>g. execute_completions (g_kernel g) i)) (\<lambda>evs.
        case outcome_status evs event_id of
          None \<Rightarrow> gret False
        | Some s \<Rightarrow> gbind (emit_status i [(''status'', VStr s)] ''kernel'') (\<lambda>_. gret True)))"

definition emit_progress :: "string \<Rightarrow> rat \<Rightarrow> string \<Rightarrow> unit gm" where
  "emit_progress i x actor =
     gbind (gemit ''WorkItemUpdated'' ''work_item'' i [(''progress'', VNum x)] actor None None) (\<lambda>_. gret ())"

text \<open>One row of the scan, given the request of its current attempt; the answer is whether it counts as recovered.\<close>

definition executions_for :: "exec_item list \<Rightarrow> event option \<Rightarrow> exec_item list" where
  "executions_for items cur = (case cur of None \<Rightarrow> [] | Some e \<Rightarrow> filter (\<lambda>it. it_event_id it = ev_id e) items)"

definition recover_attempt :: "exec_item list \<Rightarrow> work_row \<Rightarrow> event option \<Rightarrow> bool gm" where
  "recover_attempt items r cur =
     (if list_ex (\<lambda>it. it_status it \<notin> set terminal_handler_statuses) (executions_for items cur) then gret False
      else (case failed_handler_close_error (executions_for items cur) of
          Some er \<Rightarrow> gbind (emit_status (w_id r) [(''status'', VStr ''failed''), (''error'', VStr er)] ''kernel'') (\<lambda>_. gret True)
        | None \<Rightarrow>
            if executions_for items cur \<noteq> [] then sync_completed_execute_status (w_id r) (case cur of None \<Rightarrow> [] | Some e \<Rightarrow> ev_id e)
            else if w_work_type r \<noteq> VStr ''background'' then
              (if w_work_type r = VStr ''goal'' \<or> \<not> truthy (w_plan r) then gret False
               else gbind (ensure_work_item_execute_requested (w_id r)) (\<lambda>_. gret True))
            else
              gbind (emit_status (w_id r) [(''status'', VStr ''pending'')] ''kernel'') (\<lambda>_.
              gbind (gask (\<lambda>g. py_float (py_or (w_progress r) (VInt 0)))) (\<lambda>x.
              gbind (emit_progress (w_id r) x ''kernel'') (\<lambda>_. gret True)))))"

definition recover_item :: "exec_item list \<Rightarrow> work_row \<Rightarrow> bool gm" where
  "recover_item items r = gbind (gask (\<lambda>g. current_execute_requested (g_kernel g) (w_id r))) (recover_attempt items r)"

fun count_each :: "('a \<Rightarrow> bool gm) \<Rightarrow> 'a list \<Rightarrow> nat gm" where
  "count_each f [] = gret 0"
| "count_each f (x # xs) =
     gbind (gattempt (f x)) (\<lambda>hit. gbind (count_each f xs) (\<lambda>n. gret (n + (if hit = Inr True then 1 else 0))))"

definition rows_with_status :: "string \<Rightarrow> kernel \<Rightarrow> work_row list" where
  "rows_with_status s k = query_work_items k (all_work\<lparr>wf_status := Some s, wf_limit := Some 5000, wf_order := Some ''created_at_asc''\<rparr>)"

section \<open>Reruns and reworks that never dispatched\<close>

definition half_open_rerun :: "kernel \<Rightarrow> string \<Rightarrow> bool res" where
  "half_open_rerun k i =
     rbind (status_events k i) (\<lambda>evs.
       case List.find (\<lambda>e. has ''status'' (ev_payload e)) evs of
         None \<Rightarrow> Inr False
       | Some e \<Rightarrow>
           if get (ev_payload e) ''status'' \<noteq> VStr ''pending'' then Inr False
           else if get (ev_payload e) ''reason'' \<noteq> VStr ''rerun_restore'' then Inr False
           else rbind (execute_requests k i) (\<lambda>reqs.
             Inr (case reqs of [] \<Rightarrow> True | q # _ \<Rightarrow> \<not> seq_of e < seq_of q)))"

definition rework_prior_statuses :: "string list" where
  "rework_prior_statuses = [''completed'', ''failed'']"

definition rework_open_and_prior :: "kernel \<Rightarrow> string \<Rightarrow> (event option \<times> string option) res" where
  "rework_open_and_prior k i =
     rbind (status_events k i) (\<lambda>all.
       case filter (\<lambda>e. has ''status'' (ev_payload e)) all of
         [] \<Rightarrow> Inr (None, None)
       | e # rest \<Rightarrow>
           if get (ev_payload e) ''status'' \<noteq> VStr ''pending'' then Inr (None, None)
           else if get (ev_payload e) ''reason'' \<noteq> VStr ''rework_restore'' then Inr (None, None)
           else rbind (execute_requests k i) (\<lambda>reqs.
             Inr (if (case reqs of [] \<Rightarrow> False | q # _ \<Rightarrow> seq_of e < seq_of q) then (None, None)
                  else (Some e,
                    case rest of
                      [] \<Rightarrow> None
                    | e' # _ \<Rightarrow> let s = py_str (py_or (get (ev_payload e') ''status'') (VStr [])) in
                        if s \<in> set rework_prior_statuses then Some s else None))))"

definition rework_open_waiting_for_execute :: "kernel \<Rightarrow> string \<Rightarrow> bool res" where
  "rework_open_waiting_for_execute k i = rbind (rework_open_and_prior k i) (\<lambda>(e, prior). Inr (e \<noteq> None))"

definition restore_stash :: "string \<Rightarrow> unit gm" where
  "restore_stash i = (\<lambda>g. case restore_rerun_plan_stash (k_now (g_kernel g)) i (g_resumes g) of
     Inl e \<Rightarrow> (g, Inl e) | Inr (n, t) \<Rightarrow> (g\<lparr>g_resumes := t\<rparr>, Inr ()))"

definition restore_half_open_rework :: "string \<Rightarrow> bool \<Rightarrow> string \<Rightarrow> string option gm" where
  "restore_half_open_rework actor require_stash i =
     gbind (gask (\<lambda>g. rework_open_and_prior (g_kernel g) i)) (\<lambda>(e, prior).
       case prior of
         None \<Rightarrow> gret None
       | Some s \<Rightarrow>
           gbind (gread (\<lambda>g. require_stash \<and> peek_plan_resume (rerun_stash_key i) (g_resumes g) = None)) (\<lambda>skip.
           if skip then gret None
           else gbind (restore_stash i) (\<lambda>_.
             gbind (emit_status i [(''status'', VStr s), (''reason'', VStr ''rework_restore'')] actor) (\<lambda>_. gret (Some s)))))"

definition restore_half_open_item :: "work_row \<Rightarrow> bool gm" where
  "restore_half_open_item r =
     (let i = w_id r in
      gbind (gask (\<lambda>g. half_open_rerun (g_kernel g) i)) (\<lambda>open_rerun.
        if open_rerun then
          gbind (restore_stash i) (\<lambda>_.
          gbind (emit_status i [(''status'', VStr ''completed''), (''reason'', VStr ''rerun_restore'')] ''kernel'') (\<lambda>_. gret True))
        else gbind (restore_half_open_rework ''kernel'' False i) (\<lambda>s. gret (s \<noteq> None))))"

definition still_half_open :: "kernel \<Rightarrow> string \<Rightarrow> bool res" where
  "still_half_open k i = rbind (half_open_rerun k i) (\<lambda>b. if b then Inr True else rework_open_waiting_for_execute k i)"

text \<open>\<open>release_finished_rerun_stashes\<close> with a callback that may raise: the rest of the stashes then stays.\<close>

fun release_stashes :: "(string \<Rightarrow> bool res) \<Rightarrow> string list \<Rightarrow> resumes \<Rightarrow> resumes" where
  "release_stashes still [] t = t"
| "release_stashes still (i # is) t =
     (if i = [] then release_stashes still is (discard_rerun_plan_stash i t)
      else (case still i of
          Inl e \<Rightarrow> t
        | Inr b \<Rightarrow> release_stashes still is (if b then t else discard_rerun_plan_stash i t)))"

definition release_finished :: "unit gm" where
  "release_finished = gmod (\<lambda>g. g\<lparr>g_resumes :=
     release_stashes (still_half_open (g_kernel g)) (list_rerun_stash_work_ids (g_resumes g)) (g_resumes g)\<rparr>)"

definition restore_half_open_reruns :: "nat gm" where
  "restore_half_open_reruns =
     gbind (gread (\<lambda>g. rows_with_status ''pending'' (g_kernel g))) (\<lambda>rows.
     gbind (count_each restore_half_open_item rows) (\<lambda>n. gbind release_finished (\<lambda>_. gret n)))"

definition recover_running_items :: "nat gm" where
  "recover_running_items =
     gbind (gread (\<lambda>g. rows_with_status ''running'' (g_kernel g))) (\<lambda>rows.
     gbind (gask (\<lambda>g. read_scheduled_executions (g_kernel g) None None)) (\<lambda>items. count_each (recover_item items) rows))"

definition recover_interrupted_background_tasks :: "nat gm" where
  "recover_interrupted_background_tasks =
     gbind recover_running_items (\<lambda>n. gbind restore_half_open_reruns (\<lambda>m. gret (n + m)))"

section \<open>Tool calls without an audit\<close>

definition opt_text :: "string \<Rightarrow> string option" where
  "opt_text s = (if s = [] then None else Some s)"

definition interrupted_payload :: "dict \<Rightarrow> dict" where
  "interrupted_payload d =
     (let execution = strip (text_field d ''execution_id'') in
      [(''name'', VStr (text_field d ''name'')), (''error'', VStr ''interrupted_before_audit''),
       (''args_summary'', VStr (text_field d ''args_summary'')), (''latency_ms'', VInt 0)] @
      (if execution = [] then [] else [(''execution_id'', VStr execution)]) @
      (case get d ''retry_count'' of VNull \<Rightarrow> []
       | v \<Rightarrow> (case py_int v of Inl _ \<Rightarrow> [] | Inr n \<Rightarrow> [(''retry_count'', VInt n)])))"

definition intent_actor :: "dict \<Rightarrow> string" where
  "intent_actor d = py_str (py_or (get d ''actor'') (VStr ''kernel''))"

definition intent_cause :: "dict \<Rightarrow> string" where
  "intent_cause d = (let c = strip (text_field d ''caused_by'') in if c = [] then strip (text_field d ''execution_id'') else c)"

definition reconcile_intent :: "dict \<Rightarrow> bool gm" where
  "reconcile_intent d =
     gbind (gemit ''CapabilityFailed'' ''capability'' (''cap_'' @ text_field d ''name'') (interrupted_payload d) (intent_actor d)
       (opt_text (intent_cause d)) (opt_text (text_field d ''correlation_id''))) (\<lambda>_. gret True)"

definition reconcile_interrupted_capability_intents :: "nat gm" where
  "reconcile_interrupted_capability_intents =
     gbind (gread (\<lambda>g. fst (take_stale_capability_intents (g_resumes g)))) (\<lambda>intents.
     gbind (gmod (\<lambda>g. g\<lparr>g_resumes := snd (take_stale_capability_intents (g_resumes g))\<rparr>)) (\<lambda>_.
     count_each reconcile_intent intents))"

definition runtime_start :: "(nat \<times> nat) gm" where
  "runtime_start = gbind recover_interrupted_background_tasks (\<lambda>n. gbind reconcile_interrupted_capability_intents (\<lambda>m. gret (n, m)))"

section \<open>Dispatching a background item\<close>

text \<open>The oldest pending item is claimed; its command runs in a task of its own and ends with a result, an
  exception, or the cancellation of the task at shutdown.\<close>

definition claim_background :: "string option gm" where
  "claim_background =
     gbind (gread (\<lambda>g. query_work_items (g_kernel g) (all_work\<lparr>wf_type := Some ''background'', wf_status := Some ''pending'',
       wf_limit := Some 1, wf_order := Some ''created_at_asc''\<rparr>))) (\<lambda>rows.
     case rows of
       [] \<Rightarrow> gret None
     | r # _ \<Rightarrow>
         gbind (emit_status (w_id r) [(''status'', VStr ''running'')] ''background'') (\<lambda>_.
         gbind (emit_progress (w_id r) (1 / 10) ''background'') (\<lambda>_. gret (Some (w_id r)))))"

datatype command_end = Answer dict | Raised | TaskCancelled

definition dispatch_error :: "dict \<Rightarrow> string option" where
  "dispatch_error d =
     (let status = get d ''status''; er = py_or (get d ''error'') (VStr []) in
      if status = VStr ''timeout'' \<or> status = VStr ''error'' \<or> truthy er
      then Some (py_str (py_or er (py_or status (VStr ''dispatch_failed'')))) else None)"

definition dispatch_ended :: "string \<Rightarrow> command_end \<Rightarrow> unit gm" where
  "dispatch_ended i c = (\<lambda>g. case c of
       TaskCancelled \<Rightarrow> (g, Inr ())
     | Raised \<Rightarrow> (fst (emit_status i [(''status'', VStr ''failed'')] ''background'' g), Inr ())
     | Answer d \<Rightarrow>
         (case dispatch_error d of
            None \<Rightarrow> (g, Inr ())
          | Some er \<Rightarrow>
              (case emit_status i [(''status'', VStr ''failed''), (''error'', VStr er)] ''background'' g of
                 (g', Inr u) \<Rightarrow> (g', Inr u)
               | (g', Inl e) \<Rightarrow> (fst (emit_status i [(''status'', VStr ''failed'')] ''background'' g'), Inr ()))))"

section \<open>What one item's recovery may touch\<close>

text \<open>The events of an item: those of its row and those of its executions.\<close>

definition own_event :: "string \<Rightarrow> event \<Rightarrow> bool" where
  "own_event i e \<longleftrightarrow> ev_agg_type e = ''work_item'' \<and> ev_agg_id e = i \<or> ev_agg_type e = ''action'' \<and> ev_agg_id e = exec_key i"

definition runs :: "kernel \<Rightarrow> string \<Rightarrow> bool" where
  "runs k i \<longleftrightarrow> (\<exists>r. get_work_item k i = Some r \<and> w_status r = VStr ''running'')"

definition advanced :: "string \<Rightarrow> kernel \<Rightarrow> kernel \<Rightarrow> event list \<Rightarrow> bool" where
  "advanced i k k' evs \<longleftrightarrow> kernel_ok k' \<and> k_reg k' = k_reg k \<and> k_events k' = k_events k @ evs \<and>
     (\<forall>e \<in> set evs. own_event i e) \<and> (\<forall>j. j \<noteq> [] \<longrightarrow> j \<noteq> i \<longrightarrow> runs k j \<longrightarrow> runs k' j)"

lemma advanced_refl: "kernel_ok k \<Longrightarrow> advanced i k k []"
  by (simp add: advanced_def)

lemma advanced_trans: "advanced i k k1 xs \<Longrightarrow> advanced i k1 k2 ys \<Longrightarrow> advanced i k k2 (xs @ ys)"
  by (auto simp: advanced_def)

lemma status_advanced:
  assumes "status_logged k i p actor k'"
  shows "advanced i k k' [next_event k ''WorkItemStatusChanged'' ''work_item'' i p actor None None]"
proof -
  have "runs k' j" if "j \<noteq> []" "j \<noteq> i" "runs k j" for j
    using that status_loggedD(5) [OF assms that(1)] by (fastforce simp: runs_def)
  with assms show ?thesis by (auto simp: advanced_def status_logged_def logged_def own_event_def)
qed

lemma request_advanced:
  assumes "logged k ev k'" and "k_db k' = k_db k" and "request_event i ev"
  shows "advanced i k k' [ev]"
proof -
  have "get_work_item k' j = get_work_item k j" if "j \<noteq> []" for j using that assms(2) by (simp add: get_work_item_find)
  with assms show ?thesis by (auto simp: advanced_def logged_def own_event_def request_event_def runs_def)
qed

lemma progress_emitted:
  assumes ok: "kernel_ok (g_kernel g)"
  shows "\<exists>k' e. emit_progress i x actor g = (g\<lparr>g_kernel := k'\<rparr>, Inr ()) \<and> advanced i (g_kernel g) k' [e] \<and>
    ev_type e = ''WorkItemUpdated'' \<and> ev_agg_id e = i \<and>
    ev_payload e = stamp_event_payload (k_reg (g_kernel g)) ''WorkItemUpdated'' (Some [(''progress'', VNum x)])"
proof -
  let ?k = "g_kernel g"
  let ?p = "[(''progress'', VNum x)]"
  let ?ev = "next_event ?k ''WorkItemUpdated'' ''work_item'' i ?p actor None None"
  let ?f = "\<lambda>r. r\<lparr>w_progress := VNum x, w_updated_at := k_now ?k\<rparr>"
  let ?t = "sql_update (\<lambda>r. w_id r = i) ?f (work_rows ?k)"
  have "work_item_projector ?ev (work_rows ?k) = Inr ?t"
    by (simp add: work_item_projector_def on_work_item_updated_def schema_key_def present_def work_cols_def
        sql_update_checked_def null_given_def set_present_def Let_def)
  then have "run_projector WorkItem ?ev (k_db ?k) = Inr ((k_db ?k)\<lparr>t_work_items := ?t\<rparr>)" by simp
  from emit_owned [OF ok _ _ this] obtain k' where em: "emit_event ?k ''WorkItemUpdated'' ''work_item'' i ?p actor None None = Inr (k', ?ev)"
    and k': "work_rows k' = ?t" "logged ?k ?ev k'" by (auto simp: handler_table_def)
  have "runs k' j" if j: "j \<noteq> []" "runs ?k j" for j
  proof -
    from j obtain r where r: "sql_find w_id j (work_rows ?k) = Some r" "w_status r = VStr ''running''"
      by (auto simp: runs_def get_work_item_find)
    have "sql_find w_id j (work_rows k') = Some (if w_id r = i then ?f r else r)" by (simp add: k'(1) sql_find_update r(1))
    with r(2) j(1) show ?thesis by (cases "w_id r = i") (simp_all add: runs_def get_work_item_find)
  qed
  with k'(2) have "advanced i ?k k' [?ev]" by (auto simp: advanced_def logged_def own_event_def)
  with em show ?thesis
    by (intro exI [of _ k'] exI [of _ ?ev]) (simp add: emit_progress_def gbind_def gemit_def gret_def Let_def)
qed

section \<open>The recovery of the running items\<close>

definition completion_event :: "string \<Rightarrow> event \<Rightarrow> bool" where
  "completion_event i e \<longleftrightarrow> ev_agg_type e = ''action'' \<and> ev_agg_id e = exec_key i \<and> ev_type e = ''ExecuteCompleted''"

definition recorded_outcome :: "event list \<Rightarrow> string \<Rightarrow> string \<Rightarrow> string option" where
  "recorded_outcome evs i event_id =
     (if event_id = [] then None else outcome_status (take 20 (rev (filter (completion_event i) evs))) event_id)"

lemma execute_completions_log:
  assumes "kernel_ok k"
  shows "execute_completions k i = Inr (take 20 (rev (filter (completion_event i) (k_events k))))"
  unfolding execute_completions_def
  by (subst read_events_desc [OF assms, where n = 20 and P = "completion_event i"])
     (use kernel_okD(2) [OF assms] in \<open>auto simp: all_events_def row_matches_def opt_eq_def completion_event_def max_limit_def
        exec_key_def exec_aggregate_def\<close>)

text \<open>The executions of the current attempt, and what recovery has to log for a row: type, aggregate id, payload.\<close>

definition planned :: "event list \<Rightarrow> exec_item list \<Rightarrow> work_row \<Rightarrow> (string \<times> string \<times> dict) list" where
  "planned evs items r =
     (let i = w_id r; cur = attempt_of evs i; handlers = executions_for items cur; status = (\<lambda>p. (''WorkItemStatusChanged'', i, p)) in
      if list_ex (\<lambda>it. it_status it \<notin> {''completed'', ''failed''}) handlers then []
      else case failed_handler_close_error handlers of
        Some er \<Rightarrow> [status [(''status'', VStr ''failed''), (''error'', VStr er)]]
      | None \<Rightarrow>
          if handlers \<noteq> [] then
            (case recorded_outcome evs i (ev_id (the cur)) of None \<Rightarrow> [] | Some s \<Rightarrow> [status [(''status'', VStr s)]])
          else if w_work_type r = VStr ''background'' then
            status [(''status'', VStr ''pending'')] #
            (case py_float (py_or (w_progress r) (VInt 0)) of
               Inl e \<Rightarrow> [] | Inr x \<Rightarrow> [(''WorkItemUpdated'', i, [(''progress'', VNum x)])])
          else if w_work_type r = VStr ''goal'' \<or> \<not> truthy (w_plan r) then []
          else [(''ExecuteRequested'', exec_key i, [(''action_id'', VStr i)])])"

definition signature :: "event \<Rightarrow> string \<times> string \<times> dict" where
  "signature e = (ev_type e, ev_agg_id e, ev_payload e)"

definition stamp_all :: "schema_registry \<Rightarrow> (string \<times> string \<times> dict) list \<Rightarrow> (string \<times> string \<times> dict) list" where
  "stamp_all reg = map (\<lambda>(t, a, p). (t, a, stamp_event_payload reg t (Some p)))"

lemma exec_key_inj [simp]: "exec_key i = exec_key j \<longleftrightarrow> i = j"
  by (simp add: exec_key_def)

lemma other_events:
  assumes "\<forall>e \<in> set evs. own_event i e" and "j \<noteq> i"
  shows "attempt_of (lg @ evs) j = attempt_of lg j" and "recorded_outcome (lg @ evs) j c = recorded_outcome lg j c"
proof -
  have "\<not> status_event j e \<and> \<not> request_event j e \<and> \<not> completion_event j e" if "e \<in> set evs" for e
    using assms that by (auto simp: own_event_def status_event_def request_event_def completion_event_def)
  then have f: "filter (status_event j) evs = []" "filter (request_event j) evs = []" "filter (completion_event j) evs = []"
    by (auto simp: filter_empty_conv)
  show "attempt_of (lg @ evs) j = attempt_of lg j" "recorded_outcome (lg @ evs) j c = recorded_outcome lg j c"
    by (simp_all add: attempt_of_def recorded_outcome_def f)
qed

lemma planned_other:
  assumes "\<forall>e \<in> set evs. own_event i e" and "w_id r \<noteq> i"
  shows "planned (lg @ evs) items r = planned lg items r"
  unfolding planned_def Let_def other_events [OF assms] by (rule refl)

lemma ensure_runs:
  assumes ok: "kernel_ok (g_kernel g)" and i: "i \<noteq> []" and run: "runs (g_kernel g) i"
  shows "\<exists>g' r e. ensure_work_item_execute_requested i g = (g', Inr r) \<and> advanced i (g_kernel g) (g_kernel g') [e] \<and>
    signature e = (''ExecuteRequested'', exec_key i, stamp_event_payload (k_reg (g_kernel g)) ''ExecuteRequested'' (Some [(''action_id'', VStr i)]))"
proof -
  from run obtain r where r: "get_work_item (g_kernel g) i = Some r" "w_status r = VStr ''running''" by (auto simp: runs_def)
  have "map_of handler_table ''ExecuteRequested'' = None" by code_simp
  from emit_unprojected [OF ok this] obtain k' where
    em: "emit_event (g_kernel g) ''ExecuteRequested'' ''action'' (exec_key i) [(''action_id'', VStr i)] ''user'' None None =
      Inr (k', next_event (g_kernel g) ''ExecuteRequested'' ''action'' (exec_key i) [(''action_id'', VStr i)] ''user'' None None)"
    and k': "k_db k' = k_db (g_kernel g)" "logged (g_kernel g) (next_event (g_kernel g) ''ExecuteRequested'' ''action'' (exec_key i) [(''action_id'', VStr i)] ''user'' None None) k'"
    by blast
  let ?e = "next_event (g_kernel g) ''ExecuteRequested'' ''action'' (exec_key i) [(''action_id'', VStr i)] ''user'' None None"
  have "get_work_item k' i = Some r" using r(1) k'(1) by (simp add: get_work_item_find [OF i])
  then have "ensure_work_item_execute_requested i g =
      (g\<lparr>g_kernel := k', g_resumes := discard_rerun_plan_stash i (g_resumes g)\<rparr>, Inr r)"
    using r em by (simp add: ensure_work_item_execute_requested_def query_work_item_def gbind_def gread_def row_status_def py_or_def
        emit_execute_requested_def gemit_def gret_def discard_stash_def gmod_def updated_item_def Let_def)
  moreover have "advanced i (g_kernel g) k' [?e]" by (rule request_advanced [OF k'(2,1)]) (simp add: request_event_def)
  ultimately show ?thesis
    by (intro exI [of _ "g\<lparr>g_kernel := k', g_resumes := discard_rerun_plan_stash i (g_resumes g)\<rparr>"] exI [of _ r] exI [of _ ?e])
       (simp add: signature_def)
qed

definition recovers :: "bool gm \<Rightarrow> string \<Rightarrow> (string \<times> string \<times> dict) list \<Rightarrow> gov \<Rightarrow> bool" where
  "recovers m i plan g \<longleftrightarrow> (\<exists>g' x evs. m g = (g', x) \<and> advanced i (g_kernel g) (g_kernel g') evs \<and>
     map signature evs = stamp_all (k_reg (g_kernel g)) plan)"

lemma recovers_nothing: "kernel_ok (g_kernel g) \<Longrightarrow> recovers (gret b) i [] g"
  unfolding recovers_def using advanced_refl by (fastforce simp: stamp_all_def)

lemma recovers_status:
  assumes "kernel_ok (g_kernel g)" and "get p ''status'' = VStr s" "s \<noteq> []"
    and "\<And>g'. kernel_ok (g_kernel g') \<Longrightarrow> k_reg (g_kernel g') = k_reg (g_kernel g) \<Longrightarrow> recovers m i plan g'"
  shows "recovers (gbind (emit_status i p ''kernel'') (\<lambda>_. m)) i ((''WorkItemStatusChanged'', i, p) # plan) g"
proof -
  from status_emitted [OF assms(1-3), of i "''kernel''"] obtain k1 where
    k1: "emit_status i p ''kernel'' g = (g\<lparr>g_kernel := k1\<rparr>, Inr ())" "status_logged (g_kernel g) i p ''kernel'' k1" by blast
  note a = status_advanced [OF k1(2)]
  from a assms(4) [of "g\<lparr>g_kernel := k1\<rparr>"] obtain g' x evs where
    g': "m (g\<lparr>g_kernel := k1\<rparr>) = (g', x)" "advanced i k1 (g_kernel g') evs" "map signature evs = stamp_all (k_reg (g_kernel g)) plan"
    by (auto simp: recovers_def advanced_def)
  from advanced_trans [OF a g'(2)] g'(1,3) k1(1) show ?thesis
    unfolding recovers_def
    by (intro exI conjI) (auto simp: gbind_def stamp_all_def signature_def)
qed

lemma recovers_cong: "m g = m' g \<Longrightarrow> recovers m' i plan g \<Longrightarrow> recovers m i plan g"
  by (simp add: recovers_def)

lemma outcome_status_word: "outcome_status evs c = Some s \<Longrightarrow> s \<noteq> []"
  by (auto simp: outcome_status_def execute_completed_to_work_def split: option.splits if_splits)

lemma recovers_progress:
  assumes "kernel_ok (g_kernel g)"
  shows "recovers (gbind (gask (\<lambda>g. fx)) (\<lambda>x. gbind (emit_progress i x ''kernel'') (\<lambda>_. gret True))) i
    (case fx of Inl e \<Rightarrow> [] | Inr x \<Rightarrow> [(''WorkItemUpdated'', i, [(''progress'', VNum x)])]) g"
proof (cases fx)
  case (Inl e)
  then show ?thesis using advanced_refl [OF assms, of i] by (fastforce simp: recovers_def gbind_def gask_def stamp_all_def)
next
  case (Inr x)
  from progress_emitted [OF assms, of i x "''kernel''"] obtain k' e where
    "emit_progress i x ''kernel'' g = (g\<lparr>g_kernel := k'\<rparr>, Inr ())" "advanced i (g_kernel g) k' [e]"
    "signature e = (''WorkItemUpdated'', i, stamp_event_payload (k_reg (g_kernel g)) ''WorkItemUpdated'' (Some [(''progress'', VNum x)]))"
    by (auto simp: signature_def)
  with Inr show ?thesis
    unfolding recovers_def by (intro exI [of _ "g\<lparr>g_kernel := k'\<rparr>"] exI [of _ "Inr True"] exI [of _ "[e]"])
      (simp add: gbind_def gask_def gret_def stamp_all_def)
qed

lemma recovers_sync:
  assumes ok: "kernel_ok (g_kernel g)"
  shows "recovers (sync_completed_execute_status i c) i
    (case recorded_outcome (k_events (g_kernel g)) i c of None \<Rightarrow> [] | Some s \<Rightarrow> [(''WorkItemStatusChanged'', i, [(''status'', VStr s)])]) g"
proof -
  define o' where "o' = outcome_status (take 20 (rev (filter (completion_event i) (k_events (g_kernel g))))) c"
  have run: "sync_completed_execute_status i c g =
      (if c = [] then gret False else (case o' of None \<Rightarrow> gret False | Some s \<Rightarrow> gbind (emit_status i [(''status'', VStr s)] ''kernel'') (\<lambda>_. gret True))) g"
    by (simp add: sync_completed_execute_status_def gbind_ask [where f = "\<lambda>g. execute_completions (g_kernel g) i", OF execute_completions_log [OF ok]] o'_def)
  have rec: "recorded_outcome (k_events (g_kernel g)) i c = (if c = [] then None else o')"
    by (simp add: recorded_outcome_def o'_def)
  show ?thesis
  proof (cases "c = [] \<or> o' = None")
    case True
    then have "sync_completed_execute_status i c g = gret False g" and none: "recorded_outcome (k_events (g_kernel g)) i c = None"
      unfolding run rec by auto
    from this(1) recovers_nothing [OF ok] have "recovers (sync_completed_execute_status i c) i [] g"
      by (rule recovers_cong [where m' = "gret False"])
    with none show ?thesis by (simp only: option.case)
  next
    case False
    then obtain s where s: "c \<noteq> []" "o' = Some s" by auto
    then have "s \<noteq> []" by (auto simp: o'_def dest: outcome_status_word)
    then have "recovers (gbind (emit_status i [(''status'', VStr s)] ''kernel'') (\<lambda>_. gret True)) i
        [(''WorkItemStatusChanged'', i, [(''status'', VStr s)])] g"
      by (intro recovers_status [OF ok]) (auto intro: recovers_nothing)
    moreover have "sync_completed_execute_status i c g = gbind (emit_status i [(''status'', VStr s)] ''kernel'') (\<lambda>_. gret True) g"
      unfolding run using s by (simp only: if_False option.case)
    moreover have "recorded_outcome (k_events (g_kernel g)) i c = Some s" unfolding rec using s by (simp only: if_False)
    ultimately show ?thesis by (simp only: option.case) (rule recovers_cong [where m' = "gbind (emit_status i [(''status'', VStr s)] ''kernel'') (\<lambda>_. gret True)"])
  qed
qed

lemma executions_forD: "executions_for items cur \<noteq> [] \<Longrightarrow> (case cur of None \<Rightarrow> [] | Some e \<Rightarrow> ev_id e) = ev_id (the cur)"
  by (cases cur) (simp_all add: executions_for_def)

lemma recover_item_planned:
  assumes ok: "kernel_ok (g_kernel g)" and i: "w_id r \<noteq> []" and run: "runs (g_kernel g) (w_id r)"
  shows "recovers (recover_item items r) (w_id r) (planned (k_events (g_kernel g)) items r) g"
proof -
  let ?i = "w_id r"
  let ?cur = "attempt_of (k_events (g_kernel g)) ?i"
  let ?hs = "executions_for items ?cur"
  have start: "recover_item items r g = recover_attempt items r ?cur g"
    by (simp add: recover_item_def gbind_ask [where f = "\<lambda>g. current_execute_requested (g_kernel g) (w_id r)", OF current_attempt_log [OF ok]])
  have failed: "recovers (gbind (emit_status ?i [(''status'', VStr ''failed''), (''error'', VStr er)] ''kernel'') (\<lambda>_. gret True)) ?i
      [(''WorkItemStatusChanged'', ?i, [(''status'', VStr ''failed''), (''error'', VStr er)])] g" for er
    by (rule recovers_status [OF ok, where s = "''failed''"]) (auto intro: recovers_nothing)
  have rearm: "recovers (gbind (emit_status ?i [(''status'', VStr ''pending'')] ''kernel'') (\<lambda>_.
           gbind (gask (\<lambda>g. fx)) (\<lambda>x. gbind (emit_progress ?i x ''kernel'') (\<lambda>_. gret True)))) ?i
     ((''WorkItemStatusChanged'', ?i, [(''status'', VStr ''pending'')]) #
        (case fx of Inl e \<Rightarrow> [] | Inr x \<Rightarrow> [(''WorkItemUpdated'', ?i, [(''progress'', VNum x)])])) g" for fx
    by (rule recovers_status [OF ok, where s = "''pending''"]) (auto intro: recovers_progress)
  have req: "recovers (gbind (ensure_work_item_execute_requested ?i) (\<lambda>_. gret True)) ?i
      [(''ExecuteRequested'', exec_key ?i, [(''action_id'', VStr ?i)])] g"
    using ensure_runs [OF ok i run] by (fastforce simp: recovers_def gbind_def gret_def stamp_all_def)
  have "recovers (recover_attempt items r ?cur) ?i (planned (k_events (g_kernel g)) items r) g"
  proof (cases "list_ex (\<lambda>it. it_status it \<notin> {''completed'', ''failed''}) ?hs")
    case True
    then show ?thesis using recovers_nothing [OF ok] by (simp add: recover_attempt_def planned_def Let_def terminal_handler_statuses_def)
  next
    case live: False
    show ?thesis
    proof (cases "failed_handler_close_error ?hs")
      case (Some er)
      with live failed show ?thesis by (simp add: recover_attempt_def planned_def Let_def terminal_handler_statuses_def)
    next
      case None
      show ?thesis
      proof (cases "?hs = []")
        case True
        with None live recovers_nothing [OF ok] rearm [of "py_float (py_or (w_progress r) (VInt 0))"] req show ?thesis
          by (simp add: recover_attempt_def planned_def Let_def terminal_handler_statuses_def)
      next
        case False
        with None live recovers_sync [OF ok, of ?i "ev_id (the ?cur)"] executions_forD [OF False] show ?thesis
          by (simp add: recover_attempt_def planned_def Let_def terminal_handler_statuses_def)
      qed
    qed
  qed
  with start show ?thesis by (rule recovers_cong)
qed

text \<open>The scan: what each row does is decided by the log at the start, whatever the rows before it logged.\<close>

lemma recover_rows_planned:
  assumes "kernel_ok (g_kernel g)" and "distinct (map w_id rows)" and "\<And>r. r \<in> set rows \<Longrightarrow> w_id r \<noteq> [] \<and> runs (g_kernel g) (w_id r)"
  shows "\<exists>g' n evs. count_each (recover_item items) rows g = (g', Inr n) \<and> kernel_ok (g_kernel g') \<and>
    k_events (g_kernel g') = k_events (g_kernel g) @ evs \<and>
    map signature evs = stamp_all (k_reg (g_kernel g)) (concat (map (planned (k_events (g_kernel g)) items) rows))"
  using assms
proof (induction rows arbitrary: g)
  case Nil
  then show ?case by (simp add: gret_def stamp_all_def)
next
  case (Cons r rows)
  let ?lg = "k_events (g_kernel g)"
  from Cons.prems(3) [of r] have r: "w_id r \<noteq> []" "runs (g_kernel g) (w_id r)" by simp_all
  from recover_item_planned [OF Cons.prems(1) r] obtain g1 x ev1 where
    g1: "recover_item items r g = (g1, x)" "advanced (w_id r) (g_kernel g) (g_kernel g1) ev1"
      "map signature ev1 = stamp_all (k_reg (g_kernel g)) (planned ?lg items r)"
    unfolding recovers_def by blast
  note a = g1(2) [unfolded advanced_def]
  have other: "w_id y \<noteq> w_id r" if "y \<in> set rows" for y
    using that Cons.prems(2) by (auto simp: rev_image_eqI)
  have "w_id y \<noteq> [] \<and> runs (g_kernel g1) (w_id y)" if "y \<in> set rows" for y
    using other [OF that] that a Cons.prems(3) [of y] by simp
  from Cons.IH [OF _ _ this] a Cons.prems(2) obtain g2 n ev2 where
    g2: "count_each (recover_item items) rows g1 = (g2, Inr n)" "kernel_ok (g_kernel g2)" "k_events (g_kernel g2) = k_events (g_kernel g1) @ ev2"
      "map signature ev2 = stamp_all (k_reg (g_kernel g1)) (concat (map (planned (?lg @ ev1) items) rows))" by auto
  have same: "map (planned (?lg @ ev1) items) rows = map (planned ?lg items) rows"
    using a by (intro map_cong refl planned_other [where i = "w_id r"] other) auto
  have "count_each (recover_item items) (r # rows) g = (g2, Inr (n + (if x = Inr True then 1 else 0)))"
    using g1(1) g2(1) by (simp add: gbind_def gattempt_def gret_def)
  moreover have "k_events (g_kernel g2) = ?lg @ (ev1 @ ev2)" using a g2(3) by simp
  moreover have "map signature (ev1 @ ev2) = stamp_all (k_reg (g_kernel g)) (concat (map (planned ?lg items) (r # rows)))"
    using g1(3) g2(4) a unfolding same by (simp add: stamp_all_def)
  ultimately show ?case using g2(2) by blast
qed

end
