(* ===== verification/Recovery_Props.thy ===== *)
theory Recovery_Props
  imports Recovery
begin

text \<open>
  What start-up recovery guarantees: the running items are recovered exactly as the log before the start says,
  nothing that still runs or has ended is requested again, an undispatched rerun is undone together with its
  cursors, and every announced tool call gets its audit event.
\<close>

section \<open>The rows of a scan\<close>

lemma rows_with_status_eq:
  "rows_with_status s k =
     take 5000 (order_by [Asc w_created_at] (filter (\<lambda>r. w_status r = VStr s) (work_rows k)))"
proof -
  have "work_where (k_now k) (all_work\<lparr>wf_status := Some s, wf_limit := Some 5000, wf_order := Some ''created_at_asc''\<rparr>) =
      (\<lambda>r. w_status r = VStr s)"
    by (rule ext) (simp add: work_where_def all_work_def eq_text_def)
  then show ?thesis
    by (simp add: rows_with_status_def query_work_items_def select_rows_def given_def all_work_def work_order_def safe_order_def
        work_orders_def safe_limit_def max_limit_def take_opt_def)
qed

lemma rows_with_statusD:
  assumes "kernel_ok k"
  shows "distinct (map w_id (rows_with_status s k))"
    and "r \<in> set (rows_with_status s k) \<Longrightarrow> sql_find w_id (w_id r) (work_rows k) = Some r \<and> w_status r = VStr s"
proof -
  have t: "keyed w_id (work_rows k)" by (rule keyed_tables(7) [OF assms])
  have "mset (map w_id (order_by [Asc w_created_at] (filter (\<lambda>r. w_status r = VStr s) (work_rows k)))) =
      mset (map w_id (filter (\<lambda>r. w_status r = VStr s) (work_rows k)))" by simp
  then have "distinct (map w_id (order_by [Asc w_created_at] (filter (\<lambda>r. w_status r = VStr s) (work_rows k))))"
    using t mset_eq_imp_distinct_iff unfolding keyed_def by (metis distinct_map_filter)
  then show "distinct (map w_id (rows_with_status s k))"
    unfolding rows_with_status_eq take_map [symmetric] by (rule distinct_take)
  show "sql_find w_id (w_id r) (work_rows k) = Some r \<and> w_status r = VStr s" if "r \<in> set (rows_with_status s k)"
    using that sql_find_mem [OF t, of r] by (auto simp: rows_with_status_eq simp del: order_by.simps dest: in_set_takeD)
qed

lemma rows_run:
  "kernel_ok k \<Longrightarrow> r \<in> set (rows_with_status ''running'' k) \<Longrightarrow> w_id r \<noteq> [] \<Longrightarrow> runs k (w_id r)"
  using rows_with_statusD(2) [of k r "''running''"] by (auto simp: runs_def get_work_item_find)

lemma recovered:
  assumes ok: "kernel_ok (g_kernel g)" and items: "read_scheduled_executions (g_kernel g) None None = Inr items"
    and ids: "\<forall>r \<in> set (rows_with_status ''running'' (g_kernel g)). w_id r \<noteq> []"
  shows "\<exists>g' n evs. recover_running_items g = (g', Inr n) \<and> kernel_ok (g_kernel g') \<and>
    k_events (g_kernel g') = k_events (g_kernel g) @ evs \<and>
    map signature evs = stamp_all (k_reg (g_kernel g))
      (concat (map (planned (k_events (g_kernel g)) items) (rows_with_status ''running'' (g_kernel g))))"
proof -
  have "recover_running_items g = count_each (recover_item items) (rows_with_status ''running'' (g_kernel g)) g"
    by (simp add: recover_running_items_def gbind_def gread_def gask_def items)
  with recover_rows_planned [OF ok rows_with_statusD(1) [OF ok], of "''running''" items] ids rows_run [OF ok]
  show ?thesis by auto
qed

section \<open>What a row may be recovered by\<close>

lemma planned_facts:
  assumes "(t, a, p) \<in> set (planned evs items r)"
  shows "(a = w_id r \<or> a = exec_key (w_id r)) \<and>
    (\<forall>it \<in> set (executions_for items (attempt_of evs (w_id r))). it_status it \<in> {''completed'', ''failed''}) \<and>
    (t = ''ExecuteRequested'' \<longrightarrow> executions_for items (attempt_of evs (w_id r)) = [] \<and>
       w_work_type r \<notin> {VStr ''background'', VStr ''goal''})"
  using assms by (auto simp: planned_def Let_def list_ex_iff split: if_splits option.splits sum.splits)

definition request_sig :: "string \<times> string \<times> dict \<Rightarrow> bool" where
  "request_sig x \<longleftrightarrow> fst x = ''ExecuteRequested''"

lemma planned_requests:
  "\<exists>b. map (fst \<circ> snd) (filter request_sig (planned evs items r)) = (if b then [exec_key (w_id r)] else [])"
  by (auto simp: planned_def Let_def request_sig_def split: option.splits sum.splits)

lemma requests_distinct:
  assumes "distinct (map w_id rows)"
  shows "distinct (map (fst \<circ> snd) (filter request_sig (concat (map (planned evs items) rows)))) \<and>
    set (map (fst \<circ> snd) (filter request_sig (concat (map (planned evs items) rows)))) \<subseteq> exec_key ` w_id ` set rows"
  using assms
proof (induction rows)
  case (Cons r rows)
  from planned_requests [of evs items r] obtain b where
    b: "map (fst \<circ> snd) (filter request_sig (planned evs items r)) = (if b then [exec_key (w_id r)] else [])" by blast
  define rest where "rest = map (fst \<circ> snd) (filter request_sig (concat (map (planned evs items) rows)))"
  have eq: "map (fst \<circ> snd) (filter request_sig (concat (map (planned evs items) (r # rows)))) =
      (if b then [exec_key (w_id r)] else []) @ rest" using b by (simp add: rest_def)
  have "distinct (map w_id rows)" using Cons.prems by simp
  from Cons.IH [OF this] have "distinct rest" "set rest \<subseteq> exec_key ` w_id ` set rows" unfolding rest_def by blast+
  moreover from Cons.prems have "exec_key (w_id r) \<notin> exec_key ` w_id ` set rows" by auto
  ultimately show ?case unfolding eq by auto
qed simp

lemma stamped_requests:
  "map signature evs = stamp_all reg xs \<Longrightarrow>
     map ev_agg_id (filter (\<lambda>e. ev_type e = ''ExecuteRequested'') evs) = map (fst \<circ> snd) (filter request_sig xs)"
proof (induction xs arbitrary: evs)
  case (Cons x xs)
  then show ?case by (cases evs; cases x) (auto simp: stamp_all_def signature_def request_sig_def)
qed (simp add: stamp_all_def)

lemma stamped_mem:
  assumes "map signature evs = stamp_all reg xs" and "e \<in> set evs"
  shows "\<exists>p. (ev_type e, ev_agg_id e, p) \<in> set xs"
proof -
  from assms have "signature e \<in> set (stamp_all reg xs)" by (metis image_eqI set_map)
  then show ?thesis by (auto simp: stamp_all_def signature_def)
qed

section \<open>Properties of the scan\<close>

text \<open>C9. Recovery of the running items never raises and logs exactly what the log before it calls for, row by row in
  the order of creation: what an earlier row logs changes nothing for a later one. A row whose current attempt has an
  execution that has not ended is left alone; a failed execution closes it; a completed one copies the recorded
  outcome; with none a background item is queued again with its progress, a planned item gets its missing request.\<close>

theorem recovery_exact:
  assumes "gov_reach g" and "read_scheduled_executions (g_kernel g) None None = Inr items"
    and "\<forall>r \<in> set (rows_with_status ''running'' (g_kernel g)). w_id r \<noteq> []"
  shows "\<exists>g' n evs. recover_running_items g = (g', Inr n) \<and> k_events (g_kernel g') = k_events (g_kernel g) @ evs \<and>
    map signature evs = stamp_all (k_reg (g_kernel g))
      (concat (map (planned (k_events (g_kernel g)) items) (rows_with_status ''running'' (g_kernel g))))"
  using recovered [OF _ assms(2,3)] gov_reach_ok [OF assms(1)] by (auto simp: gov_ok_def)


text \<open>A planned item that runs without a request: the process died between the two events of the execute command.\<close>

definition running_kernel :: kernel where
  "running_kernel = emit_ok todo_kernel ''WorkItemStatusChanged'' ''work_item'' ''w1'' [(''status'', VStr ''running'')]"

lemma running_reach: "kernel_reach current_registry running_kernel"
  unfolding running_kernel_def
  by (intro emit_ok_reach todo_reach) (auto simp: well_routed_def event_owner_def with_seq_def create_event_def handler_table_def)

lemma running_scan:
  "read_scheduled_executions running_kernel None None = Inr []"
  "map w_id (rows_with_status ''running'' running_kernel) = [''w1'']"
  "concat (map (planned (k_events running_kernel) []) (rows_with_status ''running'' running_kernel)) =
     [(''ExecuteRequested'', ''exec_w1'', [(''action_id'', VStr ''w1'')])]"
  by code_simp+

lemma running_ids: "\<forall>r \<in> set (rows_with_status ''running'' running_kernel). w_id r \<noteq> []"
proof -
  have "set (map w_id (rows_with_status ''running'' running_kernel)) = {''w1''}" unfolding running_scan(2) by simp
  then have "w_id ` set (rows_with_status ''running'' running_kernel) = {''w1''}" by simp
  then show ?thesis by (metis image_eqI list.distinct(1) singletonD)
qed

theorem recovery_exact_witness:
  "\<exists>g' n evs. recover_running_items (gov_of running_kernel) = (g', Inr n) \<and>
     k_events (g_kernel g') = k_events running_kernel @ evs \<and> map ev_type evs = [''ExecuteRequested''] \<and>
     map ev_agg_id evs = [''exec_w1'']"
proof -
  from recovery_exact [OF gov_of_reach [OF running_reach], of "[]"] running_scan running_ids obtain g' n evs where
    "recover_running_items (gov_of running_kernel) = (g', Inr n)" "k_events (g_kernel g') = k_events running_kernel @ evs"
    "map signature evs = stamp_all (k_reg running_kernel) [(''ExecuteRequested'', ''exec_w1'', [(''action_id'', VStr ''w1'')])]"
    by auto
  then show ?thesis by (auto simp: stamp_all_def signature_def)
qed


section \<open>Undispatched reruns\<close>

lemma latest_status:
  assumes "kernel_ok k" and "k_events k = evs @ [e]" and "status_event i e" and "has ''status'' (ev_payload e)"
    and "get (ev_payload e) ''status'' \<noteq> VStr ''pending''"
  shows "still_half_open k i = Inr False"
proof -
  have "status_events k i = Inr (e # rev (filter (status_event i) evs))" using status_events_log [OF assms(1)] assms(2,3) by simp
  with assms(4,5) show ?thesis
    by (simp add: still_half_open_def half_open_rerun_def rework_open_waiting_for_execute_def rework_open_and_prior_def)
qed

text \<open>C22. A rerun that was opened and never dispatched is undone completely: recovery completes the item again, every
  cursor the rerun had taken is back under its own key and the stash is gone, and the item no longer counts
  as half open, so that recovering it once more does nothing.\<close>

theorem half_open_rerun_restored:
  assumes "gov_reach g" and "w_id r \<noteq> []" and open_rerun: "half_open_rerun (g_kernel g) (w_id r) = Inr True"
    and "resumes_reach t" and taken: "take_plan_resumes_for_work_item opened (w_id r) t = Inr (rs, g_resumes g)"
  shows "\<exists>g' e. restore_half_open_item r g = (g', Inr True) \<and> k_events (g_kernel g') = k_events (g_kernel g) @ [e] \<and>
    status_event (w_id r) e \<and> get (ev_payload e) ''status'' = VStr ''completed'' \<and>
    (\<forall>i. peek_plan_resume i (g_resumes g') = (if i = rerun_stash_key (w_id r) then None else peek_plan_resume i t)) \<and>
    still_half_open (g_kernel g') (w_id r) = Inr False \<and>
    restore_half_open_item r g' = (g', Inr False)"
proof -
  let ?i = "w_id r"
  let ?p = "[(''status'', VStr ''completed''), (''reason'', VStr ''rerun_restore'')]"
  have ok: "kernel_ok (g_kernel g)" using gov_reach_ok [OF assms(1)] by (simp add: gov_ok_def)
  from stash_undone [OF resumes_reach_ok [OF assms(4)] assms(2), of opened "k_now (g_kernel g)"] taken obtain n t2 where
    t2: "restore_rerun_plan_stash (k_now (g_kernel g)) ?i (g_resumes g) = Inr (n, t2)"
      "\<forall>i. peek_plan_resume i t2 = (if i = rerun_stash_key ?i then None else peek_plan_resume i t)" by auto
  let ?g1 = "g\<lparr>g_resumes := t2\<rparr>"
  from status_emitted [of ?g1 ?p "''completed''" ?i "''kernel''"] ok obtain k2 where
    k2: "emit_status ?i ?p ''kernel'' ?g1 = (?g1\<lparr>g_kernel := k2\<rparr>, Inr ())" "status_logged (g_kernel g) ?i ?p ''kernel'' k2" by auto
  note s = status_loggedD [OF k2(2)]
  let ?e = "next_event (g_kernel g) ''WorkItemStatusChanged'' ''work_item'' ?i ?p ''kernel'' None None"
  let ?g' = "?g1\<lparr>g_kernel := k2\<rparr>"
  have e: "status_event ?i ?e" "has ''status'' (ev_payload ?e)" "get (ev_payload ?e) ''status'' = VStr ''completed''"
    by (simp_all add: status_event_def schema_key_def)
  have still: "still_half_open k2 ?i = Inr False" by (rule latest_status [OF s(1,2) e(1,2)]) (simp add: e(3))
  have run: "restore_half_open_item r g = (?g', Inr True)"
    using open_rerun t2(1) k2(1) by (simp add: restore_half_open_item_def Let_def gbind_def gask_def restore_stash_def gret_def)
  from still have "half_open_rerun k2 ?i = Inr False" "rework_open_and_prior k2 ?i = Inr (None, None)"
    using status_events_log [OF s(1), of ?i] e
    by (auto simp: s(2) rework_open_and_prior_def half_open_rerun_def)
  then have again: "restore_half_open_item r ?g' = (?g', Inr False)"
    by (simp add: restore_half_open_item_def restore_half_open_rework_def Let_def gbind_def gask_def gret_def)
  from run again still t2(2) s(2) e show ?thesis by (intro exI [of _ ?g'] exI [of _ ?e]) simp
qed

definition reopened_kernel :: kernel where
  "reopened_kernel = emit_ok (emit_ok todo_kernel ''WorkItemStatusChanged'' ''work_item'' ''w1'' [(''status'', VStr ''completed'')])
     ''WorkItemStatusChanged'' ''work_item'' ''w1'' [(''status'', VStr ''pending''), (''reason'', VStr ''rerun_restore'')]"

lemma reopened_reach: "kernel_reach current_registry reopened_kernel"
  unfolding reopened_kernel_def
  by (intro emit_ok_reach todo_reach) (auto simp: well_routed_def event_owner_def with_seq_def create_event_def handler_table_def)

definition w1_row :: work_row where
  "w1_row = hd (work_rows reopened_kernel)"

theorem half_open_rerun_restored_witness:
  "\<exists>g g' e. k_events (g_kernel g) = k_events reopened_kernel \<and> restore_half_open_item w1_row g = (g', Inr True) \<and>
     k_events (g_kernel g') = k_events reopened_kernel @ [e] \<and> get (ev_payload e) ''status'' = VStr ''completed'' \<and>
     (\<forall>i. peek_plan_resume i (g_resumes g') = (if i = rerun_stash_key ''w1'' then None else peek_plan_resume i sample_resumes))"
proof -
  have w1: "w_id w1_row = ''w1''" by code_simp
  from stash_undone [OF resumes_reach_ok [OF sample_resumes_reach], of "''w1''" 6 7] obtain rs t1 where t1: "take_plan_resumes_for_work_item 6 ''w1'' sample_resumes = Inr (rs, t1)" by blast
  let ?g = "(gov_of reopened_kernel)\<lparr>g_resumes := t1\<rparr>"
  have reach: "gov_reach ?g" by (rule gov_reach.start [where reg = current_registry]) (simp_all add: reopened_reach)
  have half: "half_open_rerun reopened_kernel ''w1'' = Inr True" by code_simp
  from half_open_rerun_restored [OF reach, of w1_row sample_resumes 6 rs] sample_resumes_reach t1 half w1 obtain g' e where
    "restore_half_open_item w1_row ?g = (g', Inr True)" "k_events (g_kernel g') = k_events reopened_kernel @ [e]"
    "get (ev_payload e) ''status'' = VStr ''completed''"
    "\<forall>i. peek_plan_resume i (g_resumes g') = (if i = rerun_stash_key ''w1'' then None else peek_plan_resume i sample_resumes)" by auto
  then show ?thesis by (intro exI [of _ ?g] exI [of _ g'] exI [of _ e]) simp
qed

section \<open>Announced tool calls\<close>

lemma interrupted_payload_fields:
  "getd (interrupted_payload d) ''name'' x = VStr (text_field d ''name'')"
  "getd (interrupted_payload d) ''error'' x = VStr ''interrupted_before_audit''"
  "getd (interrupted_payload d) ''latency_ms'' x = VInt 0"
  by (simp_all add: interrupted_payload_def Let_def)

text \<open>The audit event of an intent.\<close>

definition audits :: "dict \<Rightarrow> event \<Rightarrow> bool" where
  "audits d e \<longleftrightarrow> ev_type e = ''CapabilityFailed'' \<and> ev_agg_id e = ''cap_'' @ text_field d ''name'' \<and>
     get (ev_payload e) ''error'' = VStr ''interrupted_before_audit'' \<and> ev_actor e = intent_actor d \<and>
     ev_caused_by e = opt_text (intent_cause d) \<and> ev_corr e = opt_text (text_field d ''correlation_id'')"

lemma reconcile_one:
  assumes "kernel_ok (g_kernel g)"
  shows "\<exists>k' e. reconcile_intent d g = (g\<lparr>g_kernel := k'\<rparr>, Inr True) \<and> logged (g_kernel g) e k' \<and> audits d e"
proof -
  from capability_emitted [OF assms, of "''CapabilityFailed''" "interrupted_payload d" "text_field d ''name''"
      "''cap_'' @ text_field d ''name''" "intent_actor d" "opt_text (intent_cause d)" "opt_text (text_field d ''correlation_id'')"]
  show ?thesis
    by (fastforce simp: interrupted_payload_fields reconcile_intent_def gbind_def gret_def audits_def schema_key_def)
qed

lemma reconcile_all:
  assumes "kernel_ok (g_kernel g)"
  shows "\<exists>k' evs. count_each reconcile_intent ds g = (g\<lparr>g_kernel := k'\<rparr>, Inr (length ds)) \<and>
    kernel_ok k' \<and> k_events k' = k_events (g_kernel g) @ evs \<and> list_all2 audits ds evs"
  using assms
proof (induction ds arbitrary: g)
  case Nil
  then show ?case by (intro exI [of _ "g_kernel g"]) (simp add: gret_def)
next
  case (Cons d ds)
  from reconcile_one [OF Cons.prems, of d] obtain k1 e where
    k1: "reconcile_intent d g = (g\<lparr>g_kernel := k1\<rparr>, Inr True)" "logged (g_kernel g) e k1" "audits d e" by blast
  from Cons.IH [of "g\<lparr>g_kernel := k1\<rparr>"] loggedD(1) [OF k1(2)] obtain k2 evs where
    k2: "count_each reconcile_intent ds (g\<lparr>g_kernel := k1\<rparr>) = (g\<lparr>g_kernel := k2\<rparr>, Inr (length ds))" "kernel_ok k2"
      "k_events k2 = k_events k1 @ evs" "list_all2 audits ds evs" by auto
  with k1 loggedD(3) [OF k1(2)] show ?case
    by (intro exI [of _ k2] exI [of _ "e # evs"]) (simp add: gbind_def gattempt_def gret_def)
qed

lemma audited: "list_all2 audits ds evs \<Longrightarrow> d \<in> set ds \<Longrightarrow> \<exists>e \<in> set evs. audits d e"
  by (induction rule: list_all2_induct) auto

lemma intents_gone: "fst (take_stale_capability_intents (snd (take_stale_capability_intents t))) = []"
  by (simp add: take_stale_capability_intents_def Let_def sql_delete_def filter_empty_conv)

lemma intent_key_matches: "like (capability_intent_prefix @ ''%'') (capability_intent_key i)"
  by (simp add: capability_intent_key_def capability_intent_prefix_def like_any)

lemma intents_stay: "snd (take_stale_capability_intents (snd (take_stale_capability_intents t))) = snd (take_stale_capability_intents t)"
  by (simp add: take_stale_capability_intents_def Let_def sql_delete_def)

lemma intent_removed: "peek_plan_resume (capability_intent_key i) (snd (take_stale_capability_intents t)) = None"
proof -
  have "sql_find rr_id (capability_intent_key i) (snd (take_stale_capability_intents t)) = None"
    using intent_key_matches [of i] by (auto simp: take_stale_capability_intents_def Let_def sql_delete_def sql_find_None_iff)
  then show ?thesis by (simp add: peek_plan_resume_def)
qed

lemma intent_listed:
  assumes "peek_plan_resume (capability_intent_key i) t = Some r"
  shows "\<exists>d \<in> set (fst (take_stale_capability_intents t)). text_field d ''name'' = text_field (or_empty (pr_prev r)) ''name''"
proof -
  from assms obtain x where x: "sql_find rr_id (capability_intent_key i) t = Some x" "r = resume_of_row x"
    by (auto simp: peek_plan_resume_def split: if_splits)
  from sql_find_key [OF x(1)] sql_find_in [OF x(1)] have "x \<in> set t" "like (capability_intent_prefix @ ''%'') (rr_id x)"
    using intent_key_matches by auto
  with x(2) show ?thesis by (auto simp: take_stale_capability_intents_def Let_def text_field_def intro!: bexI [of _ x])
qed

text \<open>C23. Start-up closes the audit of every call that the previous process announced and did not finish: one
  CapabilityFailed event per stored intent, in order, with the tool, actor, cause and correlation of the call; no
  intent is left, so that a second start logs nothing.\<close>

theorem intents_reconciled:
  assumes "gov_reach g"
  shows "\<exists>g' evs. reconcile_interrupted_capability_intents g = (g', Inr (length evs)) \<and>
    k_events (g_kernel g') = k_events (g_kernel g) @ evs \<and>
    list_all2 audits (fst (take_stale_capability_intents (g_resumes g))) evs \<and>
    (\<forall>i r. peek_plan_resume (capability_intent_key i) (g_resumes g) = Some r \<longrightarrow>
       (\<exists>e \<in> set evs. ev_agg_id e = ''cap_'' @ text_field (or_empty (pr_prev r)) ''name'') \<and>
       peek_plan_resume (capability_intent_key i) (g_resumes g') = None) \<and>
    reconcile_interrupted_capability_intents g' = (g', Inr 0)"
proof -
  let ?t = "g_resumes g"
  let ?ds = "fst (take_stale_capability_intents ?t)"
  let ?g0 = "g\<lparr>g_resumes := snd (take_stale_capability_intents ?t)\<rparr>"
  have ok: "kernel_ok (g_kernel ?g0)" using gov_reach_ok [OF assms] by (simp add: gov_ok_def)
  from reconcile_all [OF ok, of ?ds] obtain k' evs where
    k': "count_each reconcile_intent ?ds ?g0 = (?g0\<lparr>g_kernel := k'\<rparr>, Inr (length ?ds))"
      "k_events k' = k_events (g_kernel g) @ evs" "list_all2 audits ?ds evs" by auto
  let ?g' = "?g0\<lparr>g_kernel := k'\<rparr>"
  have run: "reconcile_interrupted_capability_intents g = (?g', Inr (length evs))"
    using k'(1) list_all2_lengthD [OF k'(3)] by (simp add: reconcile_interrupted_capability_intents_def gbind_def gread_def gmod_def)
  have again: "reconcile_interrupted_capability_intents ?g' = (?g', Inr 0)"
    by (simp add: reconcile_interrupted_capability_intents_def gbind_def gread_def gmod_def intents_gone gret_def intents_stay)
  have "(\<exists>e \<in> set evs. ev_agg_id e = ''cap_'' @ text_field (or_empty (pr_prev r)) ''name'') \<and>
      peek_plan_resume (capability_intent_key i) (g_resumes ?g') = None"
    if "peek_plan_resume (capability_intent_key i) ?t = Some r" for i r
  proof -
    from intent_listed [OF that] obtain d where d: "d \<in> set ?ds" "text_field d ''name'' = text_field (or_empty (pr_prev r)) ''name''" by blast
    from audited [OF k'(3) d(1)] d(2) show ?thesis using intent_removed [of i ?t] by (auto simp: audits_def)
  qed
  with run again k'(2,3) show ?thesis by (intro exI [of _ ?g'] exI [of _ evs]) simp
qed

text \<open>A process that died between the announcement of a call and its audit.\<close>

definition announced_gov :: gov where
  "announced_gov = (gov_of running_kernel)\<lparr>g_resumes := record_capability_intent running_kernel None ''i1'' ''shell'' ''ls'' ''user''
     None None None None []\<rparr>"

theorem intents_reconciled_witness:
  "\<exists>g' e. reconcile_interrupted_capability_intents announced_gov = (g', Inr 1) \<and>
     k_events (g_kernel g') = k_events running_kernel @ [e] \<and> ev_agg_id e = ''cap_shell'' \<and>
     reconcile_interrupted_capability_intents g' = (g', Inr 0)"
proof -
  have reach: "gov_reach announced_gov"
    by (rule gov_reach.start [where reg = current_registry]) (simp_all add: running_reach announced_gov_def)
  have one: "map (\<lambda>d. text_field d ''name'') (fst (take_stale_capability_intents (g_resumes announced_gov))) = [''shell'']"
    by code_simp
  from intents_reconciled [OF reach] obtain g' evs where
    g': "reconcile_interrupted_capability_intents announced_gov = (g', Inr (length evs))"
      "k_events (g_kernel g') = k_events running_kernel @ evs"
      "list_all2 audits (fst (take_stale_capability_intents (g_resumes announced_gov))) evs"
      "reconcile_interrupted_capability_intents g' = (g', Inr 0)" by (auto simp: announced_gov_def)
  from one obtain d where d: "fst (take_stale_capability_intents (g_resumes announced_gov)) = [d]" "text_field d ''name'' = ''shell''"
    by (auto simp: map_eq_Cons_conv)
  from g'(3) obtain e where "evs = [e]" "audits d e" unfolding d(1) by (auto simp: list_all2_Cons1)
  with g' d(2) show ?thesis by (auto simp: audits_def)
qed

end
