(* ===== verification/Rate_Limit.thy ===== *)
theory Rate_Limit
  imports Prelude
begin

text \<open>
  The request limiter of \<open>core/rate_limit.py\<close>. A call reads the monotonic clock up to three times (for the
  eviction, for the expiry and for the entry itself), so a call carries the three readings. The bucket table is
  a \<open>defaultdict\<close>: an association list in insertion order. The specification is a window that slides over
  the whole history of accepted requests; the limiter refines it as long as its table is not over its cap.
\<close>

section \<open>Rules\<close>

record rule =
  ru_pattern :: string
  ru_max :: nat
  ru_window :: rat
  ru_exact :: bool
  ru_bucket_id :: "string option"

definition rule_of :: "string \<Rightarrow> nat \<Rightarrow> rat \<Rightarrow> bool \<Rightarrow> string option \<Rightarrow> rule" where
  "rule_of p n w ex b = \<lparr>ru_pattern = p, ru_max = n, ru_window = w, ru_exact = ex, ru_bucket_id = b\<rparr>"

definition rate_limits :: "rule list" where
  "rate_limits =
     [rule_of ''/api/chat'' 30 60 False None,
      rule_of ''/api/settings/llm/test'' 5 60 True None,
      rule_of ''/api/settings/email/test'' 5 60 True None,
      rule_of ''/api/inbox/poll'' 10 60 True None,
      rule_of ''/api/system/export'' 3 60 True (Some ''system-export''),
      rule_of ''/api/system/export/encrypted'' 3 60 True (Some ''system-export''),
      rule_of ''/api/system/import'' 1 300 True (Some ''system-restore''),
      rule_of ''/api/system/import/encrypted'' 1 300 True (Some ''system-restore''),
      rule_of ''/api/system/data'' 1 300 True None,
      rule_of ''/api/approvals'' 20 60 False None,
      rule_of ''/api/connectors/install'' 5 60 True (Some ''connector-mutate''),
      rule_of ''/api/connectors/uninstall'' 5 60 True (Some ''connector-mutate''),
      rule_of ''/api/connectors'' 15 60 False None]"

definition max_buckets :: nat where
  "max_buckets = 10000"

definition stale_evict_seconds :: rat where
  "stale_evict_seconds = 300"

definition path_matches :: "string \<Rightarrow> string \<Rightarrow> bool \<Rightarrow> bool" where
  "path_matches path pattern ex \<longleftrightarrow> path = pattern \<or> \<not> ex \<and> starts_with (pattern @ ''/'') path"

definition rule_for :: "string \<Rightarrow> rule option" where
  "rule_for path = List.find (\<lambda>r. path_matches path (ru_pattern r) (ru_exact r)) rate_limits"

definition bucket_name :: "rule \<Rightarrow> string" where
  "bucket_name r = (case ru_bucket_id r of None \<Rightarrow> ru_pattern r | Some b \<Rightarrow> if b = [] then ru_pattern r else b)"

section \<open>Buckets\<close>

type_synonym bucket_key = "string \<times> string"
type_synonym buckets = "(bucket_key \<times> rat list) list"

record rate_decision =
  de_allowed :: bool
  de_retry_after :: "int option"

record clock =
  ck_evict :: rat
  ck_clean :: rat
  ck_now :: rat

fun clean_expired :: "rat \<Rightarrow> rat list \<Rightarrow> rat list" where
  "clean_expired cutoff [] = []"
| "clean_expired cutoff (x # xs) = (if x < cutoff then clean_expired cutoff xs else x # xs)"

definition retry_after_seconds :: "rat list \<Rightarrow> rat \<Rightarrow> rat \<Rightarrow> int" where
  "retry_after_seconds bucket window now =
     (case bucket of [] \<Rightarrow> 1 | x # _ \<Rightarrow> max 1 \<lceil>window - (now - x)\<rceil>)"

definition is_stale :: "rat \<Rightarrow> bucket_key \<times> rat list \<Rightarrow> bool" where
  "is_stale now kb \<longleftrightarrow> snd kb = [] \<or> last (snd kb) < now - stale_evict_seconds"

definition drop_stale :: "rat \<Rightarrow> buckets \<Rightarrow> buckets" where
  "drop_stale now bs = filter (\<lambda>kb. \<not> is_stale now kb) bs"

definition drop_oldest :: "buckets \<Rightarrow> buckets" where
  "drop_oldest bs =
     (let seen = (\<lambda>kb. if snd kb = [] then 0 else last (snd kb));
          gone = take (max 1 (length bs div 4)) (map fst (sort_key seen bs))
      in filter (\<lambda>kb. fst kb \<notin> set gone) bs)"

definition evict_stale_buckets :: "rat \<Rightarrow> buckets \<Rightarrow> buckets" where
  "evict_stale_buckets now bs =
     (if length bs \<le> max_buckets then bs
      else let bs' = drop_stale now bs in if max_buckets < length bs' then drop_oldest bs' else bs')"

definition bucket_of :: "buckets \<Rightarrow> bucket_key \<Rightarrow> rat list" where
  "bucket_of bs k = (case map_of bs k of None \<Rightarrow> [] | Some b \<Rightarrow> b)"

definition check_rate_limit :: "clock \<Rightarrow> string \<Rightarrow> string \<Rightarrow> buckets \<Rightarrow> buckets \<times> rate_decision" where
  "check_rate_limit ck path key bs =
     (case rule_for path of
        None \<Rightarrow> (bs, \<lparr>de_allowed = True, de_retry_after = None\<rparr>)
      | Some r \<Rightarrow>
          let k = (bucket_name r, key);
              bs1 = evict_stale_buckets (ck_evict ck) bs;
              bucket = clean_expired (ck_clean ck - ru_window r) (bucket_of bs1 k)
          in if ru_max r \<le> length bucket
             then (AList.update k bucket bs1,
                   \<lparr>de_allowed = False, de_retry_after = Some (retry_after_seconds bucket (ru_window r) (ck_now ck))\<rparr>)
             else (AList.update k (bucket @ [ck_now ck]) bs1, \<lparr>de_allowed = True, de_retry_after = None\<rparr>))"

definition reset_rate_limits :: buckets where
  "reset_rate_limits = []"

section \<open>Forward simulation\<close>

text \<open>A concrete machine whose steps, where they are permitted, answer as the abstract machine does and keep the
  two states related, answers as the abstract machine does along every run.\<close>

fun run_machine :: "('i \<Rightarrow> 's \<Rightarrow> 's \<times> 'o) \<Rightarrow> 'i list \<Rightarrow> 's \<Rightarrow> 's \<times> 'o list" where
  "run_machine f [] s = (s, [])"
| "run_machine f (i # is) s = (let (s1, x) = f i s; (s2, xs) = run_machine f is s1 in (s2, x # xs))"

fun permitted :: "('i \<Rightarrow> 's \<Rightarrow> bool) \<Rightarrow> ('i \<Rightarrow> 's \<Rightarrow> 's \<times> 'o) \<Rightarrow> 'i list \<Rightarrow> 's \<Rightarrow> bool" where
  "permitted ok f [] s \<longleftrightarrow> True"
| "permitted ok f (i # is) s \<longleftrightarrow> ok i s \<and> permitted ok f is (fst (f i s))"

locale forward_simulation =
  fixes conc :: "'i \<Rightarrow> 'c \<Rightarrow> 'c \<times> 'o"
    and abst :: "'i \<Rightarrow> 'a \<Rightarrow> 'a \<times> 'o"
    and related :: "'c \<Rightarrow> 'a \<Rightarrow> bool"
    and ok :: "'i \<Rightarrow> 'c \<Rightarrow> bool"
  assumes answers: "related c a \<Longrightarrow> ok i c \<Longrightarrow> snd (conc i c) = snd (abst i a)"
    and advances: "related c a \<Longrightarrow> ok i c \<Longrightarrow> related (fst (conc i c)) (fst (abst i a))"
begin

lemma runs_agree:
  "related c a \<Longrightarrow> permitted ok conc is c \<Longrightarrow>
     snd (run_machine conc is c) = snd (run_machine abst is a) \<and> related (fst (run_machine conc is c)) (fst (run_machine abst is a))"
proof (induction "is" arbitrary: c a)
  case (Cons i "is")
  from Cons.prems have ok: "ok i c" "permitted ok conc is (fst (conc i c))" by simp_all
  with Cons.IH [OF advances [OF Cons.prems(1) ok(1)] ok(2)] answers [OF Cons.prems(1) ok(1)]
  show ?case by (simp add: case_prod_beta)
qed simp

end

section \<open>The sliding window\<close>

text \<open>The specification keeps every accepted request of a bucket for ever and counts those of the window.\<close>

type_synonym history = "bucket_key \<Rightarrow> rat list"

definition window_entries :: "rat \<Rightarrow> rat list \<Rightarrow> rat list" where
  "window_entries start h = filter (\<lambda>x. start \<le> x) h"

definition sliding_window :: "clock \<times> string \<times> string \<Rightarrow> history \<Rightarrow> history \<times> rate_decision" where
  "sliding_window req h = (case req of (ck, path, key) \<Rightarrow>
     (case rule_for path of
        None \<Rightarrow> (h, \<lparr>de_allowed = True, de_retry_after = None\<rparr>)
      | Some r \<Rightarrow>
          let k = (bucket_name r, key); live = window_entries (ck_clean ck - ru_window r) (h k)
          in if length live < ru_max r
             then (h(k := h k @ [ck_now ck]), \<lparr>de_allowed = True, de_retry_after = None\<rparr>)
             else (h, \<lparr>de_allowed = False, de_retry_after = Some (retry_after_seconds live (ru_window r) (ck_now ck))\<rparr>)))"

text \<open>The limiter together with the last reading of its clock.\<close>

definition limiter :: "clock \<times> string \<times> string \<Rightarrow> buckets \<times> rat \<Rightarrow> (buckets \<times> rat) \<times> rate_decision" where
  "limiter req s = (case req of (ck, path, key) \<Rightarrow>
     (case check_rate_limit ck path key (fst s) of (bs, d) \<Rightarrow> ((bs, ck_now ck), d)))"

definition clock_after :: "rat \<Rightarrow> clock \<Rightarrow> bool" where
  "clock_after t ck \<longleftrightarrow> t \<le> ck_evict ck \<and> ck_evict ck \<le> ck_clean ck \<and> ck_clean ck \<le> ck_now ck"

text \<open>A request is permitted if the clock does not run backwards and the recently used buckets fit in the table.\<close>

definition request_ok :: "clock \<times> string \<times> string \<Rightarrow> buckets \<times> rat \<Rightarrow> bool" where
  "request_ok req s \<longleftrightarrow> clock_after (snd s) (fst req) \<and>
     length (drop_stale (ck_evict (fst req)) (fst s)) \<le> max_buckets"

text \<open>The bucket of a key holds the end of its history; what it has dropped lies before every window to come.\<close>

definition window_of :: "string \<Rightarrow> rat" where
  "window_of name = (case List.find (\<lambda>r. bucket_name r = name) rate_limits of None \<Rightarrow> 0 | Some r \<Rightarrow> ru_window r)"

definition quota_of :: "string \<Rightarrow> nat" where
  "quota_of name = (case List.find (\<lambda>r. bucket_name r = name) rate_limits of None \<Rightarrow> 0 | Some r \<Rightarrow> ru_max r)"

definition keeps_window :: "buckets \<times> rat \<Rightarrow> history \<Rightarrow> bool" where
  "keeps_window s h \<longleftrightarrow> distinct (map fst (fst s)) \<and>
     (\<forall>k. sorted (h k) \<and> (\<forall>x \<in> set (h k). x \<le> snd s) \<and>
       (\<exists>old. h k = old @ bucket_of (fst s) k \<and> (\<forall>x \<in> set old. x < snd s - window_of (fst k))))"

lemma rules_ok:
  "list_all (\<lambda>r. window_of (bucket_name r) = ru_window r \<and> quota_of (bucket_name r) = ru_max r \<and> 0 \<le> ru_window r \<and> ru_window r \<le> stale_evict_seconds \<and> 0 < ru_max r)
     rate_limits"
  by code_simp

lemma rule_forD:
  assumes "rule_for path = Some r"
  shows "r \<in> set rate_limits" and "window_of (bucket_name r) = ru_window r" and "ru_window r \<le> stale_evict_seconds"
    and "0 \<le> ru_window r" and "0 < ru_max r" and "quota_of (bucket_name r) = ru_max r"
proof -
  from assms show r: "r \<in> set rate_limits" unfolding rule_for_def by (auto simp: find_Some_iff)
  from rules_ok r show "window_of (bucket_name r) = ru_window r" "ru_window r \<le> stale_evict_seconds" "0 \<le> ru_window r" "0 < ru_max r"
    "quota_of (bucket_name r) = ru_max r"
    unfolding list_all_iff by blast+
qed

lemma window_le: "window_of name \<le> stale_evict_seconds"
proof (cases "List.find (\<lambda>r. bucket_name r = name) rate_limits")
  case (Some r)
  then have "r \<in> set rate_limits" by (auto simp: find_Some_iff)
  with rules_ok Some show ?thesis unfolding list_all_iff window_of_def by auto
qed (simp add: window_of_def stale_evict_seconds_def)

lemma clean_expired_sorted: "sorted xs \<Longrightarrow> clean_expired c xs = filter (\<lambda>x. c \<le> x) xs"
proof (induction xs)
  case (Cons x xs)
  have "filter (\<lambda>y. c \<le> y) xs = xs" if "c \<le> x" using that Cons.prems by (fastforce simp: filter_id_conv)
  with Cons show ?case by auto
qed simp

lemma clean_expired_suffix: "\<exists>old. xs = old @ clean_expired c xs \<and> (\<forall>x \<in> set old. x < c)"
proof (induction xs)
  case (Cons x xs)
  then obtain old where old: "xs = old @ clean_expired c xs" "\<forall>x \<in> set old. x < c" by blast
  show ?case
  proof (cases "x < c")
    case True
    with old show ?thesis by (intro exI [of _ "x # old"]) simp
  qed (intro exI [of _ "[]"], simp)
qed simp

lemma bucket_of_Cons [simp]: "bucket_of ((k', b) # bs) k = (if k' = k then b else bucket_of bs k)"
  by (simp add: bucket_of_def)

lemma bucket_of_absent: "k \<notin> fst ` set bs \<Longrightarrow> bucket_of bs k = []"
  by (induction bs) (auto simp: bucket_of_def)

lemma bucket_of_update: "bucket_of (AList.update k b bs) k' = (if k' = k then b else bucket_of bs k')"
  by (simp add: bucket_of_def update_conv)

lemma bucket_of_filter:
  "distinct (map fst bs) \<Longrightarrow> bucket_of (filter P bs) k = (if P (k, bucket_of bs k) then bucket_of bs k else [])"
proof (induction bs)
  case (Cons kb bs)
  obtain k' b where kb: "kb = (k', b)" by (cases kb)
  have "bucket_of bs k' = []" "bucket_of (filter P bs) k' = []" using Cons.prems kb by (auto intro!: bucket_of_absent)
  with Cons kb show ?case by (cases "k' = k") auto
qed (simp add: bucket_of_def)

lemma keeps_windowD:
  assumes "keeps_window (bs, t) h"
  shows "distinct (map fst bs)" and "sorted (h k)" and "x \<in> set (h k) \<Longrightarrow> x \<le> t"
    and "\<exists>old. h k = old @ bucket_of bs k \<and> (\<forall>x \<in> set old. x < t - window_of (fst k))"
  using assms unfolding keeps_window_def by (simp_all only: fst_conv snd_conv)

lemma sorted_le_last: "sorted (xs @ ys) \<Longrightarrow> ys \<noteq> [] \<Longrightarrow> x \<in> set (xs @ ys) \<Longrightarrow> x \<le> last ys"
  by (cases ys rule: rev_cases) (auto simp: sorted_append)

text \<open>Eviction drops only what no window will ever need.\<close>

lemma evict_keeps:
  assumes rel: "keeps_window (bs, t) h" and t: "t \<le> now" and room: "length (drop_stale now bs) \<le> max_buckets"
  shows "keeps_window (evict_stale_buckets now bs, now) h"
proof -
  have ev: "evict_stale_buckets now bs = bs \<or> evict_stale_buckets now bs = drop_stale now bs"
    using room by (auto simp: evict_stale_buckets_def Let_def)
  note d = keeps_windowD(1) [OF rel]
  have "\<exists>old. h k = old @ bucket_of (evict_stale_buckets now bs) k \<and> (\<forall>x \<in> set old. x < now - window_of (fst k))" for k
  proof -
    from keeps_windowD(4) [OF rel] obtain old where old: "h k = old @ bucket_of bs k" "\<forall>x \<in> set old. x < t - window_of (fst k)" by blast
    show ?thesis
    proof (cases "bucket_of (evict_stale_buckets now bs) k = bucket_of bs k")
      case True
      with old t show ?thesis by (intro exI [of _ old]) force
    next
      case False
      then have e: "evict_stale_buckets now bs = drop_stale now bs" using ev by auto
      with False have gone: "is_stale now (k, bucket_of bs k)" "bucket_of (evict_stale_buckets now bs) k = []"
        unfolding e drop_stale_def bucket_of_filter [OF d] by (auto split: if_splits)
      with False have "last (bucket_of bs k) < now - stale_evict_seconds" by (auto simp: is_stale_def)
      moreover have "x \<le> last (bucket_of bs k)" if "x \<in> set (h k)" for x
        using sorted_le_last [of old "bucket_of bs k" x] keeps_windowD(2) [OF rel, where k = k] False gone(2) that unfolding old(1) by simp
      ultimately have "\<forall>x \<in> set (h k). x < now - window_of (fst k)" using window_le [of "fst k"] by fastforce
      with gone(2) show ?thesis by (intro exI [of _ "h k"]) simp
    qed
  qed
  moreover have "distinct (map fst (evict_stale_buckets now bs))" using ev d by (auto simp: drop_stale_def distinct_map_filter)
  moreover have "sorted (h k) \<and> (\<forall>x \<in> set (h k). x \<le> now)" for k using keeps_windowD(2,3) [OF rel, where k = k] t by fastforce
  ultimately show ?thesis unfolding keeps_window_def by simp
qed

section \<open>The limiter refines the window\<close>

lemma keeps_window_later: "keeps_window (bs, t) h \<Longrightarrow> t \<le> t' \<Longrightarrow> keeps_window (bs, t') h"
proof -
  assume rel: "keeps_window (bs, t) h" and t: "t \<le> t'"
  have "sorted (h k) \<and> (\<forall>x \<in> set (h k). x \<le> t') \<and> (\<exists>old. h k = old @ bucket_of bs k \<and> (\<forall>x \<in> set old. x < t' - window_of (fst k)))" for k
  proof -
    from keeps_windowD(4) [OF rel, where k = k] obtain old where
      "h k = old @ bucket_of bs k" "\<forall>x \<in> set old. x < t - window_of (fst k)" by blast
    then have "\<exists>old. h k = old @ bucket_of bs k \<and> (\<forall>x \<in> set old. x < t' - window_of (fst k))" using t by (intro exI [of _ old]) force
    with keeps_windowD(2,3) [OF rel, where k = k] t show ?thesis by force
  qed
  with keeps_windowD(1) [OF rel] show ?thesis unfolding keeps_window_def by simp
qed

text \<open>What the bucket holds after the expiry is the window of the history.\<close>

lemma live_entries:
  assumes rel: "keeps_window (bs, t) h"
  shows "window_entries (t - window_of (fst k)) (h k) = clean_expired (t - window_of (fst k)) (bucket_of bs k)"
proof -
  from keeps_windowD(4) [OF rel, where k = k] obtain old where
    old: "h k = old @ bucket_of bs k" "\<forall>x \<in> set old. x < t - window_of (fst k)" by blast
  then have "sorted (bucket_of bs k)" using keeps_windowD(2) [OF rel, where k = k] by (simp add: sorted_append)
  moreover have "filter (\<lambda>x. t - window_of (fst k) \<le> x) old = []" using old(2) by (auto simp: filter_empty_conv)
  ultimately show ?thesis by (simp add: window_entries_def old(1) clean_expired_sorted)
qed

lemma related_update:
  assumes rel: "keeps_window (bs, t) h" and t: "t \<le> now" and h': "h' = h(k := h k @ new)" "set new \<subseteq> {now}" "length new \<le> 1"
  shows "keeps_window (AList.update k (clean_expired (t - window_of (fst k)) (bucket_of bs k) @ new) bs, now) h'"
proof -
  note later = keeps_window_later [OF rel t]
  let ?b = "clean_expired (t - window_of (fst k)) (bucket_of bs k)"
  have "sorted (h' j) \<and> (\<forall>x \<in> set (h' j). x \<le> now) \<and>
      (\<exists>old. h' j = old @ bucket_of (AList.update k (?b @ new) bs) j \<and> (\<forall>x \<in> set old. x < now - window_of (fst j)))" for j
  proof (cases "j = k")
    case False
    with keeps_windowD(2,3,4) [OF later, where k = j] show ?thesis by (simp add: h'(1) bucket_of_update)
  next
    case True
    from keeps_windowD(4) [OF rel, where k = k] obtain old where
      old: "h k = old @ bucket_of bs k" "\<forall>x \<in> set old. x < t - window_of (fst k)" by blast
    from clean_expired_suffix obtain old2 where
      old2: "bucket_of bs k = old2 @ ?b" "\<forall>x \<in> set old2. x < t - window_of (fst k)" by blast
    have "h' k = (old @ old2) @ ?b @ new" using old(1) old2(1) by (simp add: h'(1))
    moreover have "\<forall>x \<in> set (old @ old2). x < now - window_of (fst k)" using old(2) old2(2) t by force
    moreover have "sorted new" using h'(3) by (cases new) auto
    then have "sorted (h' k)" "\<forall>x \<in> set (h' k). x \<le> now"
      using keeps_windowD(2,3) [OF later, where k = k] h'(2) by (fastforce simp: h'(1) sorted_append)+
    ultimately show ?thesis unfolding True bucket_of_update by (auto intro!: exI [of _ "old @ old2"])
  qed
  then show ?thesis using keeps_windowD(1) [OF rel] by (simp add: keeps_window_def distinct_update)
qed

lemma limiter_step:
  assumes rel: "keeps_window s h" and ok: "request_ok req s"
  shows "snd (limiter req s) = snd (sliding_window req h) \<and> keeps_window (fst (limiter req s)) (fst (sliding_window req h))"
proof -
  obtain ck path key where req: "req = (ck, path, key)" by (cases req)
  obtain bs t where s: "s = (bs, t)" by (cases s)
  from ok have ck: "t \<le> ck_evict ck" "ck_evict ck \<le> ck_clean ck" "ck_clean ck \<le> ck_now ck"
    and room: "length (drop_stale (ck_evict ck) bs) \<le> max_buckets"
    by (simp_all add: request_ok_def clock_after_def req s)
  show ?thesis
  proof (cases "rule_for path")
    case None
    have "keeps_window (bs, ck_now ck) h" by (rule keeps_window_later [OF rel [unfolded s]]) (use ck in simp)
    with None show ?thesis by (simp add: req s limiter_def check_rate_limit_def sliding_window_def)
  next
    case (Some r)
    let ?k = "(bucket_name r, key)"
    let ?bs = "evict_stale_buckets (ck_evict ck) bs"
    let ?b = "clean_expired (ck_clean ck - ru_window r) (bucket_of ?bs ?k)"
    have w: "window_of (bucket_name r) = ru_window r" by (rule rule_forD(2) [OF Some])
    have rel1: "keeps_window (?bs, ck_clean ck) h"
      by (rule keeps_window_later [OF evict_keeps [OF rel [unfolded s] ck(1) room] ck(2)])
    have live: "window_entries (ck_clean ck - ru_window r) (h ?k) = ?b" using live_entries [OF rel1, of ?k] w by simp
    have denied: "keeps_window (AList.update ?k ?b ?bs, ck_now ck) h"
      using related_update [OF rel1 ck(3), of h ?k "[]"] w by simp
    have granted: "keeps_window (AList.update ?k (?b @ [ck_now ck]) ?bs, ck_now ck) (h(?k := h ?k @ [ck_now ck]))"
      using related_update [OF rel1 ck(3), of _ ?k "[ck_now ck]"] w by simp
    show ?thesis
    proof (cases "length ?b < ru_max r")
      case True
      with granted live Some show ?thesis
        by (simp add: req s limiter_def check_rate_limit_def sliding_window_def Let_def)
    next
      case False
      with denied live Some show ?thesis
        by (simp add: req s limiter_def check_rate_limit_def sliding_window_def Let_def)
    qed
  qed
qed

interpretation rl: forward_simulation limiter sliding_window keeps_window request_ok
  by unfold_locales (simp_all add: limiter_step)

lemma starts_related: "keeps_window (reset_rate_limits, t) (\<lambda>k. [])"
  by (simp add: keeps_window_def reset_rate_limits_def bucket_of_def)

section \<open>Quotas\<close>

text \<open>Every accepted request found fewer than \<open>n\<close> accepted ones in the window before it.\<close>

definition spaced :: "rat \<Rightarrow> nat \<Rightarrow> rat list \<Rightarrow> bool" where
  "spaced w n xs \<longleftrightarrow> (\<forall>ys x zs. xs = ys @ x # zs \<longrightarrow> length (window_entries (x - w) ys) < n)"

lemma spaced_append:
  assumes "spaced w n xs" and "length (window_entries (x - w) xs) < n"
  shows "spaced w n (xs @ [x])"
  unfolding spaced_def
proof (intro allI impI)
  fix ys y zs
  assume eq: "xs @ [x] = ys @ y # zs"
  show "length (window_entries (y - w) ys) < n"
  proof (cases zs rule: rev_cases)
    case Nil
    with eq assms(2) show ?thesis by simp
  next
    case (snoc us u)
    with eq have "xs = ys @ y # us" by simp
    with assms(1) show ?thesis unfolding spaced_def by blast
  qed
qed

lemma spaced_count:
  assumes "spaced w n xs"
  shows "length (filter (\<lambda>x. s \<le> x \<and> x \<le> s + w) xs) \<le> n"
proof (cases "\<exists>x \<in> set xs. s \<le> x \<and> x \<le> s + w")
  case False
  then have "filter (\<lambda>x. s \<le> x \<and> x \<le> s + w) xs = []" by (auto simp: filter_empty_conv)
  then show ?thesis by simp
next
  case True
  from split_list_last_prop [OF this] obtain ys x zs where
    xs: "xs = ys @ x # zs" "s \<le> x \<and> x \<le> s + w" "\<forall>z \<in> set zs. \<not> (s \<le> z \<and> z \<le> s + w)" by blast
  have "length (filter (\<lambda>x. s \<le> x \<and> x \<le> s + w) ys) \<le> length (window_entries (x - w) ys)"
    using xs(2) unfolding window_entries_def by (induction ys) auto
  moreover have "length (window_entries (x - w) ys) < n" using assms xs(1) unfolding spaced_def by blast
  moreover have "filter (\<lambda>x. s \<le> x \<and> x \<le> s + w) zs = []" using xs(3) by (auto simp: filter_empty_conv)
  ultimately show ?thesis using xs(1,2) by simp
qed

text \<open>The instants at which a run accepted requests of a bucket.\<close>

definition bucket_key_of :: "clock \<times> string \<times> string \<Rightarrow> bucket_key option" where
  "bucket_key_of req = (case req of (ck, path, key) \<Rightarrow> map_option (\<lambda>r. (bucket_name r, key)) (rule_for path))"

definition accepted :: "bucket_key \<Rightarrow> (clock \<times> string \<times> string) list \<Rightarrow> rate_decision list \<Rightarrow> rat list" where
  "accepted k reqs ds =
     map (\<lambda>(req, d). ck_now (fst req)) (filter (\<lambda>(req, d). de_allowed d \<and> bucket_key_of req = Some k) (zip reqs ds))"

lemma window_step:
  "fst (sliding_window req h) k = h k @ accepted k [req] [snd (sliding_window req h)]"
  by (cases req) (auto simp: sliding_window_def accepted_def bucket_key_of_def Let_def split: option.splits)

lemma window_history:
  "fst (run_machine sliding_window reqs h) k = h k @ accepted k reqs (snd (run_machine sliding_window reqs h))"
proof (induction reqs arbitrary: h)
  case (Cons req reqs)
  have "accepted k (req # reqs) (d # ds) = accepted k [req] [d] @ accepted k reqs ds" for d ds by (simp add: accepted_def)
  with Cons [of "fst (sliding_window req h)"] window_step [of req h k] show ?case by (simp add: case_prod_beta)
qed (simp add: accepted_def)

definition quotas_hold :: "history \<Rightarrow> bool" where
  "quotas_hold h \<longleftrightarrow> (\<forall>k. spaced (window_of (fst k)) (quota_of (fst k)) (h k))"

lemma window_quota_step:
  assumes "quotas_hold h" and "ck_clean (fst req) \<le> ck_now (fst req)"
  shows "quotas_hold (fst (sliding_window req h))"
proof -
  obtain ck path key where req: "req = (ck, path, key)" by (cases req)
  have h: "spaced (window_of (fst k)) (quota_of (fst k)) (h k)" for k using assms(1) by (simp only: quotas_hold_def)
  show ?thesis
  proof (cases "rule_for path")
    case None
    with assms(1) show ?thesis by (simp add: req sliding_window_def)
  next
    case (Some r)
    let ?k = "(bucket_name r, key)"
    have "length (window_entries (ck_now ck - ru_window r) xs) \<le> length (window_entries (ck_clean ck - ru_window r) xs)" for xs
      using assms(2) unfolding req window_entries_def by (induction xs) auto
    then have "spaced (window_of (bucket_name r)) (quota_of (bucket_name r)) (h ?k @ [ck_now ck])"
      if "length (window_entries (ck_clean ck - ru_window r) (h ?k)) < ru_max r"
      using h [of ?k] rule_forD(2,6) [OF Some] that by (intro spaced_append) (auto intro: le_less_trans)
    with Some have "spaced (window_of (fst k)) (quota_of (fst k)) (fst (sliding_window req h) k)" for k
      using h [of k] by (auto simp: req sliding_window_def Let_def)
    then show ?thesis unfolding quotas_hold_def by blast
  qed
qed

lemma window_quota:
  "\<forall>req \<in> set reqs. ck_clean (fst req) \<le> ck_now (fst req) \<Longrightarrow> quotas_hold h \<Longrightarrow> quotas_hold (fst (run_machine sliding_window reqs h))"
proof (induction reqs arbitrary: h)
  case (Cons req reqs)
  then have "quotas_hold (fst (sliding_window req h))" by (simp add: window_quota_step)
  with Cons show ?case by (simp add: case_prod_beta)
qed simp

lemma permitted_clocks: "permitted request_ok limiter reqs s \<Longrightarrow> req \<in> set reqs \<Longrightarrow> ck_clean (fst req) \<le> ck_now (fst req)"
proof (induction reqs arbitrary: s)
  case (Cons x reqs)
  from Cons.prems(2) consider "req = x" | "req \<in> set reqs" by auto
  then show ?case
  proof cases
    case 1
    with Cons.prems(1) show ?thesis by (simp add: request_ok_def clock_after_def)
  next
    case 2
    from Cons.prems(1) have "permitted request_ok limiter reqs (fst (limiter x s))" by simp
    then show ?thesis by (rule Cons.IH [OF _ 2])
  qed
qed simp

section \<open>Properties\<close>

text \<open>C11. The limiter refines the sliding window: along every run of requests with a clock that does not go back, and
  with no more recently used buckets than its table holds, it answers each request, the retry delay included, as
  the specification that remembers every accepted request for ever.\<close>

theorem limiter_refines_window:
  assumes "permitted request_ok limiter reqs (reset_rate_limits, t)"
  shows "snd (run_machine limiter reqs (reset_rate_limits, t)) = snd (run_machine sliding_window reqs (\<lambda>k. []))"
  using rl.runs_agree [OF starts_related assms] by simp

text \<open>The quota of a rule is kept in every window: no interval of the length of the rule's window, wherever it
  lies, holds more accepted requests of one caller and bucket than the rule allows, also where several paths share
  the bucket.\<close>

lemma quota_kept:
  assumes "permitted request_ok limiter reqs (reset_rate_limits, t)" and "rule_for path = Some r"
  shows "length (filter (\<lambda>x. s \<le> x \<and> x \<le> s + ru_window r)
     (accepted (bucket_name r, key) reqs (snd (run_machine limiter reqs (reset_rate_limits, t))))) \<le> ru_max r"
proof -
  let ?k = "(bucket_name r, key)"
  have "quotas_hold (fst (run_machine sliding_window reqs (\<lambda>k. [])))"
    by (rule window_quota) (use permitted_clocks [OF assms(1)] in \<open>auto simp: quotas_hold_def spaced_def\<close>)
  then have "spaced (window_of (fst ?k)) (quota_of (fst ?k)) (fst (run_machine sliding_window reqs (\<lambda>k. [])) ?k)"
    unfolding quotas_hold_def by blast
  then have "spaced (ru_window r) (ru_max r) (accepted ?k reqs (snd (run_machine limiter reqs (reset_rate_limits, t))))"
    using rl.runs_agree [OF starts_related assms(1)] rule_forD(2,6) [OF assms(2)] by (simp add: window_history)
  then show ?thesis by (rule spaced_count)
qed

section \<open>The delay a refusal names\<close>

definition small_buckets :: "buckets \<Rightarrow> bool" where
  "small_buckets bs \<longleftrightarrow> distinct (map fst bs) \<and> (\<forall>k. length (bucket_of bs k) \<le> quota_of (fst k))"

lemma small_bucketsD: "small_buckets bs \<Longrightarrow> length (bucket_of bs k) \<le> quota_of (fst k)"
  unfolding small_buckets_def by blast

lemma bucket_of_evicted:
  "distinct (map fst bs) \<Longrightarrow> bucket_of (evict_stale_buckets now bs) k \<in> {[], bucket_of bs k}"
  by (auto simp: evict_stale_buckets_def drop_oldest_def drop_stale_def Let_def bucket_of_filter distinct_map_filter)

lemma evicted_distinct: "distinct (map fst bs) \<Longrightarrow> distinct (map fst (evict_stale_buckets now bs))"
  by (simp add: evict_stale_buckets_def drop_oldest_def drop_stale_def Let_def distinct_map_filter)

lemma length_clean_expired: "length (clean_expired c xs) \<le> length xs"
  by (induction xs) auto

lemma small_check:
  assumes "small_buckets bs"
  shows "small_buckets (fst (check_rate_limit ck path key bs))"
proof (cases "rule_for path")
  case None
  with assms show ?thesis by (simp add: check_rate_limit_def)
next
  case (Some r)
  let ?k = "(bucket_name r, key)"
  let ?bs = "evict_stale_buckets (ck_evict ck) bs"
  let ?b = "clean_expired (ck_clean ck - ru_window r) (bucket_of ?bs ?k)"
  have d: "distinct (map fst bs)" using assms by (simp add: small_buckets_def)
  have small: "length (bucket_of ?bs k) \<le> quota_of (fst k)" for k
    using bucket_of_evicted [OF d, of "ck_evict ck" k] small_bucketsD [OF assms, of k] by auto
  have "length ?b \<le> ru_max r" using le_trans [OF length_clean_expired small [of ?k]] rule_forD(6) [OF Some] by simp
  with small rule_forD(6) [OF Some] evicted_distinct [OF d] Some show ?thesis
    by (auto simp: small_buckets_def check_rate_limit_def Let_def bucket_of_update distinct_update)
qed

lemma small_run: "small_buckets (fst s) \<Longrightarrow> small_buckets (fst (fst (run_machine limiter reqs s)))"
proof (induction reqs arbitrary: s)
  case (Cons req reqs)
  have "small_buckets (fst (fst (limiter req s)))"
    using small_check [OF Cons.prems] by (cases req) (simp add: limiter_def case_prod_beta)
  from Cons.IH [OF this] show ?case by (simp add: case_prod_beta)
qed simp

lemma small_reset: "small_buckets reset_rate_limits"
  by (simp add: small_buckets_def reset_rate_limits_def bucket_of_def)

lemma short_after_head: "clean_expired c (x # xs) \<noteq> x # xs \<or> c \<le> x \<Longrightarrow> x < c \<Longrightarrow> length (clean_expired c (x # xs)) < length (x # xs)"
  using length_clean_expired [of c xs] by simp

text \<open>A refusal names a delay that is long enough: the next request of the same path and caller whose clock reading
  lies more than that many seconds later is accepted, whatever the requests before the refused one were.\<close>

lemma retry_after_is_enough:
  assumes reach: "fst (run_machine limiter reqs (reset_rate_limits, t0)) = (bs, t)"
    and denied: "check_rate_limit ck path key bs = (bs', \<lparr>de_allowed = False, de_retry_after = Some n\<rparr>)"
    and later: "ck_now ck + of_int n < ck_clean ck'"
  shows "1 \<le> n \<and> de_allowed (snd (check_rate_limit ck' path key bs'))"
proof -
  have small: "small_buckets bs" using small_run [of "(reset_rate_limits, t0)" reqs] reach small_reset by simp
  from denied obtain r where r: "rule_for path = Some r" by (cases "rule_for path") (auto simp: check_rate_limit_def)
  let ?k = "(bucket_name r, key)"
  let ?b = "clean_expired (ck_clean ck - ru_window r) (bucket_of (evict_stale_buckets (ck_evict ck) bs) ?k)"
  from denied r have b: "ru_max r \<le> length ?b" "n = retry_after_seconds ?b (ru_window r) (ck_now ck)"
      "bs' = AList.update ?k ?b (evict_stale_buckets (ck_evict ck) bs)"
    by (auto simp: check_rate_limit_def Let_def split: if_splits)
  have small': "small_buckets bs'" using small_check [OF small, of ck path key] denied by simp
  have "0 < ru_max r" by (rule rule_forD(5) [OF r])
  with b(1) obtain x xs where x: "?b = x # xs" by (cases ?b) auto
  have n: "1 \<le> n" "\<lceil>ru_window r - (ck_now ck - x)\<rceil> \<le> n" using b(2) x by (simp_all add: retry_after_seconds_def)
  then have "ru_window r - (ck_now ck - x) \<le> of_int n" by (simp add: ceiling_le_iff)
  then have gone: "x < ck_clean ck' - ru_window r" using later by simp
  have bk: "bucket_of bs' ?k = x # xs" using b(3) x by (simp add: bucket_of_update)
  have len: "length (x # xs) \<le> ru_max r"
    using small' bk rule_forD(6) [OF r] unfolding small_buckets_def by (metis fst_conv)
  have "distinct (map fst bs')" using small' by (simp add: small_buckets_def)
  from bucket_of_evicted [OF this, of "ck_evict ck'" ?k]
  have "length (clean_expired (ck_clean ck' - ru_window r) (bucket_of (evict_stale_buckets (ck_evict ck') bs') ?k)) < ru_max r"
    using gone len \<open>0 < ru_max r\<close> length_clean_expired [of "ck_clean ck' - ru_window r" xs] bk by auto
  with n(1) r show ?thesis by (simp add: check_rate_limit_def Let_def)
qed

section \<open>Witnesses\<close>

definition clock_at :: "rat \<Rightarrow> clock" where
  "clock_at x = \<lparr>ck_evict = x, ck_clean = x, ck_now = x\<rparr>"

text \<open>Two restores within a minute, the second by the encrypted path, and one after the window.\<close>

definition restores :: "(clock \<times> string \<times> string) list" where
  "restores = [(clock_at 10, ''/api/system/import'', ''u''), (clock_at 70, ''/api/system/import/encrypted'', ''u''),
     (clock_at 400, ''/api/system/import'', ''u'')]"

lemma restores_permitted: "permitted request_ok limiter restores (reset_rate_limits, 0)"
  by code_simp

lemma restores_answers: "map de_allowed (snd (run_machine limiter restores (reset_rate_limits, 0))) = [True, False, True]"
  by code_simp

theorem limiter_refines_window_witness:
  "map de_allowed (snd (run_machine sliding_window restores (\<lambda>k. []))) = [True, False, True]"
  using restores_answers unfolding limiter_refines_window [OF restores_permitted] .

definition refused_bucket :: buckets where
  "refused_bucket = fst (fst (run_machine limiter [(clock_at 10, ''/api/system/import'', ''u'')] (reset_rate_limits, 0)))"

end
