(* ===== verification/Regex.thy ===== *)
theory Regex
  imports Queries
begin

text \<open>
  The part of Python's \<open>re\<close> that the runtime uses: classes, sequence, alternative and repetition (greedy or lazy),
  matched by backtracking in priority order, with \<open>search\<close> and \<open>subn\<close>. The backtracking matcher finds a match if and
  only if the pattern's language holds a prefix of the text. Text is ASCII.
\<close>

section \<open>Patterns and their languages\<close>

datatype rx = Eps | Cls "char \<Rightarrow> bool" | Seq rx rx | Alt rx rx | Star bool rx

inductive_set stars :: "string set \<Rightarrow> string set" for L :: "string set" where
  stop: "[] \<in> stars L"
| more: "u \<in> L \<Longrightarrow> v \<in> stars L \<Longrightarrow> u @ v \<in> stars L"

primrec lang :: "rx \<Rightarrow> string set" where
  "lang Eps = {[]}"
| "lang (Cls p) = {[c] |c. p c}"
| "lang (Seq a b) = {u @ v |u v. u \<in> lang a \<and> v \<in> lang b}"
| "lang (Alt a b) = lang a \<union> lang b"
| "lang (Star g a) = stars (lang a)"

section \<open>Matching\<close>

text \<open>A continuation says whether the rest of the pattern matches the rest of the text. An iteration of a
  repetition must consume something, so the length of the text bounds their number.\<close>

type_synonym cont = "string \<Rightarrow> string option"

fun repeat :: "bool \<Rightarrow> (cont \<Rightarrow> cont) \<Rightarrow> cont \<Rightarrow> nat \<Rightarrow> cont" where
  "repeat g r k 0 s = k s"
| "repeat g r k (Suc n) s =
     (if g
      then (case r (\<lambda>s'. if length s' < length s then repeat g r k n s' else None) s of Some x \<Rightarrow> Some x | None \<Rightarrow> k s)
      else (case k s of Some x \<Rightarrow> Some x | None \<Rightarrow> r (\<lambda>s'. if length s' < length s then repeat g r k n s' else None) s))"

primrec matcher :: "rx \<Rightarrow> cont \<Rightarrow> cont" where
  "matcher Eps = (\<lambda>k s. k s)"
| "matcher (Cls p) = (\<lambda>k s. case s of [] \<Rightarrow> None | c # cs \<Rightarrow> if p c then k cs else None)"
| "matcher (Seq a b) = (\<lambda>k. matcher a (matcher b k))"
| "matcher (Alt a b) = (\<lambda>k s. case matcher a k s of Some x \<Rightarrow> Some x | None \<Rightarrow> matcher b k s)"
| "matcher (Star g a) = (\<lambda>k s. repeat g (matcher a) k (length s) s)"

definition match_at :: "rx \<Rightarrow> string \<Rightarrow> string option" where
  "match_at r s = matcher r Some s"

fun search :: "rx \<Rightarrow> string \<Rightarrow> bool" where
  "search r [] = (match_at r [] \<noteq> None)"
| "search r (c # cs) = (match_at r (c # cs) \<noteq> None \<or> search r cs)"

text \<open>\<open>subn\<close> from left to right, for patterns that match no empty text.\<close>

function subn :: "rx \<Rightarrow> (string \<Rightarrow> string) \<Rightarrow> string \<Rightarrow> string \<times> nat" where
  "subn r f [] = ([], 0)"
| "subn r f (c # cs) =
     (case match_at r (c # cs) of
        Some rest \<Rightarrow>
          if length rest \<le> length cs
          then (case subn r f rest of (t, n) \<Rightarrow> (f (take (length (c # cs) - length rest) (c # cs)) @ t, Suc n))
          else (case subn r f cs of (t, n) \<Rightarrow> (c # t, n))
      | None \<Rightarrow> (case subn r f cs of (t, n) \<Rightarrow> (c # t, n)))"
  by pat_completeness auto
termination by (relation "measure (\<lambda>(r, f, s). length s)") auto

section \<open>Building patterns\<close>

definition lit :: "string \<Rightarrow> rx" where
  "lit s = foldr (\<lambda>c. Seq (Cls (\<lambda>d. d = c))) s Eps"

definition seqs :: "rx list \<Rightarrow> rx" where
  "seqs rs = foldr Seq rs Eps"

definition alts :: "rx list \<Rightarrow> rx" where
  "alts rs = foldr Alt (butlast rs) (last rs)"

definition opt :: "rx \<Rightarrow> rx" where
  "opt r = Alt r Eps"

definition at_least :: "nat \<Rightarrow> rx \<Rightarrow> rx" where
  "at_least n r = foldr Seq (replicate n r) (Star True r)"

definition exactly :: "nat \<Rightarrow> rx \<Rightarrow> rx" where
  "exactly n r = foldr Seq (replicate n r) Eps"

definition at_most :: "nat \<Rightarrow> rx \<Rightarrow> rx" where
  "at_most n r = ((\<lambda>x. opt (Seq r x)) ^^ n) Eps"

definition ascii_upper :: "char \<Rightarrow> char" where
  "ascii_upper c = (if 97 \<le> (of_char c :: nat) \<and> (of_char c :: nat) \<le> 122 then char_of ((of_char c :: nat) - 32) else c)"

text \<open>Under \<open>IGNORECASE\<close> a class holds a character if it holds one of its case variants.\<close>

primrec any_case :: "rx \<Rightarrow> rx" where
  "any_case Eps = Eps"
| "any_case (Cls p) = Cls (\<lambda>c. p c \<or> p (ascii_lower c) \<or> p (ascii_upper c))"
| "any_case (Seq a b) = Seq (any_case a) (any_case b)"
| "any_case (Alt a b) = Alt (any_case a) (any_case b)"
| "any_case (Star g a) = Star g (any_case a)"

definition in_range :: "char \<Rightarrow> char \<Rightarrow> char \<Rightarrow> bool" where
  "in_range a b c \<longleftrightarrow> (of_char a :: nat) \<le> of_char c \<and> (of_char c :: nat) \<le> of_char b"

definition white :: "char \<Rightarrow> bool" where
  "white c \<longleftrightarrow> is_space c \<or> in_range (CHR 0x1C) (CHR 0x1F) c"

section \<open>Texts\<close>

text \<open>Code points: the bytes that do not continue a UTF-8 sequence.\<close>

definition code_points :: "string \<Rightarrow> nat" where
  "code_points s = length (filter (\<lambda>c. \<not> in_range (CHR 0x80) (CHR 0xBF) c) s)"

text \<open>\<open>s[:n]\<close> in code points.\<close>

fun take_points :: "nat \<Rightarrow> string \<Rightarrow> string" where
  "take_points n [] = []"
| "take_points n (c # s) =
     (if in_range (CHR 0x80) (CHR 0xBF) c then c # take_points n s else if n = 0 then [] else c # take_points (n - 1) s)"

fun join :: "string \<Rightarrow> string list \<Rightarrow> string" where
  "join sep [] = []"
| "join sep [s] = s"
| "join sep (s # t # ts) = s @ sep @ join sep (t # ts)"

section \<open>The matcher decides the language\<close>

lemma repeat_sound:
  assumes "\<And>k s x. r k s = Some x \<Longrightarrow> \<exists>w s'. s = w @ s' \<and> w \<in> L \<and> k s' = Some x"
  shows "repeat g r k n s = Some x \<Longrightarrow> \<exists>w s'. s = w @ s' \<and> w \<in> stars L \<and> k s' = Some x"
proof (induction n arbitrary: s)
  case 0
  then show ?case using stars.stop by (metis append_Nil repeat.simps(1))
next
  case (Suc n)
  let ?more = "r (\<lambda>s'. if length s' < length s then repeat g r k n s' else None) s"
  have more: "\<exists>w s'. s = w @ s' \<and> w \<in> stars L \<and> k s' = Some x" if "?more = Some x"
  proof -
    from assms [OF that] obtain w s' where w: "s = w @ s'" "w \<in> L"
      "(if length s' < length s then repeat g r k n s' else None) = Some x" by blast
    from w(3) have "repeat g r k n s' = Some x" by (simp split: if_splits)
    from Suc.IH [OF this] obtain v s'' where "s' = v @ s''" "v \<in> stars L" "k s'' = Some x" by blast
    with w show ?thesis by (intro exI [of _ "w @ v"] exI [of _ s'']) (simp add: stars.more)
  qed
  have here: "\<exists>w s'. s = w @ s' \<and> w \<in> stars L \<and> k s' = Some x" if "k s = Some x"
    using that stars.stop by (metis append_Nil)
  have "?more = Some x \<or> k s = Some x"
  proof (cases g)
    case True
    then have g: "g = True" by simp
    show ?thesis using Suc.prems unfolding g by (simp split: option.splits)
  next
    case False
    then have g: "g = False" by simp
    show ?thesis using Suc.prems unfolding g by (simp split: option.splits)
  qed
  then show ?case using more here by blast
qed

lemma matcher_sound: "matcher r k s = Some x \<Longrightarrow> \<exists>w s'. s = w @ s' \<and> w \<in> lang r \<and> k s' = Some x"
proof (induction r arbitrary: k s x)
  case (Cls p)
  then obtain c cs where "s = c # cs" "p c" "k cs = Some x" by (auto split: list.splits if_splits)
  then show ?case by (intro exI [of _ "[c]"] exI [of _ cs]) simp
next
  case (Seq a b)
  from Seq.prems have "matcher a (matcher b k) s = Some x" by simp
  from Seq.IH(1) [OF this] obtain u s1 where u: "s = u @ s1" "u \<in> lang a" "matcher b k s1 = Some x" by blast
  from Seq.IH(2) [OF u(3)] obtain v s2 where "s1 = v @ s2" "v \<in> lang b" "k s2 = Some x" by blast
  with u show ?case by (intro exI [of _ "u @ v"] exI [of _ s2]) auto
next
  case (Alt a b)
  then show ?case by (cases "matcher a k s") (auto, blast+)
next
  case (Star g a)
  from Star.prems have "repeat g (matcher a) k (length s) s = Some x" by simp
  from repeat_sound [OF Star.IH this] show ?case by simp
qed simp

lemma stars_split:
  assumes "w \<in> stars L"
  shows "w = [] \<or> (\<exists>u v. w = u @ v \<and> u \<noteq> [] \<and> u \<in> L \<and> v \<in> stars L)"
  using assms
proof (induction rule: stars.induct)
  case (more u v)
  then show ?case by (cases "u = []") auto
qed simp

lemma repeat_complete:
  assumes "\<And>k s w. w \<in> L \<Longrightarrow> k s \<noteq> None \<Longrightarrow> r k (w @ s) \<noteq> None"
  shows "w \<in> stars L \<Longrightarrow> k s \<noteq> None \<Longrightarrow> length w \<le> n \<Longrightarrow> repeat g r k n (w @ s) \<noteq> None"
proof (induction n arbitrary: w)
  case (Suc n)
  let ?k = "\<lambda>s'. if length s' < length (w @ s) then repeat g r k n s' else None"
  from stars_split [OF Suc.prems(1)] show ?case
  proof (elim disjE exE conjE)
    assume "w = []"
    with Suc.prems(2) show ?thesis by (cases g) (auto split: option.splits)
  next
    fix u v
    assume w: "w = u @ v" "u \<noteq> []" "u \<in> L" "v \<in> stars L"
    have "repeat g r k n (v @ s) \<noteq> None" using Suc.IH [OF w(4) Suc.prems(2)] Suc.prems(3) w(1,2) by (cases u) auto
    moreover have "length (v @ s) < length (w @ s)" using w(1,2) by simp
    ultimately have "?k (v @ s) \<noteq> None" by simp
    from assms [where k = ?k and s = "v @ s" and w = u, OF w(3) this] have "r ?k (w @ s) \<noteq> None" using w(1) by simp
    then obtain y where "r ?k (w @ s) = Some y" by blast
    then show ?thesis by (simp split: option.splits)
  qed
qed simp

lemma matcher_complete: "w \<in> lang r \<Longrightarrow> k s \<noteq> None \<Longrightarrow> matcher r k (w @ s) \<noteq> None"
proof (induction r arbitrary: w k s)
  case (Seq a b)
  from Seq.prems(1) obtain u v where w: "w = u @ v" "u \<in> lang a" "v \<in> lang b" by auto
  have "matcher b k (v @ s) \<noteq> None" by (rule Seq.IH(2) [where k = k and s = s, OF w(3) Seq.prems(2)])
  from Seq.IH(1) [where k = "matcher b k" and s = "v @ s" and w = u, OF w(2) this] show ?case by (simp add: w(1))
next
  case (Alt a b)
  from Alt.prems(1) consider "w \<in> lang a" | "w \<in> lang b" by auto
  then have "matcher a k (w @ s) \<noteq> None \<or> matcher b k (w @ s) \<noteq> None"
    using Alt.IH(1) [where k = k and s = s and w = w] Alt.IH(2) [where k = k and s = s and w = w] Alt.prems(2) by blast
  then show ?case by (auto split: option.splits)
next
  case (Star g a)
  have "repeat g (matcher a) k (length (w @ s)) (w @ s) \<noteq> None"
    by (rule repeat_complete [of "lang a"]) (use Star in auto)
  then show ?case by simp
qed (auto split: if_splits)

lemma match_decides: "match_at r s \<noteq> None \<longleftrightarrow> (\<exists>w s'. s = w @ s' \<and> w \<in> lang r)"
  using matcher_sound [of r Some s] matcher_complete [of _ r Some] unfolding match_at_def by blast

text \<open>A match somewhere in the text.\<close>

definition contains :: "rx \<Rightarrow> string \<Rightarrow> bool" where
  "contains r s \<longleftrightarrow> (\<exists>a w b. s = a @ w @ b \<and> w \<in> lang r)"

lemma contains_Cons: "contains r (c # cs) \<longleftrightarrow> match_at r (c # cs) \<noteq> None \<or> contains r cs"
  unfolding contains_def match_decides
proof
  assume "\<exists>a w b. c # cs = a @ w @ b \<and> w \<in> lang r"
  then obtain a w b where "c # cs = a @ w @ b" "w \<in> lang r" by blast
  then show "(\<exists>w s'. c # cs = w @ s' \<and> w \<in> lang r) \<or> (\<exists>a w b. cs = a @ w @ b \<and> w \<in> lang r)"
    by (cases a) auto
next
  assume "(\<exists>w s'. c # cs = w @ s' \<and> w \<in> lang r) \<or> (\<exists>a w b. cs = a @ w @ b \<and> w \<in> lang r)"
  then show "\<exists>a w b. c # cs = a @ w @ b \<and> w \<in> lang r" by (metis append_Cons append_Nil)
qed

lemma search_contains: "search r s \<longleftrightarrow> contains r s"
proof (induction s)
  case Nil
  show ?case using match_decides [of r "[]"] by (simp add: contains_def del: not_None_eq)
qed (simp add: contains_Cons)

lemma match_suffix: "match_at r s = Some x \<Longrightarrow> \<exists>w. s = w @ x \<and> w \<in> lang r"
  unfolding match_at_def using matcher_sound by fastforce

text \<open>Nothing is replaced exactly when the text holds no match; then the text is unchanged.\<close>

lemma subn_none:
  assumes "[] \<notin> lang r"
  shows "(snd (subn r f s) = 0 \<longleftrightarrow> \<not> contains r s) \<and> (snd (subn r f s) = 0 \<longrightarrow> fst (subn r f s) = s)"
proof (induction s)
  case Nil
  show ?case using assms by (auto simp: contains_def)
next
  case (Cons c cs)
  show ?case
  proof (cases "match_at r (c # cs)")
    case None
    with Cons show ?thesis by (simp add: contains_Cons case_prod_beta)
  next
    case (Some rest)
    from match_suffix [OF Some] assms have "length rest \<le> length cs" by (auto simp: Cons_eq_append_conv)
    with Some show ?thesis by (simp add: contains_Cons case_prod_beta)
  qed
qed

end
