(* ===== verification/Net_Safety.thy ===== *)
theory Net_Safety
  imports Queries "HOL-Library.Word"
begin

unbundle bit_operations_syntax

text \<open>
  The guard of outbound requests, \<open>core/harness/url_safety.py\<close>: which addresses are refused, how a host name is
  resolved and checked, and the transport that connects to the address it has checked. Addresses are words of 32
  and 128 bits; the tables of special networks are those of \<open>ipaddress\<close> in CPython 3.12. Parameters: the resolver,
  the reading of IPv6 text, \<open>urlparse\<close> and the names of the address families.
\<close>

section \<open>Addresses and networks\<close>

datatype ip = IPv4 "32 word" | IPv6 "128 word"

definition in_net :: "'a::len word \<times> nat \<Rightarrow> 'a word \<Rightarrow> bool" where
  "in_net net a = (case net of (base, len) \<Rightarrow> a AND NOT (mask (LENGTH('a) - len)) = base)"

definition quad :: "nat \<Rightarrow> nat \<Rightarrow> nat \<Rightarrow> nat \<Rightarrow> nat" where
  "quad a b c d = ((a * 256 + b) * 256 + c) * 256 + d"

definition ip4 :: "nat \<Rightarrow> nat \<Rightarrow> nat \<Rightarrow> nat \<Rightarrow> 32 word" where
  "ip4 a b c d = word_of_nat (quad a b c d)"

text \<open>The first groups of an IPv6 network, the rest zero.\<close>

definition ip6 :: "nat list \<Rightarrow> 128 word" where
  "ip6 gs = word_of_nat (fold (\<lambda>g n. n * 65536 + g) (gs @ replicate (8 - length gs) 0) 0)"

definition private_networks4 :: "(32 word \<times> nat) list" where
  "private_networks4 =
     [(ip4 0 0 0 0, 8), (ip4 10 0 0 0, 8), (ip4 127 0 0 0, 8), (ip4 169 254 0 0, 16), (ip4 172 16 0 0, 12),
      (ip4 192 0 0 0, 24), (ip4 192 0 0 170, 31), (ip4 192 0 2 0, 24), (ip4 192 168 0 0, 16), (ip4 198 18 0 0, 15),
      (ip4 198 51 100 0, 24), (ip4 203 0 113 0, 24), (ip4 240 0 0 0, 4), (ip4 255 255 255 255, 32)]"

definition private_exceptions4 :: "(32 word \<times> nat) list" where
  "private_exceptions4 = [(ip4 192 0 0 9, 32), (ip4 192 0 0 10, 32)]"

definition private_networks6 :: "(128 word \<times> nat) list" where
  "private_networks6 =
     [(ip6 [0,0,0,0,0,0,0,1], 128), (ip6 [], 128), (ip6 [0,0,0,0,0,0xffff], 96), (ip6 [0x64,0xff9b,1], 48), (ip6 [0x100], 64),
      (ip6 [0x2001], 23), (ip6 [0x2001,0xdb8], 32), (ip6 [0x2002], 16), (ip6 [0xfc00], 7), (ip6 [0xfe80], 10)]"

definition private_exceptions6 :: "(128 word \<times> nat) list" where
  "private_exceptions6 =
     [(ip6 [0x2001,1,0,0,0,0,0,1], 128), (ip6 [0x2001,1,0,0,0,0,0,2], 128), (ip6 [0x2001,3], 32), (ip6 [0x2001,4,0x112], 48),
      (ip6 [0x2001,0x20], 28), (ip6 [0x2001,0x30], 28)]"

definition reserved_networks6 :: "(128 word \<times> nat) list" where
  "reserved_networks6 =
     [(ip6 [], 8), (ip6 [0x100], 8), (ip6 [0x200], 7), (ip6 [0x400], 6), (ip6 [0x800], 5), (ip6 [0x1000], 4), (ip6 [0x4000], 3),
      (ip6 [0x6000], 3), (ip6 [0x8000], 3), (ip6 [0xa000], 3), (ip6 [0xc000], 3), (ip6 [0xe000], 4), (ip6 [0xf000], 5),
      (ip6 [0xf800], 6), (ip6 [0xfe00], 9)]"

definition is_private4 :: "32 word \<Rightarrow> bool" where
  "is_private4 a \<longleftrightarrow> list_ex (\<lambda>n. in_net n a) private_networks4 \<and> list_all (\<lambda>n. \<not> in_net n a) private_exceptions4"

definition is_private6 :: "128 word \<Rightarrow> bool" where
  "is_private6 a \<longleftrightarrow> list_ex (\<lambda>n. in_net n a) private_networks6 \<and> list_all (\<lambda>n. \<not> in_net n a) private_exceptions6"

definition blocked4 :: "32 word \<Rightarrow> bool" where
  "blocked4 a \<longleftrightarrow> is_private4 a \<or> in_net (ip4 127 0 0 0, 8) a \<or> in_net (ip4 169 254 0 0, 16) a \<or>
     in_net (ip4 224 0 0 0, 4) a \<or> in_net (ip4 240 0 0 0, 4) a \<or> a = ip4 0 0 0 0"

definition ipv4_mapped :: "128 word \<Rightarrow> (32 word) option" where
  "ipv4_mapped a = (if drop_bit 32 a = 0xffff then Some (ucast a) else None)"

definition is_blocked_ip :: "ip \<Rightarrow> bool" where
  "is_blocked_ip x = (case x of
       IPv4 a \<Rightarrow> blocked4 a
     | IPv6 a \<Rightarrow> (case ipv4_mapped a of
           Some m \<Rightarrow> blocked4 m
         | None \<Rightarrow> is_private6 a \<or> a = 1 \<or> in_net (ip6 [0xfe80], 10) a \<or> in_net (ip6 [0xff00], 8) a \<or>
             list_ex (\<lambda>n. in_net n a) reserved_networks6 \<or> a = 0))"

section \<open>Address text\<close>

fun split_dots :: "string \<Rightarrow> string list" where
  "split_dots [] = [[]]"
| "split_dots (x # xs) =
     (if x = CHR ''.'' then [] # split_dots xs
      else (case split_dots xs of [] \<Rightarrow> [[x]] | w # ws \<Rightarrow> (x # w) # ws))"

text \<open>An octet: one to three ASCII digits, no leading zero, at most 255.\<close>

definition parse_octet :: "string \<Rightarrow> nat option" where
  "parse_octet s =
     (if s = [] \<or> \<not> list_all is_digit s \<or> 3 < length s \<or> (s \<noteq> ''0'' \<and> hd s = CHR ''0'') then None
      else (case parse_nat s of None \<Rightarrow> None | Some n \<Rightarrow> if 255 < n then None else Some n))"

definition parse_ipv4 :: "string \<Rightarrow> (32 word) option" where
  "parse_ipv4 s = (case split_dots s of
       [a, b, c, d] \<Rightarrow>
         (case (parse_octet a, parse_octet b, parse_octet c, parse_octet d) of
            (Some a, Some b, Some c, Some d) \<Rightarrow> Some (ip4 a b c d)
          | _ \<Rightarrow> None)
     | _ \<Rightarrow> None)"

section \<open>Resolving a host name\<close>

datatype url_error = UnsafeUrl | BadAddress

record url =
  u_scheme :: string
  u_username :: "string option"
  u_password :: "string option"
  u_hostname :: "string option"
  u_port :: "int option"
  u_text :: string

text \<open>The environment at the instant of a call: the resolver may answer differently at each.\<close>

record net =
  n_lookup :: "string \<Rightarrow> (string \<times> string) list option"
  n_ipv6 :: "string \<Rightarrow> (128 word) option"
  n_urlparse :: "string \<Rightarrow> url"

definition ip_address :: "net \<Rightarrow> string \<Rightarrow> ip option" where
  "ip_address e s = (case parse_ipv4 s of
       Some a \<Rightarrow> Some (IPv4 a)
     | None \<Rightarrow> map_option IPv6 (n_ipv6 e s))"

definition strip_dots :: "string \<Rightarrow> string" where
  "strip_dots s = rev (dropWhile (\<lambda>c. c = CHR ''.'') (rev s))"

definition normal_host :: "string \<Rightarrow> string" where
  "normal_host s = strip_dots (map ascii_lower (strip s))"

fun checked_records :: "net \<Rightarrow> (string \<times> string) list \<Rightarrow> string list \<Rightarrow> url_error + string list" where
  "checked_records e [] acc = Inr acc"
| "checked_records e ((family, s) # rs) acc =
     (if family \<notin> {''AF_INET'', ''AF_INET6''} then checked_records e rs acc
      else (case ip_address e s of
          None \<Rightarrow> Inl BadAddress
        | Some a \<Rightarrow>
            if is_blocked_ip a then Inl UnsafeUrl
            else checked_records e rs (if s \<in> set acc then acc else acc @ [s])))"

definition resolve_and_check :: "net \<Rightarrow> string \<Rightarrow> url_error + string list" where
  "resolve_and_check e hostname =
     (let host = normal_host hostname in
      if host = [] then Inl UnsafeUrl
      else if host \<in> {''localhost'', ''localhost.localdomain''} \<or> ends_with ''.localhost'' host then Inl UnsafeUrl
      else (case ip_address e host of
          Some a \<Rightarrow> if is_blocked_ip a then Inl UnsafeUrl else Inr [host]
        | None \<Rightarrow>
            (case n_lookup e host of
               None \<Rightarrow> Inl UnsafeUrl
             | Some rs \<Rightarrow>
                 (case checked_records e rs [] of
                    Inl x \<Rightarrow> Inl x
                  | Inr ips \<Rightarrow> if ips = [] then Inl UnsafeUrl else Inr ips))))"

definition hostname_blocked :: "net \<Rightarrow> string \<Rightarrow> url_error + bool" where
  "hostname_blocked e h = (case resolve_and_check e h of
     Inl UnsafeUrl \<Rightarrow> Inr True | Inl BadAddress \<Rightarrow> Inl BadAddress | Inr ips \<Rightarrow> Inr False)"

definition given_text :: "string option \<Rightarrow> bool" where
  "given_text x \<longleftrightarrow> (case x of None \<Rightarrow> False | Some s \<Rightarrow> s \<noteq> [])"

definition validate_url_parts :: "net \<Rightarrow> string \<Rightarrow> url_error + (string \<times> string)" where
  "validate_url_parts e s =
     (let p = n_urlparse e (strip s) in
      if u_scheme p \<notin> {''http'', ''https''} then Inl UnsafeUrl
      else if \<not> given_text (u_hostname p) then Inl UnsafeUrl
      else if given_text (u_username p) \<or> given_text (u_password p) then Inl UnsafeUrl
      else Inr (u_text p, the (u_hostname p)))"

definition validate_http_url :: "net \<Rightarrow> string \<Rightarrow> url_error + string" where
  "validate_http_url e s = (case validate_url_parts e s of
       Inl x \<Rightarrow> Inl x
     | Inr (text', h) \<Rightarrow>
         (case hostname_blocked e h of
            Inl x \<Rightarrow> Inl x | Inr b \<Rightarrow> if b then Inl UnsafeUrl else Inr text'))"

section \<open>The pinning transport\<close>

record request =
  rq_method :: string
  rq_url :: string
  rq_body :: string
  rq_sni :: "string option"

text \<open>What is sent: the literal address and port of the connection, the Host header and the name for TLS.\<close>

record connection =
  cn_method :: string
  cn_scheme :: string
  cn_address :: string
  cn_netloc :: string
  cn_host_header :: string
  cn_sni :: "string option"
  cn_body :: string

definition port_given :: "url \<Rightarrow> bool" where
  "port_given p \<longleftrightarrow> (case u_port p of None \<Rightarrow> False | Some n \<Rightarrow> n \<noteq> 0)"

definition with_port :: "url \<Rightarrow> string \<Rightarrow> string" where
  "with_port p h = (if port_given p then h @ '':'' @ show_int (the (u_port p)) else h)"

definition pinned_netloc :: "url \<Rightarrow> string \<Rightarrow> string" where
  "pinned_netloc p a =
     with_port p (if CHR '':'' \<in> set a \<and> \<not> starts_with ''['' a then ''['' @ a @ '']'' else a)"

definition handle_async_request :: "net \<Rightarrow> request \<Rightarrow> url_error + connection" where
  "handle_async_request e rq =
     (let p = n_urlparse e (rq_url rq) in
      if u_scheme p \<notin> {''http'', ''https''} then Inl UnsafeUrl
      else if given_text (u_username p) \<or> given_text (u_password p) then Inl UnsafeUrl
      else if \<not> given_text (u_hostname p) then Inl UnsafeUrl
      else (case resolve_and_check e (the (u_hostname p)) of
          Inl x \<Rightarrow> Inl x
        | Inr ips \<Rightarrow> Inr \<lparr>cn_method = rq_method rq, cn_scheme = u_scheme p, cn_address = hd ips,
            cn_netloc = pinned_netloc p (hd ips), cn_host_header = with_port p (the (u_hostname p)),
            cn_sni = (if u_scheme p = ''https'' then u_hostname p else rq_sni rq), cn_body = rq_body rq\<rparr>))"

text \<open>A redirect is followed only to a target that the same check lets pass.\<close>

definition validate_redirect_target :: "net \<Rightarrow> bool \<Rightarrow> string option \<Rightarrow> url_error + unit" where
  "validate_redirect_target e is_redirect target =
     (case target of
        Some s \<Rightarrow> if is_redirect then (case validate_http_url e s of Inl x \<Rightarrow> Inl x | Inr u \<Rightarrow> Inr ()) else Inr ()
      | None \<Rightarrow> Inr ())"

section \<open>Networks are intervals\<close>

lemma masked: "a AND NOT (mask n) = push_bit n (drop_bit n (a :: 'a::len word))"
  by (rule bit_word_eqI) (auto simp: bit_and_iff bit_not_iff bit_mask_iff bit_push_bit_iff bit_drop_bit_eq)

lemma unat_masked: "unat (a AND NOT (mask n)) = unat (a :: 'a::len word) div 2 ^ n * 2 ^ n"
proof -
  have "unat (push_bit n (drop_bit n a)) = take_bit LENGTH('a) (push_bit n (drop_bit n (unat a)))"
    by (simp add: unsigned_push_bit_eq unat_drop_bit_eq)
  also have "\<dots> = unat a div 2 ^ n * 2 ^ n"
  proof -
    have "unat a div 2 ^ n * 2 ^ n \<le> unat a" by simp
    then have "unat a div 2 ^ n * 2 ^ n < 2 ^ LENGTH('a)" using unsigned_less [of a, where 'a = nat] by linarith
    then show ?thesis by (simp add: push_bit_eq_mult drop_bit_eq_div take_bit_nat_eq_self)
  qed
  finally show ?thesis by (simp add: masked)
qed

lemma in_net_iff:
  "in_net (base, len) (a :: 'a::len word) \<longleftrightarrow> unat a div 2 ^ (LENGTH('a) - len) * 2 ^ (LENGTH('a) - len) = unat base"
  by (simp add: in_net_def word_unat_eq_iff unat_masked)

lemma block_iff:
  fixes m :: nat
  assumes "0 < m" and "m dvd base"
  shows "x div m * m = base \<longleftrightarrow> base \<le> x \<and> x < base + m"
proof
  assume "x div m * m = base"
  then show "base \<le> x \<and> x < base + m" using assms(1) div_mult_mod_eq [of x m] mod_less_divisor [of m x] by linarith
next
  assume x: "base \<le> x \<and> x < base + m"
  from assms(2) obtain q where q: "base = m * q" ..
  with x have "x div m = q" by (intro div_nat_eqI) auto
  with q show "x div m * m = base" by simp
qed

lemma quad_bounds: "a < 256 \<Longrightarrow> b < 256 \<Longrightarrow> c < 256 \<Longrightarrow> d < 256 \<Longrightarrow> quad a b c d < 2 ^ 32"
  by (simp add: quad_def)

lemma unat_ip4: "quad a b c d < 2 ^ 32 \<Longrightarrow> unat (ip4 a b c d) = quad a b c d"
  by (simp add: ip4_def unsigned_of_nat take_bit_nat_eq_self)

definition between :: "nat \<Rightarrow> nat \<Rightarrow> nat \<Rightarrow> bool" where
  "between lo hi n \<longleftrightarrow> lo \<le> n \<and> n \<le> hi"

lemma in_net4:
  assumes "quad a b c d < 2 ^ 32" and "2 ^ (32 - len) dvd quad a b c d"
  shows "in_net (ip4 a b c d, len) x \<longleftrightarrow> between (quad a b c d) (quad a b c d + (2 ^ (32 - len) - 1)) (unat x)"
proof -
  have "n < q + m \<longleftrightarrow> n \<le> q + (m - 1)" if "0 < m" for n q m :: nat using that by linarith
  then have "unat x < quad a b c d + 2 ^ (32 - len) \<longleftrightarrow> unat x \<le> quad a b c d + (2 ^ (32 - len) - 1)" by simp
  with block_iff [OF _ assms(2), of "unat x"] show ?thesis by (simp add: in_net_iff unat_ip4 [OF assms(1)] between_def)
qed

text \<open>The first and last address of each internal range.\<close>

definition internal_ranges :: "(nat \<times> nat) list" where
  "internal_ranges =
     [(quad 0 0 0 0, quad 0 255 255 255), (quad 10 0 0 0, quad 10 255 255 255), (quad 127 0 0 0, quad 127 255 255 255),
      (quad 169 254 0 0, quad 169 254 255 255), (quad 172 16 0 0, quad 172 31 255 255), (quad 192 0 0 0, quad 192 0 0 255),
      (quad 192 0 2 0, quad 192 0 2 255), (quad 192 168 0 0, quad 192 168 255 255), (quad 198 18 0 0, quad 198 19 255 255),
      (quad 198 51 100 0, quad 198 51 100 255), (quad 203 0 113 0, quad 203 0 113 255), (quad 224 0 0 0, quad 255 255 255 255)]"

definition internal :: "nat \<Rightarrow> bool" where
  "internal n \<longleftrightarrow> list_ex (\<lambda>(lo, hi). between lo hi n) internal_ranges \<and> n \<noteq> quad 192 0 0 9 \<and> n \<noteq> quad 192 0 0 10"

text \<open>The networks that others cover.\<close>

lemma covered:
  "between 3221225642 3221225643 n \<Longrightarrow> between 3221225472 3221225727 n"
  "between 3758096384 4294967295 n \<longleftrightarrow> between 3758096384 4026531839 n \<or> between 4026531840 4294967295 n"
  "between 4294967295 4294967295 n \<Longrightarrow> between 4026531840 4294967295 n" "n = 0 \<Longrightarrow> between 0 16777215 n"
  by (auto simp: between_def)

lemma networks4:
  "list_ex (\<lambda>x. in_net x a) private_networks4 \<longleftrightarrow> (let n = unat a in
     between 0 16777215 n \<or> between 167772160 184549375 n \<or> between 2130706432 2147483647 n \<or> between 2851995648 2852061183 n \<or>
     between 2886729728 2887778303 n \<or> between 3221225472 3221225727 n \<or> between 3221225642 3221225643 n \<or>
     between 3221225984 3221226239 n \<or> between 3232235520 3232301055 n \<or> between 3323068416 3323199487 n \<or>
     between 3325256704 3325256959 n \<or> between 3405803776 3405804031 n \<or> between 4026531840 4294967295 n \<or>
     between 4294967295 4294967295 n)"
  by (simp add: private_networks4_def in_net4 quad_def Let_def)

lemma exceptions4:
  "list_all (\<lambda>x. \<not> in_net x a) private_exceptions4 \<longleftrightarrow> unat a \<noteq> quad 192 0 0 9 \<and> unat a \<noteq> quad 192 0 0 10"
  by (auto simp: private_exceptions4_def in_net4 quad_def between_def)

lemma other_networks4:
  "in_net (ip4 127 0 0 0, 8) a \<longleftrightarrow> between 2130706432 2147483647 (unat a)"
  "in_net (ip4 169 254 0 0, 16) a \<longleftrightarrow> between 2851995648 2852061183 (unat a)"
  "in_net (ip4 224 0 0 0, 4) a \<longleftrightarrow> between 3758096384 4026531839 (unat a)"
  "in_net (ip4 240 0 0 0, 4) a \<longleftrightarrow> between 4026531840 4294967295 (unat a)"
  "a = ip4 0 0 0 0 \<longleftrightarrow> unat a = 0"
  by (simp_all add: in_net4 quad_def word_unat_eq_iff unat_ip4)

lemma ranges4:
  "list_ex (\<lambda>(lo, hi). between lo hi n) internal_ranges \<longleftrightarrow>
     between 0 16777215 n \<or> between 167772160 184549375 n \<or> between 2130706432 2147483647 n \<or> between 2851995648 2852061183 n \<or>
     between 2886729728 2887778303 n \<or> between 3221225472 3221225727 n \<or> between 3221225984 3221226239 n \<or>
     between 3232235520 3232301055 n \<or> between 3323068416 3323199487 n \<or> between 3325256704 3325256959 n \<or>
     between 3405803776 3405804031 n \<or> between 3758096384 4294967295 n"
  by (simp add: internal_ranges_def quad_def)

lemma blocked4_internal: "blocked4 a \<longleftrightarrow> internal (unat a)"
proof (cases "unat a = quad 192 0 0 9 \<or> unat a = quad 192 0 0 10")
  case True
  then have "\<not> between 2130706432 2147483647 (unat a)" "\<not> between 2851995648 2852061183 (unat a)"
    "\<not> between 3758096384 4026531839 (unat a)" "\<not> between 4026531840 4294967295 (unat a)" "unat a \<noteq> 0"
    by (auto simp: quad_def between_def)
  with True show ?thesis by (simp only: blocked4_def is_private4_def exceptions4 other_networks4 internal_def) blast
next
  case False
  then show ?thesis
    unfolding blocked4_def is_private4_def networks4 exceptions4 other_networks4 internal_def ranges4 Let_def
    using covered [of "unat a"] by blast
qed

lemma mapped_roundtrip: "ipv4_mapped (push_bit 32 0xffff OR ucast a) = Some a"
proof -
  have "drop_bit 32 (ucast a :: 128 word) = 0"
    by (rule bit_word_eqI) (auto simp: bit_drop_bit_eq bit_unsigned_iff dest: bit_imp_le_length)
  moreover have "drop_bit 32 (push_bit 32 0xffff :: 128 word) = 0xffff" by simp
  ultimately have "drop_bit 32 (push_bit 32 0xffff OR ucast a :: 128 word) = 0xffff"
    by (simp only: drop_bit_or or.right_neutral)
  moreover have "(ucast (m OR ucast a :: 128 word) :: 32 word) = a" if "m = push_bit 32 0xffff" for m
  proof -
    have "\<not> bit m n" if "n < 32" for n unfolding \<open>m = push_bit 32 0xffff\<close> bit_push_bit_iff using that by simp
    then show ?thesis by (intro bit_word_eqI) (auto simp: bit_unsigned_iff bit_or_iff)
  qed
  ultimately show ?thesis unfolding ipv4_mapped_def by (simp only: if_True refl)
qed

section \<open>Properties\<close>

text \<open>C26. The guard refuses exactly the internal IPv4 addresses: an address is blocked if and only if it lies in one of
  the listed ranges, written as first and last address, and is not one of the two globally reachable ones; an address
  written in IPv4-mapped IPv6 form is judged as the IPv4 address it carries.\<close>

theorem blocked_exactly_internal:
  "is_blocked_ip (IPv4 a) = internal (unat a) \<and>
   is_blocked_ip (IPv6 (push_bit 32 0xffff OR ucast a)) = internal (unat a)"
  by (simp only: is_blocked_ip_def ip.case mapped_roundtrip option.case blocked4_internal simp_thms)

text \<open>The shared address space of carrier-grade NAT, 100.64.0.0 to 100.127.255.255, which private overlays and some
  clouds use for internal services, passes the guard.\<close>

lemma shared_space_passes:
  assumes "quad 100 64 0 0 \<le> unat a" and "unat a \<le> quad 100 127 255 255"
  shows "\<not> is_blocked_ip (IPv4 a)"
  using assms by (simp add: is_blocked_ip_def blocked4_internal internal_def internal_ranges_def quad_def between_def)

lemma checked_recordsD:
  "checked_records e rs acc = Inr ips \<Longrightarrow>
     s \<in> set ips \<Longrightarrow> s \<in> set acc \<or> (\<exists>a. ip_address e s = Some a \<and> \<not> is_blocked_ip a)"
proof (induction e rs acc rule: checked_records.induct)
  case (2 e family t rs acc)
  show ?case
  proof (cases "family \<in> {''AF_INET'', ''AF_INET6''}")
    case False
    with 2 show ?thesis by simp
  next
    case True
    with 2(3) obtain a where a: "ip_address e t = Some a" "\<not> is_blocked_ip a"
      "checked_records e rs (if t \<in> set acc then acc else acc @ [t]) = Inr ips" by (auto split: option.splits if_splits)
    from 2(2) [OF _ a(1,2,3) 2(4)] True a(1,2) show ?thesis by (auto split: if_splits)
  qed
qed simp

lemma resolved_safe:
  assumes "resolve_and_check e h = Inr ips"
  shows "ips \<noteq> [] \<and> (\<forall>s \<in> set ips. \<exists>a. ip_address e s = Some a \<and> \<not> is_blocked_ip a)"
proof (cases "ip_address e (normal_host h)")
  case (Some a)
  with assms show ?thesis by (auto simp: resolve_and_check_def Let_def split: if_splits)
next
  case None
  with assms obtain rs where "checked_records e rs [] = Inr ips" "ips \<noteq> []"
    by (auto simp: resolve_and_check_def Let_def split: if_splits option.splits sum.splits)
  then show ?thesis using checked_recordsD [of e rs "[]" ips] by auto
qed


text \<open>An environment with one public name.\<close>

definition sample_net :: net where
  "sample_net = \<lparr>n_lookup = (\<lambda>h. if h = ''example.org'' then Some [(''AF_INET'', ''93.184.216.34'')] else None),
     n_ipv6 = (\<lambda>s. None),
     n_urlparse = (\<lambda>s. \<lparr>u_scheme = ''https'', u_username = None, u_password = None, u_hostname = Some ''example.org'',
       u_port = None, u_text = s\<rparr>)\<rparr>"

definition sample_request :: request where
  "sample_request = \<lparr>rq_method = ''GET'', rq_url = ''https://example.org/'', rq_body = [], rq_sni = None\<rparr>"

lemma sample_address: "ip_address sample_net ''93.184.216.34'' = Some (IPv4 (ip4 93 184 216 34))"
proof -
  have "split_dots ''93.184.216.34'' = [''93'', ''184'', ''216'', ''34'']" by code_simp
  moreover have "parse_octet ''93'' = Some 93" "parse_octet ''184'' = Some 184" "parse_octet ''216'' = Some 216"
    "parse_octet ''34'' = Some 34" by code_simp+
  ultimately show ?thesis by (simp add: ip_address_def parse_ipv4_def)
qed

lemma sample_connects: "\<exists>c. handle_async_request sample_net sample_request = Inr c \<and> cn_address c = ''93.184.216.34''"
proof -
  have "split_dots ''example.org'' = [''example'', ''org'']" "normal_host ''example.org'' = ''example.org''"
    "\<not> ends_with ''.localhost'' ''example.org''" by code_simp+
  moreover have "\<not> is_blocked_ip (IPv4 (ip4 93 184 216 34))"
    by (simp add: is_blocked_ip_def blocked4_internal internal_def internal_ranges_def unat_ip4 quad_def between_def)
  moreover have "ip_address sample_net ''example.org'' = None"
    using calculation(1) by (simp add: ip_address_def parse_ipv4_def sample_net_def)
  moreover have "n_lookup sample_net ''example.org'' = Some [(''AF_INET'', ''93.184.216.34'')]" by (simp add: sample_net_def)
  ultimately have "resolve_and_check sample_net ''example.org'' = Inr [''93.184.216.34'']"
    by (simp add: resolve_and_check_def sample_address)
  then show ?thesis by (simp add: handle_async_request_def sample_net_def sample_request_def given_text_def Let_def)
qed


end
