(* ===== verification/Egress.thy ===== *)
theory Egress
  imports Regex Net_Safety Emissions
begin

text \<open>
  The audit of calls to a language model, \<open>core/runtime/egress/egress_gate.py\<close>: redaction of secrets, classification
  of personal context, the refusal to send it to a remote provider, and the event that records each call.
  The patterns are the code's regular expressions. Text is UTF-8; only its ASCII part matters to the patterns.
\<close>

section \<open>Patterns\<close>

definition upper :: "char \<Rightarrow> bool" where
  "upper = in_range (CHR ''A'') (CHR ''Z'')"

definition lower :: "char \<Rightarrow> bool" where
  "lower = in_range (CHR ''a'') (CHR ''z'')"

definition alnum :: "char \<Rightarrow> bool" where
  "alnum c \<longleftrightarrow> upper c \<or> lower c \<or> is_digit c"

definition one_of :: "string \<Rightarrow> rx" where
  "one_of s = Cls (\<lambda>c. c \<in> set s)"

definition spaces :: rx where
  "spaces = Star True (Cls white)"

definition sensitive_field :: rx where
  "sensitive_field = any_case (alts [seqs [lit ''api'', opt (one_of ''_-''), lit ''key''], lit ''password'', lit ''secret'', lit ''token'',
     lit ''authorization'', lit ''bearer''])"

definition pem_label :: rx where
  "pem_label = at_most 40 (Cls (\<lambda>c. upper c \<or> is_digit c \<or> c = CHR '' ''))"

definition pem_private_key :: rx where
  "pem_private_key = seqs [lit ''-----BEGIN '', pem_label, lit ''PRIVATE KEY-----'', Star False (Cls (\<lambda>c. True)),
     lit ''-----END '', pem_label, lit ''PRIVATE KEY-----'']"

definition assigned :: "rx \<Rightarrow> rx" where
  "assigned r = seqs [r, spaces, one_of '':='', spaces, at_least 1 (Cls (\<lambda>c. \<not> white c))]"

definition sensitive_inline :: rx where
  "sensitive_inline = any_case (alts
     [Seq (lit ''sk-'') (at_least 20 (Cls alnum)),
      Seq (lit ''ghp_'') (at_least 20 (Cls alnum)),
      Seq (lit ''github_pat_'') (at_least 20 (Cls (\<lambda>c. alnum c \<or> c = CHR ''_''))),
      Seq (lit ''AKIA'') (exactly 16 (Cls (\<lambda>c. is_digit c \<or> upper c))),
      seqs [lit ''xox'', one_of ''baprs'', lit ''-'', at_least 10 (Cls (\<lambda>c. alnum c \<or> c = CHR ''-''))],
      seqs [lit ''Bearer'', at_least 1 (Cls white), at_least 10 (Cls (\<lambda>c. alnum c \<or> c \<in> set ''._-+/=''))],
      assigned (lit ''password''),
      assigned (seqs [lit ''api'', opt (one_of ''_-''), lit ''key''])])"

section \<open>Redaction\<close>

definition redacted_mark :: string where
  "redacted_mark = ''[REDACTED]''"

text \<open>\<open>splitlines\<close> on the line ends of ASCII.\<close>

definition line_end :: "char \<Rightarrow> bool" where
  "line_end c \<longleftrightarrow> c \<in> {CHR 0x0A, CHR 0x0B, CHR 0x0C, CHR 0x0D} \<or> in_range (CHR 0x1C) (CHR 0x1E) c"

function splitlines :: "string \<Rightarrow> string list" where
  "splitlines s =
     (if s = [] then []
      else (let rest = dropWhile (\<lambda>c. \<not> line_end c) s; rest' = (if starts_with [CHR 0x0D, CHR 0x0A] rest then drop 2 rest else drop 1 rest)
            in takeWhile (\<lambda>c. \<not> line_end c) s # splitlines rest'))"
  by pat_completeness auto
termination
proof (relation "measure length", goal_cases)
  case (2 s rest rest')
  have "length (dropWhile (\<lambda>c. \<not> line_end c) s) \<le> length s" by (rule length_dropWhile_le)
  with 2 show ?case by (cases s) (auto simp: starts_with_iff split: if_splits)
qed simp

declare splitlines.simps [simp del]

definition redact_match_keep_lines :: "string \<Rightarrow> string" where
  "redact_match_keep_lines w = join [CHR 0x0A] (map (\<lambda>_. redacted_mark) (if splitlines w = [] then [[]] else splitlines w))"

definition redact_text :: "string \<Rightarrow> string \<times> bool" where
  "redact_text s =
     (if s = [] then (s, False)
      else (case subn pem_private_key redact_match_keep_lines s of (t, pem_n) \<Rightarrow>
        (case subn sensitive_inline (\<lambda>_. redacted_mark) t of (u, inline_n) \<Rightarrow> (u, 0 < pem_n + inline_n))))"

definition redact_sensitive_text :: "string \<Rightarrow> string" where
  "redact_sensitive_text s = fst (redact_text s)"

fun redact_value :: "string \<Rightarrow> val \<Rightarrow> val \<times> bool" where
  "redact_value field v =
     (if search sensitive_field field then (VStr redacted_mark, True)
      else (case v of
          VStr s \<Rightarrow> (case redact_text s of (t, c) \<Rightarrow> (VStr t, c))
        | VObj d \<Rightarrow> (VObj (map (\<lambda>(k, x). (k, fst (redact_value k x))) d), list_ex (\<lambda>(k, x). snd (redact_value k x)) d)
        | VList xs \<Rightarrow> (VList (map (\<lambda>x. fst (redact_value [] x)) xs), list_ex (\<lambda>x. snd (redact_value [] x)) xs)
        | _ \<Rightarrow> (v, False)))"

definition redact_llm_messages :: "val list \<Rightarrow> val list \<times> bool" where
  "redact_llm_messages ms = (map (\<lambda>x. fst (redact_value [] x)) ms, list_ex (\<lambda>x. snd (redact_value [] x)) ms)"

section \<open>Is the provider local\<close>

definition target_host :: "net \<Rightarrow> string option \<Rightarrow> string" where
  "target_host e base_url =
     (let raw = strip (case base_url of None \<Rightarrow> [] | Some s \<Rightarrow> s);
          candidate = (if search (lit ''://'') raw then raw else ''//'' @ raw)
      in if raw = [] then []
         else normal_host (case u_hostname (n_urlparse e candidate) of None \<Rightarrow> [] | Some h \<Rightarrow> h))"

definition is_loopback :: "ip \<Rightarrow> bool" where
  "is_loopback x = (case x of IPv4 a \<Rightarrow> in_net (ip4 127 0 0 0, 8) a | IPv6 a \<Rightarrow> a = 1)"

definition provider_is_local :: "net \<Rightarrow> string option \<Rightarrow> bool" where
  "provider_is_local e base_url =
     (let host = target_host e base_url in
      host = ''localhost'' \<or> host \<noteq> [] \<and> (case ip_address e host of None \<Rightarrow> False | Some a \<Rightarrow> is_loopback a))"

section \<open>Sources of personal data\<close>

definition tool_data_sources :: "(string \<times> string list) list" where
  "tool_data_sources = [(''check_inbox'', [''email'']), (''read_inbox_email'', [''email'']), (''read_file'', [''file''])]"

definition restricted_data_sources :: "string list" where
  "restricted_data_sources = [''email'', ''file'']"

definition source_categories :: "(string \<times> string) list" where
  "source_categories = [(''email'', ''email_source''), (''file'', ''file_source'')]"

definition personal_categories :: "string list" where
  "personal_categories = [''identity_surface'', ''memory_context'', ''trajectory_context'', ''email_source'', ''file_source'']"

definition data_sources_for_tool :: "string option \<Rightarrow> string list" where
  "data_sources_for_tool tool =
     (case map_of tool_data_sources (strip (case tool of None \<Rightarrow> [] | Some s \<Rightarrow> s)) of None \<Rightarrow> [] | Some xs \<Rightarrow> xs)"

definition with_tool_data_sources :: "dict \<Rightarrow> string option \<Rightarrow> dict" where
  "with_tool_data_sources message tool =
     (let sources = data_sources_for_tool tool in
      if sources = [] then message else setd ''data_sources'' (VList (map VStr sources)) message)"

definition add_source :: "string list \<Rightarrow> val \<Rightarrow> string list" where
  "add_source found v =
     (let name = map ascii_lower (strip (py_str (py_or v (VStr [])))) in
      if name \<in> set restricted_data_sources \<and> name \<notin> set found then found @ [name] else found)"

text \<open>A string counts as one label; a list by its items, a dict by its keys.\<close>

definition normalize_sources :: "val \<Rightarrow> string list" where
  "normalize_sources raw =
     (case raw of
        VStr s \<Rightarrow> add_source [] raw
      | VList xs \<Rightarrow> foldl add_source [] xs
      | VObj d \<Rightarrow> foldl add_source [] (map (VStr \<circ> fst) d)
      | _ \<Rightarrow> [])"

definition add_name :: "string list \<Rightarrow> string \<Rightarrow> string list" where
  "add_name found name = (if name \<in> set found then found else found @ [name])"

definition sources_on_messages :: "val list \<Rightarrow> string list" where
  "sources_on_messages ms =
     foldl add_name [] (concat (map (\<lambda>m. case m of VObj d \<Rightarrow> normalize_sources (get d ''data_sources'') | _ \<Rightarrow> []) ms))"

definition drop_key :: "string \<Rightarrow> dict \<Rightarrow> dict" where
  "drop_key k d = filter (\<lambda>x. fst x \<noteq> k) d"

definition strip_data_source_keys :: "val list \<Rightarrow> val list" where
  "strip_data_source_keys ms = map (\<lambda>m. case m of VObj d \<Rightarrow> VObj (drop_key ''data_sources'' d) | _ \<Rightarrow> m) ms"

section \<open>Classification\<close>

fun text_parts :: "val \<Rightarrow> string list" where
  "text_parts (VStr s) = [s]"
| "text_parts (VObj d) = concat (map (\<lambda>x. text_parts (snd x)) d)"
| "text_parts (VList xs) = concat (map text_parts xs)"
| "text_parts _ = []"

definition holds_text :: "string \<Rightarrow> string \<Rightarrow> bool" where
  "holds_text w s \<longleftrightarrow> search (lit w) s"

text \<open>The heading above recalled memories: two hash marks, a blank and four characters in UTF-8.\<close>

definition memory_context_marker :: string where
  "memory_context_marker = ''## '' @ [CHR 0xE7, CHR 0x9B, CHR 0xB8, CHR 0xE5, CHR 0x85, CHR 0xB3, CHR 0xE8, CHR 0xAE, CHR 0xB0,
     CHR 0xE5, CHR 0xBF, CHR 0x86]"

definition combined_text :: "val list \<Rightarrow> string" where
  "combined_text ms = join [CHR 0x0A] (text_parts (VList ms))"

definition declared_sources :: "val \<Rightarrow> val list \<Rightarrow> string list" where
  "declared_sources sources ms = foldl add_name (normalize_sources sources) (sources_on_messages ms)"

definition categories :: "val \<Rightarrow> val list \<Rightarrow> string list" where
  "categories sources ms =
     (let t = combined_text ms;
          found = (if holds_text ''identity_narrative_opt_in'' t \<or> holds_text ''claim_status'' t then [''identity_surface''] else []) @
            (if holds_text ''memory_id:'' t \<or> holds_text memory_context_marker t then [''memory_context''] else []) @
            (if holds_text ''event_seq'' t \<or> holds_text ''trajectory'' (map ascii_lower t) then [''trajectory_context''] else []) @
            map (\<lambda>name. the (map_of source_categories name)) (declared_sources sources ms)
      in if found = [] then [''general''] else found)"

definition classify_llm_payload :: "val \<Rightarrow> val list \<Rightarrow> string \<Rightarrow> dict" where
  "classify_llm_payload sources ms purpose =
     [(''categories'', VList (map VStr (categories sources ms))), (''data_sources'', VList (map VStr (declared_sources sources ms))),
      (''message_count'', VInt (int (length ms))), (''char_count'', VInt (int (code_points (combined_text ms)))),
      (''purpose_hint'', VStr purpose)]"

definition personal_context :: "val \<Rightarrow> val list \<Rightarrow> bool" where
  "personal_context sources ms \<longleftrightarrow> (\<exists>c \<in> set (categories sources ms). c \<in> set personal_categories)"

section \<open>The gate\<close>

record egress_call =
  eg_purpose :: string
  eg_actor :: string
  eg_provider :: val
  eg_local :: "bool option"
  eg_sources :: val
  eg_allow_cloud :: bool
  eg_uuid :: string

datatype egress_error = EgressDenied

definition egress_denied :: "egress_call \<Rightarrow> val list \<Rightarrow> bool" where
  "egress_denied c ms \<longleftrightarrow> personal_context (eg_sources c) ms \<and> eg_local c = Some False \<and> \<not> eg_allow_cloud c"

definition egress_audit :: "egress_call \<Rightarrow> val list \<Rightarrow> dict" where
  "egress_audit c ms =
     [(''purpose'', VStr (eg_purpose c)), (''classification'', VObj (classify_llm_payload (eg_sources c) ms (eg_purpose c))),
      (''identity_surface_detected'', VBool (''identity_surface'' \<in> set (categories (eg_sources c) ms))),
      (''personal_context_detected'', VBool (personal_context (eg_sources c) ms)), (''provider_name'', eg_provider c),
      (''provider_local'', (case eg_local c of None \<Rightarrow> VNull | Some b \<Rightarrow> VBool b)),
      (''content_redacted'', VBool (snd (redact_llm_messages ms))), (''allowed'', VBool (\<not> egress_denied c ms))] @
     (if egress_denied c ms then [(''denial_reason'', VStr ''classified_personal_context_cloud_egress_disabled'')] else [])"

text \<open>A failed emission is noted in the answer and does not stop the call.\<close>

definition audit_llm_egress :: "egress_call \<Rightarrow> val list \<Rightarrow> kernel \<Rightarrow> kernel \<times> (egress_error + val list \<times> dict)" where
  "audit_llm_egress c ms k =
     (let audit = egress_audit c ms;
          (k', audit') = (case emit_event k ''EgressAudited'' ''egress'' (''egress_'' @ eg_uuid c) audit (eg_actor c) None None of
              Inl e \<Rightarrow> (k, audit @ [(''emit_failed'', VBool True)])
            | Inr (k', ev) \<Rightarrow> (k', audit))
      in (k', if egress_denied c ms then Inl EgressDenied
              else Inr (strip_data_source_keys (fst (redact_llm_messages ms)), audit')))"

section \<open>The flag of the redaction\<close>

definition secret_free :: "string \<Rightarrow> bool" where
  "secret_free s \<longleftrightarrow> \<not> contains pem_private_key s \<and> \<not> contains sensitive_inline s"

lemma no_empty_match: "[] \<notin> lang pem_private_key" "[] \<notin> lang sensitive_inline"
proof -
  have "match_at pem_private_key [] = None" "match_at sensitive_inline [] = None" by code_simp+
  then show "[] \<notin> lang pem_private_key" "[] \<notin> lang sensitive_inline"
    using match_decides [of pem_private_key "[]"] match_decides [of sensitive_inline "[]"] by auto
qed

lemma redact_text_flag: "snd (redact_text s) \<longleftrightarrow> \<not> secret_free s" "\<not> snd (redact_text s) \<Longrightarrow> fst (redact_text s) = s"
proof -
  have empty: "secret_free []" using no_empty_match by (auto simp: secret_free_def contains_def)
  let ?t = "subn pem_private_key redact_match_keep_lines s"
  let ?u = "subn sensitive_inline (\<lambda>_. redacted_mark) (fst ?t)"
  have r: "redact_text s = (if s = [] then (s, False) else (fst ?u, 0 < snd ?t + snd ?u))"
    by (simp add: redact_text_def case_prod_beta)
  have pem: "(snd ?t = 0 \<longleftrightarrow> \<not> contains pem_private_key s) \<and> (snd ?t = 0 \<longrightarrow> fst ?t = s)"
    by (rule subn_none [OF no_empty_match(1)])
  have inl: "(snd ?u = 0 \<longleftrightarrow> \<not> contains sensitive_inline (fst ?t)) \<and> (snd ?u = 0 \<longrightarrow> fst ?u = fst ?t)"
    by (rule subn_none [OF no_empty_match(2)])
  show "snd (redact_text s) \<longleftrightarrow> \<not> secret_free s"
  proof (cases "s = []")
    case True
    show ?thesis using empty r unfolding True by simp
  next
    case False
    with pem inl show ?thesis unfolding r secret_free_def by (cases "snd ?t = 0") auto
  qed
  show "fst (redact_text s) = s" if "\<not> snd (redact_text s)"
    using that pem inl unfolding r by (simp split: if_splits)
qed

fun clean_value :: "string \<Rightarrow> val \<Rightarrow> bool" where
  "clean_value field v \<longleftrightarrow> \<not> contains sensitive_field field \<and>
     (case v of
        VStr s \<Rightarrow> secret_free s
      | VObj d \<Rightarrow> list_all (\<lambda>(k, x). clean_value k x) d
      | VList xs \<Rightarrow> list_all (clean_value []) xs
      | _ \<Rightarrow> True)"

declare clean_value.simps [simp del] redact_value.simps [simp del]

lemma redact_value_flag: "(snd (redact_value field v) \<longleftrightarrow> \<not> clean_value field v) \<and> (clean_value field v \<longrightarrow> fst (redact_value field v) = v)"
proof (induction field v rule: redact_value.induct)
  case (1 field v)
  show ?case
  proof (cases "search sensitive_field field")
    case True
    then show ?thesis by (simp add: redact_value.simps [of field v] clean_value.simps [of field v] search_contains)
  next
    case f: False
    show ?thesis
    proof (cases v)
      case (VStr s)
      from f redact_text_flag [of s] show ?thesis
        unfolding VStr redact_value.simps [of field "VStr s"] clean_value.simps [of field "VStr s"]
        by (auto simp: search_contains case_prod_beta)
    next
      case (VObj d)
      have ih: "(snd (redact_value k x) \<longleftrightarrow> \<not> clean_value k x) \<and> (clean_value k x \<longrightarrow> fst (redact_value k x) = x)"
        if "(k, x) \<in> set d" for k x using 1(3) [OF f VObj that refl] .
      have "list_ex (\<lambda>(k, x). snd (redact_value k x)) d \<longleftrightarrow> \<not> list_all (\<lambda>(k, x). clean_value k x) d"
        using ih by (fastforce simp: list_ex_iff list_all_iff)
      moreover have "map (\<lambda>(k, x). (k, fst (redact_value k x))) d = d" if "list_all (\<lambda>(k, x). clean_value k x) d"
        using that ih by (auto simp: list_all_iff intro!: map_idI)
      ultimately show ?thesis using f
        unfolding VObj redact_value.simps [of field "VObj d"] clean_value.simps [of field "VObj d"] by (simp add: search_contains)
    next
      case (VList xs)
      have ih: "(snd (redact_value [] x) \<longleftrightarrow> \<not> clean_value [] x) \<and> (clean_value [] x \<longrightarrow> fst (redact_value [] x) = x)"
        if "x \<in> set xs" for x by (rule 1(1) [OF f VList that])
      have "list_ex (\<lambda>x. snd (redact_value [] x)) xs \<longleftrightarrow> \<not> list_all (clean_value []) xs"
        using ih by (auto simp: list_ex_iff list_all_iff)
      moreover have "map (\<lambda>x. fst (redact_value [] x)) xs = xs" if "list_all (clean_value []) xs"
        using that ih by (auto simp: list_all_iff intro!: map_idI)
      ultimately show ?thesis using f
        unfolding VList redact_value.simps [of field "VList xs"] clean_value.simps [of field "VList xs"] by (simp add: search_contains)
    qed (use f in \<open>simp_all add: redact_value.simps [of field] clean_value.simps [of field] search_contains\<close>)
  qed
qed

section \<open>Properties\<close>

text \<open>C27. The flag \<open>content_redacted\<close> of the audit is exact: the redaction reports a change if and only if some text of the
  messages, at any depth, holds a match of a secret pattern or some field name is a sensitive one; otherwise
  the messages leave unchanged.\<close>

theorem redaction_flag_exact:
  "redact_llm_messages ms =
     (if list_all (clean_value []) ms then ms else fst (redact_llm_messages ms), \<not> list_all (clean_value []) ms)"
proof -
  have "map (\<lambda>x. fst (redact_value [] x)) ms = ms" if "list_all (clean_value []) ms"
    using that redact_value_flag [of "[]"] by (auto simp: list_all_iff intro!: map_idI)
  moreover have "list_ex (\<lambda>x. snd (redact_value [] x)) ms \<longleftrightarrow> \<not> list_all (clean_value []) ms"
    using redact_value_flag [of "[]"] by (auto simp: list_ex_iff list_all_iff)
  ultimately show ?thesis by (auto simp: redact_llm_messages_def prod_eq_iff)
qed

lemma set_add_name: "set (foldl add_name found names) = set found \<union> set names"
  by (induction names arbitrary: found) (auto simp: add_name_def)

lemma labels_listed:
  assumes "xs \<in> {[''email''], [''file'']}"
  shows "normalize_sources (VList (map VStr xs)) = xs"
proof -
  have "normalize_sources (VList [VStr ''email'']) = [''email'']" "normalize_sources (VList [VStr ''file'']) = [''file'']"
    by code_simp+
  with assms show ?thesis by auto
qed

lemma tool_labels: "data_sources_for_tool (Some tool) \<noteq> [] \<Longrightarrow> data_sources_for_tool (Some tool) \<in> {[''email''], [''file'']}"
  by (auto simp: data_sources_for_tool_def tool_data_sources_def split: option.splits if_splits)

lemma declared_has:
  assumes "VObj d \<in> set ms" and "name \<in> set (normalize_sources (get d ''data_sources''))"
  shows "name \<in> set (declared_sources sources ms)"
  using assms by (force simp: declared_sources_def sources_on_messages_def set_add_name)

lemma labelled_personal:
  assumes "VObj d \<in> set ms" and "name \<in> set (normalize_sources (get d ''data_sources''))" and "name \<in> {''email'', ''file''}"
  shows "personal_context sources ms"
proof -
  from declared_has [OF assms(1,2), of sources] have "the (map_of source_categories name) \<in> set (categories sources ms)"
    by (cases "declared_sources sources ms") (auto simp: categories_def Let_def)
  moreover have "the (map_of source_categories name) \<in> set personal_categories"
    using assms(3) by (auto simp: source_categories_def personal_categories_def)
  ultimately show ?thesis unfolding personal_context_def by blast
qed

lemma stripped_keys: "VObj d \<in> set (strip_data_source_keys ms) \<Longrightarrow> \<not> has ''data_sources'' d"
  by (auto simp: strip_data_source_keys_def drop_key_def has_def map_of_eq_None_iff split: val.splits)


definition sample_call :: egress_call where
  "sample_call = \<lparr>eg_purpose = ''chat'', eg_actor = ''kernel'', eg_provider = VNull, eg_local = Some False, eg_sources = VNull,
     eg_allow_cloud = False, eg_uuid = ''0''\<rparr>"


end
