(* ===== verification/Delivery_Diff.thy ===== *)
theory Delivery_Diff
  imports Work_Ports Regex "HOL-Library.Multiset"
begin

text \<open>
  What two versions of a delivery have in common, \<open>product/work_delivery.py\<close>: the coercions of a stored row and the
  structured difference between a version and the one it supersedes.
\<close>

section \<open>Coercions\<close>

definition plain :: "dict \<Rightarrow> string \<Rightarrow> string" where
  "plain d k = strip (text_field d k)"

definition string_list :: "val \<Rightarrow> string list" where
  "string_list v = (case v of VList xs \<Rightarrow> filter (\<lambda>s. s \<noteq> []) (map (\<lambda>x. strip (py_str x)) xs) | _ \<Rightarrow> [])"

definition dict_rows :: "val \<Rightarrow> dict list" where
  "dict_rows v = (case v of VList xs \<Rightarrow> concat (map (\<lambda>x. case x of VObj d \<Rightarrow> [d] | _ \<Rightarrow> []) xs) | _ \<Rightarrow> [])"

definition id_key :: "val \<Rightarrow> string list" where
  "id_key v = sort (string_list v)"

definition strings :: "string list \<Rightarrow> val" where
  "strings xs = VList (map VStr xs)"

definition int_field :: "dict \<Rightarrow> string \<Rightarrow> int res" where
  "int_field d k = py_int (py_or (get d k) (VInt 0))"

section \<open>Rows matched by a key\<close>

text \<open>The arguments \<open>key_of\<close>, \<open>same\<close>, \<open>view\<close>, \<open>changed_view\<close>.\<close>

record diff_rules =
  df_key :: "dict \<Rightarrow> string"
  df_same :: "dict \<Rightarrow> dict \<Rightarrow> bool"
  df_view :: "dict \<Rightarrow> dict"
  df_changed :: "dict \<Rightarrow> dict \<Rightarrow> dict"

text \<open>\<open>next(...)\<close> and \<open>unused.pop(match_at)\<close>.\<close>

fun pop_match :: "(dict \<Rightarrow> string) \<Rightarrow> string \<Rightarrow> dict list \<Rightarrow> (dict \<times> dict list) option" where
  "pop_match f k [] = None"
| "pop_match f k (x # xs) = (if f x = k then Some (x, xs) else map_option (\<lambda>(y, ys). (y, x # ys)) (pop_match f k xs))"

text \<open>Added, changed, and the rows of the previous version that nothing matched.\<close>

fun match_rows :: "diff_rules \<Rightarrow> dict list \<Rightarrow> dict list \<Rightarrow> dict list \<times> dict list \<times> dict list" where
  "match_rows f unused [] = ([], [], unused)"
| "match_rows f unused (x # xs) =
     (case pop_match (df_key f) (df_key f x) unused of
        None \<Rightarrow> (case match_rows f unused xs of (a, c, u) \<Rightarrow> (df_view f x # a, c, u))
      | Some (old, rest) \<Rightarrow>
          (case match_rows f rest xs of (a, c, u) \<Rightarrow> (a, if df_same f old x then c else df_changed f old x # c, u)))"

definition partition_changes :: "diff_rules \<Rightarrow> dict list \<Rightarrow> dict list \<Rightarrow> dict list \<times> dict list \<times> dict list" where
  "partition_changes f previous current = (case match_rows f previous current of (a, c, u) \<Rightarrow> (a, map (df_view f) u, c))"

text \<open>Items beyond the counts.\<close>

fun beyond :: "(string \<Rightarrow> nat) \<Rightarrow> string list \<Rightarrow> string list" where
  "beyond left [] = []"
| "beyond left (x # xs) = (if 0 < left x then beyond (left(x := left x - 1)) xs else x # beyond left xs)"

definition string_delta :: "string list \<Rightarrow> string list \<Rightarrow> string list \<times> string list" where
  "string_delta previous current = (beyond (count_list previous) current, beyond (count_list current) previous)"

section \<open>The rules of the three kinds of row\<close>

definition kind_of :: "dict \<Rightarrow> string" where
  "kind_of d = (if plain d ''kind'' = [] then ''change'' else plain d ''kind'')"

definition finding_view :: "dict \<Rightarrow> dict" where
  "finding_view d = [(''text'', VStr (plain d ''text'')), (''kind'', VStr (kind_of d)),
     (''source_ids'', strings (string_list (get d ''source_ids'')))]"

definition source_view :: "dict \<Rightarrow> dict" where
  "source_view d = [(''id'', VStr (plain d ''id'')), (''type'', VStr (plain d ''type'')), (''title'', VStr (plain d ''title'')),
     (''locator'', VStr (plain d ''locator''))]"

definition action_view :: "dict \<Rightarrow> dict" where
  "action_view d = [(''title'', VStr (plain d ''title'')), (''reason'', VStr (plain d ''reason'')),
     (''source_ids'', strings (string_list (get d ''source_ids'')))]"

text \<open>The cited lines of a finding; without one its wording is its identity.\<close>

definition quoted_parts :: "dict \<Rightarrow> string list" where
  "quoted_parts d =
     concat (map (\<lambda>row. if truthy (get row ''quote_in_source'') \<and> plain row ''snippet'' \<noteq> []
                        then [plain row ''source_id'' @ '':'' @ plain row ''snippet''] else [])
       (dict_rows (get d ''evidence'')))"

definition finding_identity :: "dict \<Rightarrow> string" where
  "finding_identity d = (if quoted_parts d = [] then ''text:'' @ plain d ''text'' else ''quote:'' @ join ''|'' (sort (quoted_parts d)))"

definition finding_rules :: diff_rules where
  "finding_rules = \<lparr>df_key = finding_identity,
     df_same = (\<lambda>old x. kind_of old = kind_of x \<and> id_key (get old ''source_ids'') = id_key (get x ''source_ids'') \<and>
        plain old ''text'' = plain x ''text''),
     df_view = finding_view,
     df_changed = (\<lambda>old x. finding_view x @ [(''previous_kind'', VStr (kind_of old)),
        (''previous_source_ids'', strings (string_list (get old ''source_ids'')))])\<rparr>"

definition source_key :: "dict \<Rightarrow> string" where
  "source_key d = (if plain d ''id'' \<noteq> [] then ''id:'' @ plain d ''id'' else ''title:'' @ plain d ''title'')"

definition source_rules :: diff_rules where
  "source_rules = \<lparr>df_key = source_key, df_same = (\<lambda>old x. source_view old = source_view x), df_view = source_view,
     df_changed = (\<lambda>old x. source_view x @ [(''previous_title'', VStr (plain old ''title'')),
        (''previous_locator'', VStr (plain old ''locator'')), (''previous_type'', VStr (plain old ''type''))])\<rparr>"

definition action_rules :: diff_rules where
  "action_rules = \<lparr>df_key = (\<lambda>d. plain d ''title''),
     df_same = (\<lambda>old x. plain old ''reason'' = plain x ''reason'' \<and> id_key (get old ''source_ids'') = id_key (get x ''source_ids'')),
     df_view = action_view,
     df_changed = (\<lambda>old x. action_view x @ [(''previous_reason'', VStr (plain old ''reason'')),
        (''previous_source_ids'', strings (string_list (get old ''source_ids'')))])\<rparr>"

section \<open>The difference\<close>

definition dicts :: "dict list \<Rightarrow> val" where
  "dicts xs = VList (map VObj xs)"

definition row_changes :: "diff_rules \<Rightarrow> string \<Rightarrow> dict \<Rightarrow> dict \<Rightarrow> dict list \<times> dict list \<times> dict list" where
  "row_changes f key previous current = partition_changes f (dict_rows (get previous key)) (dict_rows (get current key))"

definition changes_from_previous :: "dict \<Rightarrow> dict \<Rightarrow> dict res" where
  "changes_from_previous previous current =
     rbind (int_field previous ''version'') (\<lambda>version.
       case row_changes finding_rules ''findings'' previous current of (fa, fr, fc) \<Rightarrow>
       case row_changes source_rules ''sources'' previous current of (sa, sr, sc) \<Rightarrow>
       case row_changes action_rules ''suggested_actions'' previous current of (aa, ar, ac) \<Rightarrow>
       case string_delta (string_list (get previous ''limitations'')) (string_list (get current ''limitations'')) of (la, lr) \<Rightarrow>
       Inr [(''previous_delivery_id'', get previous ''delivery_id''), (''previous_version'', VInt version),
         (''summary_changed'', VBool (plain previous ''summary'' \<noteq> plain current ''summary'')),
         (''content_changed'', VBool (text_field previous ''content'' \<noteq> text_field current ''content'')),
         (''findings_added'', dicts fa), (''findings_removed'', dicts fr), (''findings_changed'', dicts fc),
         (''sources_added'', dicts sa), (''sources_removed'', dicts sr), (''sources_changed'', dicts sc),
         (''limitations_added'', strings la), (''limitations_removed'', strings lr),
         (''actions_added'', dicts aa), (''actions_removed'', dicts ar), (''actions_changed'', dicts ac)])"

section \<open>The difference is exact\<close>

lemma pop_match_mset:
  "pop_match f k xs = Some (y, ys) \<Longrightarrow> mset xs = add_mset y (mset ys) \<and> f y = k"
  by (induction xs arbitrary: y ys) (auto split: if_splits)

lemma pop_match_None: "pop_match f k xs = None \<longleftrightarrow> k \<notin> f ` set xs"
  by (induction xs) (auto split: prod.splits)

lemma match_rows_accounts:
  assumes "match_rows f unused xs = (a, c, u)"
  shows "\<exists>A P. a = map (df_view f) A \<and> mset xs = mset A + mset (map snd P) \<and> mset unused = mset u + mset (map fst P) \<and>
    (\<forall>p \<in> set P. df_key f (fst p) = df_key f (snd p)) \<and>
    c = map (\<lambda>p. df_changed f (fst p) (snd p)) (filter (\<lambda>p. \<not> df_same f (fst p) (snd p)) P) \<and>
    (\<forall>x \<in> set A. \<forall>y \<in> set u. df_key f x \<noteq> df_key f y)"
  using assms
proof (induction xs arbitrary: unused a c u)
  case Nil
  then show ?case by (intro exI [of _ "[]"]) simp
next
  case (Cons x xs)
  show ?case
  proof (cases "pop_match (df_key f) (df_key f x) unused")
    case None
    then obtain a' where m: "match_rows f unused xs = (a', c, u)" "a = df_view f x # a'"
      using Cons.prems by (auto split: prod.splits)
    from Cons.IH [OF m(1)] obtain A P where AP: "a' = map (df_view f) A" "mset xs = mset A + mset (map snd P)"
      "mset unused = mset u + mset (map fst P)" "\<forall>p \<in> set P. df_key f (fst p) = df_key f (snd p)"
      "c = map (\<lambda>p. df_changed f (fst p) (snd p)) (filter (\<lambda>p. \<not> df_same f (fst p) (snd p)) P)"
      "\<forall>x \<in> set A. \<forall>y \<in> set u. df_key f x \<noteq> df_key f y" by blast
    have "set u \<subseteq> set unused" using mset_eq_setD [of unused "u @ map fst P"] AP(3) by auto
    with None have "\<forall>y \<in> set u. df_key f x \<noteq> df_key f y" by (auto simp: pop_match_None)
    with AP m(2) show ?thesis by (intro exI [of _ "x # A"] exI [of _ P]) auto
  next
    case (Some q)
    then obtain old rest where q: "pop_match (df_key f) (df_key f x) unused = Some (old, rest)" by (cases q) auto
    obtain c' where m: "match_rows f rest xs = (a, c', u)" "c = (if df_same f old x then c' else df_changed f old x # c')"
      using Cons.prems by (auto simp: q split: prod.splits)
    from Cons.IH [OF m(1)] obtain A P where AP: "a = map (df_view f) A" "mset xs = mset A + mset (map snd P)"
      "mset rest = mset u + mset (map fst P)" "\<forall>p \<in> set P. df_key f (fst p) = df_key f (snd p)"
      "c' = map (\<lambda>p. df_changed f (fst p) (snd p)) (filter (\<lambda>p. \<not> df_same f (fst p) (snd p)) P)"
      "\<forall>x \<in> set A. \<forall>y \<in> set u. df_key f x \<noteq> df_key f y" by blast
    from pop_match_mset [OF q] AP m(2) show ?thesis
      by (intro exI [of _ A] exI [of _ "(old, x) # P"]) auto
  qed
qed

lemma count_beyond: "count_list (beyond n xs) x = count_list xs x - n x"
  by (induction n xs rule: beyond.induct) (auto simp: Suc_diff_le fun_upd_def)

lemma string_delta_exact:
  "string_delta previous current = (added, removed) \<Longrightarrow>
     mset added = mset current - mset previous \<and> mset removed = mset previous - mset current"
  by (auto simp: string_delta_def multiset_eq_iff count_mset count_beyond)

section \<open>Properties\<close>

text \<open>C20. The comparison of two versions accounts for every row: what it reports as added and removed are rows of
  either version without a partner, and no key is in both; all other rows are paired by equal keys, and the reported
  changes are exactly the pairs that differ.\<close>

theorem diff_accounts_for_every_row:
  "case partition_changes f previous current of (added, removed, changed) \<Rightarrow>
     \<exists>A R P. added = map (df_view f) A \<and> removed = map (df_view f) R \<and>
       changed = map (\<lambda>p. df_changed f (fst p) (snd p)) (filter (\<lambda>p. \<not> df_same f (fst p) (snd p)) P) \<and>
       mset current = mset A + mset (map snd P) \<and> mset previous = mset R + mset (map fst P) \<and>
       list_all (\<lambda>p. df_key f (fst p) = df_key f (snd p)) P \<and> set (map (df_key f) A) \<inter> set (map (df_key f) R) = {}"
proof -
  obtain a c u where m: "match_rows f previous current = (a, c, u)" by (metis prod_cases3)
  from match_rows_accounts [OF m] obtain A P where AP: "a = map (df_view f) A" "mset current = mset A + mset (map snd P)"
    "mset previous = mset u + mset (map fst P)" "\<forall>p \<in> set P. df_key f (fst p) = df_key f (snd p)"
    "c = map (\<lambda>p. df_changed f (fst p) (snd p)) (filter (\<lambda>p. \<not> df_same f (fst p) (snd p)) P)"
    "\<forall>x \<in> set A. \<forall>y \<in> set u. df_key f x \<noteq> df_key f y" by blast
  have "set (map (df_key f) A) \<inter> set (map (df_key f) u) = {}" using AP(6) by fastforce
  with AP have "a = map (df_view f) A \<and> map (df_view f) u = map (df_view f) u \<and>
       c = map (\<lambda>p. df_changed f (fst p) (snd p)) (filter (\<lambda>p. \<not> df_same f (fst p) (snd p)) P) \<and>
       mset current = mset A + mset (map snd P) \<and> mset previous = mset u + mset (map fst P) \<and>
       list_all (\<lambda>p. df_key f (fst p) = df_key f (snd p)) P \<and> set (map (df_key f) A) \<inter> set (map (df_key f) u) = {}"
    by (simp add: list_all_iff)
  then show ?thesis unfolding partition_changes_def m prod.case by blast
qed

end
