(* ===== verification/Delivery.thy ===== *)
theory Delivery
  imports Delivery_Diff Recovery
begin

text \<open>
  Deliveries of a work item and their review, \<open>product/work_delivery.py\<close>. Versions, decisions, rework dispatches and
  adopted suggestions are payloads of \<open>WorkItemUpdated\<close>, which the projector ignores: the log is their only home,
  and every operation folds it. Not modelled: the field \<open>model_cost\<close> of an answer, a report over the telemetry events;
  the lock per item is the granularity of an operation. In Python \<open>list(x)\<close> of a text is its characters.
\<close>

section \<open>Errors of the operations\<close>

datatype delivery_error = Not_Found | Conflict string | Invalid | Failure err

type_synonym 'a dm = "gov \<Rightarrow> gov \<times> (delivery_error + 'a)"

definition dret :: "'a \<Rightarrow> 'a dm" where
  "dret x = (\<lambda>g. (g, Inr x))"

definition dfail :: "delivery_error \<Rightarrow> 'a dm" where
  "dfail e = (\<lambda>g. (g, Inl e))"

definition dbind :: "'a dm \<Rightarrow> ('a \<Rightarrow> 'b dm) \<Rightarrow> 'b dm" where
  "dbind m f = (\<lambda>g. case m g of (g', Inl e) \<Rightarrow> (g', Inl e) | (g', Inr x) \<Rightarrow> f x g')"

text \<open>An operation of the runtime, whose exceptions pass through.\<close>

definition dlift :: "'a gm \<Rightarrow> 'a dm" where
  "dlift m = (\<lambda>g. case m g of (g', Inl e) \<Rightarrow> (g', Inl (Failure e)) | (g', Inr x) \<Rightarrow> (g', Inr x))"

section \<open>The rows in the log\<close>

text \<open>\<open>row.setdefault("event_id", event.id)\<close> and the same for the sequence number.\<close>

definition with_event :: "event \<Rightarrow> dict \<Rightarrow> dict" where
  "with_event e d =
     (let d1 = (if has ''event_id'' d then d else d @ [(''event_id'', VStr (ev_id e))])
      in if has ''event_seq'' d1 then d1 else d1 @ [(''event_seq'', VInt (seq_of e))])"

definition payload_rows :: "string \<Rightarrow> string \<Rightarrow> event list \<Rightarrow> dict list" where
  "payload_rows key idk evs =
     concat (map (\<lambda>e. case get (ev_payload e) key of
        VObj d \<Rightarrow> if truthy (get d idk) then [with_event e d] else [] | _ \<Rightarrow> []) evs)"

record item_log =
  hs_deliveries :: "dict list"
  hs_decisions :: "dict list"
  hs_dispatches :: "dict list"
  hs_adoptions :: "dict list"
  hs_status :: "(int \<times> string \<times> string) list"

definition status_row :: "event \<Rightarrow> int \<times> string \<times> string" where
  "status_row e = (seq_of e, text_field (ev_payload e) ''status'', text_field (ev_payload e) ''reason'')"

definition history_of :: "event list \<Rightarrow> item_log" where
  "history_of evs =
     \<lparr>hs_deliveries = payload_rows ''delivery_published'' ''delivery_id'' evs,
      hs_decisions = payload_rows ''delivery_decision'' ''delivery_id'' evs,
      hs_dispatches = payload_rows ''rework_dispatched'' ''delivery_id'' evs,
      hs_adoptions = payload_rows ''suggested_action_adopted'' ''created_work_id'' evs,
      hs_status = map status_row (filter (\<lambda>e. ev_type e = ''WorkItemStatusChanged'') evs)\<rparr>"

definition read_work_events :: "kernel \<Rightarrow> string \<Rightarrow> event list res" where
  "read_work_events k i = read_events k (all_events\<lparr>q_agg_type := Some ''work_item'', q_agg_id := Some i, q_order := ''asc''\<rparr>)"

section \<open>Indexes\<close>

text \<open>A dict filled in a loop: a later row takes the place of an earlier one.\<close>

definition index_by :: "(dict \<Rightarrow> string) \<Rightarrow> dict list \<Rightarrow> (string \<times> dict) list" where
  "index_by f rows = foldl (\<lambda>m r. AList.update (f r) r m) [] rows"

definition delivery_id :: "dict \<Rightarrow> string" where
  "delivery_id d = text_field d ''delivery_id''"

definition decision_key :: "dict \<Rightarrow> string" where
  "decision_key d = plain d ''idempotency_key''"

text \<open>The first decision of a key, the last adoption of a key.\<close>

definition by_idempotency :: "dict list \<Rightarrow> (string \<times> dict) list" where
  "by_idempotency rows =
     foldl (\<lambda>m r. if decision_key r \<noteq> [] \<and> map_of m (decision_key r) = None then m @ [(decision_key r, r)] else m) [] rows"

definition adoption_idempotency_index :: "dict list \<Rightarrow> (string \<times> dict) list" where
  "adoption_idempotency_index rows = index_by decision_key (filter (\<lambda>r. decision_key r \<noteq> []) rows)"

definition decision_for :: "dict list \<Rightarrow> string \<Rightarrow> dict option" where
  "decision_for decisions i = foldl (\<lambda>latest d. if delivery_id d = i then Some d else latest) None decisions"

section \<open>Review status\<close>

definition review_status_of :: "string \<Rightarrow> string" where
  "review_status_of raw =
     (if raw = ''accepted'' then ''accepted'' else if raw = ''changes_requested'' then ''changes_requested'' else ''unreviewed'')"

definition status_after :: "dict option \<Rightarrow> string" where
  "status_after d = (case d of None \<Rightarrow> ''unreviewed'' | Some x \<Rightarrow> review_status_of (text_field x ''decision''))"

definition execute_requested_since :: "kernel \<Rightarrow> string \<Rightarrow> int \<Rightarrow> bool res" where
  "execute_requested_since k i after =
     rbind (read_events k (all_events\<lparr>q_agg_type := Some ''action'', q_agg_id := Some (''exec_'' @ i), q_type := Some ''ExecuteRequested'',
       q_since_seq := after, q_order := ''asc'', q_limit := Some 1\<rparr>)) (\<lambda>evs. Inr (evs \<noteq> []))"

definition rework_request_withdrawn :: "kernel \<Rightarrow> string \<Rightarrow> dict option \<Rightarrow> (int \<times> string \<times> string) list \<Rightarrow> bool res" where
  "rework_request_withdrawn k i decision statuses =
     (case decision of
        None \<Rightarrow> Inr False
      | Some d \<Rightarrow>
          if text_field d ''decision'' \<noteq> ''changes_requested'' then Inr False
          else rbind (int_field d ''event_seq'') (\<lambda>decision_seq.
            let restores = filter (\<lambda>(n, s, reason). reason = ''rework_restore'' \<and> decision_seq < n) statuses in
            if restores = [] then Inr False
            else rbind (execute_requested_since k i decision_seq) (\<lambda>requested.
              if \<not> requested then Inr True
              else (case List.find (\<lambda>(n, s, reason). s = ''pending'') restores of
                  None \<Rightarrow> Inr False
                | Some (n, _) \<Rightarrow> rbind (execute_requested_since k i n) (\<lambda>later. Inr (\<not> later))))))"

section \<open>The public form of a delivery\<close>

text \<open>\<open>list(x)\<close>.\<close>

definition py_list :: "val \<Rightarrow> val list res" where
  "py_list v = (case v of VList xs \<Rightarrow> Inr xs | VObj d \<Rightarrow> Inr (map (VStr \<circ> fst) d) | VStr s \<Rightarrow> Inr (map (\<lambda>c. VStr [c]) s) | _ \<Rightarrow> Inl TypeError)"

definition list_field :: "dict \<Rightarrow> string \<Rightarrow> val list res" where
  "list_field d k = py_list (py_or (get d k) (VList []))"

definition is_qualified :: "dict \<Rightarrow> bool" where
  "is_qualified d = truthy (getd d ''qualified'' (VBool True))"

definition quality_structure :: "dict \<Rightarrow> string" where
  "quality_structure d =
     (let e = text_field d ''quality_structure'' in
      if e = ''passed'' \<or> e = ''failed'' then e else if is_qualified d then ''passed'' else ''failed'')"

definition quality_evidence :: "dict \<Rightarrow> string" where
  "quality_evidence d =
     (let e = text_field d ''quality_evidence'' in if e = ''pending'' \<or> e = ''unsupported'' then e else ''pending'')"

definition list_names :: "string list" where
  "list_names = [''limitations'', ''suggested_actions'', ''sources'', ''checks'', ''findings'']"

definition public_delivery :: "dict \<Rightarrow> string \<Rightarrow> bool \<Rightarrow> dict option \<Rightarrow> dict res" where
  "public_delivery row review content latest =
     rbind (int_field row ''version'') (\<lambda>version.
     rbind (int_field row ''contract_version'') (\<lambda>contract.
     rbind (traverse (\<lambda>k. rbind (list_field row k) (\<lambda>xs. Inr (k, VList xs))) list_names) (\<lambda>lists.
     rbind (py_int (py_or (get row ''schema_version'') (VInt 1))) (\<lambda>schema. Inr
       ([(''delivery_id'', get row ''delivery_id''), (''version'', VInt version), (''contract_version'', VInt contract),
         (''execution_id'', get row ''execution_id''), (''created_at'', get row ''created_at''),
         (''summary'', py_or (get row ''summary'') (VStr []))] @ lists @
        [(''supersedes_delivery_id'', get row ''supersedes_delivery_id''), (''schema_version'', VInt schema),
         (''qualified'', VBool (is_qualified row)), (''quality_structure'', VStr (quality_structure row)),
         (''quality_evidence'', VStr (quality_evidence row)), (''review_status'', VStr review),
         (''latest_decision'', (case latest of None \<Rightarrow> VNull | Some d \<Rightarrow> VObj d))] @
        (if content then [(''content'', py_or (get row ''content'') (VStr []))]
         else [(''content_length'', VInt (int (code_points (text_field row ''content''))))]) @
        (case get row ''retrieval'' of VObj d \<Rightarrow> [(''retrieval'', VObj d)] | _ \<Rightarrow> []))))))"

definition changes_for :: "dict \<Rightarrow> (string \<times> dict) list \<Rightarrow> val res" where
  "changes_for row versions =
     (let previous = plain row ''supersedes_delivery_id'' in
      if previous = [] then Inr VNull
      else (case map_of versions previous of
          None \<Rightarrow> Inr VNull
        | Some d \<Rightarrow> rbind (changes_from_previous d row) (\<lambda>c. Inr (VObj c))))"

definition presented :: "(string \<times> dict) list \<Rightarrow> string \<Rightarrow> bool \<Rightarrow> dict option \<Rightarrow> dict \<Rightarrow> dict res" where
  "presented versions review content latest row =
     rbind (public_delivery row review content latest) (\<lambda>p.
     rbind (changes_for row versions) (\<lambda>c. Inr (setd ''changes_from_previous'' c p)))"

section \<open>The fold\<close>

record folded =
  fo_deliveries :: "dict list"
  fo_current :: "dict option"
  fo_status :: "string option"
  fo_latest :: "dict option"
  fo_by_id :: "(string \<times> dict) list"
  fo_decisions :: "dict list"
  fo_dispatches :: "dict list"
  fo_by_key :: "(string \<times> dict) list"
  fo_adoptions :: "dict list"
  fo_by_adoption_key :: "(string \<times> dict) list"
  fo_current_id :: "string option"
  fo_withdrawn :: bool

definition newest :: "dict list \<Rightarrow> dict option" where
  "newest ds = (if ds = [] then None else Some (List.last ds))"

definition summary_of :: "(string \<times> dict) list \<Rightarrow> (string \<times> dict) list \<Rightarrow> bool \<Rightarrow> string option \<Rightarrow> dict \<Rightarrow> dict res" where
  "summary_of versions latest withdrawn current row =
     (let d = (if withdrawn \<and> Some (delivery_id row) = current then None else map_of latest (delivery_id row))
      in presented versions (status_after d) False d row)"

definition fold_history :: "kernel \<Rightarrow> string \<Rightarrow> item_log \<Rightarrow> folded res" where
  "fold_history k i h =
     (let versions = index_by delivery_id (hs_deliveries h);
          latest = index_by delivery_id (hs_decisions h);
          current = newest (hs_deliveries h);
          current_id = map_option delivery_id current;
          decision = (case current_id of None \<Rightarrow> None | Some c \<Rightarrow> map_of latest c)
      in rbind (rework_request_withdrawn k i decision (hs_status h)) (\<lambda>withdrawn.
           let shown = (if withdrawn then None else decision) in
           rbind (traverse (summary_of versions latest withdrawn current_id) (hs_deliveries h)) (\<lambda>summaries.
           rbind (case current of None \<Rightarrow> Inr None
                  | Some row \<Rightarrow> rbind (presented versions (status_after shown) True shown row) (\<lambda>p. Inr (Some p))) (\<lambda>public.
             Inr \<lparr>fo_deliveries = summaries, fo_current = public,
                  fo_status = (if current = None then None else Some (status_after shown)), fo_latest = decision, fo_by_id = versions,
                  fo_decisions = hs_decisions h, fo_dispatches = hs_dispatches h, fo_by_key = by_idempotency (hs_decisions h),
                  fo_adoptions = hs_adoptions h, fo_by_adoption_key = adoption_idempotency_index (hs_adoptions h),
                  fo_current_id = current_id, fo_withdrawn = withdrawn\<rparr>))))"

definition fold_delivery_history :: "kernel \<Rightarrow> string \<Rightarrow> folded res" where
  "fold_delivery_history k i = rbind (read_work_events k i) (\<lambda>evs. fold_history k i (history_of evs))"

section \<open>Adopted suggestions in the view\<close>

definition coerce_action_index :: "val \<Rightarrow> int option" where
  "coerce_action_index v = (case v of
     VInt n \<Rightarrow> Some n | VStr s \<Rightarrow> (case py_int (VStr s) of Inl _ \<Rightarrow> None | Inr n \<Rightarrow> Some n) | _ \<Rightarrow> None)"

definition adopted_ids :: "dict list \<Rightarrow> string \<Rightarrow> (int \<times> string list) list" where
  "adopted_ids adoptions i =
     foldl (\<lambda>m r. if delivery_id r \<noteq> i then m
        else (case coerce_action_index (get r ''action_index'') of
            None \<Rightarrow> m
          | Some n \<Rightarrow> let created = plain r ''created_work_id'' in
              if created = [] then m
              else AList.update n ((case map_of m n of None \<Rightarrow> [] | Some xs \<Rightarrow> xs) @ [created]) m)) [] adoptions"

definition live_adopted_indexes :: "kernel \<Rightarrow> dict list \<Rightarrow> string \<Rightarrow> (int \<times> string) list" where
  "live_adopted_indexes k adoptions i =
     concat (map (\<lambda>(n, ids). case List.find (\<lambda>c. get_work_item k c \<noteq> None) (rev ids) of None \<Rightarrow> [] | Some c \<Rightarrow> [(n, c)])
       (adopted_ids adoptions i))"

definition annotate_action :: "(int \<times> string) list \<Rightarrow> nat \<times> val \<Rightarrow> val" where
  "annotate_action adopted = (\<lambda>(n, a).
     (let row = (case a of VObj d \<Rightarrow> d | _ \<Rightarrow> [(''title'', VStr (py_str a))]) in
      VObj (case map_of adopted (int n) of None \<Rightarrow> row | Some w \<Rightarrow> if w = [] then row else setd ''adopted_work_id'' (VStr w) row)))"

definition annotate_adoptions :: "(int \<times> string) list \<Rightarrow> dict \<Rightarrow> dict" where
  "annotate_adoptions adopted d =
     (if d = [] \<or> adopted = [] then d
      else setd ''suggested_actions''
        (VList (map (annotate_action adopted) (case get d ''suggested_actions'' of VList xs \<Rightarrow> enumerate 0 xs | _ \<Rightarrow> []))) d)"

definition annotated :: "kernel \<Rightarrow> dict list \<Rightarrow> dict \<Rightarrow> dict" where
  "annotated k adoptions d = annotate_adoptions (live_adopted_indexes k adoptions (delivery_id d)) d"

text \<open>The bundle: work id, versions, current version and its review status.\<close>

definition public_bundle :: "kernel \<Rightarrow> string \<Rightarrow> dict res" where
  "public_bundle k i =
     rbind (fold_delivery_history k i) (\<lambda>f. Inr
       [(''work_id'', VStr i), (''deliveries'', dicts (map (annotated k (fo_adoptions f)) (fo_deliveries f))),
        (''current'', (case fo_current f of None \<Rightarrow> VNull | Some d \<Rightarrow> VObj (annotated k (fo_adoptions f) d))),
        (''current_review_status'', (case fo_status f of None \<Rightarrow> VNull | Some s \<Rightarrow> VStr s))])"

definition get_delivery :: "kernel \<Rightarrow> string \<Rightarrow> string \<Rightarrow> delivery_error + dict" where
  "get_delivery k i did =
     (case fold_delivery_history k i of
        Inl e \<Rightarrow> Inl (Failure e)
      | Inr f \<Rightarrow>
          (case map_of (fo_by_id f) did of
             None \<Rightarrow> Inl Not_Found
           | Some row \<Rightarrow>
               let shown = (if Some did = fo_current_id f \<and> fo_withdrawn f then None else decision_for (fo_decisions f) did) in
               (case presented (fo_by_id f) (status_after shown) True shown row of
                  Inl e \<Rightarrow> Inl (Failure e)
                | Inr p \<Rightarrow> Inr (annotate_adoptions (live_adopted_indexes k (fo_adoptions f) did) p))))"

section \<open>Publishing\<close>

record publication =
  pb_content :: string
  pb_summary :: string
  pb_sources :: "val list"
  pb_findings :: "val list"
  pb_limitations :: "val list"
  pb_actions :: "val list"
  pb_checks :: "val list"
  pb_contract :: int
  pb_execution :: "string option"
  pb_qualified :: bool
  pb_structure :: "string option"
  pb_evidence :: "string option"
  pb_retrieval :: "dict option"
  pb_actor :: string

definition dask :: "(gov \<Rightarrow> 'a res) \<Rightarrow> 'a dm" where
  "dask f = dlift (gask f)"

definition folded_now :: "string \<Rightarrow> folded dm" where
  "folded_now i = dask (\<lambda>g. fold_delivery_history (g_kernel g) i)"

definition emit_update :: "string \<Rightarrow> dict \<Rightarrow> string \<Rightarrow> unit dm" where
  "emit_update i p actor = dlift (gbind (gemit ''WorkItemUpdated'' ''work_item'' i p actor None None) (\<lambda>_. gret ()))"

definition delivery_body :: "publication \<Rightarrow> string \<Rightarrow> time \<Rightarrow> int \<Rightarrow> val \<Rightarrow> dict" where
  "delivery_body a uuid now version supersedes =
     [(''delivery_id'', VStr uuid), (''version'', VInt version), (''contract_version'', VInt (pb_contract a)),
      (''execution_id'', opt_str (pb_execution a)), (''created_at'', VTime now), (''summary'', VStr (pb_summary a)),
      (''content'', VStr (pb_content a)), (''limitations'', VList (pb_limitations a)), (''suggested_actions'', VList (pb_actions a)),
      (''sources'', VList (pb_sources a)), (''findings'', VList (pb_findings a)), (''checks'', VList (pb_checks a)),
      (''supersedes_delivery_id'', supersedes), (''schema_version'', VInt 1), (''qualified'', VBool (pb_qualified a)),
      (''quality_structure'',
        VStr (quality_structure [(''quality_structure'', opt_str (pb_structure a)), (''qualified'', VBool (pb_qualified a))])),
      (''quality_evidence'', VStr (quality_evidence [(''quality_evidence'', opt_str (pb_evidence a))]))] @
     (case pb_retrieval a of None \<Rightarrow> [] | Some d \<Rightarrow> [(''retrieval'', VObj d)])"

definition public_for_execution :: "folded \<Rightarrow> string \<Rightarrow> dict option res" where
  "public_for_execution f execution =
     (case List.find (\<lambda>(did, row). text_field row ''execution_id'' = execution) (fo_by_id f) of
        None \<Rightarrow> Inr None
      | Some (did, row) \<Rightarrow>
          let d = decision_for (fo_decisions f) (delivery_id row) in
          rbind (presented (fo_by_id f) (status_after d) True d row) (\<lambda>p. Inr (Some p)))"

definition existing_delivery_for_execution :: "kernel \<Rightarrow> string \<Rightarrow> string option \<Rightarrow> dict option res" where
  "existing_delivery_for_execution k i execution =
     (let e = strip (case execution of None \<Rightarrow> [] | Some s \<Rightarrow> s) in
      if e = [] then Inr None else rbind (fold_delivery_history k i) (\<lambda>f. public_for_execution f e))"

text \<open>The number of the next version and the id it supersedes, from the public form of the current one.\<close>

definition next_version :: "folded \<Rightarrow> (int \<times> val) res" where
  "next_version f = (case fo_current f of
     None \<Rightarrow> Inr (1, VNull)
   | Some p \<Rightarrow> rbind (py_int (get p ''version'')) (\<lambda>n. Inr (n + 1, get p ''delivery_id'')))"

definition publish_delivery :: "string \<Rightarrow> publication \<Rightarrow> dict dm" where
  "publish_delivery i a =
     dbind (dlift (query_work_item i)) (\<lambda>row. case row of
       None \<Rightarrow> dfail Not_Found
     | Some _ \<Rightarrow>
         dbind (folded_now i) (\<lambda>f.
         dbind (dask (\<lambda>g. if given (pb_execution a) then public_for_execution f (the (pb_execution a)) else Inr None)) (\<lambda>prior.
         case prior of
           Some p \<Rightarrow> dret p
         | None \<Rightarrow>
             dbind (dask (\<lambda>g. next_version f)) (\<lambda>(version, supersedes).
             dbind (dlift new_uuid) (\<lambda>uuid.
             dbind (dlift (gread (\<lambda>g. delivery_body a uuid (k_now (g_kernel g)) version supersedes))) (\<lambda>body.
             dbind (emit_update i [(''delivery_published'', VObj body)] (pb_actor a)) (\<lambda>_.
             dask (\<lambda>g. presented (fo_by_id f) ''unreviewed'' True None body))))))))"

text \<open>Successful model calls of an execution among the 500 latest calls.\<close>

definition successful_brief_llm_calls :: "kernel \<Rightarrow> string option \<Rightarrow> nat res" where
  "successful_brief_llm_calls k execution =
     (let e = strip (case execution of None \<Rightarrow> [] | Some s \<Rightarrow> s) in
      if e = [] then Inr 0
      else rbind (read_events k (all_events\<lparr>q_type := Some ''LLMCallRecorded'', q_order := ''desc'', q_limit := Some 500\<rparr>)) (\<lambda>evs.
        Inr (length (filter (\<lambda>x. ev_caused_by x = Some e \<and> get (ev_payload x) ''purpose'' = VStr ''project_brief'' \<and>
          truthy (getd (ev_payload x) ''success'' (VBool True))) evs))))"

section \<open>Deciding\<close>

text \<open>The self-reported minutes: an int that is no bool, at most a week.\<close>

definition manual_minutes_max :: int where
  "manual_minutes_max = 7 * 24 * 60"

definition minutes_in :: "val \<Rightarrow> int option" where
  "minutes_in v = (case v of VInt n \<Rightarrow> if n < 0 \<or> manual_minutes_max < n then None else Some n | _ \<Rightarrow> None)"

definition stored_manual_minutes :: "dict \<Rightarrow> int option" where
  "stored_manual_minutes row = minutes_in (get row ''manual_minutes'')"

definition coerce_manual_minutes :: "val \<Rightarrow> delivery_error + int option" where
  "coerce_manual_minutes v =
     (if v = VNull then Inr None else (case minutes_in v of None \<Rightarrow> Inl Invalid | Some n \<Rightarrow> Inr (Some n)))"

record verdict =
  vd_decision :: string
  vd_reason :: string
  vd_key :: "string option"
  vd_actor :: string
  vd_minutes :: val

definition verdict_key :: "verdict \<Rightarrow> string" where
  "verdict_key v = strip (case vd_key v of None \<Rightarrow> [] | Some s \<Rightarrow> s)"

definition idempotency_matches :: "dict \<Rightarrow> string \<Rightarrow> verdict \<Rightarrow> int option \<Rightarrow> bool" where
  "idempotency_matches prior did v minutes \<longleftrightarrow>
     delivery_id prior = did \<and> text_field prior ''decision'' = vd_decision v \<and>
     plain prior ''reason'' = strip (vd_reason v) \<and> stored_manual_minutes prior = minutes"

record answer =
  an_replayed :: bool
  an_decision :: "dict option"
  an_bundle :: dict
  an_superseded :: bool
  an_restored :: "string option"
  an_error :: "string option"
  an_work :: "work_row option"

definition answer_with :: "string \<Rightarrow> bool \<Rightarrow> dict option \<Rightarrow> answer dm" where
  "answer_with i replayed d =
     dbind (dask (\<lambda>g. public_bundle (g_kernel g) i)) (\<lambda>b.
       dret \<lparr>an_replayed = replayed, an_decision = d, an_bundle = b, an_superseded = False, an_restored = None, an_error = None,
         an_work = None\<rparr>)"

definition require_current_delivery :: "folded \<Rightarrow> string \<Rightarrow> delivery_error + dict" where
  "require_current_delivery f did =
     (case map_of (fo_by_id f) did of
        None \<Rightarrow> Inl Not_Found
      | Some row \<Rightarrow> if fo_current_id f \<noteq> Some did then Inl (Conflict ''stale_delivery'') else Inr row)"

definition decision_body :: "string \<Rightarrow> string \<Rightarrow> int \<Rightarrow> verdict \<Rightarrow> int option \<Rightarrow> time \<Rightarrow> dict" where
  "decision_body uuid did version v minutes now =
     [(''decision_id'', VStr uuid), (''delivery_id'', VStr did), (''delivery_version'', VInt version),
      (''decision'', VStr (vd_decision v)), (''reason'', VStr (strip (vd_reason v))), (''actor'', VStr (vd_actor v)),
      (''created_at'', VTime now), (''idempotency_key'', opt_str (if verdict_key v = [] then None else Some (verdict_key v)))] @
     (case minutes of None \<Rightarrow> [] | Some n \<Rightarrow> [(''manual_minutes'', VInt n)])"

definition record_decision :: "string \<Rightarrow> string \<Rightarrow> dict \<Rightarrow> verdict \<Rightarrow> int option \<Rightarrow> answer dm" where
  "record_decision i did row v minutes =
     dbind (dask (\<lambda>g. int_field row ''version'')) (\<lambda>version.
     dbind (dlift new_uuid) (\<lambda>uuid.
     dbind (dlift (gread (\<lambda>g. decision_body uuid did version v minutes (k_now (g_kernel g))))) (\<lambda>body.
     dbind (emit_update i [(''delivery_decision'', VObj body)] (vd_actor v)) (\<lambda>_. answer_with i False (Some body)))))"

definition review_current :: "string \<Rightarrow> string \<Rightarrow> verdict \<Rightarrow> int option \<Rightarrow> folded \<Rightarrow> answer dm" where
  "review_current i did v minutes f =
     (case require_current_delivery f did of
        Inl e \<Rightarrow> dfail e
      | Inr row \<Rightarrow>
          if fo_status f = Some ''accepted'' \<and> vd_decision v \<noteq> ''accepted'' then dfail (Conflict ''decision_conflict'')
          else if fo_status f = Some ''changes_requested'' \<and> vd_decision v \<noteq> ''changes_requested'' then dfail (Conflict ''decision_conflict'')
          else if vd_decision v = ''changes_requested'' \<and> fo_status f = Some ''changes_requested'' then answer_with i True (fo_latest f)
          else if vd_decision v = ''accepted'' \<and> fo_status f = Some ''accepted'' then answer_with i True (fo_latest f)
          else record_decision i did row v minutes)"

definition checked_verdict :: "verdict \<Rightarrow> delivery_error + int option" where
  "checked_verdict v =
     (if vd_decision v \<noteq> ''accepted'' \<and> vd_decision v \<noteq> ''changes_requested'' then Inl Invalid
      else if vd_decision v = ''changes_requested'' \<and> strip (vd_reason v) = [] then Inl Invalid
      else if vd_decision v = ''accepted'' then coerce_manual_minutes (vd_minutes v) else Inr None)"

definition decide_delivery :: "string \<Rightarrow> string \<Rightarrow> verdict \<Rightarrow> answer dm" where
  "decide_delivery i did v =
     (case checked_verdict v of
        Inl e \<Rightarrow> dfail e
      | Inr minutes \<Rightarrow>
          dbind (dlift (query_work_item i)) (\<lambda>row. case row of
            None \<Rightarrow> dfail Not_Found
          | Some _ \<Rightarrow>
              dbind (folded_now i) (\<lambda>f.
              case (if verdict_key v = [] then None else map_of (fo_by_key f) (verdict_key v)) of
                Some prior \<Rightarrow>
                  if \<not> idempotency_matches prior did v minutes then dfail (Conflict ''idempotency_conflict'')
                  else answer_with i True (Some prior)
              | None \<Rightarrow> review_current i did v minutes f)))"

definition accept_delivery :: "string \<Rightarrow> string \<Rightarrow> verdict \<Rightarrow> answer dm" where
  "accept_delivery i did v = decide_delivery i did (v\<lparr>vd_decision := ''accepted''\<rparr>)"

section \<open>What the log says\<close>

definition event_of_item :: "string \<Rightarrow> event \<Rightarrow> bool" where
  "event_of_item i e \<longleftrightarrow> ev_agg_type e = ''work_item'' \<and> ev_agg_id e = i"

definition item_history :: "kernel \<Rightarrow> string \<Rightarrow> item_log" where
  "item_history k i = history_of (filter (event_of_item i) (k_events k))"

lemma read_events_asc:
  assumes ok: "kernel_ok k" and q: "q_order q = ''asc''" "q_offset q = None" "q_limit q = None \<or> q_limit q = Some (int n)" "int n \<le> max_limit"
    and match: "\<And>r. r \<in> set (k_log k) \<Longrightarrow> row_matches q r \<longleftrightarrow> P (row_event r)"
  shows "read_events k q = Inr ((if q_limit q = None then id else take n) (filter P (k_events k)))"
proof -
  have rows: "filter (row_matches q) (k_log k) = filter (P \<circ> row_event) (k_log k)"
    by (rule filter_cong) (simp_all add: match)
  have f: "fetch_event_log_rows q (k_log k) = Inr ((if q_limit q = None then id else take n) (filter (P \<circ> row_event) (k_log k)))"
    using q unfolding fetch_event_log_rows_def rows
    by (auto simp: sort_increasing increasing_filter kernel_okD(1) [OF ok] safe_limit_def safe_offset_def safe_order_def take_opt_def Let_def)
  have "traverse (from_row (k_reg k)) rs = Inr (map row_event rs)" if "set rs \<subseteq> set (k_log k)" for rs
    by (rule traverse_total) (use kernel_okD(2) [OF ok] that in \<open>auto intro: from_row_ok\<close>)
  moreover have "set ((if q_limit q = None then id else take n) (filter (P \<circ> row_event) (k_log k))) \<subseteq> set (k_log k)"
    by (auto dest: in_set_takeD)
  ultimately show ?thesis
    unfolding read_events_def f by (simp add: k_events_def filter_map take_map)
qed

lemma fold_reads_log: "kernel_ok k \<Longrightarrow> fold_delivery_history k i = fold_history k i (item_history k i)"
  unfolding fold_delivery_history_def read_work_events_def item_history_def
  by (subst read_events_asc [where n = 0 and P = "event_of_item i"])
     (use kernel_okD(2) in \<open>auto simp: all_events_def row_matches_def opt_eq_def event_of_item_def max_limit_def\<close>)

lemma row_event_seq: "seq_of (row_event r) = lr_seq r"
  by (simp add: row_event_def seq_of_def)

lemma requested_since_log:
  "kernel_ok k \<Longrightarrow> execute_requested_since k i n = Inr (\<exists>e \<in> set (k_events k). request_event i e \<and> n < seq_of e)"
  unfolding execute_requested_since_def
  by (subst read_events_asc [where n = 1 and P = "\<lambda>e. request_event i e \<and> n < seq_of e"])
     (auto simp: all_events_def row_matches_def opt_eq_def request_event_def max_limit_def exec_key_def row_event_seq
        take_eq_Nil filter_empty_conv)

end
