(* ===== verification/Delivery_Steps.thy ===== *)
theory Delivery_Steps
  imports Delivery
begin

text \<open>
  What publishing and deciding do to the log of an item: each logs at most one event and leaves the tables alone.
\<close>

section \<open>Indexes\<close>

lemma index_by_snoc: "index_by f (rows @ [r]) = AList.update (f r) r (index_by f rows)"
  by (simp add: index_by_def)

lemma index_by_find: "map_of (index_by f rows) x = List.find (\<lambda>r. f r = x) (rev rows)"
proof (induction rows rule: rev_induct)
  case Nil
  show ?case by (simp add: index_by_def)
next
  case (snoc r rows)
  then show ?case by (simp add: index_by_snoc update_conv')
qed

lemma index_by_in: "map_of (index_by f rows) x = Some r \<Longrightarrow> r \<in> set rows \<and> f r = x"
  by (auto simp: index_by_find find_Some_iff simp del: set_rev dest: nth_mem) (metis in_set_conv_nth length_rev set_rev)+

lemma index_by_distinct:
  assumes "distinct (map f rows)"
  shows "index_by f rows = map (\<lambda>r. (f r, r)) rows"
  using assms
proof (induction rows rule: rev_induct)
  case Nil
  show ?case by (simp add: index_by_def)
next
  case (snoc r rows)
  have upd: "AList.update k v m = m @ [(k, v)]" if "k \<notin> fst ` set m" for k v and m :: "(string \<times> dict) list"
    using that by (induction m) auto
  have "index_by f (rows @ [r]) = AList.update (f r) r (map (\<lambda>r. (f r, r)) rows)" using snoc by (simp add: index_by_snoc)
  also have "\<dots> = map (\<lambda>r. (f r, r)) rows @ [(f r, r)]" by (rule upd) (use snoc.prems in \<open>auto simp: image_image\<close>)
  finally show ?case by simp
qed

lemma by_idempotency_snoc:
  "by_idempotency (rows @ [r]) = (if decision_key r \<noteq> [] \<and> map_of (by_idempotency rows) (decision_key r) = None
     then by_idempotency rows @ [(decision_key r, r)] else by_idempotency rows)"
  by (simp add: by_idempotency_def)

text \<open>The first decision under a key stays the one found.\<close>

lemma by_idempotency_keeps: "map_of (by_idempotency rows) x = Some r \<Longrightarrow> map_of (by_idempotency (rows @ later)) x = Some r"
proof (induction later rule: rev_induct)
  case (snoc y later)
  then have "map_of (by_idempotency (rows @ later)) x = Some r" by simp
  moreover have "rows @ later @ [y] = (rows @ later) @ [y]" by simp
  ultimately show ?case by (simp only: by_idempotency_snoc) (simp add: map_add_def)
qed simp

lemma by_idempotency_new:
  "decision_key r = x \<Longrightarrow> x \<noteq> [] \<Longrightarrow> map_of (by_idempotency rows) x = None \<Longrightarrow> map_of (by_idempotency (rows @ [r])) x = Some r"
  by (simp add: by_idempotency_snoc map_add_def)

section \<open>Rows\<close>

lemma payload_rows_append: "payload_rows key idk (xs @ ys) = payload_rows key idk xs @ payload_rows key idk ys"
  by (simp add: payload_rows_def)

lemma get_with_event: "k \<noteq> ''event_id'' \<Longrightarrow> k \<noteq> ''event_seq'' \<Longrightarrow> getd (with_event e d) k x = getd d k x"
  by (auto simp: with_event_def Let_def getd_def map_add_def split: option.splits)

lemma seq_with_event: "\<not> has ''event_seq'' d \<Longrightarrow> get (with_event e d) ''event_seq'' = VInt (seq_of e)"
  by (auto simp: with_event_def Let_def getd_def has_def map_add_def split: option.splits)

definition update_event :: "kernel \<Rightarrow> string \<Rightarrow> dict \<Rightarrow> string \<Rightarrow> event" where
  "update_event k i p actor = next_event k ''WorkItemUpdated'' ''work_item'' i p actor None None"

definition review_keys :: "string list" where
  "review_keys = [''delivery_published'', ''delivery_decision'', ''rework_dispatched'', ''suggested_action_adopted'']"

lemma update_emitted:
  assumes ok: "kernel_ok (g_kernel g)" and key: "key \<in> set review_keys"
  shows "\<exists>k'. emit_update i [(key, v)] actor g = (g\<lparr>g_kernel := k'\<rparr>, Inr ()) \<and> logged (g_kernel g) (update_event (g_kernel g) i [(key, v)] actor) k' \<and>
    k_db k' = k_db (g_kernel g) \<and> gov_step g (g\<lparr>g_kernel := k'\<rparr>)"
proof -
  let ?k = "g_kernel g"
  let ?ev = "next_event ?k ''WorkItemUpdated'' ''work_item'' i [(key, v)] actor None None"
  have "present work_cols (ev_payload ?ev) = []"
    using key unfolding review_keys_def set_simps
    by (elim insertE emptyE) (simp_all add: present_def work_cols_def schema_key_def)
  then have "work_item_projector ?ev (work_rows ?k) = Inr (work_rows ?k)"
    by (simp add: work_item_projector_def on_work_item_updated_def Let_def)
  then have "run_projector WorkItem ?ev (k_db ?k) = Inr (k_db ?k)" by simp
  from emit_owned [OF ok _ _ this] obtain k' where "emit_event ?k ''WorkItemUpdated'' ''work_item'' i [(key, v)] actor None None = Inr (k', ?ev)"
    "k_db k' = k_db ?k" "logged ?k ?ev k'" by (auto simp: handler_table_def)
  moreover from this have "gemit ''WorkItemUpdated'' ''work_item'' i [(key, v)] actor None None g = (g\<lparr>g_kernel := k'\<rparr>, Inr ?ev)"
    by (simp add: gemit_def Let_def)
  moreover have "well_routed ?ev" by (simp add: well_routed_def event_owner_def handler_table_def)
  ultimately show ?thesis
    by (intro exI [of _ k']) (auto simp: emit_update_def dlift_def gbind_def gret_def update_event_def intro: gov_step.emitted)
qed

lemma note_fields [simp]:
  "ev_type (update_event k i p actor) = ''WorkItemUpdated''" "event_of_item j (update_event k i p actor) \<longleftrightarrow> j = i"
  "seq_of (update_event k i p actor) = k_seq k + 1" "\<not> request_event j (update_event k i p actor)"
  by (auto simp: update_event_def event_of_item_def request_event_def)

lemma update_event_payload:
  "key' \<noteq> ''schema_version'' \<Longrightarrow> get (ev_payload (update_event k i [(key, v)] actor)) key' = (if key' = key then v else VNull)"
  by (simp add: update_event_def schema_key_def)

section \<open>The fold\<close>

lemma decision_for_index: "decision_for ds i = map_of (index_by delivery_id ds) i"
proof (induction ds rule: rev_induct)
  case Nil
  show ?case by (simp add: decision_for_def index_by_def)
next
  case (snoc d ds)
  then show ?case by (simp add: decision_for_def index_by_snoc update_conv')
qed

lemma fold_fields:
  assumes "fold_history k i h = Inr f"
  shows "fo_by_id f = index_by delivery_id (hs_deliveries h)" and "fo_decisions f = hs_decisions h"
    and "fo_by_key f = by_idempotency (hs_decisions h)" and "fo_current_id f = map_option delivery_id (newest (hs_deliveries h))"
    and "fo_latest f = (case fo_current_id f of None \<Rightarrow> None | Some c \<Rightarrow> decision_for (hs_decisions h) c)"
    and "rework_request_withdrawn k i (fo_latest f) (hs_status h) = Inr (fo_withdrawn f)"
    and "fo_status f = (if hs_deliveries h = [] then None else Some (status_after (if fo_withdrawn f then None else fo_latest f)))"
  using assms by (auto simp: fold_history_def Let_def decision_for_index newest_def)

lemma withdrawn_changes: "rework_request_withdrawn k i d st = Inr True \<Longrightarrow> status_after d = ''changes_requested''"
  by (auto simp: rework_request_withdrawn_def status_after_def review_status_of_def split: option.splits if_splits)

lemma history_logged:
  assumes "k_events k' = k_events k @ [e]"
  shows "hs_deliveries (item_history k' i) = hs_deliveries (item_history k i) @
      payload_rows ''delivery_published'' ''delivery_id'' (if event_of_item i e then [e] else [])"
    and "hs_decisions (item_history k' i) = hs_decisions (item_history k i) @
      payload_rows ''delivery_decision'' ''delivery_id'' (if event_of_item i e then [e] else [])"
  using assms by (simp_all add: item_history_def history_of_def payload_rows_append)

section \<open>The effect of a decision\<close>

definition review_of :: "kernel \<Rightarrow> string \<Rightarrow> string \<Rightarrow> string" where
  "review_of k i did = status_after (decision_for (hs_decisions (item_history k i)) did)"

definition decided :: "gov \<Rightarrow> string \<Rightarrow> string \<Rightarrow> verdict \<Rightarrow> folded \<Rightarrow> gov \<Rightarrow> dict \<Rightarrow> bool" where
  "decided g i did v f g' body \<longleftrightarrow>
     fold_delivery_history (g_kernel g) i = Inr f \<and> fo_current_id f = Some did \<and> fo_status f = Some ''unreviewed'' \<and>
     (verdict_key v = [] \<or> map_of (fo_by_key f) (verdict_key v) = None) \<and> get_work_item (g_kernel g) i \<noteq> None \<and>
     (\<exists>version minutes k'. checked_verdict v = Inr minutes \<and>
        body = decision_body (show_nat (g_uuid g)) did version v minutes (k_now (g_kernel g)) \<and>
        g' = g\<lparr>g_uuid := Suc (g_uuid g), g_kernel := k'\<rparr> \<and> k_db k' = k_db (g_kernel g) \<and> gov_step (g\<lparr>g_uuid := Suc (g_uuid g)\<rparr>) g' \<and>
        logged (g_kernel g) (update_event (g_kernel g) i [(''delivery_decision'', VObj body)] (vd_actor v)) k')"

lemma answer_with_same: "fst (answer_with i b d g) = g"
  by (simp add: answer_with_def dbind_def dask_def dlift_def gask_def dret_def split: sum.splits)

lemma answer_with_fields: "answer_with i b d g = (g', Inr a) \<Longrightarrow> g' = g \<and> an_replayed a = b \<and> an_decision a = d"
  by (auto simp: answer_with_def dbind_def dask_def dlift_def gask_def dret_def split: sum.splits)

lemma replay_answer: "answer_with i True d g = (g', r) \<Longrightarrow> g' = g \<and> (\<forall>a. r = Inr a \<longrightarrow> an_replayed a)"
  using answer_with_same [of i True d g] answer_with_fields [of i True d g g'] by auto

text \<open>A valid verdict on an existing item.\<close>

lemma decide_run:
  assumes "checked_verdict v = Inr minutes" and "get_work_item (g_kernel g) i \<noteq> None" and "fold_delivery_history (g_kernel g) i = Inr f"
  shows "decide_delivery i did v g =
    (case (if verdict_key v = [] then None else map_of (fo_by_key f) (verdict_key v)) of
       Some prior \<Rightarrow> if \<not> idempotency_matches prior did v minutes then (g, Inl (Conflict ''idempotency_conflict''))
         else answer_with i True (Some prior) g
     | None \<Rightarrow> review_current i did v minutes f g)"
  using assms
  by (auto simp: decide_delivery_def dbind_def dlift_def query_work_item_def gread_def folded_now_def dask_def gask_def dfail_def
      split: option.splits)

lemma decide_refused:
  "checked_verdict v = Inl e \<Longrightarrow> \<exists>e. decide_delivery i did v g = (g, Inl e)"
  "get_work_item (g_kernel g) i = None \<Longrightarrow> \<exists>e. decide_delivery i did v g = (g, Inl e)"
  "fold_delivery_history (g_kernel g) i = Inl e' \<Longrightarrow> \<exists>e. decide_delivery i did v g = (g, Inl e)"
  by (auto simp: decide_delivery_def dbind_def dlift_def query_work_item_def gread_def folded_now_def dask_def gask_def dfail_def
      split: sum.splits option.splits)

lemma record_effect:
  assumes "kernel_ok (g_kernel g)" and "record_decision i did row v minutes g = (g', r)"
  shows "g' = g \<and> (\<exists>e. r = Inl e) \<or>
    (\<exists>version k'. let body = decision_body (show_nat (g_uuid g)) did version v minutes (k_now (g_kernel g)) in
       g' = g\<lparr>g_uuid := Suc (g_uuid g), g_kernel := k'\<rparr> \<and> k_db k' = k_db (g_kernel g) \<and> gov_step (g\<lparr>g_uuid := Suc (g_uuid g)\<rparr>) g' \<and>
       logged (g_kernel g) (update_event (g_kernel g) i [(''delivery_decision'', VObj body)] (vd_actor v)) k' \<and>
       (\<forall>a. r = Inr a \<longrightarrow> \<not> an_replayed a \<and> an_decision a = Some body))"
proof (cases "int_field row ''version''")
  case (Inl e)
  then show ?thesis using assms(2) by (auto simp: record_decision_def dbind_def dask_def dlift_def gask_def)
next
  case (Inr version)
  let ?g1 = "g\<lparr>g_uuid := Suc (g_uuid g)\<rparr>"
  let ?body = "decision_body (show_nat (g_uuid g)) did version v minutes (k_now (g_kernel g))"
  obtain k' where k': "emit_update i [(''delivery_decision'', VObj ?body)] (vd_actor v) ?g1 = (?g1\<lparr>g_kernel := k'\<rparr>, Inr ())"
    "logged (g_kernel g) (update_event (g_kernel g) i [(''delivery_decision'', VObj ?body)] (vd_actor v)) k'" "k_db k' = k_db (g_kernel g)" "gov_step ?g1 (?g1\<lparr>g_kernel := k'\<rparr>)"
    using update_emitted [of ?g1 "''delivery_decision''" i "VObj ?body" "vd_actor v"] assms(1) by (auto simp: review_keys_def)
  have "answer_with i False (Some ?body) (?g1\<lparr>g_kernel := k'\<rparr>) = (g', r)"
    using assms(2) Inr k'(1) by (simp add: record_decision_def dbind_def dask_def dlift_def gask_def new_uuid_def gread_def)
  then have "g' = ?g1\<lparr>g_kernel := k'\<rparr>" and "\<forall>a. r = Inr a \<longrightarrow> \<not> an_replayed a \<and> an_decision a = Some ?body"
    using answer_with_same [of i False "Some ?body" "?g1\<lparr>g_kernel := k'\<rparr>"] by (auto dest: answer_with_fields)
  with k' show ?thesis by (intro disjI2 exI [of _ version] exI [of _ k']) (simp add: Let_def)
qed

text \<open>An answer carries the bundle, so the fold has succeeded.\<close>

lemma decide_answered:
  assumes "decide_delivery i did v g = (g', Inr a)"
  shows "\<exists>f. fold_delivery_history (g_kernel g') i = Inr f"
proof -
  have folds: "\<exists>f. fold_delivery_history (g_kernel g') i = Inr f" if "answer_with i b d h = (g', Inr a)" for b d h
    using that by (auto simp: answer_with_def dbind_def dask_def dlift_def gask_def dret_def public_bundle_def split: sum.splits)
  have rec: "\<exists>f. fold_delivery_history (g_kernel g') i = Inr f" if "record_decision i did row v minutes h = (g', Inr a)" for row minutes h
    using that by (auto simp: record_decision_def dbind_def split: prod.splits sum.splits intro: folds)
  have "\<exists>f. fold_delivery_history (g_kernel g') i = Inr f" if "review_current i did v minutes f h = (g', Inr a)" for minutes f h
    using that by (auto simp: review_current_def dfail_def split: sum.splits if_splits intro: folds rec)
  then show ?thesis
    using assms by (auto simp: decide_delivery_def dbind_def dfail_def split: sum.splits option.splits prod.splits if_splits intro: folds)
qed

text \<open>A verdict reaches the log only as the first decision on the current version.\<close>

lemma review_cases:
  assumes v: "checked_verdict v = Inr minutes" and rv: "review_current i did v minutes f g = (g', r)"
  shows "(g' = g \<and> (\<forall>a. r = Inr a \<longrightarrow> an_replayed a)) \<or> (fo_current_id f = Some did \<and> fo_status f \<noteq> Some ''accepted'' \<and> fo_status f \<noteq> Some ''changes_requested'' \<and>
    (\<exists>row. record_decision i did row v minutes g = (g', r)))"
  using assms replay_answer [of i "fo_latest f" g g' r]
  by (auto simp: review_current_def require_current_delivery_def dfail_def checked_verdict_def split: option.splits if_splits)

lemma decide_cases:
  assumes ok: "kernel_ok (g_kernel g)" and dec: "decide_delivery i did v g = (g', r)"
  shows "(g' = g \<and> (\<forall>a. r = Inr a \<longrightarrow> an_replayed a)) \<or> (\<exists>f body. decided g i did v f g' body \<and> (\<forall>a. r = Inr a \<longrightarrow> \<not> an_replayed a \<and> an_decision a = Some body))"
proof (cases "(\<exists>e. checked_verdict v = Inl e) \<or> get_work_item (g_kernel g) i = None \<or> (\<exists>e. fold_delivery_history (g_kernel g) i = Inl e)")
  case True
  then have "\<exists>e. decide_delivery i did v g = (g, Inl e)" by (auto intro: decide_refused)
  with dec show ?thesis by auto
next
  case False
  then obtain minutes f where m: "checked_verdict v = Inr minutes" and w: "get_work_item (g_kernel g) i \<noteq> None"
    and f: "fold_delivery_history (g_kernel g) i = Inr f" by (metis sumE)
  note run = decide_run [OF m w f, of did]
  show ?thesis
  proof (cases "if verdict_key v = [] then None else map_of (fo_by_key f) (verdict_key v)")
    case (Some prior)
    then have "decide_delivery i did v g = (if \<not> idempotency_matches prior did v minutes then (g, Inl (Conflict ''idempotency_conflict''))
         else answer_with i True (Some prior) g)" using run by simp
    with dec show ?thesis using replay_answer [of i "Some prior" g g' r] by (auto split: if_splits)
  next
    case key: None
    then have "review_current i did v minutes f g = (g', r)" using run dec by simp
    from review_cases [OF m this] show ?thesis
    proof
      assume "fo_current_id f = Some did \<and> fo_status f \<noteq> Some ''accepted'' \<and> fo_status f \<noteq> Some ''changes_requested'' \<and>
        (\<exists>row. record_decision i did row v minutes g = (g', r))"
      then obtain row where c: "fo_current_id f = Some did" "fo_status f \<noteq> Some ''accepted''" "fo_status f \<noteq> Some ''changes_requested''"
        and rec: "record_decision i did row v minutes g = (g', r)" by blast
      have "fo_status f = Some ''unreviewed''"
        using c fold_fields [of "g_kernel g" i "item_history (g_kernel g) i" f] f fold_reads_log [OF ok, of i]
        by (auto simp: status_after_def review_status_of_def newest_def split: option.splits if_splits)
      with record_effect [OF ok rec] c(1) f key m w show ?thesis
        unfolding decided_def Let_def by (auto split: if_splits)
    qed simp
  qed
qed

lemma body_fields [simp]:
  "get (decision_body uuid did version v minutes now) ''delivery_id'' = VStr did"
  "get (decision_body uuid did version v minutes now) ''decision_id'' = VStr uuid"
  "get (decision_body uuid did version v minutes now) ''decision'' = VStr (vd_decision v)"
  "get (decision_body uuid did version v minutes now) ''reason'' = VStr (strip (vd_reason v))"
  "get (decision_body uuid did version v minutes now) ''idempotency_key'' =
     opt_str (if verdict_key v = [] then None else Some (verdict_key v))"
  "get (decision_body uuid did version v minutes now) ''manual_minutes'' = (case minutes of None \<Rightarrow> VNull | Some n \<Rightarrow> VInt n)"
  "\<not> has ''event_seq'' (decision_body uuid did version v minutes now)"
  by (simp_all add: decision_body_def split: option.splits)

lemma update_rows:
  "key = key' \<Longrightarrow> key \<noteq> ''schema_version'' \<Longrightarrow> truthy (get body idk) \<Longrightarrow>
     payload_rows key idk [update_event k i [(key', VObj body)] actor] = [with_event (update_event k i [(key', VObj body)] actor) body]"
  "key \<noteq> key' \<Longrightarrow> key \<noteq> ''schema_version'' \<Longrightarrow> payload_rows key idk [update_event k i [(key', VObj body)] actor] = []"
  by (simp_all add: payload_rows_def update_event_payload)

lemma decided_rows:
  assumes "decided g i did v f g' body" and "did \<noteq> []"
  shows "\<exists>e. hs_decisions (item_history (g_kernel g') i) = hs_decisions (item_history (g_kernel g) i) @ [with_event e body] \<and>
      seq_of e = k_seq (g_kernel g) + 1"
    and "hs_deliveries (item_history (g_kernel g') i) = hs_deliveries (item_history (g_kernel g) i)"
proof -
  from assms obtain k' where k': "g_kernel g' = k'" "get body ''delivery_id'' = VStr did"
    "k_events k' = k_events (g_kernel g) @ [update_event (g_kernel g) i [(''delivery_decision'', VObj body)] (vd_actor v)]"
    by (auto simp: decided_def logged_def)
  with assms(2) show "\<exists>e. hs_decisions (item_history (g_kernel g') i) = hs_decisions (item_history (g_kernel g) i) @ [with_event e body] \<and>
      seq_of e = k_seq (g_kernel g) + 1"
    "hs_deliveries (item_history (g_kernel g') i) = hs_deliveries (item_history (g_kernel g) i)"
    unfolding k'(1) history_logged [OF k'(3)]
    by (auto simp: update_rows intro!: exI [of _ "update_event (g_kernel g) i [(''delivery_decision'', VObj body)] (vd_actor v)"])
qed

lemma delivery_id_with_event: "delivery_id (with_event e d) = delivery_id d"
  by (simp add: delivery_id_def text_field_def get_with_event)

lemma decided_unlisted:
  assumes "decided g i [] v f g' body"
  shows "hs_decisions (item_history (g_kernel g') i) = hs_decisions (item_history (g_kernel g) i)"
proof -
  from assms obtain k' where k': "g_kernel g' = k'" "get body ''delivery_id'' = VStr []"
    "k_events k' = k_events (g_kernel g) @ [update_event (g_kernel g) i [(''delivery_decision'', VObj body)] (vd_actor v)]"
    by (auto simp: decided_def logged_def)
  show ?thesis
    unfolding k'(1) history_logged [OF k'(3)] by (simp add: payload_rows_def update_event_payload k'(2))
qed

lemma strip_clean: "strip s = [] \<or> \<not> is_space (hd (strip s)) \<and> \<not> is_space (List.last (strip s))"
proof (cases "strip s = []")
  case False
  let ?t = "dropWhile is_space s"
  have "rev (strip s) = dropWhile is_space (rev ?t)" by (simp add: strip_def)
  with False have l: "\<not> is_space (hd (rev (strip s)))" by (metis hd_dropWhile rev_is_Nil_conv)
  obtain u where u: "rev ?t = u @ rev (strip s)" by (metis \<open>rev (strip s) = _\<close> takeWhile_dropWhile_id)
  then have "?t = strip s @ rev u" by (metis rev_append rev_rev_ident)
  with False have "hd ?t = hd (strip s)" "?t \<noteq> []" by auto
  then have "\<not> is_space (hd (strip s))" by (metis hd_dropWhile)
  with l False show ?thesis by (simp add: hd_rev)
qed simp

lemma strip_strip [simp]: "strip (strip s) = strip s"
proof (cases "strip s = []")
  case False
  have keep: "dropWhile is_space xs = xs" if "xs \<noteq> []" "\<not> is_space (hd xs)" for xs using that by (cases xs) auto
  from strip_clean [of s] False have "dropWhile is_space (strip s) = strip s" "dropWhile is_space (rev (strip s)) = rev (strip s)"
    by (auto intro: keep simp: hd_rev)
  then show ?thesis by (metis rev_rev_ident strip_def)
next
  case True
  then show ?thesis by (simp only: True) (simp add: strip_def)
qed

lemma later_rows:
  assumes "k_events k' = k_events k @ evs"
  shows "\<exists>xs. hs_decisions (item_history k' i) = hs_decisions (item_history k i) @ xs"
    and "\<exists>xs. hs_deliveries (item_history k' i) = hs_deliveries (item_history k i) @ xs"
  using assms by (auto simp: item_history_def history_of_def payload_rows_append)

lemma stored_verdict:
  assumes "checked_verdict v = Inr minutes"
  shows "idempotency_matches (with_event e (decision_body uuid did version v minutes now)) did v minutes"
    and "decision_key (with_event e (decision_body uuid did version v minutes now)) = verdict_key v"
  using assms
  by (auto simp: idempotency_matches_def delivery_id_with_event delivery_id_def text_field_def plain_def get_with_event py_or_def
      stored_manual_minutes_def minutes_in_def decision_key_def opt_str_def verdict_key_def strip_def [of "[]"] checked_verdict_def
      coerce_manual_minutes_def split: option.splits if_splits val.splits)

section \<open>The effect of publishing\<close>

definition published :: "gov \<Rightarrow> string \<Rightarrow> publication \<Rightarrow> folded \<Rightarrow> gov \<Rightarrow> dict \<Rightarrow> bool" where
  "published g i a f g' body \<longleftrightarrow>
     fold_delivery_history (g_kernel g) i = Inr f \<and>
     (given (pb_execution a) \<longrightarrow> public_for_execution f (the (pb_execution a)) = Inr None) \<and>
     (\<exists>version supersedes k'. next_version f = Inr (version, supersedes) \<and>
        body = delivery_body a (show_nat (g_uuid g)) (k_now (g_kernel g)) version supersedes \<and>
        g' = g\<lparr>g_uuid := Suc (g_uuid g), g_kernel := k'\<rparr> \<and> k_db k' = k_db (g_kernel g) \<and> gov_step (g\<lparr>g_uuid := Suc (g_uuid g)\<rparr>) g' \<and>
        logged (g_kernel g) (update_event (g_kernel g) i [(''delivery_published'', VObj body)] (pb_actor a)) k')"

lemma publish_run:
  assumes "get_work_item (g_kernel g) i \<noteq> None" and "fold_delivery_history (g_kernel g) i = Inr f"
  shows "publish_delivery i a g =
    (case (if given (pb_execution a) then public_for_execution f (the (pb_execution a)) else Inr None) of
       Inl e \<Rightarrow> (g, Inl (Failure e))
     | Inr (Some p) \<Rightarrow> (g, Inr p)
     | Inr None \<Rightarrow> (case next_version f of
           Inl e \<Rightarrow> (g, Inl (Failure e))
         | Inr (version, supersedes) \<Rightarrow>
             (let body = delivery_body a (show_nat (g_uuid g)) (k_now (g_kernel g)) version supersedes in
              dbind (emit_update i [(''delivery_published'', VObj body)] (pb_actor a))
                (\<lambda>_. dask (\<lambda>g. presented (fo_by_id f) ''unreviewed'' True None body)) (g\<lparr>g_uuid := Suc (g_uuid g)\<rparr>))))"
  using assms
  by (auto simp: publish_delivery_def dbind_def dlift_def query_work_item_def gread_def folded_now_def dask_def gask_def dret_def
      new_uuid_def Let_def split: option.splits sum.splits)

lemma publish_refused:
  "get_work_item (g_kernel g) i = None \<Longrightarrow> \<exists>e. publish_delivery i a g = (g, Inl e)"
  "fold_delivery_history (g_kernel g) i = Inl e' \<Longrightarrow> \<exists>e. publish_delivery i a g = (g, Inl e)"
  by (auto simp: publish_delivery_def dbind_def dlift_def query_work_item_def gread_def folded_now_def dask_def gask_def dfail_def
      split: option.splits)

lemma publish_cases:
  assumes ok: "kernel_ok (g_kernel g)" and pub: "publish_delivery i a g = (g', r)"
  shows "(g' = g \<and> (\<forall>p. r = Inr p \<longrightarrow> given (pb_execution a) \<and> (\<exists>f. fold_delivery_history (g_kernel g) i = Inr f \<and>
        public_for_execution f (the (pb_execution a)) = Inr (Some p)))) \<or>
    (\<exists>f body. published g i a f g' body \<and> (\<forall>p. r = Inr p \<longrightarrow> presented (fo_by_id f) ''unreviewed'' True None body = Inr p))"
proof (cases "get_work_item (g_kernel g) i = None \<or> (\<exists>e. fold_delivery_history (g_kernel g) i = Inl e)")
  case True
  then have "\<exists>e. publish_delivery i a g = (g, Inl e)" by (auto intro: publish_refused)
  with pub show ?thesis by auto
next
  case False
  then obtain f where w: "get_work_item (g_kernel g) i \<noteq> None" and f: "fold_delivery_history (g_kernel g) i = Inr f" by (metis sumE)
  note run = publish_run [OF w f, of a]
  let ?prior = "if given (pb_execution a) then public_for_execution f (the (pb_execution a)) else Inr None"
  show ?thesis
  proof (cases "?prior = Inr None \<and> (\<exists>v. next_version f = Inr v)")
    case False
    have "g' = g \<and> (\<forall>p. r = Inr p \<longrightarrow> ?prior = Inr (Some p))"
      using False pub unfolding run by (cases ?prior) (auto split: option.splits sum.splits)
    with f show ?thesis by (auto split: if_splits)
  next
    case True
    then obtain version supersedes where nv: "next_version f = Inr (version, supersedes)" by auto
    let ?g1 = "g\<lparr>g_uuid := Suc (g_uuid g)\<rparr>"
    let ?body = "delivery_body a (show_nat (g_uuid g)) (k_now (g_kernel g)) version supersedes"
    obtain k' where k': "emit_update i [(''delivery_published'', VObj ?body)] (pb_actor a) ?g1 = (?g1\<lparr>g_kernel := k'\<rparr>, Inr ())"
      "logged (g_kernel g) (update_event (g_kernel g) i [(''delivery_published'', VObj ?body)] (pb_actor a)) k'" "k_db k' = k_db (g_kernel g)" "gov_step ?g1 (?g1\<lparr>g_kernel := k'\<rparr>)"
      using update_emitted [of ?g1 "''delivery_published''" i "VObj ?body" "pb_actor a"] ok by (auto simp: review_keys_def)
    have "dask (\<lambda>g. presented (fo_by_id f) ''unreviewed'' True None ?body) (?g1\<lparr>g_kernel := k'\<rparr>) = (g', r)"
      using pub True nv k'(1) unfolding run by (simp add: dbind_def)
    then have "g' = ?g1\<lparr>g_kernel := k'\<rparr>" and "\<forall>p. r = Inr p \<longrightarrow> presented (fo_by_id f) ''unreviewed'' True None ?body = Inr p"
      by (auto simp: dask_def dlift_def gask_def split: sum.splits)
    with f True nv k' have "published g i a f g' ?body" by (auto simp: published_def split: if_splits)
    with \<open>\<forall>p. r = Inr p \<longrightarrow> presented (fo_by_id f) ''unreviewed'' True None ?body = Inr p\<close> show ?thesis by blast
  qed
qed

lemma delivery_body_fields [simp]:
  "get (delivery_body a uuid now version supersedes) ''delivery_id'' = VStr uuid"
  "get (delivery_body a uuid now version supersedes) ''version'' = VInt version"
  "get (delivery_body a uuid now version supersedes) ''execution_id'' = opt_str (pb_execution a)"
  "get (delivery_body a uuid now version supersedes) ''supersedes_delivery_id'' = supersedes"
  "get (delivery_body a uuid now version supersedes) ''contract_version'' = VInt (pb_contract a)"
  "get (delivery_body a uuid now version supersedes) ''schema_version'' = VInt 1"
  "get (delivery_body a uuid now version supersedes) ''limitations'' = VList (pb_limitations a)"
  "get (delivery_body a uuid now version supersedes) ''suggested_actions'' = VList (pb_actions a)"
  "get (delivery_body a uuid now version supersedes) ''sources'' = VList (pb_sources a)"
  "get (delivery_body a uuid now version supersedes) ''checks'' = VList (pb_checks a)"
  "get (delivery_body a uuid now version supersedes) ''findings'' = VList (pb_findings a)"
  by (simp_all add: delivery_body_def)

lemma published_rows:
  assumes "published g i a f g' body"
  shows "\<exists>e. hs_deliveries (item_history (g_kernel g') i) = hs_deliveries (item_history (g_kernel g) i) @ [with_event e body]"
proof -
  from assms obtain version supersedes k' where k': "g_kernel g' = k'" "body = delivery_body a (show_nat (g_uuid g)) (k_now (g_kernel g)) version supersedes"
    "k_events k' = k_events (g_kernel g) @ [update_event (g_kernel g) i [(''delivery_published'', VObj body)] (pb_actor a)]"
    by (auto simp: published_def logged_def)
  then have "truthy (get body ''delivery_id'')" by simp
  then show ?thesis unfolding k'(1) history_logged(1) [OF k'(3)] by (auto simp: update_rows)
qed

lemma presented_fields:
  assumes "presented versions review content latest row = Inr p"
  shows "get p ''delivery_id'' = get row ''delivery_id''" and "\<exists>n. int_field row ''version'' = Inr n \<and> get p ''version'' = VInt n"
  using assms by (auto simp: presented_def public_delivery_def list_names_def)

lemma presented_total:
  "presented versions review content latest row = Inr p \<Longrightarrow> \<exists>q. presented versions review' content' latest' row = Inr q"
  by (auto simp: presented_def public_delivery_def)

end
