(* ===== verification/Delivery_Rework.thy ===== *)
theory Delivery_Rework
  imports Delivery_Steps
begin

text \<open>
  The operations of \<open>product/work_delivery.py\<close> that start work from a review: rework of a version, a second run of a completed
  brief, its cancellation, and the adoption of a suggested action as a child item. The parsing and printing of a plan
  (\<open>json.loads\<close>, \<open>json.dumps\<close>) are parameters; a lock per item makes an operation one step.
\<close>

section \<open>Plans\<close>

definition utf8 :: "nat list \<Rightarrow> string" where
  "utf8 bs = map char_of bs"

definition parse_plan :: "(string \<Rightarrow> val option) \<Rightarrow> val \<Rightarrow> dict" where
  "parse_plan loads raw =
     (case raw of
        VObj d \<Rightarrow> d
      | VStr s \<Rightarrow> if strip s = [] then [] else (case loads s of Some (VObj d) \<Rightarrow> d | _ \<Rightarrow> [])
      | _ \<Rightarrow> [])"

definition is_brief_plan :: "(string \<Rightarrow> val option) \<Rightarrow> val \<Rightarrow> bool" where
  "is_brief_plan loads raw \<longleftrightarrow>
     get (parse_plan loads raw) ''kind'' = VStr ''project_brief'' \<or>
     (case get (parse_plan loads raw) ''contract'' of VObj c \<Rightarrow> get c ''output_kind'' = VStr ''project_brief'' | _ \<Rightarrow> False)"

definition contract_from_plan :: "(string \<Rightarrow> val option) \<Rightarrow> val \<Rightarrow> dict option" where
  "contract_from_plan loads raw = (case get (parse_plan loads raw) ''contract'' of VObj c \<Rightarrow> Some c | _ \<Rightarrow> None)"

definition brief_skip_keys :: "string list" where
  "brief_skip_keys = [''known_uid_validity'', ''known_id_digest'', ''known_modseq'', ''known_messages'', ''known_matched'',
     ''known_source_hashes'', ''known_size'', ''known_mtime_ns'', ''known_hash'']"

definition drop_keys :: "string list \<Rightarrow> dict \<Rightarrow> dict" where
  "drop_keys ks d = filter (\<lambda>x. fst x \<notin> set ks) d"

definition without_skip_tokens :: "val \<Rightarrow> val" where
  "without_skip_tokens step =
     (case step of
        VObj d \<Rightarrow> (case get d ''params'' of VObj p \<Rightarrow> VObj (setd ''params'' (VObj (drop_keys brief_skip_keys p)) d) | _ \<Rightarrow> step)
      | _ \<Rightarrow> step)"

text \<open>Iterating over a number raises; a text or a dict has no dict items.\<close>

definition drop_brief_skip_tokens :: "dict \<Rightarrow> dict res" where
  "drop_brief_skip_tokens plan =
     (case get plan ''steps'' of
        VList xs \<Rightarrow> Inr (setd ''steps'' (VList (map without_skip_tokens xs)) plan)
      | v \<Rightarrow> rbind (py_list (py_or v (VList []))) (\<lambda>_. Inr plan))"

definition has_rework_note :: "val list \<Rightarrow> string \<Rightarrow> string \<Rightarrow> bool" where
  "has_rework_note notes did reason \<longleftrightarrow>
     list_ex (\<lambda>n. case n of VObj d \<Rightarrow> delivery_id d = did \<and> plain d ''reason'' = strip reason | _ \<Rightarrow> False) notes"

section \<open>Rework\<close>

definition set_item_status :: "string \<Rightarrow> string \<Rightarrow> string option \<Rightarrow> work_row option gm" where
  "set_item_status i status reason = (\<lambda>g. case update_work_item_status (g_kernel g) i status reason of
     Inl e \<Rightarrow> (g, Inl e) | Inr (k', row) \<Rightarrow> (g\<lparr>g_kernel := k'\<rparr>, Inr row))"

definition reset_progress :: "string \<Rightarrow> (string \<times> plan_resume) list gm" where
  "reset_progress i = (\<lambda>g. case take_plan_resumes_for_work_item (k_now (g_kernel g)) i (g_resumes g) of
     Inl e \<Rightarrow> (g, Inl e) | Inr (rows, t) \<Rightarrow> (g\<lparr>g_resumes := t\<rparr>, Inr rows))"

definition restore_progress :: "(string \<times> plan_resume) list \<Rightarrow> unit gm" where
  "restore_progress rows = gmod (\<lambda>g. g\<lparr>g_resumes := restore_plan_resumes_for_work_item (k_now (g_kernel g)) rows (g_resumes g)\<rparr>)"

definition execute_requested_ids :: "kernel \<Rightarrow> string \<Rightarrow> string list res" where
  "execute_requested_ids k i =
     rbind (read_events k (all_events\<lparr>q_type := Some ''ExecuteRequested'', q_agg_type := Some ''action'', q_agg_id := Some (''exec_'' @ i)\<rparr>))
       (\<lambda>evs. Inr (map ev_id evs))"

definition started_since :: "string list \<Rightarrow> string \<Rightarrow> bool gm" where
  "started_since before i = gask (\<lambda>g. rbind (execute_requested_ids (g_kernel g) i) (\<lambda>ids. Inr (\<exists>x \<in> set ids. x \<notin> set before)))"

definition dispatch_recorded :: "folded \<Rightarrow> string \<Rightarrow> string \<Rightarrow> bool" where
  "dispatch_recorded f did decision \<longleftrightarrow>
     list_ex (\<lambda>r. delivery_id r = did \<and>
       \<not> (decision \<noteq> [] \<and> text_field r ''decision_id'' \<noteq> [] \<and> text_field r ''decision_id'' \<noteq> decision)) (fo_dispatches f)"

definition decision_seq :: "folded \<Rightarrow> string \<Rightarrow> int res" where
  "decision_seq f decision =
     (case (if decision = [] then None else List.find (\<lambda>r. text_field r ''decision_id'' = decision) (fo_decisions f)) of
        Some r \<Rightarrow> int_field r ''event_seq''
      | None \<Rightarrow> (case fo_latest f of None \<Rightarrow> Inr 0 | Some r \<Rightarrow> int_field r ''event_seq''))"

definition emit_rework_dispatched :: "string \<Rightarrow> string \<Rightarrow> string \<Rightarrow> string \<Rightarrow> unit dm" where
  "emit_rework_dispatched i did decision actor = (\<lambda>g.
     emit_update i [(''rework_dispatched'', VObj [(''delivery_id'', VStr did), (''decision_id'', opt_str (opt_text decision)),
       (''at'', VTime (k_now (g_kernel g)))])] actor g)"

text \<open>An answer with the bundle and the row of the item as they are now.\<close>

definition refreshed_answer :: "string \<Rightarrow> answer \<Rightarrow> answer dm" where
  "refreshed_answer i a =
     dbind (dask (\<lambda>g. public_bundle (g_kernel g) i)) (\<lambda>b.
     dbind (dlift (query_work_item i)) (\<lambda>w. dret (a\<lparr>an_bundle := b, an_work := w\<rparr>)))"

definition add_rework_note :: "(string \<Rightarrow> val option) \<Rightarrow> (val \<Rightarrow> string) \<Rightarrow> string \<Rightarrow> string \<Rightarrow> string \<Rightarrow> string \<Rightarrow> work_row \<Rightarrow> unit dm" where
  "add_rework_note loads dumps i did reason actor row =
     (let plan = parse_plan loads (w_plan row) in
      dbind (dask (\<lambda>g. list_field plan ''rework_notes'')) (\<lambda>notes.
      if has_rework_note notes did reason then dret ()
      else
        dbind (dask (\<lambda>g. drop_brief_skip_tokens (setd ''rework_notes''
            (VList (notes @ [VObj [(''delivery_id'', VStr did), (''reason'', VStr (strip reason)), (''at'', VTime (k_now (g_kernel g)))]])) plan)))
          (\<lambda>plan'. emit_update i [(''executable_plan'', VStr (dumps (VObj plan')))] actor)))"

text \<open>The \<open>try\<close> block in two parts, since its handler asks whether the cursors had been stashed; \<open>prior\<close>: the item was
  completed or failed.\<close>

definition reopen_item :: "bool \<Rightarrow> string \<Rightarrow> unit gm" where
  "reopen_item prior i =
     gbind (if prior then set_item_status i ''pending'' (Some ''rework_restore'') else gret None) (\<lambda>_.
     gbind (reset_progress i) (\<lambda>_. gret ()))"

definition start_item :: "(string \<Rightarrow> val option) \<Rightarrow> val \<Rightarrow> string \<Rightarrow> work_row gm" where
  "start_item loads status i =
     (if status = VStr ''running'' then ensure_work_item_execute_requested i else request_work_item_execute loads i)"

definition rework_failed :: "string \<Rightarrow> string list \<Rightarrow> bool \<Rightarrow> string \<Rightarrow> answer \<Rightarrow> err \<Rightarrow> answer dm" where
  "rework_failed i before undo actor res e =
     dbind (dlift (started_since before i)) (\<lambda>started.
     dbind (dlift (if undo \<and> \<not> started then restore_half_open_rework actor False i else gret None)) (\<lambda>_.
     case e of
       ValueError msg \<Rightarrow> if started then dfail (Failure e) else refreshed_answer i (res\<lparr>an_error := Some msg\<rparr>)
     | _ \<Rightarrow> dfail (Failure e)))"

definition dispatch_rework ::
    "(string \<Rightarrow> val option) \<Rightarrow> (val \<Rightarrow> string) \<Rightarrow> string \<Rightarrow> string \<Rightarrow> string \<Rightarrow> string \<Rightarrow> string \<Rightarrow> answer \<Rightarrow> answer dm" where
  "dispatch_rework loads dumps i did reason actor decision res =
     dbind (dlift (query_work_item i)) (\<lambda>row. case row of
       None \<Rightarrow> dfail Not_Found
     | Some r \<Rightarrow>
         let prior = (row_status r \<in> {VStr ''completed'', VStr ''failed''});
             status = (if prior then VStr ''pending'' else row_status r) in
         dbind (add_rework_note loads dumps i did reason actor r) (\<lambda>_.
         dbind (dask (\<lambda>g. execute_requested_ids (g_kernel g) i)) (\<lambda>before.
           (\<lambda>g. case reopen_item prior i g of
              (g1, Inl e) \<Rightarrow> rework_failed i before False actor res e g1
            | (g1, Inr _) \<Rightarrow>
                (case start_item loads status i g1 of
                   (g2, Inl e) \<Rightarrow> rework_failed i before prior actor res e g2
                 | (g2, Inr _) \<Rightarrow> dbind (emit_rework_dispatched i did decision actor) (\<lambda>_. refreshed_answer i res) g2)))))"

definition text_of_opt :: "dict option \<Rightarrow> string \<Rightarrow> string" where
  "text_of_opt d k = (case d of None \<Rightarrow> [] | Some x \<Rightarrow> text_field x k)"

definition complete_rework_dispatch ::
    "(string \<Rightarrow> val option) \<Rightarrow> (val \<Rightarrow> string) \<Rightarrow> string \<Rightarrow> string \<Rightarrow> string \<Rightarrow> string \<Rightarrow> answer \<Rightarrow> answer dm" where
  "complete_rework_dispatch loads dumps i did reason actor res =
     dbind (folded_now i) (\<lambda>f.
       let decision = text_of_opt (an_decision res) ''decision_id'' in
       if decision = [] \<or> text_of_opt (fo_latest f) ''decision_id'' \<noteq> decision \<or> text_of_opt (fo_latest f) ''decision'' \<noteq> ''changes_requested''
       then refreshed_answer i (res\<lparr>an_replayed := True, an_superseded := True\<rparr>)
       else if dispatch_recorded f did decision then refreshed_answer i (res\<lparr>an_replayed := True\<rparr>)
       else
         dbind (dask (\<lambda>g. rbind (decision_seq f decision) (execute_requested_since (g_kernel g) i))) (\<lambda>requested.
         if requested then dbind (emit_rework_dispatched i did decision actor) (\<lambda>_. refreshed_answer i res)
         else
           dbind (dlift (restore_half_open_rework actor True i)) (\<lambda>healed.
           if healed \<noteq> None then refreshed_answer i (res\<lparr>an_restored := healed\<rparr>)
           else dispatch_rework loads dumps i did reason actor decision res)))"

definition request_rework :: "(string \<Rightarrow> val option) \<Rightarrow> (val \<Rightarrow> string) \<Rightarrow> string \<Rightarrow> string \<Rightarrow> verdict \<Rightarrow> bool \<Rightarrow> answer dm" where
  "request_rework loads dumps i did v go =
     dbind (dlift (query_work_item i)) (\<lambda>row. case row of
       None \<Rightarrow> dfail Not_Found
     | Some r \<Rightarrow>
         dbind
           (if w_status r \<in> {VStr ''running'', VStr ''waiting_approval''} then
              dbind (folded_now i) (\<lambda>f.
                if text_of_opt (fo_latest f) ''delivery_id'' = did \<and> text_of_opt (fo_latest f) ''decision'' = ''changes_requested''
                then answer_with i True (fo_latest f) else dfail (Conflict ''conflict''))
            else decide_delivery i did (v\<lparr>vd_decision := ''changes_requested'', vd_minutes := VNull\<rparr>))
           (\<lambda>res. if go then complete_rework_dispatch loads dumps i did (vd_reason v) (vd_actor v) res else dret res))"

section \<open>Running a brief again\<close>

definition reject_unexecutable_plan :: "(string \<Rightarrow> val option) \<Rightarrow> work_row \<Rightarrow> delivery_error + unit" where
  "reject_unexecutable_plan loads r =
     (if w_work_type r = VStr ''goal'' then Inl Invalid
      else (case check_plan loads (w_plan r) of Inl e \<Rightarrow> Inl Invalid | Inr u \<Rightarrow> Inr u))"

definition has_delivery :: "folded \<Rightarrow> bool" where
  "has_delivery f \<longleftrightarrow> (case fo_current f of None \<Rightarrow> False | Some p \<Rightarrow> truthy (get p ''delivery_id''))"

definition require_completed_brief :: "(string \<Rightarrow> val option) \<Rightarrow> string \<Rightarrow> (work_row \<times> string) dm" where
  "require_completed_brief loads i =
     dbind (dlift (query_work_item i)) (\<lambda>row. case row of
       None \<Rightarrow> dfail Not_Found
     | Some r \<Rightarrow>
         if \<not> is_brief_plan loads (w_plan r) then dfail Invalid
         else if w_status r \<noteq> VStr ''completed'' then dfail (Conflict ''conflict'')
         else dbind (folded_now i) (\<lambda>f.
           if \<not> has_delivery f then dfail Invalid else dret (r, text_of_opt (fo_current f) ''delivery_id'')))"

definition restore_completed_brief :: "string \<Rightarrow> (string \<times> plan_resume) list \<Rightarrow> string list \<Rightarrow> bool \<Rightarrow> unit gm" where
  "restore_completed_brief i rows before cleared =
     gbind (started_since before i) (\<lambda>started.
     if started then gret ()
     else
       gbind (query_work_item i) (\<lambda>row.
       gbind (if (case row of None \<Rightarrow> False | Some r \<Rightarrow> w_status r \<in> {VStr ''pending'', VStr ''running''})
              then emit_status i [(''status'', VStr ''completed''), (''reason'', VStr ''rerun_restore'')] ''user'' else gret ()) (\<lambda>_.
       if cleared then restore_progress rows else gret ())))"

record rerun_answer =
  ra_supersedes :: string
  ra_work :: work_row

text \<open>The handler of a failed rerun: what had been done is \<open>reopened\<close> and \<open>cleared\<close>.\<close>

definition rerun_failed :: "string \<Rightarrow> string \<Rightarrow> string list \<Rightarrow> bool \<Rightarrow> bool \<Rightarrow> (string \<times> plan_resume) list \<Rightarrow> err \<Rightarrow> rerun_answer dm" where
  "rerun_failed i previous before reopened cleared rows e =
     dbind (dlift (started_since before i)) (\<lambda>started.
     dbind (dlift (query_work_item i)) (\<lambda>now_row.
     if started \<and> now_row \<noteq> None then dret \<lparr>ra_supersedes = previous, ra_work = the now_row\<rparr>
     else
       dbind (dlift (if reopened then restore_completed_brief i rows before cleared else gret ())) (\<lambda>_.
       case e of ValueError msg \<Rightarrow> dfail Invalid | _ \<Rightarrow> dfail (Failure e))))"

definition rerun_project_brief :: "(string \<Rightarrow> val option) \<Rightarrow> string \<Rightarrow> rerun_answer dm" where
  "rerun_project_brief loads i =
     dbind (require_completed_brief loads i) (\<lambda>(r, previous).
     case reject_unexecutable_plan loads r of
       Inl e \<Rightarrow> dfail e
     | Inr _ \<Rightarrow>
         dbind (dask (\<lambda>g. execute_requested_ids (g_kernel g) i)) (\<lambda>before.
           (\<lambda>g. case set_item_status i ''pending'' (Some ''rerun_restore'') g of
              (g1, Inl e) \<Rightarrow> rerun_failed i previous before False False [] e g1
            | (g1, Inr _) \<Rightarrow>
                (case reset_progress i g1 of
                   (g2, Inl e) \<Rightarrow> rerun_failed i previous before True False [] e g2
                 | (g2, Inr rows) \<Rightarrow>
                     (case request_work_item_execute loads i g2 of
                        (g3, Inl e) \<Rightarrow> rerun_failed i previous before True True rows e g3
                      | (g3, Inr w) \<Rightarrow> (g3, Inr \<lparr>ra_supersedes = previous, ra_work = w\<rparr>))))))"

section \<open>Cancelling a brief\<close>

definition cancel_project_brief :: "(string \<Rightarrow> val option) \<Rightarrow> (string \<Rightarrow> gov \<Rightarrow> gov) \<Rightarrow> string \<Rightarrow> work_row dm" where
  "cancel_project_brief loads cancel_exec i =
     dbind (dlift (query_work_item i)) (\<lambda>row. case row of
       None \<Rightarrow> dfail Not_Found
     | Some r \<Rightarrow>
         if \<not> is_brief_plan loads (w_plan r) then dfail Not_Found
         else if w_status r \<notin> {VStr ''pending'', VStr ''running''} then dfail (Conflict ''conflict'')
         else
           dbind (dlift (stop_work_item_execution cancel_exec i)) (\<lambda>_.
           dbind (folded_now i) (\<lambda>f.
           dbind (dlift (emit_status i [(''status'', VStr (if has_delivery f then ''completed'' else ''failed'')), (''reason'', VStr ''brief_cancel'')] ''user''))
             (\<lambda>_.
           dbind (dlift (query_work_item i)) (\<lambda>updated. case updated of None \<Rightarrow> dfail Not_Found | Some x \<Rightarrow> dret x)))))"

section \<open>Adopting a suggested action\<close>

definition adoption_plan :: "(val \<Rightarrow> string) \<Rightarrow> string \<Rightarrow> string \<Rightarrow> int \<Rightarrow> string list \<Rightarrow> string" where
  "adoption_plan dumps i did n source_ids =
     dumps (VObj [(''kind'', VStr ''adopted_suggestion''), (''source_work_id'', VStr i), (''delivery_id'', VStr did),
       (''action_index'', VInt n), (''source_ids'', strings source_ids)])"

definition matching_adopted_child :: "(string \<Rightarrow> val option) \<Rightarrow> kernel \<Rightarrow> string \<Rightarrow> string \<Rightarrow> int \<Rightarrow> work_row option" where
  "matching_adopted_child loads k i did n =
     List.find (\<lambda>c. let plan = parse_plan loads (w_plan c) in
        get plan ''kind'' = VStr ''adopted_suggestion'' \<and> text_field plan ''source_work_id'' = i \<and> delivery_id plan = did \<and>
        coerce_action_index (get plan ''action_index'') = Some n) (get_sub_work_items k i)"

definition adoption_matches :: "dict \<Rightarrow> string \<Rightarrow> int \<Rightarrow> bool" where
  "adoption_matches prior did n \<longleftrightarrow> delivery_id prior = did \<and> coerce_action_index (get prior ''action_index'') = Some n"

definition adoption_body :: "string \<Rightarrow> int \<Rightarrow> string \<Rightarrow> string \<Rightarrow> string \<Rightarrow> time \<Rightarrow> dict" where
  "adoption_body did n title created key now =
     [(''delivery_id'', VStr did), (''action_index'', VInt n), (''title'', VStr title), (''created_work_id'', VStr created),
      (''idempotency_key'', opt_str (opt_text key)), (''created_at'', VTime now)]"

definition record_adoption :: "string \<Rightarrow> string \<Rightarrow> int \<Rightarrow> string \<Rightarrow> string \<Rightarrow> string \<Rightarrow> string \<Rightarrow> dict dm" where
  "record_adoption i did n title created key actor =
     dbind (dlift (gread (\<lambda>g. adoption_body did n title created key (k_now (g_kernel g))))) (\<lambda>body.
     dbind (emit_update i [(''suggested_action_adopted'', VObj body)] actor) (\<lambda>_. dret body))"

record adoption_answer =
  aa_replayed :: bool
  aa_created :: string
  aa_adoption :: "dict option"
  aa_work :: "work_row option"
  aa_bundle :: dict

definition adoption_result :: "string \<Rightarrow> bool \<Rightarrow> string \<Rightarrow> dict option \<Rightarrow> adoption_answer dm" where
  "adoption_result i replayed created adoption =
     dbind (dlift (query_work_item created)) (\<lambda>w.
     dbind (dask (\<lambda>g. public_bundle (g_kernel g) i)) (\<lambda>b.
       dret \<lparr>aa_replayed = replayed, aa_created = created, aa_adoption = adoption, aa_work = w, aa_bundle = b\<rparr>))"

text \<open>The chosen suggestion: its title and its source ids.\<close>

definition chosen_action :: "dict \<Rightarrow> int \<Rightarrow> delivery_error + (dict \<times> string \<times> string list)" where
  "chosen_action row n =
     (case list_field row ''suggested_actions'' of
        Inl e \<Rightarrow> Inl (Failure e)
      | Inr actions \<Rightarrow>
          if int (length actions) \<le> n then Inl Invalid
          else (case actions ! nat n of
              VObj a \<Rightarrow>
                if plain a ''title'' = [] then Inl Invalid
                else (case list_field a ''source_ids'' of
                    Inl e \<Rightarrow> Inl (Failure e)
                  | Inr ids \<Rightarrow> Inr (a, take_points 500 (plain a ''title''), string_list (VList ids)))
            | _ \<Rightarrow> Inl Invalid))"

definition adoption_description :: "dict \<Rightarrow> string list \<Rightarrow> string \<Rightarrow> int \<Rightarrow> string" where
  "adoption_description a source_ids parent_title version =
     take_points 20000 (join [CHR 0x0A]
       ((if plain a ''reason'' = [] then [] else [plain a ''reason'']) @
        (if source_ids = [] then [] else [utf8 [0xE6, 0x9D, 0xA5, 0xE6, 0xBA, 0x90, 0xEF, 0xBC, 0x9A] @ join (utf8 [0xE3, 0x80, 0x81]) source_ids]) @
        [utf8 [0xE9, 0x87, 0x87, 0xE7, 0xBA, 0xB3, 0xE8, 0x87, 0xAA, 0xE3, 0x80, 0x8A] @ parent_title @ utf8 [0xE3, 0x80, 0x8B, 0xE4, 0xBA, 0xA4, 0xE4, 0xBB, 0x98, 0x20, 0x76] @ show_int version]))"

definition create_child :: "string \<Rightarrow> string \<Rightarrow> string \<Rightarrow> string \<Rightarrow> work_row gm" where
  "create_child i title description plan =
     gbind new_uuid (\<lambda>uuid g. case create_work_item (g_kernel g) uuid title description ''task'' (Some i) 0 VNull (VStr plan) [] ''pending'' of
       Inl e \<Rightarrow> (g, Inl e) | Inr (k', r) \<Rightarrow> (g\<lparr>g_kernel := k'\<rparr>, Inr r))"

definition bump_activity :: "string \<Rightarrow> unit gm" where
  "bump_activity i = (\<lambda>g. case bump_parent_activity (g_kernel g) i of Inl e \<Rightarrow> (g, Inl e) | Inr k' \<Rightarrow> (g\<lparr>g_kernel := k'\<rparr>, Inr ()))"

definition adopt_new ::
    "(string \<Rightarrow> val option) \<Rightarrow> (val \<Rightarrow> string) \<Rightarrow> string \<Rightarrow> string \<Rightarrow> int \<Rightarrow> string \<Rightarrow> string \<Rightarrow> work_row \<Rightarrow> folded \<Rightarrow> adoption_answer dm" where
  "adopt_new loads dumps i did n key actor parent f =
     (case require_current_delivery f did of
        Inl e \<Rightarrow> dfail e
      | Inr row \<Rightarrow>
          (case chosen_action row n of
             Inl e \<Rightarrow> dfail e
           | Inr (a, title, source_ids) \<Rightarrow>
               dbind (dlift (gread (\<lambda>g.
                 let live = map_of (live_adopted_indexes (g_kernel g) (fo_adoptions f) did) n;
                     known = (case live of None \<Rightarrow> None | Some c \<Rightarrow> if c = [] then None else get_work_item (g_kernel g) c)
                 in (live, case known of Some c \<Rightarrow> Some c | None \<Rightarrow> matching_adopted_child loads (g_kernel g) i did n)))) (\<lambda>(live, child).
               case child of
                 Some c \<Rightarrow>
                   if live = Some (w_id c) then adoption_result i True (w_id c) None
                   else dbind (record_adoption i did n title (w_id c) key actor) (\<lambda>body. adoption_result i True (w_id c) (Some body))
               | None \<Rightarrow>
                   dbind (dask (\<lambda>g. int_field row ''version'')) (\<lambda>version.
                   dbind (dlift (create_child i title
                       (adoption_description a source_ids (py_str (py_or (w_title parent) (VStr (utf8 [0xE7, 0xAE, 0x80, 0xE6, 0x8A, 0xA5])))) version)
                       (adoption_plan dumps i did n source_ids))) (\<lambda>c.
                   dbind (dlift (bump_activity i)) (\<lambda>_.
                   dbind (record_adoption i did n title (w_id c) key actor) (\<lambda>body. adoption_result i False (w_id c) (Some body))))))))"

definition adopt_suggested_action ::
    "(string \<Rightarrow> val option) \<Rightarrow> (val \<Rightarrow> string) \<Rightarrow> string \<Rightarrow> string \<Rightarrow> int \<Rightarrow> string option \<Rightarrow> string \<Rightarrow> adoption_answer dm" where
  "adopt_suggested_action loads dumps i did n idempotency actor =
     (if n < 0 then dfail Invalid
      else
        dbind (dlift (query_work_item i)) (\<lambda>row. case row of
          None \<Rightarrow> dfail Not_Found
        | Some parent \<Rightarrow>
            let key = strip (case idempotency of None \<Rightarrow> [] | Some s \<Rightarrow> s) in
            dbind (folded_now i) (\<lambda>f.
              case (if key = [] then None else map_of (fo_by_adoption_key f) key) of
                None \<Rightarrow> adopt_new loads dumps i did n key actor parent f
              | Some prior \<Rightarrow>
                  if \<not> adoption_matches prior did n then dfail (Conflict ''idempotency_conflict'')
                  else dbind (dlift (query_work_item (text_field prior ''created_work_id''))) (\<lambda>w.
                    if w \<noteq> None then adoption_result i True (text_field prior ''created_work_id'') (Some prior)
                    else adopt_new loads dumps i did n key actor parent f))))"

end
