(* ===== verification/Delivery_Props.thy ===== *)
theory Delivery_Props
  imports Delivery_Steps
begin

text \<open>
  Deliveries and decisions as a state machine on the log: versions form a chain, publishing and deciding are
  idempotent, and a review is settled by its first decision.
\<close>

section \<open>The versions of an item\<close>

abbreviation versions :: "gov \<Rightarrow> string \<Rightarrow> dict list" where
  "versions g i \<equiv> hs_deliveries (item_history (g_kernel g) i)"

abbreviation decisions :: "gov \<Rightarrow> string \<Rightarrow> dict list" where
  "decisions g i \<equiv> hs_decisions (item_history (g_kernel g) i)"

text \<open>Publishing, deciding, and any other step of the runtime: only these two operations write the two payload keys.\<close>

inductive delivery_reach :: "string \<Rightarrow> gov \<Rightarrow> bool" for i where
  start: "gov_reach g \<Longrightarrow> versions g i = [] \<Longrightarrow> decisions g i = [] \<Longrightarrow> delivery_reach i g"
| published: "delivery_reach i g \<Longrightarrow> publish_delivery i a g = (g', r) \<Longrightarrow> delivery_reach i g'"
| decided: "delivery_reach i g \<Longrightarrow> decide_delivery i did v g = (g', r) \<Longrightarrow> delivery_reach i g'"
| other: "delivery_reach i g \<Longrightarrow> gov_step g g' \<Longrightarrow> g_uuid g \<le> g_uuid g' \<Longrightarrow> versions g' i = versions g i \<Longrightarrow>
    decisions g' i = decisions g i \<Longrightarrow> delivery_reach i g'"

definition execution_ids :: "dict list \<Rightarrow> string list" where
  "execution_ids ds = filter (\<lambda>s. s \<noteq> []) (map (\<lambda>d. text_field d ''execution_id'') ds)"

definition chained :: "dict list \<Rightarrow> bool" where
  "chained ds \<longleftrightarrow> (\<forall>j < length ds. get (ds ! j) ''version'' = VInt (int j + 1) \<and>
     get (ds ! j) ''supersedes_delivery_id'' = (if j = 0 then VNull else get (ds ! (j - 1)) ''delivery_id''))"

text \<open>The numbers and lists of a row are what the public form expects.\<close>

definition delivery_row_ok :: "dict \<Rightarrow> bool" where
  "delivery_row_ok d \<longleftrightarrow> (\<exists>n. int_field d ''version'' = Inr n) \<and> (\<exists>n. int_field d ''contract_version'' = Inr n) \<and>
     (\<forall>k \<in> set list_names. \<exists>xs. list_field d k = Inr xs) \<and> (\<exists>n. py_int (py_or (get d ''schema_version'') (VInt 1)) = Inr n)"

definition versions_ok :: "nat \<Rightarrow> dict list \<Rightarrow> bool" where
  "versions_ok n ds \<longleftrightarrow> chained ds \<and> distinct (map delivery_id ds) \<and> distinct (execution_ids ds) \<and>
     (\<forall>d \<in> set ds. (\<exists>m < n. get d ''delivery_id'' = VStr (show_nat m)) \<and> delivery_row_ok d)"

definition decisions_ok :: "dict list \<Rightarrow> bool" where
  "decisions_ok ds \<longleftrightarrow> (\<forall>d \<in> set ds. \<exists>n. get d ''event_seq'' = VInt n)"

lemma py_int_total: "py_int (py_or (VInt n) (VInt m)) = Inr (if n = 0 then m else n)"
  by (simp add: py_or_def)

lemma body_row_ok: "delivery_row_ok (with_event e (delivery_body a uuid now version supersedes))" "delivery_row_ok (delivery_body a uuid now version supersedes)"
  by (simp_all add: delivery_row_ok_def int_field_def list_field_def list_names_def get_with_event py_int_total py_list_def py_or_def)

lemma presented_row_ok:
  assumes "delivery_row_ok row" and "\<And>x d. map_of ids x = Some d \<Longrightarrow> delivery_row_ok d"
  shows "\<exists>p. presented ids review content latest row = Inr p"
proof -
  have "\<exists>ys. traverse (\<lambda>k. rbind (list_field row k) (\<lambda>xs. Inr (k, VList xs))) ks = Inr ys" if "set ks \<subseteq> set list_names" for ks
    using that assms(1) by (induction ks) (auto simp: delivery_row_ok_def)
  then have "\<exists>p. public_delivery row review content latest = Inr p" using assms(1) by (auto simp: public_delivery_def delivery_row_ok_def)
  moreover have "\<exists>c. changes_from_previous d row = Inr c" if "delivery_row_ok d" for d
  proof -
    obtain fa fr fc sa sr sc aa ar ac la lr where "row_changes finding_rules ''findings'' d row = (fa, fr, fc)"
      "row_changes source_rules ''sources'' d row = (sa, sr, sc)" "row_changes action_rules ''suggested_actions'' d row = (aa, ar, ac)"
      "string_delta (string_list (get d ''limitations'')) (string_list (get row ''limitations'')) = (la, lr)" by (metis prod_cases3 surj_pair)
    with that show ?thesis by (auto simp: changes_from_previous_def delivery_row_ok_def)
  qed
  ultimately show ?thesis using assms(2) by (fastforce simp: presented_def changes_for_def Let_def split: option.splits)
qed

lemma traverse_total_ex: "(\<And>x. x \<in> set xs \<Longrightarrow> \<exists>y. f x = Inr y) \<Longrightarrow> \<exists>ys. traverse f xs = Inr ys"
  by (induction xs) force+

lemma withdrawn_total:
  assumes ok: "kernel_ok (g_kernel g)" and "decisions_ok (decisions g i)" and "\<forall>x. d = Some x \<longrightarrow> x \<in> set (decisions g i)"
  shows "\<exists>b. rework_request_withdrawn (g_kernel g) i d st = Inr b"
proof (cases d)
  case (Some x)
  with assms(2,3) obtain m where "get x ''event_seq'' = VInt m" by (auto simp: decisions_ok_def)
  then show ?thesis unfolding Some
    by (auto simp: rework_request_withdrawn_def int_field_def py_int_total requested_since_log [OF ok] Let_def split: option.splits)
qed (auto simp: rework_request_withdrawn_def)

lemma fold_total:
  assumes ok: "kernel_ok (g_kernel g)" and "versions_ok n (versions g i)" and "decisions_ok (decisions g i)"
  shows "\<exists>f. fold_delivery_history (g_kernel g) i = Inr f"
proof -
  let ?h = "item_history (g_kernel g) i"
  let ?ids = "index_by delivery_id (hs_deliveries ?h)"
  have rows: "delivery_row_ok d" if "d \<in> set (versions g i)" for d using that assms(2) by (simp add: versions_ok_def)
  have shown: "\<exists>p. presented ?ids review content latest row = Inr p" if "row \<in> set (versions g i)" for review content latest row
    by (rule presented_row_ok) (use that rows in \<open>auto dest: index_by_in\<close>)
  have "\<exists>f. fold_history (g_kernel g) i ?h = Inr f"
  proof -
    let ?cur = "newest (hs_deliveries ?h)"
    let ?dec = "case map_option delivery_id ?cur of None \<Rightarrow> None | Some c \<Rightarrow> map_of (index_by delivery_id (hs_decisions ?h)) c"
    have "?dec = None \<or> ?dec = map_of (index_by delivery_id (hs_decisions ?h)) (the (map_option delivery_id ?cur))" by (cases ?cur) auto
    then have "\<forall>x. ?dec = Some x \<longrightarrow> x \<in> set (decisions g i)" by (auto dest: index_by_in)
    from withdrawn_total [OF ok assms(3) this] obtain b where b: "rework_request_withdrawn (g_kernel g) i ?dec (hs_status ?h) = Inr b" by blast
    have "\<exists>y. summary_of ?ids (index_by delivery_id (hs_decisions ?h)) b (map_option delivery_id ?cur) row = Inr y"
      if "row \<in> set (hs_deliveries ?h)" for row unfolding summary_of_def Let_def by (rule shown [OF that])
    then obtain ss where ss: "traverse (summary_of ?ids (index_by delivery_id (hs_decisions ?h)) b (map_option delivery_id ?cur)) (hs_deliveries ?h) = Inr ss"
      using traverse_total_ex by blast
    have "\<exists>p. (case ?cur of None \<Rightarrow> Inr None
        | Some row \<Rightarrow> rbind (presented ?ids (status_after (if b then None else ?dec)) True (if b then None else ?dec) row) (\<lambda>p. Inr (Some p))) = Inr p"
    proof (cases ?cur)
      case (Some row)
      then have "row \<in> set (versions g i)" by (auto simp: newest_def split: if_splits)
      from shown [OF this] obtain p where "presented ?ids (status_after (if b then None else ?dec)) True (if b then None else ?dec) row = Inr p" by blast
      then show ?thesis unfolding Some option.case by (metis rbind.simps(2))
    qed simp
    then obtain p where p: "(case ?cur of None \<Rightarrow> Inr None
        | Some row \<Rightarrow> rbind (presented ?ids (status_after (if b then None else ?dec)) True (if b then None else ?dec) row) (\<lambda>p. Inr (Some p))) = Inr p" ..
    show ?thesis unfolding fold_history_def Let_def b rbind.simps ss p by blast
  qed
  then show ?thesis by (simp add: fold_reads_log [OF ok])
qed

lemma chained_snoc:
  assumes "chained ds" and "get d ''version'' = VInt (int (length ds) + 1)"
    and "get d ''supersedes_delivery_id'' = (if ds = [] then VNull else get (List.last ds) ''delivery_id'')"
  shows "chained (ds @ [d])"
  using assms by (auto simp: chained_def nth_append less_Suc_eq last_conv_nth)

lemma decided_versions:
  assumes "kernel_ok (g_kernel g)" and "decide_delivery i did v g = (g', r)"
  shows "versions g' i = versions g i \<and> g_uuid g \<le> g_uuid g' \<and> (decisions_ok (decisions g i) \<longrightarrow> decisions_ok (decisions g' i))"
  using decide_cases [OF assms]
proof
  assume "\<exists>f body. decided g i did v f g' body \<and> (\<forall>a. r = Inr a \<longrightarrow> \<not> an_replayed a \<and> an_decision a = Some body)"
  then obtain f body where "decided g i did v f g' body" by blast
  then obtain k' where "g' = g\<lparr>g_uuid := Suc (g_uuid g), g_kernel := k'\<rparr>" "\<not> has ''event_seq'' body"
    "k_events k' = k_events (g_kernel g) @ [update_event (g_kernel g) i [(''delivery_decision'', VObj body)] (vd_actor v)]"
    unfolding decided_def logged_def by (elim conjE exE) simp
  then show ?thesis
    by (cases "truthy (get body ''delivery_id'')")
      (auto simp: history_logged update_rows decisions_ok_def seq_with_event payload_rows_def update_event_payload)
qed simp

lemma published_ok:
  assumes ok: "kernel_ok (g_kernel g)" and inv: "versions_ok (g_uuid g) (versions g i)" and pub: "published g i a f g' body"
  shows "versions_ok (g_uuid g') (versions g' i) \<and> decisions g' i = decisions g i"
proof -
  let ?ds = "versions g i"
  from pub have h: "fold_history (g_kernel g) i (item_history (g_kernel g) i) = Inr f" using fold_reads_log [OF ok] by (simp add: published_def)
  from pub obtain version supersedes where nv: "next_version f = Inr (version, supersedes)"
    and body: "body = delivery_body a (show_nat (g_uuid g)) (k_now (g_kernel g)) version supersedes" and u: "g_uuid g' = Suc (g_uuid g)"
    by (auto simp: published_def)
  obtain e where e: "versions g' i = ?ds @ [with_event e body]" using published_rows [OF pub] by blast
  have next_v: "version = int (length ?ds) + 1 \<and> supersedes = (if ?ds = [] then VNull else get (List.last ?ds) ''delivery_id'')"
  proof (cases "?ds = []")
    case True
    then have "fo_current f = None" using h by (auto simp: fold_history_def newest_def Let_def)
    with nv True show ?thesis by (simp add: next_version_def)
  next
    case False
    then obtain p review latest where p: "fo_current f = Some p" "presented (index_by delivery_id ?ds) review True latest (List.last ?ds) = Inr p"
      using h by (auto simp: fold_history_def newest_def Let_def)
    have "length ?ds - 1 < length ?ds" using False by simp
    with inv have "get (?ds ! (length ?ds - 1)) ''version'' = VInt (int (length ?ds - 1) + 1)"
      unfolding versions_ok_def chained_def by blast
    with False have "get (List.last ?ds) ''version'' = VInt (int (length ?ds))"
      by (simp add: last_conv_nth of_nat_diff Suc_le_eq)
    with False nv p(1) presented_fields [OF p(2)] show ?thesis by (auto simp: next_version_def int_field_def py_or_def split: if_splits)
  qed
  have fresh: "show_nat (g_uuid g) \<notin> delivery_id ` set ?ds"
    using inv by (fastforce simp: versions_ok_def delivery_id_def text_field_def py_or_def)
  have "e' \<notin> set (execution_ids ?ds)" if "pb_execution a = Some e'" "e' \<noteq> []" for e'
  proof -
    have "public_for_execution f e' = Inr None" using pub that by (simp add: published_def given_def)
    then have "\<forall>x \<in> set (fo_by_id f). text_field (snd x) ''execution_id'' \<noteq> e'"
      by (auto simp: public_for_execution_def find_None_iff Let_def split: option.splits sum.splits) blast?
    moreover have "fo_by_id f = map (\<lambda>r. (delivery_id r, r)) ?ds"
      using fold_fields(1) [OF h] inv by (simp add: index_by_distinct versions_ok_def)
    ultimately show ?thesis by (auto simp: execution_ids_def)
  qed
  moreover have "execution_ids [with_event e body] = (case pb_execution a of None \<Rightarrow> [] | Some e' \<Rightarrow> if e' = [] then [] else [e'])"
    by (simp add: execution_ids_def text_field_def get_with_event body opt_str_def py_or_def split: option.splits)
  moreover have "execution_ids (?ds @ [with_event e body]) = execution_ids ?ds @ execution_ids [with_event e body]"
    by (simp add: execution_ids_def)
  ultimately have "distinct (execution_ids (?ds @ [with_event e body]))"
    using inv by (auto simp: versions_ok_def split: option.splits)
  moreover have "chained (?ds @ [with_event e body])"
    using inv next_v by (intro chained_snoc) (simp_all add: versions_ok_def get_with_event body)
  moreover have "(\<exists>m < Suc (g_uuid g). get d ''delivery_id'' = VStr (show_nat m)) \<and> delivery_row_ok d" if "d \<in> set (?ds @ [with_event e body])" for d
    using that inv by (auto simp: versions_ok_def get_with_event body body_row_ok intro: less_SucI)
  moreover have "distinct (map delivery_id (?ds @ [with_event e body]))"
    using inv fresh by (simp add: versions_ok_def delivery_id_with_event) (simp add: delivery_id_def text_field_def body py_or_def)
  moreover have "decisions g' i = decisions g i" using pub by (auto simp: published_def logged_def history_logged update_rows)
  ultimately show ?thesis unfolding e u versions_ok_def by blast
qed

lemma two_steps: "gov_reach g \<Longrightarrow> gov_step (g\<lparr>g_uuid := n\<rparr>) g' \<Longrightarrow> gov_reach g'"
  by (rule gov_reach.step [OF gov_reach.step]) (auto intro: gov_step.other)

lemma delivery_reach_ok:
  assumes "delivery_reach i g"
  shows "gov_reach g \<and> versions_ok (g_uuid g) (versions g i) \<and> decisions_ok (decisions g i)"
  using assms
proof induction
  case (start g)
  then show ?case by (simp add: versions_ok_def chained_def execution_ids_def decisions_ok_def)
next
  case (published g a g' r)
  then have ok: "kernel_ok (g_kernel g)" using gov_reach_ok [of g] by (simp add: gov_ok_def)
  from publish_cases [OF ok published.hyps(2)] show ?case
  proof
    assume "\<exists>f body. published g i a f g' body \<and> (\<forall>p. r = Inr p \<longrightarrow> presented (fo_by_id f) ''unreviewed'' True None body = Inr p)"
    then obtain f body where pub: "published g i a f g' body" by blast
    then have "gov_reach g'" using published.IH by (auto simp: published_def intro: two_steps)
    with published_ok [OF ok _ pub] published.IH show ?thesis by simp
  qed (use published.IH in simp)
next
  case (decided g did v g' r)
  then have ok: "kernel_ok (g_kernel g)" using gov_reach_ok [of g] by (simp add: gov_ok_def)
  have "gov_reach g'" using decide_cases [OF ok decided.hyps(2)] decided.IH by (auto simp: decided_def intro: two_steps)
  moreover have "versions_ok (g_uuid g') (versions g' i)"
    using decided_versions [OF ok decided.hyps(2)] decided.IH by (auto simp: versions_ok_def intro: less_le_trans)
  moreover have "decisions_ok (decisions g' i)" using decided_versions [OF ok decided.hyps(2)] decided.IH by simp
  ultimately show ?case by simp
next
  case (other g g')
  then show ?case by (auto simp: versions_ok_def intro: gov_reach.step less_le_trans)
qed

lemma one_per_execution:
  "distinct (execution_ids ds) \<Longrightarrow> r \<in> set ds \<Longrightarrow> r' \<in> set ds \<Longrightarrow> text_field r ''execution_id'' = e \<Longrightarrow>
     text_field r' ''execution_id'' = e \<Longrightarrow> e \<noteq> [] \<Longrightarrow> r = r'"
  by (induction ds) (auto simp: execution_ids_def image_iff split: if_splits)

lemma traverse_each: "traverse f xs = Inr ys \<Longrightarrow> x \<in> set xs \<Longrightarrow> \<exists>y. f x = Inr y"
  by (induction xs arbitrary: ys) auto

lemma fold_presents:
  assumes "fold_history k i h = Inr f" and "row \<in> set (hs_deliveries h)"
  shows "\<exists>p. presented (fo_by_id f) review True latest row = Inr p"
proof -
  from assms(1) obtain latest' withdrawn current summaries where
    "traverse (summary_of (index_by delivery_id (hs_deliveries h)) latest' withdrawn current) (hs_deliveries h) = Inr summaries"
    by (auto simp: fold_history_def Let_def)
  from traverse_each [OF this assms(2)] show ?thesis
    unfolding fold_fields(1) [OF assms(1)] summary_of_def Let_def by (blast intro: presented_total)
qed

lemma delivery_reach_kernel: "delivery_reach i g \<Longrightarrow> kernel_ok (g_kernel g)"
  using delivery_reach_ok [of i g] gov_reach_ok [of g] by (simp add: gov_ok_def)

text \<open>The answer is the public form of a version that the execution published.\<close>

lemma publish_answers_version:
  assumes ok: "kernel_ok (g_kernel g)" and inv: "versions_ok (g_uuid g) (versions g i)"
    and pub: "publish_delivery i a g = (g1, Inr p)" and e: "pb_execution a = Some e" "e \<noteq> []"
  shows "\<exists>row. row \<in> set (versions g1 i) \<and> text_field row ''execution_id'' = e \<and> get p ''delivery_id'' = get row ''delivery_id'' \<and>
      (\<exists>n. int_field row ''version'' = Inr n \<and> get p ''version'' = VInt n)"
  using publish_cases [OF ok pub]
  proof
    assume "g1 = g \<and> (\<forall>q. Inr p = Inr q \<longrightarrow> given (pb_execution a) \<and> (\<exists>f. fold_delivery_history (g_kernel g) i = Inr f \<and>
        public_for_execution f (the (pb_execution a)) = Inr (Some q)))"
    then obtain f where f: "g1 = g" "fold_history (g_kernel g) i (item_history (g_kernel g) i) = Inr f" "public_for_execution f e = Inr (Some p)"
      using fold_reads_log [OF ok] e by auto
    then obtain did row review latest where row: "List.find (\<lambda>(did, row). text_field row ''execution_id'' = e) (fo_by_id f) = Some (did, row)"
      "presented (fo_by_id f) review True latest row = Inr p" by (auto simp: public_for_execution_def Let_def split: option.splits)
    have "fo_by_id f = map (\<lambda>r. (delivery_id r, r)) (versions g i)"
      using fold_fields(1) [OF f(2)] inv by (simp add: index_by_distinct versions_ok_def)
    with row(1) have "row \<in> set (versions g i)" "text_field row ''execution_id'' = e" by (auto simp: find_Some_iff)
    with presented_fields [OF row(2)] f(1) show ?thesis by auto
  next
    assume "\<exists>f body. published g i a f g1 body \<and> (\<forall>q. Inr p = Inr q \<longrightarrow> presented (fo_by_id f) ''unreviewed'' True None body = Inr q)"
    then obtain f body where pub: "published g i a f g1 body" "presented (fo_by_id f) ''unreviewed'' True None body = Inr p" by blast
    obtain x where x: "versions g1 i = versions g i @ [with_event x body]" using published_rows [OF pub(1)] by blast
    have "get body ''execution_id'' = VStr e" using pub(1) e by (auto simp: published_def opt_str_def)
    with presented_fields [OF pub(2)] x e show ?thesis
      by (intro exI [of _ "with_event x body"]) (auto simp: text_field_def get_with_event py_or_def int_field_def)
  qed

lemma current_nonempty:
  assumes "delivery_reach i g" and "fold_history (g_kernel g) i (item_history (g_kernel g) i) = Inr f" and "fo_current_id f = Some did"
  shows "did \<noteq> []"
proof -
  from fold_fields(4) [OF assms(2)] assms(3) have "List.last (versions g i) \<in> set (versions g i)" "did = delivery_id (List.last (versions g i))"
    by (auto simp: newest_def split: if_splits)
  moreover from this(1) obtain m where "get (List.last (versions g i)) ''delivery_id'' = VStr (show_nat m)"
    using delivery_reach_ok [OF assms(1)] by (auto simp: versions_ok_def)
  ultimately show ?thesis by (simp add: delivery_id_def text_field_def py_or_def)
qed

section \<open>Every operation answers\<close>

lemma delivery_reach_folds: "delivery_reach i g \<Longrightarrow> \<exists>f. fold_delivery_history (g_kernel g) i = Inr f"
  using fold_total [OF delivery_reach_kernel] delivery_reach_ok by blast

lemma reach_rows:
  assumes "delivery_reach i g" and "fold_delivery_history (g_kernel g) i = Inr f" and "map_of (fo_by_id f) x = Some row"
  shows "delivery_row_ok row \<and> row \<in> set (versions g i)"
proof -
  have "fo_by_id f = index_by delivery_id (versions g i)"
    using fold_fields(1) [of "g_kernel g" i "item_history (g_kernel g) i" f] assms(2) fold_reads_log [OF delivery_reach_kernel [OF assms(1)]] by simp
  with assms(3) have "row \<in> set (versions g i)" by (auto dest: index_by_in)
  with delivery_reach_ok [OF assms(1)] show ?thesis by (simp add: versions_ok_def)
qed

lemma prior_total:
  assumes "delivery_reach i g" and "fold_delivery_history (g_kernel g) i = Inr f"
  shows "\<exists>p. public_for_execution f e = Inr p"
proof (cases "List.find (\<lambda>(did, row). text_field row ''execution_id'' = e) (fo_by_id f)")
  case (Some x)
  then obtain did row where x: "x = (did, row)" "(did, row) \<in> set (fo_by_id f)" by (cases x) (auto simp: find_Some_iff dest: nth_mem)
  have h: "fold_history (g_kernel g) i (item_history (g_kernel g) i) = Inr f"
    using assms fold_reads_log [OF delivery_reach_kernel [OF assms(1)]] by simp
  have "fo_by_id f = map (\<lambda>r. (delivery_id r, r)) (versions g i)"
    using fold_fields(1) [OF h] delivery_reach_ok [OF assms(1)] by (simp add: index_by_distinct versions_ok_def)
  with x(2) have "row \<in> set (versions g i)" by auto
  from fold_presents [OF h this] Some x(1) show ?thesis by (fastforce simp: public_for_execution_def Let_def)
qed (simp add: public_for_execution_def)

lemma next_version_total:
  assumes "delivery_reach i g" and "fold_delivery_history (g_kernel g) i = Inr f"
  shows "\<exists>v. next_version f = Inr v"
proof (cases "fo_current f")
  case (Some p)
  have "fold_history (g_kernel g) i (item_history (g_kernel g) i) = Inr f"
    using assms fold_reads_log [OF delivery_reach_kernel [OF assms(1)]] by simp
  with Some obtain ids review latest row where "presented ids review True latest row = Inr p"
    by (auto simp: fold_history_def newest_def Let_def split: if_splits)
  from presented_fields(2) [OF this] Some show ?thesis by (auto simp: next_version_def)
qed (simp add: next_version_def)

lemma publish_answers:
  assumes r: "delivery_reach i g" and w: "get_work_item (g_kernel g) i \<noteq> None"
  shows "\<exists>g' p. publish_delivery i a g = (g', Inr p)"
proof -
  obtain f where f: "fold_delivery_history (g_kernel g) i = Inr f" using delivery_reach_folds [OF r] by blast
  obtain prior where prior: "(if given (pb_execution a) then public_for_execution f (the (pb_execution a)) else Inr None) = Inr prior"
    using prior_total [OF r f, of "the (pb_execution a)"] by (cases "given (pb_execution a)") auto
  obtain version supersedes where v: "next_version f = Inr (version, supersedes)" using next_version_total [OF r f] by auto
  let ?body = "delivery_body a (show_nat (g_uuid g)) (k_now (g_kernel g)) version supersedes"
  obtain k' where k': "emit_update i [(''delivery_published'', VObj ?body)] (pb_actor a) (g\<lparr>g_uuid := Suc (g_uuid g)\<rparr>) =
      (g\<lparr>g_uuid := Suc (g_uuid g), g_kernel := k'\<rparr>, Inr ())"
    using update_emitted [of "g\<lparr>g_uuid := Suc (g_uuid g)\<rparr>" "''delivery_published''" i "VObj ?body" "pb_actor a"] delivery_reach_kernel [OF r]
    by (auto simp: review_keys_def)
  obtain p where "presented (fo_by_id f) ''unreviewed'' True None ?body = Inr p"
    using presented_row_ok [OF body_row_ok(2), of "fo_by_id f"] reach_rows [OF r f] by blast
  then show ?thesis unfolding publish_run [OF w f] prior using v k'
    by (cases prior) (simp_all add: dbind_def dask_def dlift_def gask_def)
qed

lemma answer_answers: "fold_delivery_history (g_kernel g) i = Inr f \<Longrightarrow> \<exists>a. answer_with i b d g = (g, Inr a)"
  by (simp add: answer_with_def dbind_def dask_def dlift_def gask_def dret_def public_bundle_def)

text \<open>The first valid decision on the current version is taken.\<close>

lemma decide_answers:
  assumes r: "delivery_reach i g" and w: "get_work_item (g_kernel g) i \<noteq> None" and f: "fold_delivery_history (g_kernel g) i = Inr f"
    and v: "checked_verdict v = Inr minutes" and cur: "fo_current_id f = Some did" "fo_status f = Some ''unreviewed''"
    and key: "verdict_key v = [] \<or> map_of (fo_by_key f) (verdict_key v) = None"
  shows "\<exists>g' a. decide_delivery i did v g = (g', Inr a) \<and> \<not> an_replayed a"
proof -
  have h: "fold_history (g_kernel g) i (item_history (g_kernel g) i) = Inr f"
    using f fold_reads_log [OF delivery_reach_kernel [OF r]] by simp
  have "fo_by_id f = map (\<lambda>r. (delivery_id r, r)) (versions g i)" and d: "distinct (map delivery_id (versions g i))"
    using fold_fields(1) [OF h] index_by_distinct [of delivery_id "versions g i"] delivery_reach_ok [OF r] by (simp_all add: versions_ok_def)
  moreover from cur(1) fold_fields(4) [OF h] have "versions g i \<noteq> []" "did = delivery_id (List.last (versions g i))"
    by (auto simp: newest_def split: if_splits)
  moreover have "map_of (map (\<lambda>r. (delivery_id r, r)) ds) (delivery_id x) = Some x" if "x \<in> set ds" "distinct (map delivery_id ds)" for x ds
    using that by (auto intro!: map_of_is_SomeI simp: comp_def)
  ultimately obtain row where row: "map_of (fo_by_id f) did = Some row" using d by simp
  then obtain version where version: "int_field row ''version'' = Inr version" using reach_rows [OF r f row] by (auto simp: delivery_row_ok_def)
  have run: "decide_delivery i did v g = record_decision i did row v minutes g"
    using decide_run [OF v w f, of did] key row cur by (auto simp: review_current_def require_current_delivery_def)
  let ?g1 = "g\<lparr>g_uuid := Suc (g_uuid g)\<rparr>"
  let ?body = "decision_body (show_nat (g_uuid g)) did version v minutes (k_now (g_kernel g))"
  obtain k' where k': "emit_update i [(''delivery_decision'', VObj ?body)] (vd_actor v) ?g1 = (?g1\<lparr>g_kernel := k'\<rparr>, Inr ())"
    using update_emitted [of ?g1 "''delivery_decision''" i "VObj ?body" "vd_actor v"] delivery_reach_kernel [OF r] by (auto simp: review_keys_def)
  have step: "decide_delivery i did v g = answer_with i False (Some ?body) (?g1\<lparr>g_kernel := k'\<rparr>)"
    using run version k' by (simp add: record_decision_def dbind_def dask_def dlift_def gask_def new_uuid_def gread_def)
  have "delivery_reach i (?g1\<lparr>g_kernel := k'\<rparr>)"
    using delivery_reach.decided [OF r, of did v] step answer_with_same [of i False "Some ?body" "?g1\<lparr>g_kernel := k'\<rparr>"] by (metis prod.collapse)
  from delivery_reach_folds [OF this] answer_answers obtain a where "answer_with i False (Some ?body) (?g1\<lparr>g_kernel := k'\<rparr>) = (?g1\<lparr>g_kernel := k'\<rparr>, Inr a)"
    by blast
  with step answer_with_fields show ?thesis by metis
qed

section \<open>A sample item\<close>

definition sample_publication :: publication where
  "sample_publication = \<lparr>pb_content = ''body'', pb_summary = ''sum'', pb_sources = [], pb_findings = [], pb_limitations = [], pb_actions = [],
     pb_checks = [], pb_contract = 1, pb_execution = Some ''x1'', pb_qualified = True, pb_structure = None, pb_evidence = None,
     pb_retrieval = None, pb_actor = ''system''\<rparr>"

definition sample_verdict :: verdict where
  "sample_verdict = \<lparr>vd_decision = ''accepted'', vd_reason = [], vd_key = Some ''k'', vd_actor = ''user'', vd_minutes = VInt 5\<rparr>"

definition brief_kernel :: kernel where
  "brief_kernel = emit_ok (boot current_registry 5) ''WorkItemCreated'' ''work_item'' ''w1'' [(''title'', VStr ''t''), (''work_type'', VStr ''task'')]"

lemma brief_reach: "kernel_reach current_registry brief_kernel"
  unfolding brief_kernel_def
  by (intro emit_ok_reach kernel_reach.start) (auto simp: well_routed_def event_owner_def with_seq_def create_event_def handler_table_def)

text \<open>A sample item: a version is published and accepted.\<close>

lemma sample_start: "delivery_reach ''w1'' (gov_of brief_kernel)"
proof (rule delivery_reach.start [OF gov_of_reach [OF brief_reach]])
  show "versions (gov_of brief_kernel) ''w1'' = []" "decisions (gov_of brief_kernel) ''w1'' = []" by code_simp+
qed

lemma sample_states:
  obtains g1 p g2 a where "publish_delivery ''w1'' sample_publication (gov_of brief_kernel) = (g1, Inr p)" and "delivery_reach ''w1'' g1"
    and "get_work_item (g_kernel g1) ''w1'' \<noteq> None"
    and "decide_delivery ''w1'' ''0'' sample_verdict g1 = (g2, Inr a)" and "\<not> an_replayed a" and "delivery_reach ''w1'' g2"
    and "get_work_item (g_kernel g2) ''w1'' \<noteq> None" and "review_of (g_kernel g2) ''w1'' ''0'' = ''accepted''"
proof -
  let ?g0 = "gov_of brief_kernel"
  have w0: "get_work_item (g_kernel ?g0) ''w1'' \<noteq> None" by code_simp
  obtain g1 p where g1: "publish_delivery ''w1'' sample_publication ?g0 = (g1, Inr p)"
    using publish_answers [OF sample_start w0, of sample_publication] by blast
  note r1 = delivery_reach.published [OF sample_start g1]
  have v0: "versions ?g0 ''w1'' = []" "decisions ?g0 ''w1'' = []" by code_simp+
  have "g1 \<noteq> ?g0" using publish_answers_version [OF delivery_reach_kernel [OF sample_start] _ g1, of "''x1''"] delivery_reach_ok [OF sample_start] v0(1)
    by (auto simp: sample_publication_def)
  with publish_cases [OF delivery_reach_kernel [OF sample_start] g1] obtain f body where pub: "published ?g0 ''w1'' sample_publication f g1 body" by auto
  obtain e where e: "versions g1 ''w1'' = [with_event e body]" using published_rows [OF pub] v0(1) by auto
  have body: "delivery_id body = ''0''" "k_db (g_kernel g1) = k_db (g_kernel ?g0)"
    using pub by (auto simp: published_def delivery_id_def text_field_def py_or_def gov_of_def show_nat.simps [of 0] digit_char_def)
  then have w1: "get_work_item (g_kernel g1) ''w1'' \<noteq> None" using w0 by (simp add: get_work_item_find)
  have d1: "decisions g1 ''w1'' = []" using published_ok [OF delivery_reach_kernel [OF sample_start] _ pub] delivery_reach_ok [OF sample_start] v0(2) by simp
  obtain f1 where f1: "fold_delivery_history (g_kernel g1) ''w1'' = Inr f1" using delivery_reach_folds [OF r1] by blast
  then have h1: "fold_history (g_kernel g1) ''w1'' (item_history (g_kernel g1) ''w1'') = Inr f1"
    using fold_reads_log [OF delivery_reach_kernel [OF r1]] by simp
  have "fo_current_id f1 = Some ''0'' \<and> fo_status f1 = Some ''unreviewed'' \<and> fo_by_key f1 = []"
    using fold_fields [OF h1] e d1 body(1)
    by (auto simp: newest_def delivery_id_with_event decision_for_def status_after_def by_idempotency_def)
  moreover have "checked_verdict sample_verdict = Inr (Some 5)" by code_simp
  ultimately obtain g2 a where g2: "decide_delivery ''w1'' ''0'' sample_verdict g1 = (g2, Inr a)" "\<not> an_replayed a"
    using decide_answers [OF r1 w1 f1, of sample_verdict "Some 5" "''0''"] by auto
  note r2 = delivery_reach.decided [OF r1 g2(1)]
  from decide_cases [OF delivery_reach_kernel [OF r1] g2(1)] g2(2) obtain f' b where d: "decided g1 ''w1'' ''0'' sample_verdict f' g2 b" by auto
  from decided_rows(1) [OF d] d1 obtain x where "decisions g2 ''w1'' = [with_event x b]" by auto
  moreover have "get b ''delivery_id'' = VStr ''0''" "get b ''decision'' = VStr ''accepted''" "k_db (g_kernel g2) = k_db (g_kernel g1)"
    using d by (auto simp: decided_def sample_verdict_def)
  ultimately have "review_of (g_kernel g2) ''w1'' ''0'' = ''accepted''" "get_work_item (g_kernel g2) ''w1'' \<noteq> None"
    using w1 by (simp_all add: review_of_def decision_for_def delivery_id_with_event delivery_id_def text_field_def py_or_def status_after_def
        get_with_event review_status_of_def get_work_item_find)
  then show thesis by (rule that [OF g1 r1 w1 g2 r2, rotated -1])
qed

section \<open>Properties\<close>

text \<open>C16. The versions of an item form one chain: they are numbered from one without gaps, each supersedes the one before it, and no
  two share an id or the execution that published them.\<close>

theorem versions_form_chain:
  assumes "delivery_reach i g"
  shows "chained (versions g i) \<and> distinct (map delivery_id (versions g i)) \<and> distinct (execution_ids (versions g i))"
  using delivery_reach_ok [OF assms] by (simp add: versions_ok_def)

theorem versions_form_chain_witness:
  "\<exists>g. versions g ''w1'' \<noteq> [] \<and> chained (versions g ''w1'')"
proof -
  obtain g1 p where g: "publish_delivery ''w1'' sample_publication (gov_of brief_kernel) = (g1, Inr p)" "delivery_reach ''w1'' g1"
    by (rule sample_states) blast
  have "kernel_ok (g_kernel (gov_of brief_kernel))" "versions_ok (g_uuid (gov_of brief_kernel)) (versions (gov_of brief_kernel) ''w1'')"
    using delivery_reach_ok [OF sample_start] delivery_reach_kernel [OF sample_start] by blast+
  from publish_answers_version [OF this g(1)] have "versions g1 ''w1'' \<noteq> []" by (auto simp: sample_publication_def)
  with versions_form_chain [OF g(2)] show ?thesis by blast
qed

text \<open>C17. Publishing is idempotent by execution: once an execution has published, a retry of it at any later time logs nothing, draws
  no uuid, and is answered with the same version, whatever its new content.\<close>

theorem publish_is_idempotent:
  assumes "delivery_reach i g" and "publish_delivery i a g = (g1, Inr p)" and "pb_execution a = Some e" and "e \<noteq> []"
    and "delivery_reach i g2" and "k_events (g_kernel g2) = k_events (g_kernel g1) @ evs" and "get_work_item (g_kernel g2) i \<noteq> None"
    and "pb_execution b = Some e"
  shows "\<exists>p2. publish_delivery i b g2 = (g2, Inr p2) \<and> get p2 ''delivery_id'' = get p ''delivery_id'' \<and>
    get p2 ''version'' = get p ''version''"
proof -
  have ok: "kernel_ok (g_kernel g)" and ok2: "kernel_ok (g_kernel g2)" using assms(1,5) by (simp_all add: delivery_reach_kernel)
  obtain f2 where f2: "fold_delivery_history (g_kernel g2) i = Inr f2" using delivery_reach_folds [OF assms(5)] by blast
  obtain row where row: "row \<in> set (versions g1 i)" "text_field row ''execution_id'' = e" "get p ''delivery_id'' = get row ''delivery_id''"
    "\<exists>n. int_field row ''version'' = Inr n \<and> get p ''version'' = VInt n"
    using publish_answers_version [OF ok _ assms(2-4)] delivery_reach_ok [OF assms(1)] by blast
  from later_rows(2) [OF assms(6), of i] row(1) have row2: "row \<in> set (versions g2 i)" by auto
  have h2: "fold_history (g_kernel g2) i (item_history (g_kernel g2) i) = Inr f2" using f2 fold_reads_log [OF ok2] by simp
  have inv2: "versions_ok (g_uuid g2) (versions g2 i)" using delivery_reach_ok [OF assms(5)] by blast
  then have ids: "fo_by_id f2 = map (\<lambda>r. (delivery_id r, r)) (versions g2 i)"
    using fold_fields(1) [OF h2] by (simp add: index_by_distinct versions_ok_def)
  with row(2) row2 obtain did row' where hit: "List.find (\<lambda>(did, row). text_field row ''execution_id'' = e) (fo_by_id f2) = Some (did, row')"
    by (cases "List.find (\<lambda>(did, row). text_field row ''execution_id'' = e) (fo_by_id f2)") (auto simp: find_None_iff)
  then have "row' \<in> set (versions g2 i)" "text_field row' ''execution_id'' = e" by (auto simp: find_Some_iff ids)
  with one_per_execution [of "versions g2 i" row row' e] inv2 row(2) row2 assms(4) have "row' = row" by (simp add: versions_ok_def)
  moreover obtain p2 where p2: "presented (fo_by_id f2) (status_after (decision_for (fo_decisions f2) (delivery_id row))) True
      (decision_for (fo_decisions f2) (delivery_id row)) row = Inr p2" using fold_presents [OF h2 row2] by blast
  ultimately have "public_for_execution f2 e = Inr (Some p2)" using hit by (simp add: public_for_execution_def Let_def)
  then have "publish_delivery i b g2 = (g2, Inr p2)" using publish_run [OF assms(7) f2, of b] assms(4,8) by (simp add: given_def)
  with presented_fields [OF p2] row(3,4) show ?thesis by auto
qed

theorem publish_is_idempotent_witness:
  "\<exists>g p. delivery_reach ''w1'' g \<and> publish_delivery ''w1'' (sample_publication\<lparr>pb_content := ''other''\<rparr>) g = (g, Inr p)"
proof -
  obtain g1 p where g: "publish_delivery ''w1'' sample_publication (gov_of brief_kernel) = (g1, Inr p)" "delivery_reach ''w1'' g1"
    "get_work_item (g_kernel g1) ''w1'' \<noteq> None"
    by (rule sample_states) blast
  with publish_is_idempotent [OF sample_start g(1), of "''x1''" g1 "[]" "sample_publication\<lparr>pb_content := ''other''\<rparr>"] show ?thesis
    by (auto simp: sample_publication_def)
qed

text \<open>C18. A settled review stays settled: once a version is accepted, or its rework is under way, no decision on any version of
  the item changes that.\<close>

theorem settled_review_stays:
  assumes "delivery_reach i g" and "fold_delivery_history (g_kernel g) i = Inr f"
    and "review_of (g_kernel g) i did = s" and "s = ''accepted'' \<or> s = ''changes_requested'' \<and> \<not> fo_withdrawn f"
  shows "review_of (g_kernel (fst (decide_delivery i did' v g))) i did = s"
proof -
  note ok = delivery_reach_kernel [OF assms(1)]
  have h: "fold_history (g_kernel g) i (item_history (g_kernel g) i) = Inr f" using assms(2) fold_reads_log [OF ok] by simp
  obtain g' r where dec: "decide_delivery i did' v g = (g', r)" by fastforce
  from decide_cases [OF ok dec] show ?thesis
  proof
    assume "\<exists>f body. decided g i did' v f g' body \<and> (\<forall>a. r = Inr a \<longrightarrow> \<not> an_replayed a \<and> an_decision a = Some body)"
    then obtain body where d: "decided g i did' v f g' body" using assms(2) by (auto simp: decided_def)
    then have c: "fo_current_id f = Some did'" "fo_status f = Some ''unreviewed''" "get body ''delivery_id'' = VStr did'"
      by (auto simp: decided_def)
    have ne: "did' \<noteq> []" using current_nonempty [OF assms(1) h c(1)] .
    have "did' \<noteq> did"
    proof
      assume "did' = did"
      then have "status_after (fo_latest f) = s" using fold_fields(5) [OF h] c(1) assms(3) by (simp add: review_of_def)
      with assms(4) c(2) fold_fields(6,7) [OF h] show False
        by (auto simp: status_after_def dest!: withdrawn_changes split: if_splits)
    qed
    moreover from decided_rows(1) [OF d ne] obtain e where
      "hs_decisions (item_history (g_kernel g') i) = hs_decisions (item_history (g_kernel g) i) @ [with_event e body]" by blast
    moreover have "delivery_id body = did'" using ne c(3) by (simp add: delivery_id_def text_field_def py_or_def)
    ultimately show ?thesis using assms(3) dec by (simp add: review_of_def decision_for_def delivery_id_with_event)
  qed (use dec assms(3) in simp)
qed

theorem settled_review_stays_witness:
  "\<exists>g. delivery_reach ''w1'' g \<and> review_of (g_kernel (fst (decide_delivery ''w1'' ''0'' (sample_verdict\<lparr>vd_decision := ''changes_requested''\<rparr>) g))) ''w1'' ''0'' = ''accepted''"
proof -
  obtain g where g: "delivery_reach ''w1'' g" "review_of (g_kernel g) ''w1'' ''0'' = ''accepted''"
    by (rule sample_states) blast
  obtain f where "fold_delivery_history (g_kernel g) ''w1'' = Inr f" using delivery_reach_folds [OF g(1)] by blast
  with g settled_review_stays [of "''w1''" g f "''0''" "''accepted''" "''0''" "sample_verdict\<lparr>vd_decision := ''changes_requested''\<rparr>"]
  show ?thesis by auto
qed

text \<open>C19. A decision is recorded once: when a verdict with an idempotency key has been accepted, sending it again at any later
  time logs nothing and is answered with the recorded decision, whatever was decided since.\<close>

theorem decision_retry_is_replayed:
  assumes "delivery_reach i g" and "decide_delivery i did v g = (g1, Inr a)" and "\<not> an_replayed a" and "verdict_key v \<noteq> []"
    and "delivery_reach i g2" and "k_events (g_kernel g2) = k_events (g_kernel g1) @ evs" and "get_work_item (g_kernel g2) i \<noteq> None"
  shows "\<exists>a2. decide_delivery i did v g2 = (g2, Inr a2) \<and> an_replayed a2 \<and>
    get (the (an_decision a2)) ''decision_id'' = get (the (an_decision a)) ''decision_id''"
proof -
  note ok = delivery_reach_kernel [OF assms(1)] and ok2 = delivery_reach_kernel [OF assms(5)]
  obtain f2 where f2: "fold_delivery_history (g_kernel g2) i = Inr f2" using delivery_reach_folds [OF assms(5)] by blast
  from decide_cases [OF ok assms(2)] assms(3) obtain f body where d: "decided g i did v f g1 body" "an_decision a = Some body" by auto
  from d(1) obtain version minutes where m: "checked_verdict v = Inr minutes"
    "body = decision_body (show_nat (g_uuid g)) did version v minutes (k_now (g_kernel g))"
    and f: "fold_history (g_kernel g) i (item_history (g_kernel g) i) = Inr f" "map_of (fo_by_key f) (verdict_key v) = None"
      "fo_current_id f = Some did"
    using assms(4) fold_reads_log [OF ok] by (auto simp: decided_def)
  obtain e where e: "hs_decisions (item_history (g_kernel g1) i) = hs_decisions (item_history (g_kernel g) i) @ [with_event e body]"
    using decided_rows(1) [OF d(1) current_nonempty [OF assms(1) f(1,3)]] by blast
  obtain xs where xs: "hs_decisions (item_history (g_kernel g2) i) = hs_decisions (item_history (g_kernel g1) i) @ xs"
    using later_rows(1) [OF assms(6)] by blast
  have "map_of (by_idempotency (hs_decisions (item_history (g_kernel g1) i))) (verdict_key v) = Some (with_event e body)"
    unfolding e using f(2) fold_fields(3) [OF f(1)] stored_verdict(2) [OF m(1)] assms(4) m(2) by (intro by_idempotency_new) auto
  then have "map_of (by_idempotency (hs_decisions (item_history (g_kernel g2) i))) (verdict_key v) = Some (with_event e body)"
    unfolding xs by (rule by_idempotency_keeps)
  moreover have "fold_history (g_kernel g2) i (item_history (g_kernel g2) i) = Inr f2" using f2 fold_reads_log [OF ok2] by simp
  ultimately have "map_of (fo_by_key f2) (verdict_key v) = Some (with_event e body)" by (simp add: fold_fields(3))
  then have "decide_delivery i did v g2 = answer_with i True (Some (with_event e body)) g2"
    using decide_run [OF m(1) assms(7) f2] assms(4) stored_verdict(1) [OF m(1)] m(2) by simp
  moreover from answer_answers [OF f2] obtain a2 where a2: "answer_with i True (Some (with_event e body)) g2 = (g2, Inr a2)" by blast
  ultimately show ?thesis using answer_with_fields [OF a2] d(2) by (auto simp: get_with_event)
qed

theorem decision_retry_is_replayed_witness:
  "\<exists>g a. delivery_reach ''w1'' g \<and> decide_delivery ''w1'' ''0'' sample_verdict g = (g, Inr a) \<and> an_replayed a"
proof -
  obtain g1 g2 a where g: "delivery_reach ''w1'' g1" "decide_delivery ''w1'' ''0'' sample_verdict g1 = (g2, Inr a)" "\<not> an_replayed a"
    "delivery_reach ''w1'' g2" "get_work_item (g_kernel g2) ''w1'' \<noteq> None"
    by (rule sample_states) blast
  have "verdict_key sample_verdict \<noteq> []" by code_simp
  with decision_retry_is_replayed [of "''w1''" g1 "''0''" sample_verdict g2 a g2 "[]"] g show ?thesis by auto
qed

end
