(* ===== verification/Rework_Props.thy ===== *)
theory Rework_Props
  imports Delivery_Rework Delivery_Props
begin

text \<open>
  What running a brief again does: after its checks the command cannot fail, and it starts exactly one attempt without touching a
  version or a decision of the item.
\<close>

section \<open>Opening a completed item\<close>

definition reopen_payload :: "string \<Rightarrow> dict" where
  "reopen_payload reason = [(''status'', VStr ''pending''), (''reason'', VStr reason)]"

lemma set_pending:
  assumes ok: "kernel_ok (g_kernel g)" and i: "i \<noteq> []" and r: "get_work_item (g_kernel g) i = Some r"
    and l: "w_status r = VStr ''completed'' \<or> w_status r = VStr ''failed''" and "reason \<noteq> []"
  shows "\<exists>k'. set_item_status i ''pending'' (Some reason) g = (g\<lparr>g_kernel := k'\<rparr>, Inr (get_work_item k' i)) \<and>
    status_logged (g_kernel g) i (reopen_payload reason) ''user'' k'"
proof -
  let ?p = "reopen_payload reason"
  from status_emitted [OF ok, of ?p "''pending''" i "''user''"] obtain k' where
    k': "emit_status i ?p ''user'' g = (g\<lparr>g_kernel := k'\<rparr>, Inr ())" "status_logged (g_kernel g) i ?p ''user'' k'"
    by (auto simp: reopen_payload_def)
  then obtain ev where ev: "emit_event (g_kernel g) ''WorkItemStatusChanged'' ''work_item'' i ?p ''user'' None None = Inr (k', ev)"
    by (auto simp: emit_status_def gbind_def gemit_def gret_def Let_def split: sum.splits prod.splits
        dest!: arg_cong [where f = g_kernel])
  have "status_of_text (VStr ''completed'') = Inr Completed" "status_of_text (VStr ''failed'') = Inr Failed"
    "status_of_text (VStr ''pending'') = Inr Pending" "validate_transition Completed Pending = Inr ()" "validate_transition Failed Pending = Inr ()"
    by code_simp+
  with l r ev assms(5) have "update_work_item_status (g_kernel g) i ''pending'' (Some reason) = Inr (k', get_work_item k' i)"
    by (auto simp: update_work_item_status_def reopen_payload_def given_def)
  with k'(2) show ?thesis by (auto simp: set_item_status_def)
qed


section \<open>Running a brief again\<close>

text \<open>The checks before a rerun are those of the execute command apart from the status.\<close>

lemma plan_accepted:
  assumes "reject_unexecutable_plan loads r = Inr ()" and "get_work_item k i = Some r'" and "w_work_type r' = w_work_type r"
    and "w_plan r' = w_plan r" and "w_status r' = VStr ''pending''"
  shows "execute_refused loads k i = Inr ()"
  using assms
  by (auto simp: reject_unexecutable_plan_def execute_refused_def blocked_status_def row_status_def py_or_def split: if_splits sum.splits)

lemma brief_checked:
  assumes "require_completed_brief loads i g = (g', Inr (r, previous))"
  shows "g' = g \<and> get_work_item (g_kernel g) i = Some r \<and> w_status r = VStr ''completed'' \<and>
    (\<exists>f. fold_delivery_history (g_kernel g) i = Inr f \<and> previous = text_of_opt (fo_current f) ''delivery_id'')"
  using assms
  by (auto simp: require_completed_brief_def dbind_def dlift_def query_work_item_def gread_def dfail_def dret_def folded_now_def dask_def
      gask_def split: option.splits sum.splits if_splits)

lemma brief_refused: "require_completed_brief loads i g = (g', Inl e) \<Longrightarrow> g' = g"
  by (auto simp: require_completed_brief_def dbind_def dlift_def query_work_item_def gread_def dfail_def dret_def folded_now_def dask_def
      gask_def split: option.splits sum.splits if_splits)

lemma requested_ids_total: "kernel_ok k \<Longrightarrow> \<exists>xs. execute_requested_ids k i = Inr xs"
  unfolding execute_requested_ids_def
  by (subst read_events_asc [where n = 0 and P = "request_event i"])
     (use kernel_okD(2) in \<open>auto simp: all_events_def row_matches_def opt_eq_def request_event_def max_limit_def exec_key_def exec_aggregate_def\<close>)

lemma unreviewed_events:
  assumes "k_events k' = k_events k @ es" and "list_all (\<lambda>e. ev_type e = ''WorkItemStatusChanged'' \<and> get (ev_payload e) ''delivery_published'' = VNull \<and>
      get (ev_payload e) ''delivery_decision'' = VNull \<or> \<not> event_of_item i e) es"
  shows "hs_deliveries (item_history k' i) = hs_deliveries (item_history k i)" "hs_decisions (item_history k' i) = hs_decisions (item_history k i)"
proof -
  have "payload_rows key ''delivery_id'' (filter (event_of_item i) es) = []" if "key = ''delivery_published'' \<or> key = ''delivery_decision''" for key
    using assms(2) that by (induction es) (auto simp: payload_rows_def)
  then show "hs_deliveries (item_history k' i) = hs_deliveries (item_history k i)" "hs_decisions (item_history k' i) = hs_decisions (item_history k i)"
    using assms(1) by (simp_all add: item_history_def history_of_def payload_rows_append)
qed


text \<open>The sequence of the command after its checks.\<close>

definition rerun_started :: "string \<Rightarrow> gov \<Rightarrow> gov \<Rightarrow> work_row \<Rightarrow> bool" where
  "rerun_started i g g' w \<longleftrightarrow>
     (\<exists>e0 e1 e2. k_events (g_kernel g') = k_events (g_kernel g) @ [e0, e1, e2] \<and>
        status_event i e0 \<and> get (ev_payload e0) ''status'' = VStr ''pending'' \<and> get (ev_payload e0) ''reason'' = VStr ''rerun_restore'' \<and>
        status_event i e1 \<and> get (ev_payload e1) ''status'' = VStr ''running'' \<and> request_event i e2 \<and>
        current_execute_requested (g_kernel g') i = Inr (Some e2)) \<and>
     get_work_item (g_kernel g') i = Some w \<and> w_status w = VStr ''running'' \<and> \<not> cancel_flagged (exec_key i) g' \<and>
     filter (live_resume i) (g_resumes g') = [] \<and> peek_plan_resume (rerun_stash_key i) (g_resumes g') = None \<and>
     hs_deliveries (item_history (g_kernel g') i) = hs_deliveries (item_history (g_kernel g) i) \<and>
     hs_decisions (item_history (g_kernel g') i) = hs_decisions (item_history (g_kernel g) i)"

lemma rerun_runs:
  assumes ok: "kernel_ok (g_kernel g)" and res: "resumes_ok (g_resumes g)" and i: "i \<noteq> []"
    and checked: "require_completed_brief loads i g = (g, Inr (r, previous))" and plan: "reject_unexecutable_plan loads r = Inr ()"
  shows "\<exists>g' w. rerun_project_brief loads i g = (g', Inr \<lparr>ra_supersedes = previous, ra_work = w\<rparr>) \<and> rerun_started i g g' w"
proof -
  from brief_checked [OF checked] have r: "get_work_item (g_kernel g) i = Some r" "w_status r = VStr ''completed''" by simp_all
  from set_pending [OF ok i r(1), of "''rerun_restore''"] r(2) obtain k1 where
    k1: "set_item_status i ''pending'' (Some ''rerun_restore'') g = (g\<lparr>g_kernel := k1\<rparr>, Inr (get_work_item k1 i))"
      "status_logged (g_kernel g) i (reopen_payload ''rerun_restore'') ''user'' k1" by auto
  note s = status_loggedD [OF k1(2)]
  from s(5) [OF i r(1)] obtain r1 where r1: "get_work_item k1 i = Some r1" "w_work_type r1 = w_work_type r" "w_plan r1 = w_plan r"
    "w_status r1 = VStr ''pending''" by (auto simp: reopen_payload_def)
  from taken_state [OF i res, of "k_now k1"] obtain rows t1 where t1: "take_plan_resumes_for_work_item (k_now k1) i (g_resumes g) = Inr (rows, t1)"
    "filter (live_resume i) t1 = []" by blast
  let ?g2 = "g\<lparr>g_kernel := k1, g_resumes := t1\<rparr>"
  have granted: "execute_refused loads (g_kernel ?g2) i = Inr ()" using plan_accepted [OF plan r1] by simp
  from execute_granted [OF _ i granted] s(1) obtain k' w e where
    run: "request_work_item_execute loads i ?g2 =
      ((unflag_cancel (exec_key i) ?g2)\<lparr>g_kernel := k', g_resumes := discard_rerun_plan_stash i t1\<rparr>, Inr w)"
    and w: "get_work_item k' i = Some w" "w_status w = VStr ''running''" "request_event i e" "current_execute_requested k' i = Inr (Some e)"
    and evs: "k_events k' = k_events k1 @ [next_event k1 ''WorkItemStatusChanged'' ''work_item'' i running_payload ''user'' None None, e]" by auto
  let ?g' = "(unflag_cancel (exec_key i) ?g2)\<lparr>g_kernel := k', g_resumes := discard_rerun_plan_stash i t1\<rparr>"
  obtain evs0 where ids: "execute_requested_ids (g_kernel g) i = Inr evs0" using requested_ids_total [OF ok] by blast
  have "rerun_project_brief loads i g = (?g', Inr \<lparr>ra_supersedes = previous, ra_work = w\<rparr>)"
    using checked plan ids k1(1) t1(1) run
    by (simp add: rerun_project_brief_def dbind_def dask_def dlift_def gask_def reset_progress_def)
  moreover have "rerun_started i g ?g' w"
  proof -
    have all: "k_events (g_kernel ?g') = k_events (g_kernel g) @
        [next_event (g_kernel g) ''WorkItemStatusChanged'' ''work_item'' i (reopen_payload ''rerun_restore'') ''user'' None None,
         next_event k1 ''WorkItemStatusChanged'' ''work_item'' i running_payload ''user'' None None, e]"
      using evs s(2) by simp
    have "\<not> event_of_item i e" using w(3) by (simp add: request_event_def event_of_item_def)
    then have u: "list_all (\<lambda>e. ev_type e = ''WorkItemStatusChanged'' \<and> get (ev_payload e) ''delivery_published'' = VNull \<and>
        get (ev_payload e) ''delivery_decision'' = VNull \<or> \<not> event_of_item i e)
      [next_event (g_kernel g) ''WorkItemStatusChanged'' ''work_item'' i (reopen_payload ''rerun_restore'') ''user'' None None,
       next_event k1 ''WorkItemStatusChanged'' ''work_item'' i running_payload ''user'' None None, e]"
      by (simp add: schema_key_def reopen_payload_def running_payload_def)
    note kept = unreviewed_events [OF all u]
    have "filter (live_resume i) (g_resumes ?g') = []"
      using t1(2) by (auto simp: discard_rerun_plan_stash_def delete_resume_def sql_delete_def filter_empty_conv)
    with w all kept no_stash_left [OF i, of t1] show ?thesis
      by (auto simp: rerun_started_def cancel_flagged_def unflag_cancel_def status_event_def schema_key_def reopen_payload_def running_payload_def)
  qed
  ultimately show ?thesis by blast
qed

text \<open>C21. Running a completed brief again is refused by its checks without any effect, or it cannot fail: it opens the item, takes its
  plan cursors away, and starts exactly one attempt, of which the item runs; no version and no decision of the item changes, and
  the answer names the current version as the one that the next version supersedes.\<close>

theorem rerun_starts_one_attempt:
  assumes "gov_reach g" and "resumes_reach (g_resumes g)" and "i \<noteq> []"
  shows "case require_completed_brief loads i g of
      (_, Inl e) \<Rightarrow> rerun_project_brief loads i g = (g, Inl e)
    | (_, Inr (r, previous)) \<Rightarrow>
        (case reject_unexecutable_plan loads r of
           Inl e \<Rightarrow> rerun_project_brief loads i g = (g, Inl e)
         | Inr _ \<Rightarrow> (\<exists>g' w f. rerun_project_brief loads i g = (g', Inr \<lparr>ra_supersedes = previous, ra_work = w\<rparr>) \<and>
             rerun_started i g g' w \<and> fold_delivery_history (g_kernel g) i = Inr f \<and>
             previous = text_of_opt (fo_current f) ''delivery_id''))"
proof -
  have ok: "kernel_ok (g_kernel g)" using gov_reach_ok [OF assms(1)] by (simp add: gov_ok_def)
  obtain g1 x where c: "require_completed_brief loads i g = (g1, x)" by fastforce
  show ?thesis
  proof (cases x)
    case (Inl e)
    with c brief_refused show ?thesis by (auto simp: rerun_project_brief_def dbind_def)
  next
    case (Inr y)
    then obtain r previous where y: "x = Inr (r, previous)" by (cases y) auto
    note b = brief_checked [OF c [unfolded y]]
    then have g1: "g1 = g" by simp
    show ?thesis
    proof (cases "reject_unexecutable_plan loads r")
      case (Inl e)
      then show ?thesis using c y g1 by (simp add: rerun_project_brief_def dbind_def dfail_def)
    next
      case (Inr u)
      then show ?thesis using rerun_runs [OF ok resumes_reach_ok [OF assms(2)] assms(3) c [unfolded y g1]] c y b by auto
    qed
  qed
qed


section \<open>A sample brief\<close>

definition brief_loads :: "string \<Rightarrow> val option" where
  "brief_loads s = Some (VObj [(''kind'', VStr ''project_brief''), (''steps'', VList [VObj []])])"

definition finished_kernel :: kernel where
  "finished_kernel = emit_ok (emit_ok (boot current_registry 5) ''WorkItemCreated'' ''work_item'' ''w1''
       [(''title'', VStr ''t''), (''work_type'', VStr ''task''), (''executable_plan'', VStr ''p'')])
     ''WorkItemStatusChanged'' ''work_item'' ''w1'' [(''status'', VStr ''completed'')]"

lemma finished_reach: "kernel_reach current_registry finished_kernel"
  unfolding finished_kernel_def
  by (intro emit_ok_reach kernel_reach.start) (auto simp: well_routed_def event_owner_def with_seq_def create_event_def handler_table_def)

lemma finished_start: "delivery_reach ''w1'' (gov_of finished_kernel)"
proof (rule delivery_reach.start)
  show "gov_reach (gov_of finished_kernel)" by (rule gov_of_reach [OF finished_reach])
  show "versions (gov_of finished_kernel) ''w1'' = []" "decisions (gov_of finished_kernel) ''w1'' = []" by code_simp+
qed

definition finished_row :: work_row where
  "finished_row = hd (work_rows finished_kernel)"

lemma current_shown:
  assumes "fold_history k i h = Inr f" and "newest (hs_deliveries h) = Some row"
  shows "\<exists>p. fo_current f = Some p \<and> get p ''delivery_id'' = get row ''delivery_id''"
  using assms presented_fields(1) by (fastforce simp: fold_history_def Let_def)

lemma sample_brief:
  obtains g where "gov_reach g" and "g_resumes g = []" and "require_completed_brief brief_loads ''w1'' g = (g, Inr (finished_row, ''0''))"
proof -
  let ?g0 = "gov_of finished_kernel"
  note ok0 = delivery_reach_kernel [OF finished_start]
  have w0: "get_work_item (g_kernel ?g0) ''w1'' = Some finished_row" by code_simp
  have row: "w_status finished_row = VStr ''completed''" "w_plan finished_row = VStr ''p''" by code_simp+
  obtain g1 p where g1: "publish_delivery ''w1'' sample_publication ?g0 = (g1, Inr p)"
    using publish_answers [OF finished_start, of sample_publication] w0 by auto
  note r1 = delivery_reach.published [OF finished_start g1]
  have v0: "versions ?g0 ''w1'' = []" by code_simp
  have "g1 \<noteq> ?g0" using publish_answers_version [OF ok0 _ g1, of "''x1''"] delivery_reach_ok [OF finished_start] v0
    by (auto simp: sample_publication_def)
  with publish_cases [OF ok0 g1] obtain f0 body where pub: "published ?g0 ''w1'' sample_publication f0 g1 body" by auto
  obtain e where e: "versions g1 ''w1'' = [with_event e body]" using published_rows [OF pub] v0 by auto
  have body: "get body ''delivery_id'' = VStr ''0''" "k_db (g_kernel g1) = k_db (g_kernel ?g0)" "g_resumes g1 = []"
    using pub by (auto simp: published_def gov_of_def show_nat.simps [of 0] digit_char_def)
  have w1: "get_work_item (g_kernel g1) ''w1'' = Some finished_row" using w0 body(2) by (simp add: get_work_item_find)
  obtain f where f: "fold_delivery_history (g_kernel g1) ''w1'' = Inr f" using delivery_reach_folds [OF r1] by blast
  then have "fold_history (g_kernel g1) ''w1'' (item_history (g_kernel g1) ''w1'') = Inr f" using fold_reads_log [OF delivery_reach_kernel [OF r1]] by simp
  from current_shown [OF this] e obtain q where q: "fo_current f = Some q" "get q ''delivery_id'' = VStr ''0''"
    using body(1) by (auto simp: newest_def get_with_event)
  then have "has_delivery f" "text_of_opt (fo_current f) ''delivery_id'' = ''0''" by (simp_all add: has_delivery_def text_of_opt_def text_field_def py_or_def)
  moreover have "is_brief_plan brief_loads (VStr ''p'')" by code_simp
  ultimately have "require_completed_brief brief_loads ''w1'' g1 = (g1, Inr (finished_row, ''0''))"
    using w1 row f by (simp add: require_completed_brief_def dbind_def dlift_def query_work_item_def gread_def dret_def folded_now_def dask_def gask_def)
  moreover have "gov_reach g1" using delivery_reach_ok [OF r1] by blast
  ultimately show thesis using body(3) that by blast
qed

theorem rerun_starts_one_attempt_witness:
  "\<exists>g g' w. rerun_project_brief brief_loads ''w1'' g = (g', Inr \<lparr>ra_supersedes = ''0'', ra_work = w\<rparr>) \<and> rerun_started ''w1'' g g' w"
proof -
  obtain g where g: "gov_reach g" "g_resumes g = []" "require_completed_brief brief_loads ''w1'' g = (g, Inr (finished_row, ''0''))"
    by (rule sample_brief)
  have plan: "reject_unexecutable_plan brief_loads finished_row = Inr ()" by code_simp
  from rerun_starts_one_attempt [OF g(1), of "''w1''" brief_loads] g(2,3) plan resumes_reach.empty show ?thesis by auto
qed

end
